(* ===== verification/Prelude.thy ===== *)
theory Prelude
  imports Main
begin

text \<open>
  Shared vocabulary of the development: the addresses of the modelled C heap, the ways a C
  function can fail to return, and the result type every stateful function of the model uses,
  with its sequencing operator, its loop over a list, and the total-correctness predicate
  \<open>holds\<close> in which the components state what an operation establishes.
\<close>

section \<open>Pointers and faults\<close>

type_synonym addr = nat

text \<open>A C pointer: \<open>None\<close> is \<open>NULL\<close>.\<close>

type_synonym ptr = "addr option"

text \<open>
  The ways a call may not return to its caller: a dereference of \<open>NULL\<close>, an access to memory
  that has been freed, an access through a pointer of the wrong struct type or beyond an array, the \<open>exit (1)\<close> of
  \<open>log_errorint\<close>, a loop that does not end, and the exhaustion of the model's own recursion
  bound (shown never to happen).
\<close>

datatype fault = NullDeref | UseAfterFree | BadCast | OutOfBounds | InternalError | NoReturn | OutOfFuel

type_synonym 'a res = "fault + 'a"

section \<open>Sequencing\<close>

fun res_bind :: "'a res \<Rightarrow> ('a \<Rightarrow> 'b res) \<Rightarrow> 'b res" where
  "res_bind (Inl e) f = Inl e"
| "res_bind (Inr x) f = f x"

fun res_fold :: "('a \<Rightarrow> 's \<Rightarrow> 's res) \<Rightarrow> 'a list \<Rightarrow> 's \<Rightarrow> 's res" where
  "res_fold f [] s = Inr s"
| "res_fold f (x # xs) s = res_bind (f x s) (res_fold f xs)"

definition holds :: "'a res \<Rightarrow> ('a \<Rightarrow> bool) \<Rightarrow> bool" where
  "holds r Q = (case r of Inl e \<Rightarrow> False | Inr x \<Rightarrow> Q x)"

named_theorems db_rules \<open>introduction rules for holds, one per operation\<close>

lemma holds_Inl [simp]: "holds (Inl e) Q = False"
  by (simp add: holds_def)

lemma holds_Inr [simp]: "holds (Inr x) Q = Q x"
  by (simp add: holds_def)

lemma holds_bind [simp]: "holds (res_bind r f) Q = holds r (\<lambda>x. holds (f x) Q)"
  by (cases r) simp_all

lemma holds_case_Inr [simp]: "holds (case x of (v, m) \<Rightarrow> Inr (f v m)) Q = (case x of (v, m) \<Rightarrow> Q (f v m))"
  by (simp add: split_beta)

lemma holds_mono: "holds r P \<Longrightarrow> (\<And>x. P x \<Longrightarrow> Q x) \<Longrightarrow> holds r Q"
  by (cases r) simp_all

lemma holds_iff: "holds r Q \<longleftrightarrow> (\<exists>x. r = Inr x \<and> Q x)"
  by (cases r) simp_all

lemma res_bind_assoc: "res_bind (res_bind r f) g = res_bind r (\<lambda>x. res_bind (f x) g)"
  by (cases r) simp_all

lemma res_bind_eq_Inr:
  "res_bind r f = Inr y \<longleftrightarrow> (\<exists>x. r = Inr x \<and> f x = Inr y)"
  by (cases r) simp_all

lemma res_bind_cong [fundef_cong]:
  "r = r' \<Longrightarrow> (\<And>x. r' = Inr x \<Longrightarrow> f x = g x) \<Longrightarrow> res_bind r f = res_bind r' g"
  by (cases r') auto

lemma res_fold_append: "res_fold f (xs @ ys) s = res_bind (res_fold f xs s) (res_fold f ys)"
proof (induction xs arbitrary: s)
  case (Cons x xs)
  then show ?case by (cases "f x s") simp_all
qed simp

text \<open>Loop rule: an invariant of the loop state that every iteration keeps.\<close>

lemma holds_res_fold:
  assumes "I s"
    and "\<And>x s. x \<in> set xs \<Longrightarrow> I s \<Longrightarrow> holds (f x s) I"
  shows "holds (res_fold f xs s) I"
  using assms
proof (induction xs arbitrary: s)
  case Nil
  then show ?case by simp
next
  case (Cons x xs)
  have "holds (f x s) I" using Cons.prems by simp
  then show ?case
    using Cons.IH Cons.prems(2) by (auto elim!: holds_mono)
qed

section \<open>Generic facts\<close>

lemma map_le_upd_fresh: "m k = None \<Longrightarrow> m \<subseteq>\<^sub>m m(k \<mapsto> v)"
  by (simp add: map_le_def dom_def)

lemma takeWhile_stop: "\<forall>x \<in> set xs. P x \<Longrightarrow> \<not> P y \<Longrightarrow> takeWhile P (xs @ y # ys) = xs"
  by (induction xs) auto

lemma dropWhile_stop: "\<forall>x \<in> set xs. P x \<Longrightarrow> \<not> P y \<Longrightarrow> dropWhile P (xs @ y # ys) = y # ys"
  by (induction xs) auto

lemma holds_returns: "holds r Q \<Longrightarrow> \<exists>p s. r = Inr (p, s)"
  by (cases r) auto

end
