(* ===== verification/C_Strings.thy ===== *)
theory C_Strings
  imports Prelude "HOL-Library.Word"
begin

text \<open>
  The C string functions the sources use, on strings without the terminating NUL: \<open>strstr\<close> and
  \<open>strchr\<close> as the index of the first match, decimal printing, and the in-place substitution
  \<open>string_replace\<close> of \<open>src/lib/logger.c\<close> with its reference definition.
\<close>

section \<open>Searching\<close>

fun strstr :: "string \<Rightarrow> string \<Rightarrow> nat option" where
  "strstr [] needle = (if needle = [] then Some 0 else None)"
| "strstr (c # cs) needle =
     (if take (length needle) (c # cs) = needle then Some 0
      else map_option Suc (strstr cs needle))"

definition strchr :: "string \<Rightarrow> char \<Rightarrow> bool" where
  "strchr s c \<longleftrightarrow> c \<in> set s"

lemma strstr_Some_split:
  "strstr s needle = Some k \<Longrightarrow> s = take k s @ needle @ drop (k + length needle) s"
proof (induction s arbitrary: k)
  case Nil
  then show ?case by (simp split: if_splits)
next
  case (Cons c cs)
  show ?case
  proof (cases "take (length needle) (c # cs) = needle")
    case True
    with Cons.prems have "k = 0" by simp
    with True show ?thesis by (metis append_take_drop_id append_Nil add_0 take0)
  next
    case False
    with Cons.prems obtain j where "strstr cs needle = Some j" "k = Suc j" by auto
    with Cons.IH show ?thesis by auto
  qed
qed

lemma strstr_bound: "strstr s needle = Some k \<Longrightarrow> k + length needle \<le> length s"
proof -
  assume "strstr s needle = Some k"
  then have "length s = length (take k s @ needle @ drop (k + length needle) s)"
    by (metis strstr_Some_split)
  moreover from \<open>strstr s needle = Some k\<close> have "k \<le> length s"
    by (induction s arbitrary: k) (auto split: if_splits)
  ultimately show ?thesis by simp
qed

lemma strstr_single_None: "strstr s [c] = None \<longleftrightarrow> c \<notin> set s"
  by (induction s) auto

lemma strstr_single_Some: "c \<notin> set pre \<Longrightarrow> strstr (pre @ c # post) [c] = Some (length pre)"
  by (induction pre) auto

section \<open>Printing numbers\<close>

text \<open>Decimal digits, as \<open>%d\<close> prints them.\<close>

fun dec_string :: "nat \<Rightarrow> string" where
  "dec_string n =
     (if n < 10 then [char_of (48 + n)] else dec_string (n div 10) @ [char_of (48 + n mod 10)])"

declare dec_string.simps [simp del]

definition dec_int :: "int \<Rightarrow> string" where
  "dec_int i = (if i < 0 then CHR ''-'' # dec_string (nat (- i)) else dec_string (nat i))"

definition pad_right :: "nat \<Rightarrow> string \<Rightarrow> string" where
  "pad_right n s = s @ replicate (n - length s) CHR '' ''"

definition pad_left :: "nat \<Rightarrow> string \<Rightarrow> string" where
  "pad_left n s = replicate (n - length s) CHR '' '' @ s"

text \<open>The elements of a list with a separator between them.\<close>

fun join :: "string \<Rightarrow> string list \<Rightarrow> string" where
  "join sep [] = []"
| "join sep [x] = x"
| "join sep (x # xs) = x @ sep @ join sep xs"

text \<open>Reading the digits back gives the number, so different numbers print differently.\<close>

definition dec_value :: "string \<Rightarrow> nat" where
  "dec_value s = foldl (\<lambda>n c. 10 * n + (of_char c - 48)) 0 s"

lemma dec_value_dec_string: "dec_value (dec_string n) = n"
proof (induction n rule: dec_string.induct)
  case (1 n)
  show ?case
  proof (cases "n < 10")
    case True
    then show ?thesis by (simp add: dec_string.simps [of n] dec_value_def of_char_of)
  next
    case False
    with 1 show ?thesis
      by (simp add: dec_string.simps [of n] dec_value_def of_char_of)
  qed
qed

lemma dec_string_inj: "dec_string m = dec_string n \<longleftrightarrow> m = n"
  by (metis dec_value_dec_string)

section \<open>Substitution in a string\<close>

text \<open>
  One round of the loop of \<open>string_replace\<close> at position \<open>idx\<close>: erase or insert the difference in
  length, then copy the replacement over.
\<close>

definition overwrite :: "string \<Rightarrow> nat \<Rightarrow> string \<Rightarrow> string" where
  "overwrite s idx r = take idx s @ r @ drop (idx + length r) s"

definition replace_at :: "string \<Rightarrow> nat \<Rightarrow> string \<Rightarrow> string \<Rightarrow> string" where
  "replace_at s idx search replace =
     (let search_len = length search; replace_len = length replace in
      if search_len > replace_len then
        overwrite (take idx s @ drop (idx + (search_len - replace_len)) s) idx replace
      else if search_len < replace_len then
        overwrite (take idx s @ take (replace_len - search_len) replace @ drop idx s) idx replace
      else overwrite s idx replace)"

text \<open>The loop does not end for an empty search string, hence \<open>None\<close>.\<close>

partial_function (option) string_replace_loop ::
    "string \<Rightarrow> string \<Rightarrow> string \<Rightarrow> nat \<Rightarrow> 32 word \<Rightarrow> (string \<times> 32 word) option" where
  "string_replace_loop s search replace search_idx count =
     (case strstr (drop search_idx s) search of
        None \<Rightarrow> Some (s, count)
      | Some k \<Rightarrow>
          string_replace_loop (replace_at s (search_idx + k) search replace) search replace
            (search_idx + k + length replace) (count + 1))"

declare string_replace_loop.simps [code]

definition string_replace :: "string \<Rightarrow> string \<Rightarrow> string \<Rightarrow> (string \<times> 32 word) option" where
  "string_replace s search replace =
     (if length s = 0 then Some (s, 0) else string_replace_loop s search replace 0 0)"

text \<open>Reference: leftmost, non-overlapping occurrences, from left to right.\<close>

function replace_ref :: "string \<Rightarrow> string \<Rightarrow> string \<Rightarrow> string \<times> nat" where
  "replace_ref s search replace =
     (case strstr s search of
        None \<Rightarrow> (s, 0)
      | Some k \<Rightarrow>
          if search = [] then (s, 0)
          else let (t, n) = replace_ref (drop (k + length search) s) search replace
               in (take k s @ replace @ t, Suc n))"
  by pat_completeness auto
termination
proof (relation "measure (\<lambda>(s, _, _). length s)", goal_cases)
  case (2 s search replace k)
  then have "k + length search \<le> length s" by (simp add: strstr_bound)
  with 2 show ?case by (cases search) auto
qed simp

declare replace_ref.simps [simp del]

lemma replace_at_split:
  "replace_at (pre @ search @ post) (length pre) search replace = pre @ replace @ post"
proof -
  consider "length search > length replace" | "length search < length replace"
    | "length search = length replace" by linarith
  then show ?thesis
  proof cases
    case 1
    then show ?thesis by (simp add: replace_at_def overwrite_def)
  next
    case 2
    then have "length replace - (length replace - length search) = length search" by simp
    with 2 show ?thesis by (simp add: replace_at_def overwrite_def)
  qed (simp add: replace_at_def overwrite_def)
qed

lemma string_replace_loop_eq:
  assumes "search \<noteq> []"
  shows "string_replace_loop (pre @ s) search replace (length pre) count =
         Some (pre @ fst (replace_ref s search replace),
               count + of_nat (snd (replace_ref s search replace)))"
  using assms
proof (induction s search replace arbitrary: pre count rule: replace_ref.induct)
  case (1 s search replace)
  show ?case
  proof (cases "strstr s search")
    case None
    then show ?thesis
      by (simp add: string_replace_loop.simps [of "pre @ s"] replace_ref.simps [of s])
  next
    case (Some k)
    let ?post = "drop (k + length search) s" and ?pre = "pre @ take k s"
    have s: "s = take k s @ search @ ?post" using Some by (rule strstr_Some_split)
    have k: "k \<le> length s" using strstr_bound [OF Some] by simp
    have at: "replace_at (pre @ s) (length pre + k) search replace = (?pre @ replace) @ ?post"
      using replace_at_split [of ?pre search ?post replace] s k by (metis append.assoc length_append length_take min.absorb2)
    have "string_replace_loop ((?pre @ replace) @ ?post) search replace
            (length (?pre @ replace)) (count + 1) =
          Some ((?pre @ replace) @ fst (replace_ref ?post search replace),
                (count + 1) + of_nat (snd (replace_ref ?post search replace)))"
      using "1.IH" [OF Some "1.prems"] "1.prems" by blast
    moreover have "length (?pre @ replace) = length pre + k + length replace"
      using k by simp
    ultimately show ?thesis
      using Some "1.prems" at
      by (simp add: string_replace_loop.simps [of "pre @ s"] replace_ref.simps [of s] add.assoc
               split: prod.split)
  qed
qed

text \<open>An empty search string matches at every position, so the loop goes on for ever.\<close>

lemma strstr_empty: "strstr s [] = Some 0"
  by (cases s) simp_all

lemma string_replace_loop_empty: "string_replace_loop s [] r i c = None"
proof -
  have "search = [] \<longrightarrow> False" if "string_replace_loop s search r i c = Some y" for search y
    using that
  proof (rule string_replace_loop.raw_induct [of "\<lambda>s search r i c y. search = [] \<longrightarrow> False", rotated])
    fix loop s search replace i c y
    assume IH: "\<And>s search replace i c y. loop s search replace i c = Some y \<Longrightarrow> search = [] \<longrightarrow> False"
      and body: "(case strstr (drop i s) search of None \<Rightarrow> Some (s, c)
          | Some k \<Rightarrow> loop (replace_at s (i + k) search replace) search replace (i + k + length replace) (c + 1)) = Some y"
    show "search = [] \<longrightarrow> False"
      using IH body by (auto simp: strstr_empty split: option.splits)
  qed
  then show ?thesis by (cases "string_replace_loop s [] r i c") auto
qed

section \<open>Property\<close>

text \<open>C39. \<open>string_replace\<close> in full: it returns for every non-empty search string, and then the string
  is the one with all occurrences, taken from the left without overlap, replaced, and the result is
  their number modulo \<open>2 ^ 32\<close>; with an empty search string it returns for the empty string only.\<close>

theorem string_replace_correct:
  "string_replace s search r =
     (if s = [] then Some ([], 0)
      else if search = [] then None
      else Some (fst (replace_ref s search r), of_nat (snd (replace_ref s search r))))"
  using string_replace_loop_eq [of search "[]" s r 0] string_replace_loop_empty [of s r 0 0]
  by (simp add: string_replace_def)

end
