(* ===== verification/Logger.thy ===== *)
theory Logger
  imports C_Strings
begin

text \<open>
  Logging, \<open>src/lib/logger.c\<close>, \<open>src/lib/logger.h\<close> and \<open>src/lib/color.c\<close>: the colour strings,
  the log levels with their order, the level thresholds per message identifier, the 32 bit
  message counters and the output of one message. The state of the C file's static variables
  is the record \<open>logger\<close>. What is written to \<open>stderr\<close> is returned as a string.
\<close>

section \<open>Colours\<close>

record colors =
  color_red :: string
  color_green :: string
  color_yellow :: string
  color_blue :: string
  color_magenta :: string
  color_cyan :: string
  color_reset :: string
  color_bold :: string

definition CHAR_COLOR_SIZE :: nat where
  "CHAR_COLOR_SIZE = 16"

definition esc :: "string \<Rightarrow> string" where
  "esc s = CHR 0x1B # s"

definition colors_on :: "colors \<Rightarrow> colors" where
  "colors_on c =
     c\<lparr>color_red := esc ''[31m'', color_green := esc ''[32m'', color_yellow := esc ''[33m'',
       color_blue := esc ''[34m'', color_magenta := esc ''[35m'', color_cyan := esc ''[36m'',
       color_reset := esc ''[0m'', color_bold := esc ''[1m''\<rparr>"

definition colors_off :: "colors \<Rightarrow> colors" where
  "colors_off c =
     c\<lparr>color_red := '''', color_green := '''', color_yellow := '''', color_blue := '''',
       color_magenta := '''', color_cyan := '''', color_reset := '''', color_bold := ''''\<rparr>"

definition color_strings :: "colors \<Rightarrow> string list" where
  "color_strings c =
     [color_red c, color_green c, color_yellow c, color_blue c, color_magenta c, color_cyan c,
      color_reset c, color_bold c]"

section \<open>Levels\<close>

datatype log_level =
    LOGLEVEL_DEFAULT | LOGLEVEL_DEBUG | LOGLEVEL_INFO | LOGLEVEL_WARNING | LOGLEVEL_ERROR
  | LOGLEVEL_ERRORINT | LOGLEVEL_COUNT

fun level_num :: "log_level \<Rightarrow> int" where
  "level_num LOGLEVEL_DEFAULT = -1"
| "level_num LOGLEVEL_DEBUG = 0"
| "level_num LOGLEVEL_INFO = 1"
| "level_num LOGLEVEL_WARNING = 2"
| "level_num LOGLEVEL_ERROR = 3"
| "level_num LOGLEVEL_ERRORINT = 4"
| "level_num LOGLEVEL_COUNT = 5"

lemma level_num_inj: "level_num a = level_num b \<longleftrightarrow> a = b"
  by (cases a; cases b) simp_all

instantiation log_level :: linorder
begin

definition less_eq_log_level :: "log_level \<Rightarrow> log_level \<Rightarrow> bool" where
  "less_eq_log_level a b \<longleftrightarrow> level_num a \<le> level_num b"

definition less_log_level :: "log_level \<Rightarrow> log_level \<Rightarrow> bool" where
  "less_log_level a b \<longleftrightarrow> level_num a < level_num b"

instance
  by standard (auto simp: less_eq_log_level_def less_log_level_def level_num_inj)

end

definition loglevel_label :: "string list" where
  "loglevel_label = [''D'', ''I'', ''W'', ''E'', ''INTERNAL ERROR'']"

section \<open>State\<close>

record logger =
  lg_linenumbers :: bool
  lg_default_level :: log_level
  lg_property :: "(string \<rightharpoonup> log_level) option"
  lg_count_print :: "32 word list"
  lg_count_suppressed :: "32 word list"
  lg_colors :: colors

definition colors_init :: colors where
  "colors_init =
     \<lparr>color_red = '''', color_green = '''', color_yellow = '''', color_blue = '''',
      color_magenta = '''', color_cyan = '''', color_reset = '''', color_bold = ''''\<rparr>"

definition logger_init :: logger where
  "logger_init =
     \<lparr>lg_linenumbers = False, lg_default_level = LOGLEVEL_INFO, lg_property = None,
      lg_count_print = replicate 5 0, lg_count_suppressed = replicate 5 0,
      lg_colors = colors_init\<rparr>"

text \<open>\<open>return -1\<close> of a function that returns \<open>guint\<close> is the largest 32 bit value.\<close>

definition get_log_count_print :: "logger \<Rightarrow> log_level \<Rightarrow> 32 word" where
  "get_log_count_print lg log_level =
     (if level_num log_level > -1 \<and> log_level < LOGLEVEL_COUNT
      then lg_count_print lg ! nat (level_num log_level) else -1)"

definition get_log_count_suppressed :: "logger \<Rightarrow> log_level \<Rightarrow> 32 word" where
  "get_log_count_suppressed lg log_level =
     (if level_num log_level > -1 \<and> log_level < LOGLEVEL_COUNT
      then lg_count_suppressed lg ! nat (level_num log_level) else -1)"

definition set_default_log_level :: "log_level \<Rightarrow> logger \<Rightarrow> logger" where
  "set_default_log_level log_level lg = lg\<lparr>lg_default_level := log_level\<rparr>"

definition set_loglinenumbers :: "bool \<Rightarrow> logger \<Rightarrow> logger" where
  "set_loglinenumbers v lg = lg\<lparr>lg_linenumbers := v\<rparr>"

definition get_loglinenumbers :: "logger \<Rightarrow> bool" where
  "get_loglinenumbers lg = lg_linenumbers lg"

text \<open>
  The removal for \<open>LOGLEVEL_DEFAULT\<close> is not followed by a return: the entry is inserted again,
  with the level \<open>-1\<close>.
\<close>

definition log_particular_level :: "string \<Rightarrow> log_level \<Rightarrow> logger \<Rightarrow> logger" where
  "log_particular_level ident level lg =
     (let prop = (case lg_property lg of None \<Rightarrow> Map.empty | Some p \<Rightarrow> p);
          prop = (if level = LOGLEVEL_DEFAULT then prop(ident := None) else prop)
      in lg\<lparr>lg_property := Some (prop(ident \<mapsto> level))\<rparr>)"

definition log_threshold :: "logger \<Rightarrow> string \<Rightarrow> log_level" where
  "log_threshold lg ident =
     (case lg_property lg of None \<Rightarrow> lg_default_level lg
      | Some p \<Rightarrow> (case p ident of None \<Rightarrow> lg_default_level lg | Some l \<Rightarrow> l))"

definition log_suppress :: "logger \<Rightarrow> log_level \<Rightarrow> string \<Rightarrow> bool" where
  "log_suppress lg level ident \<longleftrightarrow> level < log_threshold lg ident"

section \<open>Messages\<close>

text \<open>\<open>counts[level]++\<close> with the bounds of the array.\<close>

definition bump :: "log_level \<Rightarrow> 32 word list \<Rightarrow> 32 word list res" where
  "bump level counts =
     (let i = level_num level in
      if 0 \<le> i \<and> i < int (length counts) then Inr (counts[nat i := counts ! nat i + 1])
      else Inl OutOfBounds)"

definition label_of :: "log_level \<Rightarrow> string res" where
  "label_of level =
     (let i = level_num level in
      if 0 \<le> i \<and> i < int (length loglevel_label) then Inr (loglevel_label ! nat i)
      else Inl OutOfBounds)"

definition header_color :: "colors \<Rightarrow> log_level \<Rightarrow> string" where
  "header_color c level =
     (case level of
        LOGLEVEL_DEBUG \<Rightarrow> color_bold c @ color_blue c
      | LOGLEVEL_INFO \<Rightarrow> color_bold c
      | LOGLEVEL_WARNING \<Rightarrow> color_bold c @ color_magenta c
      | LOGLEVEL_ERROR \<Rightarrow> color_bold c @ color_red c
      | LOGLEVEL_ERRORINT \<Rightarrow> color_bold c @ color_red c
      | _ \<Rightarrow> '''')"

definition newline_indent :: string where
  "newline_indent = CHR 0x0A # replicate 16 CHR '' ''"

text \<open>
  One message, its format already expanded to \<open>msg\<close>. The result is the new state with the text
  written to \<open>stderr\<close> (\<open>None\<close> for a suppressed message) and whether \<open>exit (1)\<close> follows.
\<close>

definition log_basev ::
    "log_level \<Rightarrow> string \<Rightarrow> string \<Rightarrow> int \<Rightarrow> string \<Rightarrow> logger
       \<Rightarrow> (logger \<times> string option \<times> bool) res" where
  "log_basev level ident sfile sline msg lg =
     (if log_suppress lg level ident
      then res_bind (bump level (lg_count_suppressed lg))
             (\<lambda>counts. Inr (lg\<lparr>lg_count_suppressed := counts\<rparr>, None, False))
      else
        (case string_replace msg [CHR 0x0A] newline_indent of
           None \<Rightarrow> Inl NoReturn
         | Some (log_string, _) \<Rightarrow>
             res_bind (label_of level) (\<lambda>label.
             res_bind (bump level (lg_count_print lg)) (\<lambda>counts.
             let log_formated =
                   header_color (lg_colors lg) level @ label @ '','' @ pad_right 5 ident
                     @ color_reset (lg_colors lg) @ ''     '' @ log_string;
                 out = (if lg_linenumbers lg
                        then log_formated @ '' ('' @ sfile @ '':'' @ dec_int sline @ '')'' @ [CHR 0x0A]
                        else log_formated @ [CHR 0x0A])
             in Inr (lg\<lparr>lg_count_print := counts\<rparr>, Some out, level = LOGLEVEL_ERRORINT)))))"

text \<open>
  \<open>log_dump_settings\<close> prints the label of a variable it has just set to 0 as the default level.
\<close>

definition log_dump_settings ::
    "((string \<rightharpoonup> log_level) \<Rightarrow> string list) \<Rightarrow> logger \<Rightarrow> string list res" where
  "log_dump_settings order lg =
     res_bind (label_of LOGLEVEL_DEBUG) (\<lambda>label0.
     let first = ''Default loglevel is '' @ label0 @ [CHR 0x0A] in
     case lg_property lg of None \<Rightarrow> Inr [first]
     | Some p \<Rightarrow>
         res_fold (\<lambda>k out. case p k of None \<Rightarrow> Inr out
                     | Some l \<Rightarrow> res_bind (label_of l) (\<lambda>lab.
                         Inr (out @ [''LogID: '' @ k @ '' is set to level '' @ lab @ [CHR 0x0A]])))
           (order p) [first])"

section \<open>Lemmas\<close>

definition real_level :: "log_level \<Rightarrow> bool" where
  "real_level level \<longleftrightarrow> 0 \<le> level_num level \<and> level < LOGLEVEL_COUNT"

definition logger_ok :: "logger \<Rightarrow> bool" where
  "logger_ok lg \<longleftrightarrow> length (lg_count_print lg) = 5 \<and> length (lg_count_suppressed lg) = 5"

lemma real_level_bound: "real_level level \<Longrightarrow> 0 \<le> level_num level \<and> level_num level < 5"
  by (simp add: real_level_def less_log_level_def)

lemma bump_ok: "real_level level \<Longrightarrow> length counts = 5 \<Longrightarrow>
    bump level counts = Inr (counts[nat (level_num level) := counts ! nat (level_num level) + 1])"
  using real_level_bound [of level] by (simp add: bump_def Let_def)

lemma label_of_ok: "real_level level \<Longrightarrow> \<exists>l. label_of level = Inr l"
  using real_level_bound [of level] by (simp add: label_of_def loglevel_label_def Let_def)

lemma logger_ok_init: "logger_ok logger_init"
  by (simp add: logger_ok_def logger_init_def)

lemma string_replace_newline:
  "string_replace msg [CHR 0x0A] r =
     Some (fst (replace_ref msg [CHR 0x0A] r), of_nat (snd (replace_ref msg [CHR 0x0A] r)))"
  using string_replace_loop_eq [of "[CHR 0x0A]" "[]" msg r 0]
  by (simp add: string_replace_def replace_ref.simps [of "[]"])

text \<open>A message of a real level is counted exactly once, in the counter its suppression selects.\<close>

lemma log_basev_cases:
  assumes "logger_ok lg" and "real_level level"
  shows "holds (log_basev level ident sfile sline msg lg) (\<lambda>(lg', out, ex).
     logger_ok lg' \<and>
     lg_property lg' = lg_property lg \<and> lg_default_level lg' = lg_default_level lg \<and>
     (if log_suppress lg level ident
      then out = None \<and> \<not> ex \<and> lg_count_print lg' = lg_count_print lg \<and>
           lg_count_suppressed lg' = (lg_count_suppressed lg)
             [nat (level_num level) := lg_count_suppressed lg ! nat (level_num level) + 1]
      else out \<noteq> None \<and> (ex \<longleftrightarrow> level = LOGLEVEL_ERRORINT) \<and>
           lg_count_suppressed lg' = lg_count_suppressed lg \<and>
           lg_count_print lg' = (lg_count_print lg)
             [nat (level_num level) := lg_count_print lg ! nat (level_num level) + 1]))"
proof -
  obtain l where l: "label_of level = Inr l" using label_of_ok [OF assms(2)] by blast
  show ?thesis
    using assms
    by (simp add: log_basev_def bump_ok string_replace_newline l logger_ok_def Let_def)
qed

text \<open>Setting and looking up the threshold of a message identifier.\<close>

lemma log_threshold_particular:
  "log_threshold (log_particular_level ident l lg) ident' =
     (if ident' = ident then l else log_threshold lg ident')"
  by (simp add: log_threshold_def log_particular_level_def Let_def split: option.split)

section \<open>Properties\<close>

text \<open>C40. A message of a real level is counted exactly once: in the counter of printed messages of its
  level if it reaches the threshold of its identifier, else in the counter of suppressed ones. All
  other counters and the settings stay as they are, the counters wrap at 32 bits, something is
  written exactly when the message is not suppressed, and the program exits exactly after a printed
  internal error.\<close>

theorem log_basev_counts:
  assumes "logger_ok lg" and "real_level level"
  shows "holds (log_basev level ident sfile sline msg lg) (\<lambda>(lg', out, ex).
     logger_ok lg' \<and> lg_property lg' = lg_property lg \<and> lg_default_level lg' = lg_default_level lg \<and>
     (\<forall>l. real_level l \<longrightarrow>
        get_log_count_print lg' l = get_log_count_print lg l + (if l = level \<and> out \<noteq> None then 1 else 0) \<and>
        get_log_count_suppressed lg' l =
          get_log_count_suppressed lg l + (if l = level \<and> out = None then 1 else 0)) \<and>
     (out = None \<longleftrightarrow> log_suppress lg level ident) \<and> (ex \<longleftrightarrow> out \<noteq> None \<and> level = LOGLEVEL_ERRORINT))"
proof -
  obtain lg' out ex where r: "log_basev level ident sfile sline msg lg = Inr (lg', out, ex)"
    using log_basev_cases [OF assms, of ident sfile sline msg] by (auto simp: holds_iff)
  have ok: "logger_ok lg'"
    and same: "lg_property lg' = lg_property lg" "lg_default_level lg' = lg_default_level lg"
    and c: "if log_suppress lg level ident
      then out = None \<and> \<not> ex \<and> lg_count_print lg' = lg_count_print lg \<and>
           lg_count_suppressed lg' = (lg_count_suppressed lg)
             [nat (level_num level) := lg_count_suppressed lg ! nat (level_num level) + 1]
      else out \<noteq> None \<and> (ex \<longleftrightarrow> level = LOGLEVEL_ERRORINT) \<and>
           lg_count_suppressed lg' = lg_count_suppressed lg \<and>
           lg_count_print lg' = (lg_count_print lg)
             [nat (level_num level) := lg_count_print lg ! nat (level_num level) + 1]"
    using log_basev_cases [OF assms, of ident sfile sline msg] by (simp_all add: r)
  have upd: "xs[nat (level_num level) := y] ! nat (level_num l) = (if l = level then y else xs ! nat (level_num l))"
    if "real_level l" "length xs = 5" for l y and xs :: "32 word list"
    using real_level_bound [OF that(1)] real_level_bound [OF assms(2)] that(2)
    by (auto simp: nth_list_update nat_eq_iff2 level_num_inj)
  have "\<forall>l. real_level l \<longrightarrow>
        get_log_count_print lg' l = get_log_count_print lg l + (if l = level \<and> out \<noteq> None then 1 else 0) \<and>
        get_log_count_suppressed lg' l =
          get_log_count_suppressed lg l + (if l = level \<and> out = None then 1 else 0)"
    using c assms(1) upd
    by (auto simp: get_log_count_print_def get_log_count_suppressed_def real_level_def logger_ok_def split: if_splits)
  then show ?thesis
    using ok same c by (simp add: r split: if_splits)
qed

theorem log_basev_counts_witness:
  "\<exists>lg' out. log_basev LOGLEVEL_WARNING ''Pars'' ''f.c'' 7 ''msg'' logger_init = Inr (lg', out, False) \<and>
     get_log_count_print lg' LOGLEVEL_WARNING = 1 \<and> out \<noteq> None"
proof -
  have r: "real_level LOGLEVEL_WARNING" by (simp add: real_level_def less_log_level_def)
  have "\<not> log_suppress logger_init LOGLEVEL_WARNING ''Pars''"
    by (simp add: log_suppress_def log_threshold_def logger_init_def less_log_level_def)
  moreover have "get_log_count_print logger_init LOGLEVEL_WARNING = 0"
    by (simp add: get_log_count_print_def logger_init_def less_log_level_def eval_nat_numeral)
  ultimately show ?thesis
    using log_basev_counts [OF logger_ok_init r, of "''Pars''" "''f.c''" 7 "''msg''"] r
    by (auto simp: holds_iff)
qed

text \<open>After \<open>log_particular_level (ident, level)\<close> exactly the messages of that identifier below the
  level are suppressed, other identifiers are not affected. For \<open>LOGLEVEL_DEFAULT\<close>, documented as a
  reset, this means that nothing of the identifier is suppressed any more, whatever the default
  level is.\<close>

theorem log_particular_level_effect:
  "log_suppress (log_particular_level ident l lg) level ident' =
     (if ident' = ident then level < l else log_suppress lg level ident')
   \<and> \<not> log_suppress (log_particular_level ident LOGLEVEL_DEFAULT lg) level ident"
  by (cases level) (auto simp: log_suppress_def log_threshold_particular less_log_level_def)

text \<open>Every colour string with its terminating NUL fits the buffers of 16 characters, whether
  colours are on or off, and switching off leaves no escape sequence behind.\<close>

theorem color_buffers:
  "(\<forall>s \<in> set (color_strings (colors_on c)). length s < CHAR_COLOR_SIZE \<and> hd s = CHR 0x1B \<and> last s = CHR ''m'')
   \<and> (\<forall>s \<in> set (color_strings (colors_off (colors_on c))). s = [])
   \<and> distinct (color_strings (colors_on c))"
  by (simp add: color_strings_def colors_on_def colors_off_def esc_def CHAR_COLOR_SIZE_def)

theorem color_buffers_witness:
  "\<exists>s \<in> set (color_strings (colors_on colors_init)). length s < CHAR_COLOR_SIZE"
  using color_buffers [of colors_init] by (auto simp: color_strings_def)

end
