(* ===== verification/Ig_Data.thy ===== *)
theory Ig_Data
  imports C_Strings
begin

text \<open>
  The data layer, \<open>src/lib/ig_data.h\<close> and \<open>src/lib/ig_data.c\<close>: the object structs, their
  attributes, construction, reference counting and release.

  The C structs inherit from \<open>struct ig_object\<close> by embedding it first. Here \<open>ig_struct\<close>
  extends the record \<open>ig_object\<close> by one field \<open>obj_body\<close>, a datatype with one constructor per
  struct type. The constructor plays the part of the tag \<open>obj->type\<close>, which \<open>ig_obj_init\<close> sets
  from the struct being built and nothing changes afterwards. The heap maps addresses to live
  structs; a freed address maps to \<open>None\<close> and is never handed out again, so that every access
  after a release is visible as the fault \<open>UseAfterFree\<close>. A \<open>GQueue\<close> of pointers is a list of
  addresses, a \<open>GHashTable\<close> of attributes a map, a C string a \<open>string\<close>; the string chunks
  that own the characters have no observable content and are left out, as are the log calls.
\<close>

section \<open>Object types and attributes\<close>

datatype ig_object_type =
    IG_OBJ_PORT | IG_OBJ_PIN | IG_OBJ_PARAMETER | IG_OBJ_ADJUSTMENT | IG_OBJ_DECLARATION
  | IG_OBJ_CODESECTION | IG_OBJ_MODULE | IG_OBJ_INSTANCE | IG_OBJ_REGFILE_REG
  | IG_OBJ_REGFILE_ENTRY | IG_OBJ_REGFILE | IG_OBJ_NET | IG_OBJ_GENERIC

fun ig_obj_type_name :: "ig_object_type \<Rightarrow> string" where
  "ig_obj_type_name IG_OBJ_PORT = ''port''"
| "ig_obj_type_name IG_OBJ_PIN = ''pin''"
| "ig_obj_type_name IG_OBJ_PARAMETER = ''parameter''"
| "ig_obj_type_name IG_OBJ_ADJUSTMENT = ''adjustment''"
| "ig_obj_type_name IG_OBJ_DECLARATION = ''declaration''"
| "ig_obj_type_name IG_OBJ_CODESECTION = ''codesection''"
| "ig_obj_type_name IG_OBJ_MODULE = ''module''"
| "ig_obj_type_name IG_OBJ_INSTANCE = ''instance''"
| "ig_obj_type_name IG_OBJ_REGFILE_REG = ''register''"
| "ig_obj_type_name IG_OBJ_REGFILE_ENTRY = ''regfile-entry''"
| "ig_obj_type_name IG_OBJ_REGFILE = ''regfile''"
| "ig_obj_type_name IG_OBJ_NET = ''net''"
| "ig_obj_type_name IG_OBJ_GENERIC = ''generic''"

record ig_attribute =
  attr_constant :: bool
  attr_value :: string

record ig_object =
  obj_id :: string
  obj_name :: string
  obj_refcount :: int
  obj_attributes :: "string \<rightharpoonup> ig_attribute"

definition attr_get :: "'a ig_object_scheme \<Rightarrow> string \<Rightarrow> string option" where
  "attr_get obj name = map_option attr_value (obj_attributes obj name)"

definition attr_set ::
    "'a ig_object_scheme \<Rightarrow> string \<Rightarrow> string \<Rightarrow> bool \<Rightarrow> bool \<times> 'a ig_object_scheme" where
  "attr_set obj name value constant =
     (let upd = obj\<lparr>obj_attributes := (obj_attributes obj)
                  (name \<mapsto> \<lparr>attr_constant = constant, attr_value = value\<rparr>)\<rparr>
      in case obj_attributes obj name of
           Some old_val \<Rightarrow> if attr_constant old_val then (False, obj) else (True, upd)
         | None \<Rightarrow> (True, upd))"

text \<open>\<open>g_string_append\<close> of an absent string appends nothing.\<close>

definition attr_str :: "'a ig_object_scheme \<Rightarrow> string \<Rightarrow> string" where
  "attr_str obj name = (case attr_get obj name of Some v \<Rightarrow> v | None \<Rightarrow> '''')"

section \<open>Structs\<close>

datatype ig_port_dir = IG_PD_IN | IG_PD_OUT | IG_PD_BIDIR

fun ig_port_dir_name :: "ig_port_dir \<Rightarrow> string" where
  "ig_port_dir_name IG_PD_IN = ''input''"
| "ig_port_dir_name IG_PD_OUT = ''output''"
| "ig_port_dir_name IG_PD_BIDIR = ''bidirectional''"

record ig_port =
  port_dir :: ig_port_dir
  port_parent :: ptr
  port_net :: ptr

record ig_param =
  param_value :: string
  param_local :: bool
  param_parent :: ptr
  param_generic :: ptr

record ig_decl =
  decl_parent :: ptr
  decl_net :: ptr

record ig_code =
  code_code :: string
  code_parent :: ptr

record ig_rf_reg =
  reg_parent :: ptr

record ig_rf_entry =
  entry_regs :: "addr list"
  entry_parent :: ptr

record ig_rf_regfile =
  regfile_entries :: "addr list"
  regfile_parent :: ptr

text \<open>A resource module has no declaration, code, regfile and child queues (\<open>NULL\<close>).\<close>

record ig_module =
  mod_ilm :: bool
  mod_resource :: bool
  mod_params :: "addr list"
  mod_ports :: "addr list"
  mod_decls :: "addr list option"
  mod_code :: "addr list option"
  mod_regfiles :: "addr list option"
  mod_child_instances :: "addr list option"
  mod_mod_instances :: "addr list"
  mod_default_instance :: ptr

record ig_pin =
  pin_connection :: string
  pin_parent :: ptr
  pin_net :: ptr

record ig_adjustment =
  adj_value :: string
  adj_parent :: ptr
  adj_generic :: ptr

record ig_instance =
  inst_module :: ptr
  inst_parent :: ptr
  inst_adjustments :: "addr list"
  inst_pins :: "addr list"

record ig_net =
  net_objects :: "addr list"

record ig_generic =
  generic_objects :: "addr list"

datatype ig_body =
    Port ig_port | Pin ig_pin | Param ig_param | Adjustment ig_adjustment | Decl ig_decl
  | Code ig_code | Module ig_module | Instance ig_instance | RfReg ig_rf_reg
  | RfEntry ig_rf_entry | Regfile ig_rf_regfile | Net ig_net | Generic ig_generic

record ig_struct = ig_object +
  obj_body :: ig_body

fun body_type :: "ig_body \<Rightarrow> ig_object_type" where
  "body_type (Port _) = IG_OBJ_PORT"
| "body_type (Pin _) = IG_OBJ_PIN"
| "body_type (Param _) = IG_OBJ_PARAMETER"
| "body_type (Adjustment _) = IG_OBJ_ADJUSTMENT"
| "body_type (Decl _) = IG_OBJ_DECLARATION"
| "body_type (Code _) = IG_OBJ_CODESECTION"
| "body_type (Module _) = IG_OBJ_MODULE"
| "body_type (Instance _) = IG_OBJ_INSTANCE"
| "body_type (RfReg _) = IG_OBJ_REGFILE_REG"
| "body_type (RfEntry _) = IG_OBJ_REGFILE_ENTRY"
| "body_type (Regfile _) = IG_OBJ_REGFILE"
| "body_type (Net _) = IG_OBJ_NET"
| "body_type (Generic _) = IG_OBJ_GENERIC"

definition obj_type :: "ig_struct \<Rightarrow> ig_object_type" where
  "obj_type s = body_type (obj_body s)"

fun as_port :: "ig_body \<Rightarrow> ig_port option" where
  "as_port (Port x) = Some x" | "as_port _ = None"

fun as_pin :: "ig_body \<Rightarrow> ig_pin option" where
  "as_pin (Pin x) = Some x" | "as_pin _ = None"

fun as_param :: "ig_body \<Rightarrow> ig_param option" where
  "as_param (Param x) = Some x" | "as_param _ = None"

fun as_adjustment :: "ig_body \<Rightarrow> ig_adjustment option" where
  "as_adjustment (Adjustment x) = Some x" | "as_adjustment _ = None"

fun as_decl :: "ig_body \<Rightarrow> ig_decl option" where
  "as_decl (Decl x) = Some x" | "as_decl _ = None"

fun as_code :: "ig_body \<Rightarrow> ig_code option" where
  "as_code (Code x) = Some x" | "as_code _ = None"

fun as_module :: "ig_body \<Rightarrow> ig_module option" where
  "as_module (Module x) = Some x" | "as_module _ = None"

fun as_instance :: "ig_body \<Rightarrow> ig_instance option" where
  "as_instance (Instance x) = Some x" | "as_instance _ = None"

fun as_rf_reg :: "ig_body \<Rightarrow> ig_rf_reg option" where
  "as_rf_reg (RfReg x) = Some x" | "as_rf_reg _ = None"

fun as_rf_entry :: "ig_body \<Rightarrow> ig_rf_entry option" where
  "as_rf_entry (RfEntry x) = Some x" | "as_rf_entry _ = None"

fun as_regfile :: "ig_body \<Rightarrow> ig_rf_regfile option" where
  "as_regfile (Regfile x) = Some x" | "as_regfile _ = None"

fun as_net :: "ig_body \<Rightarrow> ig_net option" where
  "as_net (Net x) = Some x" | "as_net _ = None"

fun as_generic :: "ig_body \<Rightarrow> ig_generic option" where
  "as_generic (Generic x) = Some x" | "as_generic _ = None"

section \<open>The heap\<close>

record ig_heap =
  heap :: "addr \<rightharpoonup> ig_struct"
  next_addr :: addr

definition heap_get :: "'a ig_heap_scheme \<Rightarrow> ptr \<Rightarrow> ig_struct res" where
  "heap_get h p =
     (case p of None \<Rightarrow> Inl NullDeref
      | Some a \<Rightarrow> (case heap h a of None \<Rightarrow> Inl UseAfterFree | Some s \<Rightarrow> Inr s))"

text \<open>Access through a pointer whose C type says which struct it points to.\<close>

definition fetch :: "(ig_body \<Rightarrow> 'b option) \<Rightarrow> 'a ig_heap_scheme \<Rightarrow> ptr \<Rightarrow> 'b res" where
  "fetch sel h p =
     res_bind (heap_get h p)
       (\<lambda>s. case sel (obj_body s) of None \<Rightarrow> Inl BadCast | Some x \<Rightarrow> Inr x)"

definition put :: "addr \<Rightarrow> ig_struct \<Rightarrow> 'a ig_heap_scheme \<Rightarrow> 'a ig_heap_scheme" where
  "put a s h = h\<lparr>heap := (heap h)(a \<mapsto> s)\<rparr>"

definition set_body :: "addr \<Rightarrow> ig_body \<Rightarrow> 'a ig_heap_scheme \<Rightarrow> 'a ig_heap_scheme" where
  "set_body a b h =
     h\<lparr>heap := (heap h)(a := map_option (\<lambda>s. s\<lparr>obj_body := b\<rparr>) (heap h a))\<rparr>"

definition alloc :: "ig_struct \<Rightarrow> 'a ig_heap_scheme \<Rightarrow> addr \<times> 'a ig_heap_scheme" where
  "alloc s h =
     (next_addr h, h\<lparr>heap := (heap h)(next_addr h \<mapsto> s), next_addr := Suc (next_addr h)\<rparr>)"

definition slice_free :: "addr \<Rightarrow> 'a ig_heap_scheme \<Rightarrow> 'a ig_heap_scheme" where
  "slice_free a h = h\<lparr>heap := (heap h)(a := None)\<rparr>"

definition struct_of :: "ig_object \<Rightarrow> ig_body \<Rightarrow> ig_struct" where
  "struct_of obj b =
     \<lparr>obj_id = obj_id obj, obj_name = obj_name obj, obj_refcount = obj_refcount obj,
      obj_attributes = obj_attributes obj, obj_body = b\<rparr>"

text \<open>Update of a struct reached through a typed pointer; the update itself may fail.\<close>

definition modify ::
    "(ig_body \<Rightarrow> 'b option) \<Rightarrow> ('b \<Rightarrow> ig_body) \<Rightarrow> ptr \<Rightarrow> ('b \<Rightarrow> 'b res) \<Rightarrow> 'a ig_heap_scheme
       \<Rightarrow> 'a ig_heap_scheme res" where
  "modify sel con p f h =
     res_bind (fetch sel h p) (\<lambda>x. res_bind (f x) (\<lambda>x'. Inr (set_body (the p) (con x') h)))"

text \<open>\<open>g_queue_push_tail\<close>; a queue that does not exist cannot be pushed to.\<close>

definition push_tail :: "addr \<Rightarrow> addr list \<Rightarrow> addr list" where
  "push_tail a q = q @ [a]"

definition push_tail_opt :: "addr \<Rightarrow> addr list option \<Rightarrow> addr list option res" where
  "push_tail_opt a q = (case q of None \<Rightarrow> Inl NullDeref | Some xs \<Rightarrow> Inr (Some (push_tail a xs)))"

text \<open>The checked casts \<open>IG_PORT\<close>, \<open>IG_MODULE\<close>, ...: a wrong type is an internal error.\<close>

definition ig_cast :: "ig_object_type \<Rightarrow> 'a ig_heap_scheme \<Rightarrow> ptr \<Rightarrow> ptr res" where
  "ig_cast ty h obj =
     (case obj of None \<Rightarrow> Inr None
      | Some a \<Rightarrow> res_bind (heap_get h obj)
          (\<lambda>s. if obj_type s = ty then Inr obj else Inl InternalError))"

section \<open>Objects\<close>

definition plist_id :: "'a ig_object_scheme list \<Rightarrow> string" where
  "plist_id plist = concat (map (\<lambda>ip. attr_str ip ''name'' @ ''#'') plist)"

definition make_id :: "ig_object_type \<Rightarrow> 'a ig_object_scheme list \<Rightarrow> string \<Rightarrow> string" where
  "make_id ty plist name = ig_obj_type_name ty @ ''##'' @ plist_id plist @ name"

definition ig_obj_init ::
    "ig_object_type \<Rightarrow> string \<Rightarrow> 'a ig_object_scheme list \<Rightarrow> ig_object" where
  "ig_obj_init ty name plist =
     (let s_id = make_id ty plist name;
          obj = \<lparr>obj_id = '''', obj_name = '''', obj_refcount = 0, obj_attributes = Map.empty\<rparr>;
          obj = snd (attr_set obj ''type'' (ig_obj_type_name ty) True);
          obj = snd (attr_set obj ''id'' s_id True);
          obj = snd (attr_set obj ''name'' name True);
          obj = (if plist = [] then obj
                 else snd (attr_set obj ''parent'' (obj_id (last plist)) True))
      in obj\<lparr>obj_id := attr_str obj ''id'', obj_name := attr_str obj ''name''\<rparr>)"

definition ig_obj_ref :: "ptr \<Rightarrow> 'a ig_heap_scheme \<Rightarrow> 'a ig_heap_scheme res" where
  "ig_obj_ref obj h =
     (case obj of None \<Rightarrow> Inr h
      | Some a \<Rightarrow> res_bind (heap_get h obj)
          (\<lambda>s. Inr (put a (s\<lparr>obj_refcount := obj_refcount s + 1\<rparr>) h)))"

definition ig_obj_attr_set ::
    "ptr \<Rightarrow> string option \<Rightarrow> string option \<Rightarrow> bool \<Rightarrow> 'a ig_heap_scheme
       \<Rightarrow> (bool \<times> 'a ig_heap_scheme) res" where
  "ig_obj_attr_set obj name value constant h =
     (case (obj, name, value) of
        (Some a, Some n, Some v) \<Rightarrow>
          res_bind (heap_get h obj)
            (\<lambda>s. let (ok, s') = attr_set s n v constant in Inr (ok, put a s' h))
      | _ \<Rightarrow> Inr (False, h))"

definition ig_obj_attr_get ::
    "ptr \<Rightarrow> string option \<Rightarrow> 'a ig_heap_scheme \<Rightarrow> string option res" where
  "ig_obj_attr_get obj name h =
     (case (obj, name) of
        (Some a, Some n) \<Rightarrow> res_bind (heap_get h obj) (\<lambda>s. Inr (attr_get s n))
      | _ \<Rightarrow> Inr None)"

text \<open>
  The key list of a hash table comes in an order the table chooses: \<open>keys\<close> stands for
  \<open>g_hash_table_get_keys\<close>.
\<close>

definition ig_obj_attr_get_keys ::
    "((string \<rightharpoonup> ig_attribute) \<Rightarrow> string list) \<Rightarrow> ptr \<Rightarrow> 'a ig_heap_scheme \<Rightarrow> string list res" where
  "ig_obj_attr_get_keys keys obj h =
     (case obj of None \<Rightarrow> Inr []
      | Some a \<Rightarrow> res_bind (heap_get h obj) (\<lambda>s. Inr (keys (obj_attributes s))))"

fun attr_set_pairs :: "ptr \<Rightarrow> string list \<Rightarrow> bool \<Rightarrow> 'a ig_heap_scheme
       \<Rightarrow> (bool \<times> 'a ig_heap_scheme) res" where
  "attr_set_pairs obj (name # val # li) result h =
     res_bind (ig_obj_attr_set obj (Some name) (Some val) False h)
       (\<lambda>(ok, h). attr_set_pairs obj li (result \<and> ok) h)"
| "attr_set_pairs obj _ result h = Inr (result, h)"

definition ig_obj_attr_set_from_gslist ::
    "ptr \<Rightarrow> string list \<Rightarrow> 'a ig_heap_scheme \<Rightarrow> (bool \<times> 'a ig_heap_scheme) res" where
  "ig_obj_attr_set_from_gslist obj list h =
     (case obj of None \<Rightarrow> Inr (False, h)
      | Some a \<Rightarrow> if length list mod 2 = 1 then Inr (False, h)
                  else attr_set_pairs obj list True h)"

end
