(* ===== verification/Ig_New.thy ===== *)
theory Ig_New
  imports Ig_Data
begin

text \<open>
  The constructors of \<open>src/lib/ig_data.c\<close>: \<open>ig_port_new\<close> ... \<open>ig_generic_new\<close>. Each checks
  its arguments in the order of the code, initialises the object header with the names of its
  parents, adds its own constant attributes and returns the new struct, or \<open>NULL\<close>.
\<close>

definition attr_const :: "'a ig_object_scheme \<Rightarrow> string \<Rightarrow> string \<Rightarrow> 'a ig_object_scheme" where
  "attr_const obj name value = snd (attr_set obj name value True)"

definition bool_str :: "bool \<Rightarrow> string" where
  "bool_str b = (if b then ''true'' else ''false'')"

definition new_struct ::
    "ig_object \<Rightarrow> ig_body \<Rightarrow> 'a ig_heap_scheme \<Rightarrow> (ptr \<times> 'a ig_heap_scheme) res" where
  "new_struct obj b h = (let (a, h) = alloc (struct_of obj b) h in Inr (Some a, h))"

definition ig_port_new ::
    "string option \<Rightarrow> ig_port_dir \<Rightarrow> ptr \<Rightarrow> 'a ig_heap_scheme \<Rightarrow> (ptr \<times> 'a ig_heap_scheme) res"
where
  "ig_port_new name dir parent h =
     (case name of None \<Rightarrow> Inr (None, h) | Some name \<Rightarrow>
      if parent = None then Inr (None, h) else
      res_bind (heap_get h parent) (\<lambda>p.
      let obj = ig_obj_init IG_OBJ_PORT name [p];
          obj = attr_const obj ''direction'' (ig_port_dir_name dir)
      in new_struct obj (Port \<lparr>port_dir = dir, port_parent = parent, port_net = None\<rparr>) h))"

definition ig_param_new ::
    "string option \<Rightarrow> string option \<Rightarrow> bool \<Rightarrow> ptr \<Rightarrow> 'a ig_heap_scheme
       \<Rightarrow> (ptr \<times> 'a ig_heap_scheme) res"
where
  "ig_param_new name value local parent h =
     (case name of None \<Rightarrow> Inr (None, h) | Some name \<Rightarrow>
      if parent = None then Inr (None, h) else
      case value of None \<Rightarrow> Inr (None, h) | Some value \<Rightarrow>
      res_bind (heap_get h parent) (\<lambda>p.
      let obj = ig_obj_init IG_OBJ_PARAMETER name [p];
          obj = attr_const obj ''value'' value;
          obj = attr_const obj ''local'' (bool_str local)
      in new_struct obj
           (Param \<lparr>param_value = attr_str obj ''value'', param_local = local,
                   param_parent = parent, param_generic = None\<rparr>) h))"

definition ig_decl_new ::
    "string option \<Rightarrow> ptr \<Rightarrow> 'a ig_heap_scheme \<Rightarrow> (ptr \<times> 'a ig_heap_scheme) res"
where
  "ig_decl_new name parent h =
     (case name of None \<Rightarrow> Inr (None, h) | Some name \<Rightarrow>
      if parent = None then Inr (None, h) else
      res_bind (heap_get h parent) (\<lambda>p.
      new_struct (ig_obj_init IG_OBJ_DECLARATION name [p])
        (Decl \<lparr>decl_parent = parent, decl_net = None\<rparr>) h))"

definition queue_of :: "addr list option \<Rightarrow> addr list res" where
  "queue_of q = (case q of None \<Rightarrow> Inl NullDeref | Some xs \<Rightarrow> Inr xs)"

definition ig_code_new ::
    "string option \<Rightarrow> string option \<Rightarrow> ptr \<Rightarrow> 'a ig_heap_scheme \<Rightarrow> (ptr \<times> 'a ig_heap_scheme) res"
where
  "ig_code_new name codesection parent h =
     (case codesection of None \<Rightarrow> Inr (None, h) | Some codesection \<Rightarrow>
      if parent = None then Inr (None, h) else
      res_bind (fetch as_module h parent) (\<lambda>m.
      if mod_resource m then Inr (None, h) else
      res_bind (queue_of (mod_code m)) (\<lambda>code.
      let s_name = (case name of None \<Rightarrow> ''_cs_'' @ dec_string (length code) | Some n \<Rightarrow> n)
      in res_bind (heap_get h parent) (\<lambda>p.
      let obj = ig_obj_init IG_OBJ_CODESECTION s_name [p];
          obj = attr_const obj ''code'' codesection
      in new_struct obj
           (Code \<lparr>code_code = attr_str obj ''code'', code_parent = parent\<rparr>) h))))"

definition ig_rf_reg_new ::
    "string option \<Rightarrow> ptr \<Rightarrow> 'a ig_heap_scheme \<Rightarrow> (ptr \<times> 'a ig_heap_scheme) res"
where
  "ig_rf_reg_new name parent h =
     (case name of None \<Rightarrow> Inr (None, h) | Some name \<Rightarrow>
      if parent = None then Inr (None, h) else
      res_bind (fetch as_rf_entry h parent) (\<lambda>e.
      res_bind (fetch as_regfile h (entry_parent e)) (\<lambda>r.
      res_bind (heap_get h (regfile_parent r)) (\<lambda>pm.
      res_bind (heap_get h (entry_parent e)) (\<lambda>pr.
      res_bind (heap_get h parent) (\<lambda>pe.
      new_struct (ig_obj_init IG_OBJ_REGFILE_REG name [pm, pr, pe])
        (RfReg \<lparr>reg_parent = parent\<rparr>) h))))))"

definition ig_rf_entry_new ::
    "string option \<Rightarrow> ptr \<Rightarrow> 'a ig_heap_scheme \<Rightarrow> (ptr \<times> 'a ig_heap_scheme) res"
where
  "ig_rf_entry_new name parent h =
     (case name of None \<Rightarrow> Inr (None, h) | Some name \<Rightarrow>
      if parent = None then Inr (None, h) else
      res_bind (fetch as_regfile h parent) (\<lambda>r.
      res_bind (heap_get h (regfile_parent r)) (\<lambda>pm.
      res_bind (heap_get h parent) (\<lambda>pr.
      new_struct (ig_obj_init IG_OBJ_REGFILE_ENTRY name [pm, pr])
        (RfEntry \<lparr>entry_regs = [], entry_parent = parent\<rparr>) h))))"

definition ig_rf_regfile_new ::
    "string option \<Rightarrow> ptr \<Rightarrow> 'a ig_heap_scheme \<Rightarrow> (ptr \<times> 'a ig_heap_scheme) res"
where
  "ig_rf_regfile_new name parent h =
     (case name of None \<Rightarrow> Inr (None, h) | Some name \<Rightarrow>
      if parent = None then Inr (None, h) else
      res_bind (fetch as_module h parent) (\<lambda>m.
      if mod_resource m then Inr (None, h) else
      res_bind (heap_get h parent) (\<lambda>p.
      let obj = ig_obj_init IG_OBJ_REGFILE name [p];
          obj = attr_const obj ''module'' (obj_id p)
      in new_struct obj (Regfile \<lparr>regfile_entries = [], regfile_parent = parent\<rparr>) h)))"

definition ig_pin_new ::
    "string option \<Rightarrow> string option \<Rightarrow> ptr \<Rightarrow> 'a ig_heap_scheme \<Rightarrow> (ptr \<times> 'a ig_heap_scheme) res"
where
  "ig_pin_new name connection parent h =
     (case name of None \<Rightarrow> Inr (None, h) | Some name \<Rightarrow>
      case connection of None \<Rightarrow> Inr (None, h) | Some connection \<Rightarrow>
      if parent = None then Inr (None, h) else
      res_bind (heap_get h parent) (\<lambda>p.
      let obj = ig_obj_init IG_OBJ_PIN name [p];
          obj = attr_const obj ''connection'' connection
      in new_struct obj
           (Pin \<lparr>pin_connection = attr_str obj ''connection'', pin_parent = parent,
                 pin_net = None\<rparr>) h))"

definition ig_adjustment_new ::
    "string option \<Rightarrow> string option \<Rightarrow> ptr \<Rightarrow> 'a ig_heap_scheme \<Rightarrow> (ptr \<times> 'a ig_heap_scheme) res"
where
  "ig_adjustment_new name value parent h =
     (case name of None \<Rightarrow> Inr (None, h) | Some name \<Rightarrow>
      if parent = None then Inr (None, h) else
      case value of None \<Rightarrow> Inr (None, h) | Some value \<Rightarrow>
      res_bind (heap_get h parent) (\<lambda>p.
      let obj = ig_obj_init IG_OBJ_ADJUSTMENT name [p];
          obj = attr_const obj ''value'' value
      in new_struct obj
           (Adjustment \<lparr>adj_value = attr_str obj ''value'', adj_parent = parent,
                        adj_generic = None\<rparr>) h))"

text \<open>An instance without parent is the default instance of a module being created.\<close>

definition ig_instance_new ::
    "string option \<Rightarrow> ptr \<Rightarrow> ptr \<Rightarrow> 'a ig_heap_scheme \<Rightarrow> (ptr \<times> 'a ig_heap_scheme) res"
where
  "ig_instance_new name module parent h =
     (case name of None \<Rightarrow> Inr (None, h) | Some name \<Rightarrow>
      if module = None then Inr (None, h) else
      res_bind (if parent = None then Inr (False, [])
                else res_bind (fetch as_module h parent) (\<lambda>pm.
                     res_bind (heap_get h parent) (\<lambda>p. Inr (mod_resource pm, [p]))))
      (\<lambda>(resource, plist).
      if resource then Inr (None, h) else
      res_bind (heap_get h module) (\<lambda>m.
      let obj = ig_obj_init IG_OBJ_INSTANCE name plist;
          obj = attr_const obj ''module'' (obj_id m)
      in new_struct obj
           (Instance \<lparr>inst_module = module, inst_parent = parent, inst_adjustments = [],
                      inst_pins = []\<rparr>) h)))"

definition ig_net_new ::
    "string option \<Rightarrow> 'a ig_heap_scheme \<Rightarrow> (ptr \<times> 'a ig_heap_scheme) res"
where
  "ig_net_new name h =
     (case name of None \<Rightarrow> Inr (None, h) | Some name \<Rightarrow>
      new_struct (ig_obj_init IG_OBJ_NET name ([] :: ig_object list)) (Net \<lparr>net_objects = []\<rparr>) h)"

definition ig_generic_new ::
    "string option \<Rightarrow> 'a ig_heap_scheme \<Rightarrow> (ptr \<times> 'a ig_heap_scheme) res"
where
  "ig_generic_new name h =
     (case name of None \<Rightarrow> Inr (None, h) | Some name \<Rightarrow>
      new_struct (ig_obj_init IG_OBJ_GENERIC name ([] :: ig_object list))
        (Generic \<lparr>generic_objects = []\<rparr>) h)"

text \<open>
  A module that is no resource comes with its default instance, which points back to it and
  holds the module's own reference.
\<close>

definition empty_module :: "bool \<Rightarrow> bool \<Rightarrow> ig_module" where
  "empty_module ilm resource =
     (let q = (if resource then None else Some [])
      in \<lparr>mod_ilm = ilm, mod_resource = resource, mod_params = [], mod_ports = [],
          mod_decls = q, mod_code = q, mod_regfiles = q, mod_child_instances = q,
          mod_mod_instances = [], mod_default_instance = None\<rparr>)"

definition ig_module_new ::
    "string option \<Rightarrow> bool \<Rightarrow> bool \<Rightarrow> 'a ig_heap_scheme \<Rightarrow> (ptr \<times> 'a ig_heap_scheme) res"
where
  "ig_module_new name ilm resource h =
     (case name of None \<Rightarrow> Inr (None, h) | Some nm \<Rightarrow>
      let obj = ig_obj_init IG_OBJ_MODULE nm ([] :: ig_object list);
          obj = attr_const obj ''ilm'' (bool_str ilm);
          obj = attr_const obj ''resource'' (bool_str resource);
          (m, h) = alloc (struct_of obj (Module (empty_module ilm resource))) h
      in if resource then Inr (Some m, h)
         else
           res_bind (ig_instance_new name (Some m) None h) (\<lambda>(inst, h).
           let h = set_body m (Module ((empty_module ilm resource)
                                         \<lparr>mod_default_instance := inst\<rparr>)) h
           in res_bind (ig_obj_ref inst h) (\<lambda>h. Inr (Some m, h))))"

end
