(* ===== verification/Ig_Free.thy ===== *)
theory Ig_Free
  imports Ig_New
begin

text \<open>
  Release of objects, \<open>src/lib/ig_data.c\<close>: \<open>ig_obj_unref\<close>, the dispatch of
  \<open>ig_obj_free_full\<close> and the \<open>free\<close> function of every struct type. The functions call each other
  through \<open>ig_obj_unref\<close>; the release functions take it as the argument \<open>unref\<close>, and
  \<open>unref_depth\<close> ties the knot with a bound on the nesting, which is at most that of
  module, regfile, regfile entry and register.
\<close>

type_synonym 'h unref = "ptr \<Rightarrow> 'h \<Rightarrow> 'h res"

text \<open>\<open>IG_OBJECT_CHILD_QUEUE_UNREF_AND_FREE\<close>: cut the child's back pointer, drop the reference.\<close>

definition child_queue_unref ::
    "'h unref \<Rightarrow> (addr \<Rightarrow> 'h \<Rightarrow> 'h res) \<Rightarrow> addr list option \<Rightarrow> 'h \<Rightarrow> 'h res" where
  "child_queue_unref unref detach queue h =
     (case queue of None \<Rightarrow> Inr h
      | Some q \<Rightarrow> res_fold (\<lambda>child h. res_bind (detach child h) (unref (Some child))) q h)"

definition detach_port :: "addr \<Rightarrow> addr \<Rightarrow> 'a ig_heap_scheme \<Rightarrow> 'a ig_heap_scheme res" where
  "detach_port parent c h = res_bind (fetch as_port h (Some c)) (\<lambda>x.
     Inr (if port_parent x = Some parent then set_body c (Port (x\<lparr>port_parent := None\<rparr>)) h else h))"

definition detach_param :: "addr \<Rightarrow> addr \<Rightarrow> 'a ig_heap_scheme \<Rightarrow> 'a ig_heap_scheme res" where
  "detach_param parent c h = res_bind (fetch as_param h (Some c)) (\<lambda>x.
     Inr (if param_parent x = Some parent then set_body c (Param (x\<lparr>param_parent := None\<rparr>)) h else h))"

definition detach_decl :: "addr \<Rightarrow> addr \<Rightarrow> 'a ig_heap_scheme \<Rightarrow> 'a ig_heap_scheme res" where
  "detach_decl parent c h = res_bind (fetch as_decl h (Some c)) (\<lambda>x.
     Inr (if decl_parent x = Some parent then set_body c (Decl (x\<lparr>decl_parent := None\<rparr>)) h else h))"

definition detach_code :: "addr \<Rightarrow> addr \<Rightarrow> 'a ig_heap_scheme \<Rightarrow> 'a ig_heap_scheme res" where
  "detach_code parent c h = res_bind (fetch as_code h (Some c)) (\<lambda>x.
     Inr (if code_parent x = Some parent then set_body c (Code (x\<lparr>code_parent := None\<rparr>)) h else h))"

definition detach_regfile :: "addr \<Rightarrow> addr \<Rightarrow> 'a ig_heap_scheme \<Rightarrow> 'a ig_heap_scheme res" where
  "detach_regfile parent c h = res_bind (fetch as_regfile h (Some c)) (\<lambda>x.
     Inr (if regfile_parent x = Some parent
          then set_body c (Regfile (x\<lparr>regfile_parent := None\<rparr>)) h else h))"

definition detach_entry :: "addr \<Rightarrow> addr \<Rightarrow> 'a ig_heap_scheme \<Rightarrow> 'a ig_heap_scheme res" where
  "detach_entry parent c h = res_bind (fetch as_rf_entry h (Some c)) (\<lambda>x.
     Inr (if entry_parent x = Some parent
          then set_body c (RfEntry (x\<lparr>entry_parent := None\<rparr>)) h else h))"

definition detach_reg :: "addr \<Rightarrow> addr \<Rightarrow> 'a ig_heap_scheme \<Rightarrow> 'a ig_heap_scheme res" where
  "detach_reg parent c h = res_bind (fetch as_rf_reg h (Some c)) (\<lambda>x.
     Inr (if reg_parent x = Some parent then set_body c (RfReg (x\<lparr>reg_parent := None\<rparr>)) h else h))"

definition detach_pin :: "addr \<Rightarrow> addr \<Rightarrow> 'a ig_heap_scheme \<Rightarrow> 'a ig_heap_scheme res" where
  "detach_pin parent c h = res_bind (fetch as_pin h (Some c)) (\<lambda>x.
     Inr (if pin_parent x = Some parent then set_body c (Pin (x\<lparr>pin_parent := None\<rparr>)) h else h))"

definition detach_adjustment :: "addr \<Rightarrow> addr \<Rightarrow> 'a ig_heap_scheme \<Rightarrow> 'a ig_heap_scheme res" where
  "detach_adjustment parent c h = res_bind (fetch as_adjustment h (Some c)) (\<lambda>x.
     Inr (if adj_parent x = Some parent
          then set_body c (Adjustment (x\<lparr>adj_parent := None\<rparr>)) h else h))"

definition detach_mod_instance :: "addr \<Rightarrow> addr \<Rightarrow> 'a ig_heap_scheme \<Rightarrow> 'a ig_heap_scheme res" where
  "detach_mod_instance parent c h = res_bind (fetch as_instance h (Some c)) (\<lambda>x.
     Inr (if inst_module x = Some parent
          then set_body c (Instance (x\<lparr>inst_module := None\<rparr>)) h else h))"

definition detach_child_instance :: "addr \<Rightarrow> addr \<Rightarrow> 'a ig_heap_scheme \<Rightarrow> 'a ig_heap_scheme res" where
  "detach_child_instance parent c h = res_bind (fetch as_instance h (Some c)) (\<lambda>x.
     Inr (if inst_parent x = Some parent
          then set_body c (Instance (x\<lparr>inst_parent := None\<rparr>)) h else h))"

text \<open>The net and generic pointers of a member are cut when they still point to the owner.\<close>

definition detach_net :: "addr \<Rightarrow> addr \<Rightarrow> 'a ig_heap_scheme \<Rightarrow> 'a ig_heap_scheme res" where
  "detach_net net c h = res_bind (heap_get h (Some c)) (\<lambda>s.
     case obj_body s of
       Port x \<Rightarrow> Inr (if port_net x = Some net then set_body c (Port (x\<lparr>port_net := None\<rparr>)) h else h)
     | Pin x \<Rightarrow> Inr (if pin_net x = Some net then set_body c (Pin (x\<lparr>pin_net := None\<rparr>)) h else h)
     | Decl x \<Rightarrow> Inr (if decl_net x = Some net then set_body c (Decl (x\<lparr>decl_net := None\<rparr>)) h else h)
     | _ \<Rightarrow> Inl InternalError)"

definition detach_generic :: "addr \<Rightarrow> addr \<Rightarrow> 'a ig_heap_scheme \<Rightarrow> 'a ig_heap_scheme res" where
  "detach_generic gen c h = res_bind (heap_get h (Some c)) (\<lambda>s.
     case obj_body s of
       Param x \<Rightarrow> Inr (if param_generic x = Some gen
                        then set_body c (Param (x\<lparr>param_generic := None\<rparr>)) h else h)
     | Adjustment x \<Rightarrow> Inr (if adj_generic x = Some gen
                        then set_body c (Adjustment (x\<lparr>adj_generic := None\<rparr>)) h else h)
     | _ \<Rightarrow> Inl InternalError)"

text \<open>\<open>ig_obj_free\<close> destroys the attribute table; the caller frees the struct afterwards.\<close>

definition ig_obj_free :: "addr \<Rightarrow> 'a ig_heap_scheme \<Rightarrow> 'a ig_heap_scheme res" where
  "ig_obj_free a h = res_bind (heap_get h (Some a))
     (\<lambda>s. Inr (put a (s\<lparr>obj_attributes := Map.empty\<rparr>) h))"

text \<open>\<open>ig_port_free\<close> and the other structs without children.\<close>

definition ig_leaf_free :: "ptr \<Rightarrow> 'a ig_heap_scheme \<Rightarrow> 'a ig_heap_scheme res" where
  "ig_leaf_free obj h =
     (case obj of None \<Rightarrow> Inr h
      | Some a \<Rightarrow> res_bind (ig_obj_free a h) (\<lambda>h. Inr (slice_free a h)))"

definition ig_port_free :: "ptr \<Rightarrow> 'a ig_heap_scheme \<Rightarrow> 'a ig_heap_scheme res" where
  "ig_port_free = ig_leaf_free"

definition ig_pin_free :: "ptr \<Rightarrow> 'a ig_heap_scheme \<Rightarrow> 'a ig_heap_scheme res" where
  "ig_pin_free = ig_leaf_free"

definition ig_param_free :: "ptr \<Rightarrow> 'a ig_heap_scheme \<Rightarrow> 'a ig_heap_scheme res" where
  "ig_param_free = ig_leaf_free"

definition ig_adjustment_free :: "ptr \<Rightarrow> 'a ig_heap_scheme \<Rightarrow> 'a ig_heap_scheme res" where
  "ig_adjustment_free = ig_leaf_free"

definition ig_decl_free :: "ptr \<Rightarrow> 'a ig_heap_scheme \<Rightarrow> 'a ig_heap_scheme res" where
  "ig_decl_free = ig_leaf_free"

definition ig_code_free :: "ptr \<Rightarrow> 'a ig_heap_scheme \<Rightarrow> 'a ig_heap_scheme res" where
  "ig_code_free = ig_leaf_free"

definition ig_rf_reg_free :: "ptr \<Rightarrow> 'a ig_heap_scheme \<Rightarrow> 'a ig_heap_scheme res" where
  "ig_rf_reg_free = ig_leaf_free"

lemmas leaf_frees [simp] =
  ig_port_free_def ig_pin_free_def ig_param_free_def ig_adjustment_free_def
  ig_decl_free_def ig_code_free_def ig_rf_reg_free_def

definition ig_rf_entry_free ::
    "'a ig_heap_scheme unref \<Rightarrow> ptr \<Rightarrow> 'a ig_heap_scheme \<Rightarrow> 'a ig_heap_scheme res" where
  "ig_rf_entry_free unref entry h =
     (case entry of None \<Rightarrow> Inr h | Some a \<Rightarrow>
      res_bind (fetch as_rf_entry h entry) (\<lambda>e.
      res_bind (ig_obj_free a h) (\<lambda>h.
      res_bind (child_queue_unref unref (detach_reg a) (Some (entry_regs e)) h) (\<lambda>h.
      Inr (slice_free a h)))))"

definition ig_rf_regfile_free ::
    "'a ig_heap_scheme unref \<Rightarrow> ptr \<Rightarrow> 'a ig_heap_scheme \<Rightarrow> 'a ig_heap_scheme res" where
  "ig_rf_regfile_free unref regfile h =
     (case regfile of None \<Rightarrow> Inr h | Some a \<Rightarrow>
      res_bind (fetch as_regfile h regfile) (\<lambda>r.
      res_bind (ig_obj_free a h) (\<lambda>h.
      res_bind (child_queue_unref unref (detach_entry a) (Some (regfile_entries r)) h) (\<lambda>h.
      Inr (slice_free a h)))))"

definition ig_instance_free ::
    "'a ig_heap_scheme unref \<Rightarrow> ptr \<Rightarrow> 'a ig_heap_scheme \<Rightarrow> 'a ig_heap_scheme res" where
  "ig_instance_free unref instance h =
     (case instance of None \<Rightarrow> Inr h | Some a \<Rightarrow>
      res_bind (fetch as_instance h instance) (\<lambda>i.
      res_bind (ig_obj_free a h) (\<lambda>h.
      res_bind (child_queue_unref unref (detach_adjustment a) (Some (inst_adjustments i)) h) (\<lambda>h.
      res_bind (child_queue_unref unref (detach_pin a) (Some (inst_pins i)) h) (\<lambda>h.
      Inr (slice_free a h))))))"

text \<open>
  The guard on the default instance reads \<open>default_instance->parent\<close>, and what it guards is an
  assignment that changes nothing; the read must still be of a live instance.
\<close>

definition ig_module_free ::
    "'a ig_heap_scheme unref \<Rightarrow> ptr \<Rightarrow> 'a ig_heap_scheme \<Rightarrow> 'a ig_heap_scheme res" where
  "ig_module_free unref module h =
     (case module of None \<Rightarrow> Inr h | Some a \<Rightarrow>
      res_bind (fetch as_module h module) (\<lambda>m.
      res_bind (if \<not> mod_resource m \<and> mod_default_instance m \<noteq> None
                then res_bind (fetch as_instance h (mod_default_instance m)) (\<lambda>_. Inr h)
                else Inr h) (\<lambda>h.
      res_bind (ig_obj_free a h) (\<lambda>h.
      res_bind (child_queue_unref unref (detach_param a) (Some (mod_params m)) h) (\<lambda>h.
      res_bind (child_queue_unref unref (detach_port a) (Some (mod_ports m)) h) (\<lambda>h.
      res_bind (child_queue_unref unref (detach_mod_instance a) (Some (mod_mod_instances m)) h) (\<lambda>h.
      res_bind (child_queue_unref unref (detach_decl a) (mod_decls m) h) (\<lambda>h.
      res_bind (child_queue_unref unref (detach_code a) (mod_code m) h) (\<lambda>h.
      res_bind (child_queue_unref unref (detach_child_instance a) (mod_child_instances m) h) (\<lambda>h.
      res_bind (child_queue_unref unref (detach_regfile a) (mod_regfiles m) h) (\<lambda>h.
      Inr (slice_free a h))))))))))))"

definition ig_net_free ::
    "'a ig_heap_scheme unref \<Rightarrow> ptr \<Rightarrow> 'a ig_heap_scheme \<Rightarrow> 'a ig_heap_scheme res" where
  "ig_net_free unref net h =
     (case net of None \<Rightarrow> Inr h | Some a \<Rightarrow>
      res_bind (fetch as_net h net) (\<lambda>n.
      res_bind (ig_obj_free a h) (\<lambda>h.
      res_bind (child_queue_unref unref (detach_net a) (Some (net_objects n)) h) (\<lambda>h.
      Inr (slice_free a h)))))"

definition ig_generic_free ::
    "'a ig_heap_scheme unref \<Rightarrow> ptr \<Rightarrow> 'a ig_heap_scheme \<Rightarrow> 'a ig_heap_scheme res" where
  "ig_generic_free unref generic h =
     (case generic of None \<Rightarrow> Inr h | Some a \<Rightarrow>
      res_bind (fetch as_generic h generic) (\<lambda>g.
      res_bind (ig_obj_free a h) (\<lambda>h.
      res_bind (child_queue_unref unref (detach_generic a) (Some (generic_objects g)) h) (\<lambda>h.
      Inr (slice_free a h)))))"

definition ig_obj_free_full ::
    "'a ig_heap_scheme unref \<Rightarrow> ptr \<Rightarrow> 'a ig_heap_scheme \<Rightarrow> 'a ig_heap_scheme res" where
  "ig_obj_free_full unref obj h =
     (if obj = None then Inr h else
      res_bind (heap_get h obj) (\<lambda>s.
      case obj_type s of
        IG_OBJ_PORT \<Rightarrow> ig_port_free obj h
      | IG_OBJ_PIN \<Rightarrow> ig_pin_free obj h
      | IG_OBJ_PARAMETER \<Rightarrow> ig_param_free obj h
      | IG_OBJ_ADJUSTMENT \<Rightarrow> ig_adjustment_free obj h
      | IG_OBJ_DECLARATION \<Rightarrow> ig_decl_free obj h
      | IG_OBJ_CODESECTION \<Rightarrow> ig_code_free obj h
      | IG_OBJ_MODULE \<Rightarrow> ig_module_free unref obj h
      | IG_OBJ_INSTANCE \<Rightarrow> ig_instance_free unref obj h
      | IG_OBJ_REGFILE_REG \<Rightarrow> ig_rf_reg_free obj h
      | IG_OBJ_REGFILE_ENTRY \<Rightarrow> ig_rf_entry_free unref obj h
      | IG_OBJ_REGFILE \<Rightarrow> ig_rf_regfile_free unref obj h
      | IG_OBJ_NET \<Rightarrow> ig_net_free unref obj h
      | IG_OBJ_GENERIC \<Rightarrow> ig_generic_free unref obj h))"

primrec unref_depth :: "nat \<Rightarrow> 'a ig_heap_scheme unref" where
  "unref_depth 0 obj h = Inl OutOfFuel"
| "unref_depth (Suc n) obj h =
     (case obj of None \<Rightarrow> Inr h
      | Some a \<Rightarrow> res_bind (heap_get h obj) (\<lambda>s.
          let s' = s\<lparr>obj_refcount := obj_refcount s - 1\<rparr>; h' = put a s' h
          in if obj_refcount s' \<le> 0 then ig_obj_free_full (unref_depth n) obj h' else Inr h'))"

definition ig_obj_unref :: "'a ig_heap_scheme unref" where
  "ig_obj_unref = unref_depth 4"

end
