(* ===== verification/Ig_Db.thy ===== *)
theory Ig_Db
  imports Ig_Free
begin

text \<open>
  The database, \<open>struct ig_lib_db\<close> of \<open>src/lib/ig_lib.h\<close>, with its eleven hash tables, and the
  operations of \<open>src/lib/ig_lib.c\<close> that create and register objects. The tables are indexed by
  \<open>ig_table\<close>, one constructor per \<open>GHashTable\<close> field; every table is created with
  \<open>ig_obj_unref\<close> as its value destructor, so an insertion that replaces a value drops the
  reference to the old one. The heap of the data layer is part of the database state.
\<close>

section \<open>Tables\<close>

datatype ig_table =
    Objects_by_id | Modules_by_name | Modules_by_id | Instances_by_name | Instances_by_id
  | Regfiles_by_name | Regfiles_by_id | Nets_by_name | Nets_by_id | Generics_by_name
  | Generics_by_id

record ig_lib_db = ig_heap +
  tables :: "ig_table \<Rightarrow> string \<rightharpoonup> addr"

definition ig_lib_db_new :: "ig_lib_db" where
  "ig_lib_db_new = \<lparr>heap = Map.empty, next_addr = 0, tables = (\<lambda>_. Map.empty)\<rparr>"

definition set_table :: "ig_table \<Rightarrow> (string \<rightharpoonup> addr) \<Rightarrow> ig_lib_db \<Rightarrow> ig_lib_db" where
  "set_table t m db = db\<lparr>tables := (tables db)(t := m)\<rparr>"

definition table_contains :: "ig_lib_db \<Rightarrow> ig_table \<Rightarrow> string \<Rightarrow> bool" where
  "table_contains db t key \<longleftrightarrow> tables db t key \<noteq> None"

definition table_insert :: "ig_table \<Rightarrow> string \<Rightarrow> addr \<Rightarrow> ig_lib_db \<Rightarrow> ig_lib_db res" where
  "table_insert t key a db =
     (let old = tables db t key; db' = set_table t ((tables db t)(key \<mapsto> a)) db
      in case old of None \<Rightarrow> Inr db' | Some _ \<Rightarrow> ig_obj_unref old db')"

text \<open>
  \<open>g_hash_table_remove_all\<close>: the table is emptied, then the destructor runs on the old values in
  an order the hash table chooses, which is the argument \<open>order\<close>.
\<close>

definition table_remove_all ::
    "((string \<rightharpoonup> addr) \<Rightarrow> string list) \<Rightarrow> ig_table \<Rightarrow> ig_lib_db \<Rightarrow> ig_lib_db res" where
  "table_remove_all order t db =
     (let m = tables db t
      in res_fold (\<lambda>k db. ig_obj_unref (m k) db) (order m) (set_table t Map.empty db))"

definition clear_sequence :: "ig_table list" where
  "clear_sequence =
     [Modules_by_id, Modules_by_name, Instances_by_id, Instances_by_name, Regfiles_by_id,
      Regfiles_by_name, Nets_by_id, Nets_by_name, Generics_by_id, Generics_by_name, Objects_by_id]"

definition ig_lib_db_clear ::
    "((string \<rightharpoonup> addr) \<Rightarrow> string list) \<Rightarrow> ig_lib_db \<Rightarrow> ig_lib_db res" where
  "ig_lib_db_clear order db = res_fold (table_remove_all order) clear_sequence db"

text \<open>\<open>ig_lib_db_free\<close> destroys the same tables in the same order; what is left is leaked.\<close>

definition ig_lib_db_free ::
    "((string \<rightharpoonup> addr) \<Rightarrow> string list) \<Rightarrow> ig_lib_db option \<Rightarrow> ig_lib_db option res" where
  "ig_lib_db_free order db =
     (case db of None \<Rightarrow> Inr None
      | Some db \<Rightarrow> res_bind (res_fold (table_remove_all order) clear_sequence db) (\<lambda>db. Inr (Some db)))"

section \<open>Adding objects\<close>

text \<open>Registration of one object under its name and its id, followed by the three references.\<close>

definition register3 ::
    "ig_table \<Rightarrow> ig_table \<Rightarrow> addr \<Rightarrow> string \<Rightarrow> string \<Rightarrow> ig_lib_db \<Rightarrow> ig_lib_db res" where
  "register3 by_name by_id a l_name l_id db =
     res_bind (table_insert by_name l_name a db) (\<lambda>db.
     res_bind (table_insert by_id l_id a db) (\<lambda>db.
     res_bind (table_insert Objects_by_id l_id a db) (\<lambda>db.
     res_bind (ig_obj_ref (Some a) db) (\<lambda>db.
     res_bind (ig_obj_ref (Some a) db) (\<lambda>db.
     ig_obj_ref (Some a) db)))))"

definition ig_lib_add_module ::
    "string option \<Rightarrow> bool \<Rightarrow> bool \<Rightarrow> ig_lib_db \<Rightarrow> (ptr \<times> ig_lib_db) res" where
  "ig_lib_add_module name ilm resource db =
     (case name of None \<Rightarrow> Inr (None, db) | Some nm \<Rightarrow>
      if table_contains db Modules_by_name nm then Inr (None, db) else
      res_bind (ig_module_new name ilm resource db) (\<lambda>(modul, db).
      res_bind (heap_get db modul) (\<lambda>s.
      if table_contains db Objects_by_id (obj_id s)
      then Inl InternalError
      else res_bind (register3 Modules_by_name Modules_by_id (the modul) (obj_name s) (obj_id s) db)
             (\<lambda>db. Inr (modul, db)))))"

definition ig_lib_add_port ::
    "ptr \<Rightarrow> ig_port_dir \<Rightarrow> string option \<Rightarrow> ig_lib_db \<Rightarrow> (ptr \<times> ig_lib_db) res" where
  "ig_lib_add_port modul dir port_name db =
     res_bind (ig_port_new port_name dir modul db) (\<lambda>(mod_port, db).
     res_bind (heap_get db mod_port) (\<lambda>s.
     if table_contains db Objects_by_id (obj_id s)
     then res_bind (ig_port_free mod_port db) (\<lambda>db. Inr (None, db))
     else
       res_bind (modify as_module Module modul
                   (\<lambda>m. Inr (m\<lparr>mod_ports := push_tail (the mod_port) (mod_ports m)\<rparr>)) db) (\<lambda>db.
       res_bind (ig_obj_ref mod_port db) (\<lambda>db.
       res_bind (table_insert Objects_by_id (obj_id s) (the mod_port) db) (\<lambda>db.
       res_bind (ig_obj_ref mod_port db) (\<lambda>db. Inr (mod_port, db)))))))"

definition ig_lib_add_pin ::
    "ptr \<Rightarrow> string option \<Rightarrow> string option \<Rightarrow> string option \<Rightarrow> ig_lib_db \<Rightarrow> (ptr \<times> ig_lib_db) res"
where
  "ig_lib_add_pin inst pin_name conn_name invert_attr db =
     res_bind (ig_pin_new pin_name conn_name inst db) (\<lambda>(inst_pin, db).
     res_bind (ig_obj_attr_set inst_pin (Some ''invert'') invert_attr False db) (\<lambda>(_, db).
     res_bind (heap_get db inst_pin) (\<lambda>s.
     if table_contains db Objects_by_id (obj_id s)
     then res_bind (ig_pin_free inst_pin db) (\<lambda>db. Inr (None, db))
     else
       res_bind (table_insert Objects_by_id (obj_id s) (the inst_pin) db) (\<lambda>db.
       res_bind (ig_obj_ref inst_pin db) (\<lambda>db.
       res_bind (modify as_instance Instance inst
                   (\<lambda>i. Inr (i\<lparr>inst_pins := push_tail (the inst_pin) (inst_pins i)\<rparr>)) db) (\<lambda>db.
       res_bind (ig_obj_ref inst_pin db) (\<lambda>db. Inr (inst_pin, db))))))))"

definition ig_lib_add_codesection ::
    "string option \<Rightarrow> string option \<Rightarrow> ptr \<Rightarrow> ig_lib_db \<Rightarrow> (ptr \<times> ig_lib_db) res" where
  "ig_lib_add_codesection name code parent db =
     (if code = None \<or> parent = None then Inr (None, db) else
      res_bind (ig_code_new name code parent db) (\<lambda>(cs, db).
      if cs = None then Inr (None, db) else
      res_bind (heap_get db cs) (\<lambda>s.
      res_bind (modify as_module Module parent
                  (\<lambda>m. res_bind (push_tail_opt (the cs) (mod_code m))
                         (\<lambda>q. Inr (m\<lparr>mod_code := q\<rparr>))) db) (\<lambda>db.
      res_bind (ig_obj_ref cs db) (\<lambda>db.
      res_bind (table_insert Objects_by_id (obj_id s) (the cs) db) (\<lambda>db.
      res_bind (ig_obj_ref cs db) (\<lambda>db. Inr (cs, db))))))))"

definition ig_lib_add_regfile ::
    "string option \<Rightarrow> ptr \<Rightarrow> ig_lib_db \<Rightarrow> (ptr \<times> ig_lib_db) res" where
  "ig_lib_add_regfile name parent db =
     (case name of None \<Rightarrow> Inr (None, db) | Some nm \<Rightarrow>
      if parent = None then Inr (None, db) else
      if table_contains db Regfiles_by_name nm then Inr (None, db) else
      res_bind (ig_rf_regfile_new name parent db) (\<lambda>(rf, db).
      if rf = None then Inr (None, db) else
      res_bind (heap_get db rf) (\<lambda>s.
      if table_contains db Objects_by_id (obj_id s)
      then Inl InternalError
      else
        res_bind (modify as_module Module parent
                    (\<lambda>m. res_bind (push_tail_opt (the rf) (mod_regfiles m))
                           (\<lambda>q. Inr (m\<lparr>mod_regfiles := q\<rparr>))) db) (\<lambda>db.
        res_bind (ig_obj_ref rf db) (\<lambda>db.
        res_bind (register3 Regfiles_by_name Regfiles_by_id (the rf) (obj_name s) (obj_id s) db)
          (\<lambda>db. Inr (rf, db)))))))"

definition ig_lib_add_regfile_entry ::
    "string option \<Rightarrow> ptr \<Rightarrow> ig_lib_db \<Rightarrow> (ptr \<times> ig_lib_db) res" where
  "ig_lib_add_regfile_entry name parent db =
     (if name = None \<or> parent = None then Inr (None, db) else
      res_bind (ig_rf_entry_new name parent db) (\<lambda>(entry, db).
      if entry = None then Inr (None, db) else
      res_bind (heap_get db entry) (\<lambda>s.
      if table_contains db Objects_by_id (obj_id s)
      then res_bind (ig_rf_entry_free ig_obj_unref entry db) (\<lambda>db. Inr (None, db))
      else
        res_bind (modify as_regfile Regfile parent
                    (\<lambda>r. Inr (r\<lparr>regfile_entries := push_tail (the entry) (regfile_entries r)\<rparr>)) db)
          (\<lambda>db.
        res_bind (ig_obj_ref entry db) (\<lambda>db.
        res_bind (table_insert Objects_by_id (obj_id s) (the entry) db) (\<lambda>db.
        res_bind (ig_obj_ref entry db) (\<lambda>db. Inr (entry, db))))))))"

definition ig_lib_add_regfile_reg ::
    "string option \<Rightarrow> ptr \<Rightarrow> ig_lib_db \<Rightarrow> (ptr \<times> ig_lib_db) res" where
  "ig_lib_add_regfile_reg name parent db =
     (if name = None \<or> parent = None then Inr (None, db) else
      res_bind (ig_rf_reg_new name parent db) (\<lambda>(reg, db).
      if reg = None then Inr (None, db) else
      res_bind (heap_get db reg) (\<lambda>s.
      if table_contains db Objects_by_id (obj_id s)
      then res_bind (ig_rf_reg_free reg db) (\<lambda>db. Inr (None, db))
      else
        res_bind (modify as_rf_entry RfEntry parent
                    (\<lambda>e. Inr (e\<lparr>entry_regs := push_tail (the reg) (entry_regs e)\<rparr>)) db) (\<lambda>db.
        res_bind (ig_obj_ref reg db) (\<lambda>db.
        res_bind (table_insert Objects_by_id (obj_id s) (the reg) db) (\<lambda>db.
        res_bind (ig_obj_ref reg db) (\<lambda>db. Inr (reg, db))))))))"

end
