(* ===== verification/Ig_Hierarchy.thy ===== *)
theory Ig_Hierarchy
  imports Ig_Db
begin

text \<open>
  Hierarchy walks of \<open>src/lib/ig_lib.c\<close>: the temporary \<open>ig_lib_connection_info\<close>, the walk
  \<open>ig_lib_gen_hierarchy\<close> from an instance or module up to the root of its hierarchy, the cycle
  check, and \<open>ig_lib_add_instance\<close>. Connection infos are values here: every info belongs to one
  list and is only read once the list is complete.
\<close>

section \<open>Connection infos\<close>

datatype ig_lib_connection_dir = IG_LCDIR_UP | IG_LCDIR_DOWN | IG_LCDIR_BIDIR | IG_LCDIR_DEFAULT

record ig_lib_connection_info =
  ci_obj :: addr
  ci_parent_name :: "string option"
  ci_local_name :: "string option"
  ci_is_explicit :: bool
  ci_force_name :: bool
  ci_dir :: ig_lib_connection_dir
  ci_invert :: bool

definition ig_lib_connection_info_new ::
    "ptr \<Rightarrow> string option \<Rightarrow> ig_lib_connection_dir \<Rightarrow> ig_lib_connection_info option" where
  "ig_lib_connection_info_new obj local_name dir =
     (case obj of None \<Rightarrow> None
      | Some a \<Rightarrow> Some \<lparr>ci_obj = a, ci_parent_name = None, ci_local_name = local_name,
                       ci_is_explicit = False, ci_force_name = False, ci_dir = dir,
                       ci_invert = False\<rparr>)"

definition ig_lib_connection_info_copy ::
    "ig_lib_connection_info option \<Rightarrow> ig_lib_connection_info option" where
  "ig_lib_connection_info_copy original =
     (case original of None \<Rightarrow> None
      | Some c \<Rightarrow> Some \<lparr>ci_obj = ci_obj c, ci_parent_name = ci_parent_name c,
                       ci_local_name = ci_local_name c, ci_is_explicit = ci_is_explicit c,
                       ci_force_name = ci_force_name c, ci_dir = ci_dir c,
                       ci_invert = ci_invert c\<rparr>)"

section \<open>Walking up\<close>

text \<open>
  The \<open>while (true)\<close> loop. Its state is the current info, the two flags and the list built so
  far; \<open>None\<close> is a loop that does not end.
\<close>

partial_function (option) gen_hierarchy_loop ::
    "'a ig_heap_scheme \<Rightarrow> bool \<Rightarrow> bool \<Rightarrow> ig_lib_connection_info option
       \<Rightarrow> ig_lib_connection_info list \<Rightarrow> ig_lib_connection_info list res option" where
  "gen_hierarchy_loop h copy_first explicit_next cinfo result =
     (case cinfo of None \<Rightarrow> Some (Inr result) | Some c \<Rightarrow>
     (case heap_get h (Some (ci_obj c)) of Inl e \<Rightarrow> Some (Inl e) | Inr s \<Rightarrow>
     (case (as_instance (obj_body s), as_module (obj_body s)) of
        (Some inst, _) \<Rightarrow>
          if inst_parent inst = None then Some (Inr (c # result))
          else gen_hierarchy_loop h copy_first False
                 (map_option (\<lambda>n. if explicit_next then n\<lparr>ci_is_explicit := True\<rparr> else n)
                    (ig_lib_connection_info_new (inst_parent inst) None (ci_dir c)))
                 (c # result)
      | (None, Some m) \<Rightarrow>
          if mod_default_instance m = None then Some (Inr (c # result))
          else if copy_first
          then gen_hierarchy_loop h False explicit_next
                 (map_option (\<lambda>n. n\<lparr>ci_force_name := ci_force_name c, ci_invert := ci_invert c\<rparr>)
                    (ig_lib_connection_info_new (mod_default_instance m) (ci_local_name c) (ci_dir c)))
                 (c # result)
          else gen_hierarchy_loop h copy_first explicit_next
                 (ig_lib_connection_info_new (mod_default_instance m) None (ci_dir c))
                 (c # result)
      | (None, None) \<Rightarrow> Some (Inl InternalError))))"

declare gen_hierarchy_loop.simps [code]

definition ig_lib_gen_hierarchy ::
    "'a ig_heap_scheme \<Rightarrow> ig_lib_connection_info \<Rightarrow> ig_lib_connection_info list res" where
  "ig_lib_gen_hierarchy h cinfo =
     res_bind (heap_get h (Some (ci_obj cinfo))) (\<lambda>s.
     res_bind
       (case (as_instance (obj_body s), as_module (obj_body s)) of
          (Some inst, _) \<Rightarrow>
            res_bind (fetch as_module h (inst_module inst)) (\<lambda>m.
            if \<not> mod_resource m
            then Inr (cinfo\<lparr>ci_obj := the (inst_module inst)\<rparr>, True, False)
            else Inr (cinfo, False, True))
        | (None, Some m) \<Rightarrow> Inr (cinfo, \<not> mod_resource m, False)
        | (None, None) \<Rightarrow> Inr (cinfo, False, False))
       (\<lambda>(cinfo, copy_first, explicit_next).
     case gen_hierarchy_loop h copy_first explicit_next (Some cinfo) [] of
       None \<Rightarrow> Inl NoReturn | Some r \<Rightarrow> r))"

definition ig_lib_check_cycle :: "ig_lib_db \<Rightarrow> ptr \<Rightarrow> ptr \<Rightarrow> bool res" where
  "ig_lib_check_cycle db child parent =
     (if child = None \<or> parent = None then Inr False else
      case ig_lib_connection_info_new parent None IG_LCDIR_DEFAULT of
        None \<Rightarrow> Inl NullDeref
      | Some start \<Rightarrow>
          res_bind (ig_lib_gen_hierarchy db start) (\<lambda>hlist.
          case hlist of [] \<Rightarrow> Inr False
          | root # _ \<Rightarrow>
              res_bind (heap_get db (Some (ci_obj root))) (\<lambda>r.
              res_bind (heap_get db child) (\<lambda>c. Inr (obj_id r = obj_id c)))))"

section \<open>Adding instances\<close>

text \<open>The two arms of \<open>ig_lib_add_instance\<close>: the default instance of a module, and a new
  instance of a resource.\<close>

definition add_default_instance ::
    "string \<Rightarrow> ptr \<Rightarrow> ptr \<Rightarrow> ig_lib_db \<Rightarrow> (ptr \<times> ig_lib_db) res" where
  "add_default_instance name type parent db =
     res_bind (fetch as_module db type) (\<lambda>t.
     res_bind (heap_get db (mod_default_instance t)) (\<lambda>d.
     if name \<noteq> obj_name d then Inr (None, db) else
     res_bind (fetch as_instance db (mod_default_instance t)) (\<lambda>i.
     if inst_parent i \<noteq> None then Inr (None, db) else
     let inst = mod_default_instance t in
     res_bind (ig_lib_check_cycle db inst parent) (\<lambda>cycle.
     if cycle then Inr (None, db) else
     res_bind (modify as_instance Instance inst (\<lambda>i. Inr (i\<lparr>inst_parent := parent\<rparr>)) db) (\<lambda>db.
     res_bind (heap_get db parent) (\<lambda>p.
     res_bind (ig_obj_attr_set inst (Some ''parent'') (Some (obj_id p)) True db) (\<lambda>(_, db).
     res_bind (modify as_module Module parent
                 (\<lambda>m. res_bind (push_tail_opt (the inst) (mod_child_instances m))
                        (\<lambda>q. Inr (m\<lparr>mod_child_instances := q\<rparr>))) db) (\<lambda>db.
     res_bind (modify as_module Module type
                 (\<lambda>m. Inr (m\<lparr>mod_mod_instances := push_tail (the inst) (mod_mod_instances m)\<rparr>)) db)
       (\<lambda>db.
     res_bind (ig_obj_ref inst db) (\<lambda>db. Inr (inst, db)))))))))))"

definition add_resource_instance ::
    "string \<Rightarrow> ptr \<Rightarrow> ptr \<Rightarrow> ig_lib_db \<Rightarrow> (ptr \<times> ig_lib_db) res" where
  "add_resource_instance name type parent db =
     res_bind (ig_instance_new (Some name) type parent db) (\<lambda>(inst, db).
     res_bind (modify as_module Module parent
                 (\<lambda>m. res_bind (push_tail_opt (the inst) (mod_child_instances m))
                        (\<lambda>q. Inr (m\<lparr>mod_child_instances := q\<rparr>))) db) (\<lambda>db.
     res_bind (ig_obj_ref inst db) (\<lambda>db.
     res_bind (modify as_module Module type
                 (\<lambda>m. Inr (m\<lparr>mod_mod_instances := push_tail (the inst) (mod_mod_instances m)\<rparr>)) db)
       (\<lambda>db.
     res_bind (ig_obj_ref inst db) (\<lambda>db. Inr (inst, db))))))"

definition ig_lib_add_instance ::
    "string option \<Rightarrow> ptr \<Rightarrow> ptr \<Rightarrow> ig_lib_db \<Rightarrow> (ptr \<times> ig_lib_db) res" where
  "ig_lib_add_instance name type parent db =
     (case name of None \<Rightarrow> Inr (None, db) | Some nm \<Rightarrow>
      if type = None \<or> parent = None then Inr (None, db) else
      if table_contains db Instances_by_name nm then Inr (None, db) else
      res_bind (fetch as_module db parent) (\<lambda>p.
      if mod_resource p then Inr (None, db) else
      res_bind (fetch as_module db type) (\<lambda>t.
      res_bind (if \<not> mod_resource t then add_default_instance nm type parent db
                else add_resource_instance nm type parent db) (\<lambda>(inst, db).
      if inst = None then Inr (None, db) else
      res_bind (heap_get db inst) (\<lambda>s.
      res_bind (register3 Instances_by_name Instances_by_id (the inst) (obj_name s) (obj_id s) db)
        (\<lambda>db. Inr (inst, db)))))))"

end
