(* ===== verification/Ig_Inv.thy ===== *)
theory Ig_Inv
  imports Ig_Hierarchy
begin

text \<open>
  The invariant of the database and its preservation by the primitive steps.

  \<open>base_inv a n db\<close> says that the heap is typed (every pointer of a live struct leads to a live
  struct of its declared type), that the constant attributes agree with the struct, that every
  table entry is a live object filed under its own name or id, and that every reference count is
  the number of references the tables and queues hold, up to \<open>n\<close> for the one object \<open>a\<close> that an
  operation is working on. Between operations \<open>n\<close> is 0.
\<close>

section \<open>Typed heaps\<close>

definition type_at :: "'a ig_heap_scheme \<Rightarrow> addr \<Rightarrow> ig_object_type option" where
  "type_at h a = map_option obj_type (heap h a)"

definition ptr_ok :: "(addr \<Rightarrow> ig_object_type option) \<Rightarrow> ig_object_type \<Rightarrow> ptr \<Rightarrow> bool" where
  "ptr_ok T t p \<longleftrightarrow> (\<forall>a. p = Some a \<longrightarrow> T a = Some t)"

definition queue_ok :: "(addr \<Rightarrow> ig_object_type option) \<Rightarrow> ig_object_type set \<Rightarrow> addr list \<Rightarrow> bool" where
  "queue_ok T ts q \<longleftrightarrow> (\<forall>a \<in> set q. \<exists>t \<in> ts. T a = Some t)"

definition opt_queue :: "addr list option \<Rightarrow> addr list" where
  "opt_queue q = (case q of None \<Rightarrow> [] | Some xs \<Rightarrow> xs)"

definition net_types :: "ig_object_type set" where
  "net_types = {IG_OBJ_PORT, IG_OBJ_PIN, IG_OBJ_DECLARATION}"

definition generic_types :: "ig_object_type set" where
  "generic_types = {IG_OBJ_PARAMETER, IG_OBJ_ADJUSTMENT}"

definition module_ok :: "(addr \<Rightarrow> ig_object_type option) \<Rightarrow> ig_module \<Rightarrow> bool" where
  "module_ok T m \<longleftrightarrow>
     queue_ok T {IG_OBJ_PARAMETER} (mod_params m) \<and> queue_ok T {IG_OBJ_PORT} (mod_ports m) \<and>
     queue_ok T {IG_OBJ_DECLARATION} (opt_queue (mod_decls m)) \<and>
     queue_ok T {IG_OBJ_CODESECTION} (opt_queue (mod_code m)) \<and>
     queue_ok T {IG_OBJ_REGFILE} (opt_queue (mod_regfiles m)) \<and>
     queue_ok T {IG_OBJ_INSTANCE} (opt_queue (mod_child_instances m)) \<and>
     queue_ok T {IG_OBJ_INSTANCE} (mod_mod_instances m) \<and>
     ptr_ok T IG_OBJ_INSTANCE (mod_default_instance m) \<and>
     (mod_resource m \<longleftrightarrow> mod_decls m = None) \<and> (mod_resource m \<longleftrightarrow> mod_code m = None) \<and>
     (mod_resource m \<longleftrightarrow> mod_regfiles m = None) \<and>
     (mod_resource m \<longleftrightarrow> mod_child_instances m = None)"

fun body_ok :: "(addr \<Rightarrow> ig_object_type option) \<Rightarrow> ig_body \<Rightarrow> bool" where
  "body_ok T (Port x) =
     (port_parent x \<noteq> None \<and> ptr_ok T IG_OBJ_MODULE (port_parent x) \<and> ptr_ok T IG_OBJ_NET (port_net x))"
| "body_ok T (Pin x) =
     (pin_parent x \<noteq> None \<and> ptr_ok T IG_OBJ_INSTANCE (pin_parent x) \<and> ptr_ok T IG_OBJ_NET (pin_net x))"
| "body_ok T (Param x) =
     (param_parent x \<noteq> None \<and> ptr_ok T IG_OBJ_MODULE (param_parent x) \<and>
      ptr_ok T IG_OBJ_GENERIC (param_generic x))"
| "body_ok T (Adjustment x) =
     (adj_parent x \<noteq> None \<and> ptr_ok T IG_OBJ_INSTANCE (adj_parent x) \<and>
      ptr_ok T IG_OBJ_GENERIC (adj_generic x))"
| "body_ok T (Decl x) =
     (decl_parent x \<noteq> None \<and> ptr_ok T IG_OBJ_MODULE (decl_parent x) \<and> ptr_ok T IG_OBJ_NET (decl_net x))"
| "body_ok T (Code x) = (code_parent x \<noteq> None \<and> ptr_ok T IG_OBJ_MODULE (code_parent x))"
| "body_ok T (Module x) = module_ok T x"
| "body_ok T (Instance x) =
     (inst_module x \<noteq> None \<and> ptr_ok T IG_OBJ_MODULE (inst_module x) \<and>
      ptr_ok T IG_OBJ_MODULE (inst_parent x) \<and> queue_ok T {IG_OBJ_ADJUSTMENT} (inst_adjustments x) \<and>
      queue_ok T {IG_OBJ_PIN} (inst_pins x))"
| "body_ok T (RfReg x) = (reg_parent x \<noteq> None \<and> ptr_ok T IG_OBJ_REGFILE_ENTRY (reg_parent x))"
| "body_ok T (RfEntry x) =
     (entry_parent x \<noteq> None \<and> ptr_ok T IG_OBJ_REGFILE (entry_parent x) \<and>
      queue_ok T {IG_OBJ_REGFILE_REG} (entry_regs x))"
| "body_ok T (Regfile x) =
     (regfile_parent x \<noteq> None \<and> ptr_ok T IG_OBJ_MODULE (regfile_parent x) \<and>
      queue_ok T {IG_OBJ_REGFILE_ENTRY} (regfile_entries x))"
| "body_ok T (Net x) = queue_ok T net_types (net_objects x)"
| "body_ok T (Generic x) = queue_ok T generic_types (generic_objects x)"

lemma ptr_ok_simps [simp]:
  "ptr_ok T t None" "ptr_ok T t (Some a) \<longleftrightarrow> T a = Some t"
  by (auto simp: ptr_ok_def)

lemma queue_ok_simps [simp]:
  "queue_ok T ts []"
  "queue_ok T ts (a # q) \<longleftrightarrow> (\<exists>t \<in> ts. T a = Some t) \<and> queue_ok T ts q"
  "queue_ok T ts (q @ r) \<longleftrightarrow> queue_ok T ts q \<and> queue_ok T ts r"
  by (auto simp: queue_ok_def)

lemma opt_queue_simps [simp]: "opt_queue None = []" "opt_queue (Some q) = q"
  by (simp_all add: opt_queue_def)

lemma ptr_ok_mono: "T \<subseteq>\<^sub>m T' \<Longrightarrow> ptr_ok T t p \<Longrightarrow> ptr_ok T' t p"
  by (auto simp: ptr_ok_def map_le_def dom_def)

lemma queue_ok_mono: "T \<subseteq>\<^sub>m T' \<Longrightarrow> queue_ok T ts q \<Longrightarrow> queue_ok T' ts q"
  by (force simp: queue_ok_def map_le_def dom_def)

lemma queue_okD: "queue_ok T ts q \<Longrightarrow> a \<in> set q \<Longrightarrow> \<exists>t. T a = Some t"
  by (auto simp: queue_ok_def)

lemma module_ok_mono: "T \<subseteq>\<^sub>m T' \<Longrightarrow> module_ok T m \<Longrightarrow> module_ok T' m"
  unfolding module_ok_def by (elim conjE, intro conjI) (assumption | erule (1) ptr_ok_mono queue_ok_mono)+

lemma body_ok_mono: "T \<subseteq>\<^sub>m T' \<Longrightarrow> body_ok T b \<Longrightarrow> body_ok T' b"
  by (cases b) (simp_all add: ptr_ok_mono queue_ok_mono module_ok_mono)

lemma type_at_Some: "type_at h a = Some t \<longleftrightarrow> (\<exists>s. heap h a = Some s \<and> obj_type s = t)"
  by (auto simp: type_at_def)

section \<open>References\<close>

text \<open>
  The references a struct owns. A module owns its default instance through the field
  \<open>default_instance\<close> until the instance appears in \<open>mod_instances\<close>: from then on the same
  reference stands for the queue entry.
\<close>

fun owned :: "ig_body \<Rightarrow> addr list" where
  "owned (Module m) =
     mod_params m @ mod_ports m @ opt_queue (mod_decls m) @ opt_queue (mod_code m)
     @ opt_queue (mod_regfiles m) @ opt_queue (mod_child_instances m) @ mod_mod_instances m
     @ (if mod_mod_instances m = [] then (case mod_default_instance m of None \<Rightarrow> [] | Some i \<Rightarrow> [i])
        else [])"
| "owned (Instance i) = inst_adjustments i @ inst_pins i"
| "owned (RfEntry e) = entry_regs e"
| "owned (Regfile r) = regfile_entries r"
| "owned (Net n) = net_objects n"
| "owned (Generic g) = generic_objects g"
| "owned _ = []"

definition owned_at :: "'a ig_heap_scheme \<Rightarrow> addr \<Rightarrow> addr list" where
  "owned_at h b = (case heap h b of None \<Rightarrow> [] | Some s \<Rightarrow> owned (obj_body s))"

definition heap_refs :: "'a ig_heap_scheme \<Rightarrow> addr \<Rightarrow> nat" where
  "heap_refs h a = (\<Sum>b \<in> dom (heap h). count_list (owned_at h b) a)"

definition table_refs :: "ig_lib_db \<Rightarrow> addr \<Rightarrow> nat" where
  "table_refs db a = card {(t, k). tables db t k = Some a}"

definition refs :: "ig_lib_db \<Rightarrow> addr \<Rightarrow> int" where
  "refs db a = int (heap_refs db a + table_refs db a)"

lemma queue_ok_any: "queue_ok T ts q \<Longrightarrow> queue_ok T UNIV q"
  by (auto simp: queue_ok_def)

lemma owned_queue_ok: "body_ok T b \<Longrightarrow> queue_ok T UNIV (owned b)"
  by (cases b) (auto simp: module_ok_def intro: queue_ok_any split: option.split)

lemma owned_live: "body_ok T b \<Longrightarrow> a \<in> set (owned b) \<Longrightarrow> \<exists>t. T a = Some t"
  using owned_queue_ok by (rule queue_okD)

section \<open>The base invariant\<close>

fun table_is_name :: "ig_table \<Rightarrow> bool" where
  "table_is_name Modules_by_name = True"
| "table_is_name Instances_by_name = True"
| "table_is_name Regfiles_by_name = True"
| "table_is_name Nets_by_name = True"
| "table_is_name Generics_by_name = True"
| "table_is_name _ = False"

fun table_type :: "ig_table \<Rightarrow> ig_object_type option" where
  "table_type Objects_by_id = None"
| "table_type Modules_by_name = Some IG_OBJ_MODULE"
| "table_type Modules_by_id = Some IG_OBJ_MODULE"
| "table_type Instances_by_name = Some IG_OBJ_INSTANCE"
| "table_type Instances_by_id = Some IG_OBJ_INSTANCE"
| "table_type Regfiles_by_name = Some IG_OBJ_REGFILE"
| "table_type Regfiles_by_id = Some IG_OBJ_REGFILE"
| "table_type Nets_by_name = Some IG_OBJ_NET"
| "table_type Nets_by_id = Some IG_OBJ_NET"
| "table_type Generics_by_name = Some IG_OBJ_GENERIC"
| "table_type Generics_by_id = Some IG_OBJ_GENERIC"

definition entry_ok :: "ig_table \<Rightarrow> string \<Rightarrow> ig_struct \<Rightarrow> bool" where
  "entry_ok t k s \<longleftrightarrow>
     k = (if table_is_name t then obj_name s else obj_id s) \<and>
     (table_type t = None \<or> table_type t = Some (obj_type s))"

text \<open>An id begins with the type name; the id of a module is determined by its name.\<close>

definition id_ok :: "ig_object_type \<Rightarrow> string \<Rightarrow> string \<Rightarrow> bool" where
  "id_ok t name i \<longleftrightarrow>
     (\<exists>r. i = ig_obj_type_name t @ ''##'' @ r) \<and> (t = IG_OBJ_MODULE \<longrightarrow> i = ''module##'' @ name)"

definition header_ok :: "ig_struct \<Rightarrow> bool" where
  "header_ok s \<longleftrightarrow>
     id_ok (obj_type s) (obj_name s) (obj_id s) \<and>
     obj_attributes s ''id'' = Some \<lparr>attr_constant = True, attr_value = obj_id s\<rparr> \<and>
     obj_attributes s ''name'' = Some \<lparr>attr_constant = True, attr_value = obj_name s\<rparr> \<and>
     obj_attributes s ''type'' =
       Some \<lparr>attr_constant = True, attr_value = ig_obj_type_name (obj_type s)\<rparr>"

definition heap_ok :: "'a ig_heap_scheme \<Rightarrow> bool" where
  "heap_ok h \<longleftrightarrow>
     (\<forall>a s. heap h a = Some s \<longrightarrow> a < next_addr h \<and> header_ok s \<and> body_ok (type_at h) (obj_body s))"

definition tables_ok :: "ig_lib_db \<Rightarrow> bool" where
  "tables_ok db \<longleftrightarrow>
     (\<forall>t k a. tables db t k = Some a \<longrightarrow> (\<exists>s. heap db a = Some s \<and> entry_ok t k s)) \<and>
     (\<forall>t. finite (dom (tables db t)))"

definition counts_ok :: "addr \<Rightarrow> int \<Rightarrow> ig_lib_db \<Rightarrow> bool" where
  "counts_ok a n db \<longleftrightarrow>
     (\<forall>x s. heap db x = Some s \<longrightarrow> obj_refcount s = refs db x + (if x = a then n else 0))"

definition base_inv :: "addr \<Rightarrow> int \<Rightarrow> ig_lib_db \<Rightarrow> bool" where
  "base_inv a n db \<longleftrightarrow> heap_ok db \<and> tables_ok db \<and> counts_ok a n db"

lemma heap_okD:
  "heap_ok h \<Longrightarrow> heap h a = Some s \<Longrightarrow> a < next_addr h \<and> header_ok s \<and> body_ok (type_at h) (obj_body s)"
  by (simp add: heap_ok_def)

lemma tables_okD:
  "tables_ok db \<Longrightarrow> tables db t k = Some a \<Longrightarrow> \<exists>s. heap db a = Some s \<and> entry_ok t k s"
  unfolding tables_ok_def by blast

lemma heap_ok_finite: "heap_ok h \<Longrightarrow> finite (dom (heap h))"
  by (rule finite_subset [of _ "{..<next_addr h}"]) (auto simp: heap_ok_def)

lemma heap_ok_fresh: "heap_ok h \<Longrightarrow> heap h (next_addr h) = None"
  by (cases "heap h (next_addr h)") (auto simp: heap_ok_def)

lemma base_inv_zero: "base_inv a 0 db \<Longrightarrow> base_inv b 0 db"
  by (simp add: base_inv_def counts_ok_def)

text \<open>What lies outside the heap is referenced from nowhere.\<close>

lemma refs_dead:
  assumes "heap_ok db" and "tables_ok db" and "heap db a = None"
  shows "refs db a = 0"
proof -
  have "count_list (owned_at db b) a = 0" if "b \<in> dom (heap db)" for b
  proof -
    from that obtain s where s: "heap db b = Some s" by blast
    with assms(1) have "body_ok (type_at db) (obj_body s)" by (simp add: heap_ok_def)
    then have "a \<notin> set (owned (obj_body s))"
      using owned_live assms(3) by (fastforce simp: type_at_def)
    with s show ?thesis by (simp add: owned_at_def count_list_0_iff)
  qed
  moreover have "{(t, k). tables db t k = Some a} = {}"
    using assms(2,3) by (fastforce simp: tables_ok_def)
  ultimately show ?thesis by (simp add: refs_def heap_refs_def table_refs_def)
qed

section \<open>Reference counts under updates\<close>

lemma heap_refs_upd:
  assumes fin: "finite (dom (heap h))" and upd: "heap h' = (heap h)(b \<mapsto> s')"
  shows "heap_refs h' a + count_list (owned_at h b) a =
         heap_refs h a + count_list (owned (obj_body s')) a"
proof -
  let ?D = "insert b (dom (heap h))"
  have dom': "dom (heap h') = ?D" using upd by auto
  have eq: "heap_refs h a = (\<Sum>c \<in> ?D. count_list (owned_at h c) a)"
    unfolding heap_refs_def
    by (rule sum.mono_neutral_left) (use fin in \<open>auto simp: owned_at_def domIff\<close>)
  have split: "(\<Sum>c \<in> ?D. f c) = f b + (\<Sum>c \<in> ?D - {b}. f c)" for f :: "addr \<Rightarrow> nat"
    by (rule sum.remove) (use fin in auto)
  have "(\<Sum>c \<in> ?D - {b}. count_list (owned_at h' c) a) = (\<Sum>c \<in> ?D - {b}. count_list (owned_at h c) a)"
    by (rule sum.cong) (auto simp: owned_at_def upd)
  moreover have "owned_at h' b = owned (obj_body s')" by (simp add: owned_at_def upd)
  moreover have "heap_refs h' a = (\<Sum>c \<in> ?D. count_list (owned_at h' c) a)"
    by (simp only: heap_refs_def dom')
  ultimately show ?thesis using eq split by simp
qed

lemma finite_tables: "finite (UNIV :: ig_table set)"
proof -
  have "(UNIV :: ig_table set) = set clear_sequence"
  proof (rule set_eqI)
    fix t :: ig_table
    show "t \<in> UNIV \<longleftrightarrow> t \<in> set clear_sequence"
      by (cases t) (simp_all add: clear_sequence_def)
  qed
  then show ?thesis by (metis List.finite_set)
qed

lemma finite_entries:
  assumes "tables_ok db"
  shows "finite {(t, k). tables db t k = Some a}"
proof (rule finite_subset)
  show "{(t, k). tables db t k = Some a} \<subseteq> (SIGMA t:UNIV. dom (tables db t))" by auto
  show "finite (SIGMA t:UNIV. dom (tables db t))"
    using assms finite_tables by (intro finite_SigmaI) (auto simp: tables_ok_def)
qed

lemma tables_set_table [simp]: "tables (set_table t m db) = (tables db)(t := m)"
  by (simp add: set_table_def)

lemma heap_set_table [simp]: "heap (set_table t m db) = heap db"
  by (simp add: set_table_def)

lemma next_addr_set_table [simp]: "next_addr (set_table t m db) = next_addr db"
  by (simp add: set_table_def)

lemma table_refs_insert:
  assumes ok: "tables_ok db"
  shows "int (table_refs (set_table t ((tables db t)(k \<mapsto> a)) db) x) =
         int (table_refs db x) + (if x = a then 1 else 0) - (if tables db t k = Some x then 1 else 0)"
proof -
  let ?S = "{(t, k). tables db t k = Some x}"
  let ?S' = "{(t', k'). tables (set_table t ((tables db t)(k \<mapsto> a)) db) t' k' = Some x}"
  have fin: "finite ?S" using ok by (rule finite_entries)
  show ?thesis
  proof (cases "x = a")
    case True
    then have "?S' = insert (t, k) ?S" by (auto simp: fun_upd_def split: if_splits)
    with fin True show ?thesis by (simp add: table_refs_def card_insert_if)
  next
    case False
    then have "?S' = ?S - {(t, k)}" by (auto simp: fun_upd_def split: if_splits)
    moreover have "int (card (?S - {(t, k)})) = int (card ?S) - (if tables db t k = Some x then 1 else 0)"
    proof (cases "tables db t k = Some x")
      case True
      then have "(t, k) \<in> ?S" by simp
      then show ?thesis using card.remove [OF fin] True by fastforce
    next
      case nm: False
      then have "?S - {(t, k)} = ?S" by auto
      then show ?thesis using nm by simp
    qed
    ultimately show ?thesis using False by (simp add: table_refs_def)
  qed
qed

lemma type_at_next_addr [simp]: "type_at (h\<lparr>next_addr := n\<rparr>) = type_at h"
  by (simp add: type_at_def fun_eq_iff)

lemma recount_self: "\<exists>f. m = map_option (\<lambda>s. s\<lparr>obj_refcount := f s\<rparr>) m" for m :: "ig_struct option"
  by (rule exI [of _ obj_refcount]) (cases m; simp)

lemma heap_put [simp]: "heap (put a s h) = (heap h)(a \<mapsto> s)"
  by (simp add: put_def)

lemma next_addr_put [simp]: "next_addr (put a s h) = next_addr h"
  by (simp add: put_def)

lemma tables_put [simp]: "tables (put a s db) = tables db"
  by (simp add: put_def)

lemma type_at_put: "heap h a = Some s \<Longrightarrow> obj_type s' = obj_type s \<Longrightarrow> type_at (put a s' h) = type_at h"
  by (auto simp: type_at_def)

lemma type_at_set_table [simp]: "type_at (set_table t m db) = type_at db"
  by (simp add: type_at_def fun_eq_iff)

lemma heap_refs_set_table [simp]: "heap_refs (set_table t m db) = heap_refs db"
  by (simp add: heap_refs_def owned_at_def fun_eq_iff)

lemma table_refs_put [simp]: "table_refs (put a s db) = table_refs db"
  by (simp add: table_refs_def fun_eq_iff)

lemma tables_ok_put:
  assumes "tables_ok db" and "heap db b = Some s"
    and "obj_id s' = obj_id s" "obj_name s' = obj_name s" "obj_type s' = obj_type s"
  shows "tables_ok (put b s' db)"
  unfolding tables_ok_def
proof (intro conjI allI impI)
  fix t k a
  assume "tables (put b s' db) t k = Some a"
  then obtain sa where sa: "heap db a = Some sa" "entry_ok t k sa"
    using tables_okD [OF assms(1), of t k a] by auto
  show "\<exists>s. heap (put b s' db) a = Some s \<and> entry_ok t k s"
  proof (cases "a = b")
    case True
    with sa assms show ?thesis by (simp add: entry_ok_def)
  next
    case False
    with sa show ?thesis by simp
  qed
qed (use assms(1) in \<open>simp add: tables_ok_def\<close>)

section \<open>Primitive steps\<close>

text \<open>
  Rewriting one struct in place. References it gains are owed by \<open>a\<close>, an increment of the
  reference count of \<open>a\<close> pays for one.
\<close>

lemma base_inv_put:
  assumes inv: "base_inv a n db" and b: "heap db b = Some s"
    and same: "obj_id s' = obj_id s" "obj_name s' = obj_name s" "obj_type s' = obj_type s"
    and ok: "header_ok s'" "body_ok (type_at db) (obj_body s')"
    and own: "\<And>x. int (count_list (owned (obj_body s')) x) =
                  int (count_list (owned (obj_body s)) x) + (if x = a then k else 0)"
    and rc: "obj_refcount s' = obj_refcount s + (if b = a then d else 0)"
    and bal: "n' = n + (if b = a then d else 0) - k"
  shows "base_inv a n' (put b s' db)"
proof -
  have h: "heap_ok db" and t: "tables_ok db" and c: "counts_ok a n db"
    using inv by (auto simp: base_inv_def)
  have ty: "type_at (put b s' db) = type_at db" using b same(3) by (rule type_at_put)
  have "heap_ok (put b s' db)"
    using h b ok ty by (auto simp: heap_ok_def split: if_splits)
  moreover have "tables_ok (put b s' db)"
    using t b same by (rule tables_ok_put)
  moreover have "counts_ok a n' (put b s' db)"
  proof -
    have "refs (put b s' db) x = refs db x + (if x = a then k else 0)" for x
      using heap_refs_upd [OF heap_ok_finite [OF h], of "put b s' db" b s' x] b own [of x]
      by (simp add: refs_def owned_at_def)
    then show ?thesis using c b rc bal by (auto simp: counts_ok_def)
  qed
  ultimately show ?thesis by (simp add: base_inv_def)
qed

lemma alloc_eq:
  "alloc s h = (next_addr h, h\<lparr>heap := (heap h)(next_addr h \<mapsto> s), next_addr := Suc (next_addr h)\<rparr>)"
  by (rule alloc_def)

abbreviation allocd :: "ig_struct \<Rightarrow> ig_lib_db \<Rightarrow> ig_lib_db" where
  "allocd s db \<equiv> db\<lparr>heap := (heap db)(next_addr db \<mapsto> s), next_addr := Suc (next_addr db)\<rparr>"

lemma type_at_allocd: "heap_ok db \<Longrightarrow> type_at db \<subseteq>\<^sub>m type_at (allocd s db)"
  by (auto simp: type_at_def map_le_def dom_def heap_ok_fresh)

lemma base_inv_alloc:
  assumes inv: "base_inv a 0 db" and ok: "header_ok s" "body_ok (type_at (allocd s db)) (obj_body s)"
    and new: "owned (obj_body s) = []" "obj_refcount s = 0"
  shows "base_inv (next_addr db) 0 (allocd s db)"
proof -
  let ?db = "allocd s db"
  have h: "heap_ok db" and t: "tables_ok db" and c: "counts_ok a 0 db"
    using inv by (auto simp: base_inv_def)
  have fresh: "heap db (next_addr db) = None" using h by (rule heap_ok_fresh)
  have "heap_ok ?db"
    using h ok body_ok_mono [OF type_at_allocd [OF h, of s]]
    by (fastforce simp: heap_ok_def less_Suc_eq)
  moreover have "tables_ok ?db"
    using t fresh by (fastforce simp: tables_ok_def)
  moreover have "counts_ok (next_addr db) 0 ?db"
  proof -
    have "refs ?db x = refs db x" for x
      using heap_refs_upd [OF heap_ok_finite [OF h], of ?db "next_addr db" s x] new fresh
      by (simp add: refs_def owned_at_def table_refs_def)
    then show ?thesis
      using c new refs_dead [OF h t fresh] by (auto simp: counts_ok_def)
  qed
  ultimately show ?thesis by (simp add: base_inv_def)
qed

text \<open>Giving the address of a dropped object away is harmless.\<close>

lemma base_inv_skip:
  assumes "base_inv a 0 db" shows "base_inv b 0 (db\<lparr>next_addr := Suc (next_addr db)\<rparr>)"
proof -
  have "refs (db\<lparr>next_addr := Suc (next_addr db)\<rparr>) x = refs db x" for x
    by (simp add: refs_def heap_refs_def table_refs_def owned_at_def)
  then show ?thesis
    using assms
    by (auto simp: base_inv_def heap_ok_def tables_ok_def counts_ok_def type_at_def less_Suc_eq)
qed

text \<open>Filing \<open>a\<close> under a key. An object that was filed there loses a reference.\<close>

lemma base_inv_set_table:
  assumes inv: "base_inv a n db" and a: "heap db a = Some s" "entry_ok t k s"
    and free: "tables db t k = None"
  shows "base_inv a (n - 1) (set_table t ((tables db t)(k \<mapsto> a)) db)"
  using assms table_refs_insert [of db t k a]
  by (auto simp: base_inv_def heap_ok_def tables_ok_def counts_ok_def refs_def)

definition anchored :: "ig_lib_db \<Rightarrow> addr \<Rightarrow> bool" where
  "anchored db x \<longleftrightarrow>
     (\<exists>t k. table_is_name t \<and> tables db t k = Some x) \<or> (\<exists>b. x \<in> set (owned_at db b))"

lemma anchored_refs:
  assumes "heap_ok db" "tables_ok db" "anchored db x"
  shows "1 \<le> refs db x"
proof -
  from assms(3) consider t k where "tables db t k = Some x" | b where "x \<in> set (owned_at db b)"
    by (auto simp: anchored_def)
  then show ?thesis
  proof cases
    case 1
    then have "{(t, k). tables db t k = Some x} \<noteq> {}" by auto
    then have "0 < table_refs db x"
      using finite_entries [OF assms(2)] by (simp add: table_refs_def card_gt_0_iff)
    then show ?thesis by (simp add: refs_def)
  next
    case 2
    then have "b \<in> dom (heap db)" by (cases "heap db b") (auto simp: owned_at_def)
    moreover have "0 < count_list (owned_at db b) x" using 2 by (metis count_list_0_iff gr0I)
    ultimately have "0 < heap_refs db x"
      using heap_ok_finite [OF assms(1)] unfolding heap_refs_def
      by (metis (mono_tags, lifting) gr0I less_numeral_extra(3) sum_eq_0_iff)
    then show ?thesis by (simp add: refs_def)
  qed
qed

lemma owned_at_set_table [simp]: "owned_at (set_table t m db) = owned_at db"
  by (simp add: owned_at_def fun_eq_iff)

lemma ig_obj_unref_Suc: "ig_obj_unref obj h = unref_depth (Suc 3) obj h"
  by (simp add: ig_obj_unref_def eval_nat_numeral)

lemma ig_obj_unref_keep:
  assumes "heap h a = Some s" and "\<not> obj_refcount s - 1 \<le> 0"
  shows "ig_obj_unref (Some a) h = Inr (put a (s\<lparr>obj_refcount := obj_refcount s - 1\<rparr>) h)"
  unfolding ig_obj_unref_Suc unref_depth.simps using assms by (simp add: heap_get_def Let_def)

text \<open>
  Insertion in full: a displaced object that is anchored elsewhere survives the loss of its table
  reference, and its count stays exact.
\<close>

definition displaced :: "addr \<Rightarrow> ig_struct \<Rightarrow> ig_lib_db \<Rightarrow> ig_lib_db" where
  "displaced old s db = put old (s\<lparr>obj_refcount := obj_refcount s - 1\<rparr>) db"

lemma base_inv_table_insert:
  assumes inv: "base_inv a n db" and a: "heap db a = Some s" "entry_ok t k s"
    and old: "\<And>x. tables db t k = Some x \<Longrightarrow> x \<noteq> a \<and> anchored (set_table t ((tables db t)(k \<mapsto> a)) db) x"
  shows "holds (table_insert t k a db) (\<lambda>db'.
           base_inv a (n - 1) db' \<and> type_at db' = type_at db \<and> next_addr db' = next_addr db \<and>
           tables db' = (tables db)(t := (tables db t)(k \<mapsto> a)) \<and> heap db' a = Some s \<and>
           (\<forall>x. \<exists>f. heap db' x = map_option (\<lambda>s. s\<lparr>obj_refcount := f s\<rparr>) (heap db x)))"
proof (cases "tables db t k")
  case None
  with base_inv_set_table [OF inv a] show ?thesis
    using a by (simp add: table_insert_def Let_def recount_self)
next
  case (Some x)
  let ?db = "set_table t ((tables db t)(k \<mapsto> a)) db"
  have h: "heap_ok db" and t: "tables_ok db" and c: "counts_ok a n db"
    using inv by (auto simp: base_inv_def)
  have xa: "x \<noteq> a" and anch: "anchored ?db x" using old Some by auto
  obtain sx where sx: "heap db x = Some sx" using t Some unfolding tables_ok_def by blast
  have h': "heap_ok ?db" using h by (simp add: heap_ok_def)
  have t': "tables_ok ?db" using t a by (auto simp: tables_ok_def)
  have rx: "obj_refcount sx = refs ?db x + 1"
    using c sx xa table_refs_insert [OF t, of t k a x] Some by (simp add: counts_ok_def refs_def)
  moreover have "1 \<le> refs ?db x" using h' t' anch by (rule anchored_refs)
  ultimately have pos: "\<not> obj_refcount sx - 1 \<le> 0" by linarith
  have res: "table_insert t k a db = Inr (displaced x sx ?db)"
    using Some sx pos
    by (simp add: table_insert_def ig_obj_unref_keep [of _ _ sx] displaced_def)
  have ty: "type_at (displaced x sx ?db) = type_at db"
    using sx unfolding displaced_def by (subst type_at_put [of _ _ sx]) (auto simp: obj_type_def)
  have "heap_ok (displaced x sx ?db)"
    using h sx ty by (auto simp: heap_ok_def displaced_def header_ok_def obj_type_def split: if_splits)
  moreover have "tables_ok (displaced x sx ?db)"
    unfolding displaced_def by (rule tables_ok_put [OF t']) (use sx in \<open>simp_all add: obj_type_def\<close>)
  moreover have "counts_ok a (n - 1) (displaced x sx ?db)"
  proof -
    have "refs (displaced x sx ?db) y = refs ?db y" for y
      using heap_refs_upd [OF heap_ok_finite [OF h'], of "displaced x sx ?db" x
        "sx\<lparr>obj_refcount := obj_refcount sx - 1\<rparr>" y] sx
      by (simp add: refs_def displaced_def owned_at_def)
    moreover have "refs ?db y = refs db y + (if y = a then 1 else 0) - (if y = x then 1 else 0)" for y
      using table_refs_insert [OF t, of t k a y] Some by (auto simp: refs_def)
    ultimately show ?thesis
      using c sx xa by (auto simp: counts_ok_def displaced_def split: if_splits)
  qed
  ultimately have "base_inv a (n - 1) (displaced x sx ?db)" by (simp add: base_inv_def)
  moreover have "\<exists>f. heap (displaced x sx ?db) y = map_option (\<lambda>s. s\<lparr>obj_refcount := f s\<rparr>) (heap db y)" for y
    using sx recount_self [of "heap db y"]
    by (cases "y = x") (auto simp: displaced_def)
  ultimately show ?thesis
    using ty res a xa by (auto simp: displaced_def)
qed

end
