(* ===== verification/Ig_Forest.thy ===== *)
theory Ig_Forest
  imports Ig_Inv
begin

text \<open>
  The module hierarchy as a forest. The locale \<open>parent_forest\<close> is the interface a parent pointer
  offers to code that follows it: in a good state, following it comes to an end. Its lemmas give
  the path to the root and say when a new edge keeps the property. It is interpreted on the
  modules of a database, where the parent of a module is the parent of its default instance. From
  it follow that \<open>ig_lib_gen_hierarchy\<close> always returns, what it returns, and that
  \<open>ig_lib_check_cycle\<close> tells exactly whether an instantiation would close a cycle.
\<close>

section \<open>Paths to the root\<close>

inductive up_path :: "('a \<Rightarrow> 'a option) \<Rightarrow> 'a \<Rightarrow> 'a list \<Rightarrow> bool" for f where
  root: "f x = None \<Longrightarrow> up_path f x [x]"
| step: "f x = Some p \<Longrightarrow> up_path f p ps \<Longrightarrow> up_path f x (x # ps)"

inductive_cases up_path_rootE: "up_path f x [y]"
inductive_cases up_path_ConsE: "up_path f x (y # ys)"
inductive_simps up_path_Nil [simp]: "up_path f x []"

lemma up_path_hd: "up_path f x ps \<Longrightarrow> \<exists>qs. ps = x # qs"
  by (cases rule: up_path.cases) auto

lemma up_path_unique: "up_path f x ps \<Longrightarrow> up_path f x qs \<Longrightarrow> ps = qs"
proof (induction arbitrary: qs rule: up_path.induct)
  case (root x)
  then show ?case by (auto elim: up_path.cases)
next
  case (step x p ps)
  from step.prems step.hyps obtain qs' where "qs = x # qs'" "up_path f p qs'"
    by (auto elim: up_path.cases)
  with step.IH show ?case by simp
qed

lemma up_path_last: "up_path f x ps \<Longrightarrow> f (last ps) = None"
proof (induction rule: up_path.induct)
  case (step x p ps)
  then show ?case by (cases ps) auto
qed simp

lemma up_path_suffix: "up_path f x ps \<Longrightarrow> y \<in> set ps \<Longrightarrow> \<exists>qs. up_path f y qs \<and> last qs = last ps"
proof (induction rule: up_path.induct)
  case (root x)
  then show ?case by (auto intro: up_path.root)
next
  case (step x p ps)
  show ?case
  proof (cases "y = x")
    case True
    with step.hyps have "up_path f y (x # ps)" by (auto intro: up_path.step)
    then show ?thesis by blast
  next
    case False
    with step show ?thesis using up_path_hd [OF step.hyps(2)] by auto
  qed
qed

lemma up_path_rtrancl: "up_path f x ps \<Longrightarrow> y \<in> set ps \<longleftrightarrow> (y, x) \<in> {(p, x). f x = Some p}\<^sup>*"
proof (induction rule: up_path.induct)
  case (root x)
  have "y = x" if "(y, x) \<in> {(p, x). f x = Some p}\<^sup>*"
    using that root by (auto elim: rtranclE)
  then show ?case by auto
next
  case (step x p ps)
  have "(y, x) \<in> {(p, x). f x = Some p}\<^sup>* \<longleftrightarrow> y = x \<or> (y, p) \<in> {(p, x). f x = Some p}\<^sup>*"
    using step.hyps(1) by (auto elim: rtranclE intro: rtrancl_into_rtrancl)
  with step.IH show ?case by auto
qed

section \<open>The interface\<close>

locale parent_forest =
  fixes up :: "'s \<Rightarrow> 'a \<Rightarrow> 'a option"
    and invar :: "'s \<Rightarrow> bool"
  assumes up_wf: "invar s \<Longrightarrow> wf {(p, x). up s x = Some p}"
begin

lemma path_exists:
  assumes "invar s" shows "\<exists>ps. up_path (up s) x ps"
  using up_wf [OF assms]
proof (induction x rule: wf_induct_rule)
  case (less x)
  show ?case
  proof (cases "up s x")
    case None
    then show ?thesis by (auto intro: up_path.root)
  next
    case (Some p)
    with less obtain ps where "up_path (up s) p ps" by auto
    with Some show ?thesis by (auto intro: up_path.step)
  qed
qed

lemma path_distinct:
  assumes "invar s" and "up_path (up s) x ps" shows "distinct ps"
  using assms(2)
proof (induction rule: up_path.induct)
  case (step x p ps)
  have "x \<notin> set ps"
  proof
    assume "x \<in> set ps"
    with step.hyps(2) have "(x, p) \<in> {(p, x). up s x = Some p}\<^sup>*"
      by (simp add: up_path_rtrancl)
    with step.hyps(1) have "(x, x) \<in> {(p, x). up s x = Some p}\<^sup>+"
      by (auto intro: rtrancl_into_trancl1)
    with up_wf [OF assms(1)] show False by (auto dest: wf_acyclic simp: acyclic_def)
  qed
  with step.IH show ?case by simp
qed simp

text \<open>A root may be hung below \<open>p\<close> exactly when it is not the root of \<open>p\<close>.\<close>

lemma link_wf_iff:
  assumes "invar s" and "up s x = None" and "up_path (up s) p ps"
  shows "wf {(q, y). ((up s)(x \<mapsto> p)) y = Some q} \<longleftrightarrow> last ps \<noteq> x"
proof -
  let ?R = "{(q, y). up s y = Some q}"
  have eq: "{(q, y). ((up s)(x \<mapsto> p)) y = Some q} = insert (p, x) ?R"
    using assms(2) by auto
  have "(x, p) \<in> ?R\<^sup>* \<longleftrightarrow> x \<in> set ps" using up_path_rtrancl [OF assms(3)] by simp
  moreover have "x \<in> set ps \<longleftrightarrow> last ps = x"
  proof
    assume "x \<in> set ps"
    then obtain qs where "up_path (up s) x qs" "last qs = last ps"
      using up_path_suffix [OF assms(3)] by blast
    moreover have "up_path (up s) x [x]" using assms(2) by (rule up_path.root)
    ultimately show "last ps = x" using up_path_unique by fastforce
  next
    assume "last ps = x"
    then show "x \<in> set ps" using up_path_hd [OF assms(3)] by (metis last_in_set list.distinct(1))
  qed
  ultimately show ?thesis using up_wf [OF assms(1)] unfolding eq wf_insert by auto
qed

end

section \<open>The module hierarchy\<close>

definition mod_skel :: "'a ig_heap_scheme \<Rightarrow> addr \<Rightarrow> (bool \<times> ptr \<times> addr list) option" where
  "mod_skel h a =
     (case heap h a of None \<Rightarrow> None | Some s \<Rightarrow>
      map_option (\<lambda>m. (mod_resource m, mod_default_instance m, mod_mod_instances m))
        (as_module (obj_body s)))"

definition inst_skel :: "'a ig_heap_scheme \<Rightarrow> addr \<Rightarrow> (ptr \<times> ptr) option" where
  "inst_skel h a =
     (case heap h a of None \<Rightarrow> None | Some s \<Rightarrow>
      map_option (\<lambda>i. (inst_module i, inst_parent i)) (as_instance (obj_body s)))"

definition up_of ::
    "(addr \<Rightarrow> (bool \<times> ptr \<times> addr list) option) \<Rightarrow> (addr \<Rightarrow> (ptr \<times> ptr) option) \<Rightarrow> addr \<Rightarrow> ptr"
where
  "up_of M I m =
     (case M m of Some (_, Some i, _) \<Rightarrow> (case I i of Some (_, p) \<Rightarrow> p | None \<Rightarrow> None) | _ \<Rightarrow> None)"

definition module_up :: "'a ig_heap_scheme \<Rightarrow> addr \<Rightarrow> ptr" where
  "module_up h = up_of (mod_skel h) (inst_skel h)"

text \<open>
  A resource has no default instance; any other module has one, which is its only instance and is
  listed once it has a parent. Instances know their module and live in modules that are no
  resources, and the modules form a forest.
\<close>

definition skel_ok ::
    "(addr \<Rightarrow> (bool \<times> ptr \<times> addr list) option) \<Rightarrow> (addr \<Rightarrow> (ptr \<times> ptr) option) \<Rightarrow> bool"
where
  "skel_ok M I \<longleftrightarrow>
     (\<forall>m d q. M m = Some (True, d, q) \<longrightarrow> d = None) \<and>
     (\<forall>m d q. M m = Some (False, d, q) \<longrightarrow>
        (\<exists>i p. d = Some i \<and> I i = Some (Some m, p) \<and> q = (if p = None then [] else [i]))) \<and>
     (\<forall>i mo p. I i = Some (mo, p) \<longrightarrow>
        (\<exists>m r d q. mo = Some m \<and> M m = Some (r, d, q) \<and> (\<not> r \<longrightarrow> d = Some i) \<and> (r \<longrightarrow> p \<noteq> None)) \<and>
        (\<forall>pm. p = Some pm \<longrightarrow> (\<exists>d q. M pm = Some (False, d, q))))"

definition hier_inv :: "'a ig_heap_scheme \<Rightarrow> bool" where
  "hier_inv h \<longleftrightarrow>
     skel_ok (mod_skel h) (inst_skel h) \<and> wf {(p, m). module_up h m = Some p}"

interpretation hierarchy: parent_forest module_up hier_inv
  by unfold_locales (simp add: hier_inv_def)

lemma mod_skel_Some:
  "mod_skel h a = Some (r, d, q) \<longleftrightarrow>
     (\<exists>s m. heap h a = Some s \<and> obj_body s = Module m \<and> mod_resource m = r \<and>
            mod_default_instance m = d \<and> mod_mod_instances m = q)"
proof (cases "heap h a")
  case (Some s)
  then show ?thesis by (cases "obj_body s") (auto simp: mod_skel_def)
qed (simp add: mod_skel_def)

lemma inst_skel_Some:
  "inst_skel h a = Some (m, p) \<longleftrightarrow>
     (\<exists>s i. heap h a = Some s \<and> obj_body s = Instance i \<and> inst_module i = m \<and> inst_parent i = p)"
proof (cases "heap h a")
  case (Some s)
  then show ?thesis by (cases "obj_body s") (auto simp: inst_skel_def)
qed (simp add: inst_skel_def)

lemma skel_default:
  assumes "skel_ok M I" and "M m = Some (False, d, q)"
  shows "\<exists>i p. d = Some i \<and> I i = Some (Some m, p) \<and> q = (if p = None then [] else [i]) \<and> up_of M I m = p"
  using assms by (fastforce simp: skel_ok_def up_of_def)

lemma skel_parent:
  assumes "skel_ok M I" and "I i = Some (mo, Some pm)"
  shows "\<exists>d q. M pm = Some (False, d, q)"
  using assms unfolding skel_ok_def by blast

section \<open>Walks\<close>

text \<open>Default instance and module, alternating, from the root down to the module.\<close>

definition default_at :: "'a ig_heap_scheme \<Rightarrow> addr \<Rightarrow> addr" where
  "default_at h m = (case mod_skel h m of Some (_, Some i, _) \<Rightarrow> i | _ \<Rightarrow> m)"

definition hier_objs :: "'a ig_heap_scheme \<Rightarrow> addr list \<Rightarrow> addr list" where
  "hier_objs h ps = concat (map (\<lambda>m. [default_at h m, m]) (rev ps))"

text \<open>The info the loop creates above a module and above an instance.\<close>

definition next_inst :: "bool \<Rightarrow> ig_lib_connection_info \<Rightarrow> addr \<Rightarrow> ig_lib_connection_info" where
  "next_inst copy_first c i =
     \<lparr>ci_obj = i, ci_parent_name = None,
      ci_local_name = (if copy_first then ci_local_name c else None), ci_is_explicit = False,
      ci_force_name = (copy_first \<and> ci_force_name c), ci_dir = ci_dir c,
      ci_invert = (copy_first \<and> ci_invert c)\<rparr>"

definition next_mod :: "bool \<Rightarrow> ig_lib_connection_info \<Rightarrow> addr \<Rightarrow> ig_lib_connection_info" where
  "next_mod explicit_next c m =
     \<lparr>ci_obj = m, ci_parent_name = None, ci_local_name = None, ci_is_explicit = explicit_next,
      ci_force_name = False, ci_dir = ci_dir c, ci_invert = False\<rparr>"

lemma loop_module_step:
  assumes "hier_inv h" and "mod_skel h (ci_obj c) = Some (False, d, q)"
  shows "gen_hierarchy_loop h cf en (Some c) res =
         gen_hierarchy_loop h False en (Some (next_inst cf c (default_at h (ci_obj c)))) (c # res)"
proof -
  from assms obtain s m where s: "heap h (ci_obj c) = Some s" "obj_body s = Module m"
      "mod_default_instance m = d"
    by (auto simp: mod_skel_Some)
  from assms obtain i where d: "d = Some i"
    using skel_default by (fastforce simp: hier_inv_def)
  then have "default_at h (ci_obj c) = i" using assms(2) by (simp add: default_at_def)
  then show ?thesis
    using s d
    by (cases cf) (simp_all add: gen_hierarchy_loop.simps [of h _ en "Some c"] heap_get_def
          ig_lib_connection_info_new_def next_inst_def)
qed

lemma loop_instance_step:
  assumes "inst_skel h (ci_obj c) = Some (mo, p)"
  shows "gen_hierarchy_loop h cf en (Some c) res =
     (case p of None \<Rightarrow> Some (Inr (c # res))
      | Some pm \<Rightarrow> gen_hierarchy_loop h cf False (Some (next_mod en c pm)) (c # res))"
proof -
  from assms obtain s i where "heap h (ci_obj c) = Some s" "obj_body s = Instance i" "inst_parent i = p"
    by (auto simp: inst_skel_Some)
  then show ?thesis
    by (cases p; cases en) (simp_all add: gen_hierarchy_loop.simps [of h cf _ "Some c"] heap_get_def
          ig_lib_connection_info_new_def next_mod_def)
qed

lemma default_at_skel:
  assumes "hier_inv h" and "mod_skel h m = Some (False, d, q)"
  shows "inst_skel h (default_at h m) = Some (Some m, module_up h m)" "d = Some (default_at h m)"
  using skel_default [of "mod_skel h" "inst_skel h" m d q] assms
  by (auto simp: hier_inv_def module_up_def default_at_def)

lemma loop_module:
  assumes inv: "hier_inv h" and "up_path (module_up h) m ps"
    and "mod_skel h m = Some (False, d, q)" and "ci_obj c = m"
  shows "\<exists>l. gen_hierarchy_loop h cf en (Some c) res = Some (Inr (l @ res)) \<and>
             map ci_obj l = hier_objs h ps \<and> last l = c \<and> (\<forall>n \<in> set l. ci_dir n = ci_dir c)"
  using assms(2-)
proof (induction arbitrary: c cf en res d q rule: up_path.induct)
  case (root x)
  let ?n = "next_inst cf c (default_at h x)"
  have "inst_skel h (ci_obj ?n) = Some (Some x, None)"
    using default_at_skel [OF inv root.prems(1)] root.hyps by (simp add: next_inst_def)
  then have "gen_hierarchy_loop h cf en (Some c) res = Some (Inr ([?n, c] @ res))"
    using loop_module_step [OF inv, of c d q] root.prems loop_instance_step [of h ?n] by simp
  then show ?case
    using root by (intro exI [of _ "[?n, c]"]) (simp add: hier_objs_def next_inst_def)
next
  case (step x p ps)
  let ?n = "next_inst cf c (default_at h x)"
  let ?n' = "next_mod en ?n p"
  have i: "inst_skel h (ci_obj ?n) = Some (Some x, Some p)"
    using default_at_skel [OF inv step.prems(1)] step.hyps by (simp add: next_inst_def)
  then obtain d' q' where "mod_skel h p = Some (False, d', q')"
    using inv skel_parent by (fastforce simp: hier_inv_def)
  then obtain l where
    "gen_hierarchy_loop h False False (Some ?n') (?n # c # res) = Some (Inr (l @ ?n # c # res))"
    "map ci_obj l = hier_objs h ps" "\<forall>n \<in> set l. ci_dir n = ci_dir ?n'"
    using step.IH [of d' q' ?n' False False "?n # c # res"] by (auto simp: next_mod_def)
  then show ?case
    using loop_module_step [OF inv, of c d q] step.prems loop_instance_step [OF i]
    by (intro exI [of _ "l @ [?n, c]"]) (simp add: hier_objs_def next_inst_def next_mod_def)
qed

text \<open>The whole walk, from a module that is no resource, from a resource, and from an instance.\<close>

lemma gen_hierarchy_module:
  assumes inv: "hier_inv h" and m: "mod_skel h (ci_obj c) = Some (False, d, q)"
    and path: "up_path (module_up h) (ci_obj c) ps"
  shows "\<exists>l. ig_lib_gen_hierarchy h c = Inr l \<and> map ci_obj l = hier_objs h ps \<and> last l = c \<and>
             (\<forall>n \<in> set l. ci_dir n = ci_dir c)"
proof -
  from m obtain s mb where "heap h (ci_obj c) = Some s" "obj_body s = Module mb" "\<not> mod_resource mb"
    by (auto simp: mod_skel_Some)
  moreover obtain l where "gen_hierarchy_loop h True False (Some c) [] = Some (Inr (l @ []))"
      "map ci_obj l = hier_objs h ps" "last l = c" "\<forall>n \<in> set l. ci_dir n = ci_dir c"
    using loop_module [OF inv path m refl, of True False "[]"] by auto
  ultimately show ?thesis by (simp add: ig_lib_gen_hierarchy_def heap_get_def)
qed

lemma gen_hierarchy_resource:
  assumes inv: "hier_inv h" and m: "mod_skel h (ci_obj c) = Some (True, d, q)"
  shows "ig_lib_gen_hierarchy h c = Inr [c]"
proof -
  from m obtain s mb where s: "heap h (ci_obj c) = Some s" "obj_body s = Module mb" "mod_resource mb"
      "mod_default_instance mb = d"
    by (auto simp: mod_skel_Some)
  moreover have "d = None" using inv m unfolding hier_inv_def skel_ok_def by blast
  ultimately show ?thesis
    by (simp add: ig_lib_gen_hierarchy_def heap_get_def gen_hierarchy_loop.simps [of h _ _ "Some c"])
qed

lemma gen_hierarchy_default_instance:
  assumes inv: "hier_inv h" and i: "inst_skel h (ci_obj c) = Some (Some m, p)"
    and m: "mod_skel h m = Some (False, d, q)"
  shows "ig_lib_gen_hierarchy h c = ig_lib_gen_hierarchy h (c\<lparr>ci_obj := m\<rparr>)"
proof -
  from i obtain s ib where "heap h (ci_obj c) = Some s" "obj_body s = Instance ib" "inst_module ib = Some m"
    by (auto simp: inst_skel_Some)
  moreover from m obtain s' mb where "heap h m = Some s'" "obj_body s' = Module mb" "\<not> mod_resource mb"
    by (auto simp: mod_skel_Some)
  ultimately show ?thesis by (simp add: ig_lib_gen_hierarchy_def heap_get_def fetch_def)
qed

lemma gen_hierarchy_resource_instance:
  assumes inv: "hier_inv h" and i: "inst_skel h (ci_obj c) = Some (Some m, Some pm)"
    and m: "mod_skel h m = Some (True, d, q)"
    and path: "up_path (module_up h) pm ps"
  shows "\<exists>l. ig_lib_gen_hierarchy h c = Inr (l @ [c]) \<and> map ci_obj l = hier_objs h ps \<and>
             ci_is_explicit (last l) \<and> (\<forall>n \<in> set l. ci_dir n = ci_dir c)"
proof -
  from i obtain s ib where s: "heap h (ci_obj c) = Some s" "obj_body s = Instance ib" "inst_module ib = Some m"
    by (auto simp: inst_skel_Some)
  moreover from m obtain s' mb where "heap h m = Some s'" "obj_body s' = Module mb" "mod_resource mb"
    by (auto simp: mod_skel_Some)
  moreover obtain d' q' where "mod_skel h pm = Some (False, d', q')"
    using inv i skel_parent by (fastforce simp: hier_inv_def)
  then obtain l where "gen_hierarchy_loop h False False (Some (next_mod True c pm)) [c] = Some (Inr (l @ [c]))"
      "map ci_obj l = hier_objs h ps" "last l = next_mod True c pm" "\<forall>n \<in> set l. ci_dir n = ci_dir c"
    using loop_module [OF inv path, of d' q' "next_mod True c pm" False False "[c]"]
    by (auto simp: next_mod_def)
  ultimately show ?thesis
    using loop_instance_step [OF i, of False True "[]"]
    by (intro exI [of _ l]) (simp add: ig_lib_gen_hierarchy_def heap_get_def fetch_def next_mod_def)
qed

lemma hier_objs_nonempty: "ps \<noteq> [] \<Longrightarrow> hier_objs h ps = default_at h (last ps) # last ps # tl (tl (hier_objs h ps))"
  by (induction ps rule: rev_induct) (auto simp: hier_objs_def)

text \<open>Every walk from a live module or instance returns, and not empty-handed.\<close>

lemma gen_hierarchy_total:
  assumes inv: "hier_inv h" and "mod_skel h (ci_obj c) \<noteq> None \<or> inst_skel h (ci_obj c) \<noteq> None"
  shows "\<exists>l. ig_lib_gen_hierarchy h c = Inr l \<and> l \<noteq> [] \<and> (\<forall>n \<in> set l. ci_dir n = ci_dir c)"
proof -
  have mod: "\<exists>l. ig_lib_gen_hierarchy h c = Inr l \<and> l \<noteq> [] \<and> (\<forall>n \<in> set l. ci_dir n = ci_dir c)"
    if m: "mod_skel h (ci_obj c) = Some (r, d, q)" for c :: ig_lib_connection_info and r d q
  proof (cases r)
    case True
    with m gen_hierarchy_resource [OF inv] show ?thesis by auto
  next
    case False
    obtain ps where path: "up_path (module_up h) (ci_obj c) ps"
      using hierarchy.path_exists [OF inv] by blast
    then obtain l where "ig_lib_gen_hierarchy h c = Inr l" "map ci_obj l = hier_objs h ps"
        "\<forall>n \<in> set l. ci_dir n = ci_dir c"
      using gen_hierarchy_module [OF inv _ path] m False by auto
    moreover have "hier_objs h ps \<noteq> []"
      using up_path_hd [OF path] hier_objs_nonempty [of ps h] by auto
    ultimately show ?thesis by auto
  qed
  show ?thesis
  proof (cases "mod_skel h (ci_obj c)")
    case (Some x)
    then show ?thesis using mod [of c] by (cases x) auto
  next
    case None
    then obtain mo p where i: "inst_skel h (ci_obj c) = Some (mo, p)" using assms(2) by auto
    then obtain m r d q where m: "mo = Some m" "mod_skel h m = Some (r, d, q)" "r \<longrightarrow> p \<noteq> None"
      using inv unfolding hier_inv_def skel_ok_def by blast
    show ?thesis
    proof (cases r)
      case True
      with m obtain pm where p: "p = Some pm" by auto
      obtain ps where "up_path (module_up h) pm ps" using hierarchy.path_exists [OF inv] by blast
      then obtain l where "ig_lib_gen_hierarchy h c = Inr (l @ [c])" "\<forall>n \<in> set l. ci_dir n = ci_dir c"
        using gen_hierarchy_resource_instance [OF inv, of c m pm d q] i m True p by auto
      then show ?thesis by (intro exI [of _ "l @ [c]"]) auto
    next
      case False
      then have "ig_lib_gen_hierarchy h c = ig_lib_gen_hierarchy h (c\<lparr>ci_obj := m\<rparr>)"
        using gen_hierarchy_default_instance [OF inv, of c m p d q] i m by auto
      then show ?thesis using mod [of "c\<lparr>ci_obj := m\<rparr>"] m by auto
    qed
  qed
qed

text \<open>The cycle check compares ids; the root it looks at is the default instance of the root.\<close>

lemma check_cycle_eq:
  assumes inv: "hier_inv db" and m: "mod_skel db parent = Some (False, d, q)"
    and path: "up_path (module_up db) parent ps" and c: "heap db child = Some sc"
  shows "\<exists>r. heap db (default_at db (last ps)) = Some r \<and>
             ig_lib_check_cycle db (Some child) (Some parent) = Inr (obj_id r = obj_id sc)"
proof -
  let ?start = "\<lparr>ci_obj = parent, ci_parent_name = None, ci_local_name = None,
    ci_is_explicit = False, ci_force_name = False, ci_dir = IG_LCDIR_DEFAULT, ci_invert = False\<rparr>"
  obtain l where l: "ig_lib_gen_hierarchy db ?start = Inr l" "map ci_obj l = hier_objs db ps"
    using gen_hierarchy_module [OF inv, of ?start d q ps] m path by auto
  have "ps \<noteq> []" using up_path_hd [OF path] by auto
  then have first: "map ci_obj l = default_at db (last ps) # last ps # tl (tl (hier_objs db ps))"
    using hier_objs_nonempty [of ps db] l(2) by simp
  obtain root rest where root: "l = root # rest" "ci_obj root = default_at db (last ps)"
    using map_eq_Cons_D [OF first] by auto
  have "last ps \<in> set ps" using \<open>ps \<noteq> []\<close> by simp
  have "\<exists>d q. mod_skel db (last ps) = Some (False, d, q)"
    using path m
  proof (induction arbitrary: d q rule: up_path.induct)
    case (step x p ps)
    have "inst_skel db (default_at db x) = Some (Some x, Some p)"
      using default_at_skel [OF inv step.prems] step.hyps by simp
    then obtain d' q' where "mod_skel db p = Some (False, d', q')"
      using inv skel_parent by (fastforce simp: hier_inv_def)
    then show ?case using step.IH up_path_hd [OF step.hyps(2)] by auto
  qed auto
  then obtain d' q' where "mod_skel db (last ps) = Some (False, d', q')" by blast
  then have "inst_skel db (default_at db (last ps)) \<noteq> None" using default_at_skel [OF inv] by auto
  then obtain r where "heap db (default_at db (last ps)) = Some r"
    by (auto simp: inst_skel_def split: option.splits)
  with l root c show ?thesis
    by (auto simp: ig_lib_check_cycle_def ig_lib_connection_info_new_def heap_get_def)
qed

end
