(* ===== verification/Ig_Ops.thy ===== *)
theory Ig_Ops
  imports Ig_Forest "HOL-Library.Multiset"
begin

text \<open>
  The database invariant \<open>db_inv\<close> and the operations that hang one new object below an existing
  one: ports, pins, codesections, regfile entries and registers, and the declarations, parameters
  and adjustments of the tree traversals. All of them end in the same state \<open>attached\<close> and are
  shown equal to it; the invariant is proved once for that state.
\<close>

section \<open>Headers\<close>

definition hdr_ok :: "ig_object_type \<Rightarrow> 'a ig_object_scheme \<Rightarrow> bool" where
  "hdr_ok t obj \<longleftrightarrow>
     id_ok t (obj_name obj) (obj_id obj) \<and>
     obj_attributes obj ''id'' = Some \<lparr>attr_constant = True, attr_value = obj_id obj\<rparr> \<and>
     obj_attributes obj ''name'' = Some \<lparr>attr_constant = True, attr_value = obj_name obj\<rparr> \<and>
     obj_attributes obj ''type'' = Some \<lparr>attr_constant = True, attr_value = ig_obj_type_name t\<rparr>"

lemma header_ok_hdr: "header_ok s = hdr_ok (obj_type s) s"
  by (simp add: header_ok_def hdr_ok_def)

lemma attr_set_same:
  "obj_id (snd (attr_set obj n v c)) = obj_id obj"
  "obj_name (snd (attr_set obj n v c)) = obj_name obj"
  "obj_refcount (snd (attr_set obj n v c)) = obj_refcount obj"
  by (auto simp: attr_set_def Let_def split: option.split)

lemma attr_set_body: "obj_body (snd (attr_set s n v c)) = obj_body s"
  by (auto simp: attr_set_def Let_def split: option.split)

text \<open>A constant attribute never changes.\<close>

lemma attr_set_constant:
  "obj_attributes obj n = Some at \<Longrightarrow> attr_constant at \<Longrightarrow>
     obj_attributes (snd (attr_set obj n' v c)) n = Some at"
  by (auto simp: attr_set_def Let_def split: option.split)

lemma hdr_ok_attr_set: "hdr_ok t obj \<Longrightarrow> hdr_ok t (snd (attr_set obj n v c))"
  by (simp add: hdr_ok_def attr_set_same attr_set_constant)

lemma attr_const_same [simp]:
  "obj_id (attr_const obj n v) = obj_id obj"
  "obj_name (attr_const obj n v) = obj_name obj"
  "obj_refcount (attr_const obj n v) = obj_refcount obj"
  by (simp_all add: attr_const_def attr_set_same)

lemma hdr_ok_attr_const: "hdr_ok t obj \<Longrightarrow> hdr_ok t (attr_const obj n v)"
  by (simp add: attr_const_def hdr_ok_attr_set)

lemma init_same [simp]:
  "obj_id (ig_obj_init t nm plist) = make_id t plist nm"
  "obj_name (ig_obj_init t nm plist) = nm"
  "obj_refcount (ig_obj_init t nm plist) = 0"
  by (simp_all add: ig_obj_init_def Let_def attr_set_def attr_str_def attr_get_def)

lemma id_ok_make_id: "t \<noteq> IG_OBJ_MODULE \<or> plist = [] \<Longrightarrow> id_ok t nm (make_id t plist nm)"
  by (auto simp: id_ok_def make_id_def plist_id_def)

lemma hdr_ok_init: "t \<noteq> IG_OBJ_MODULE \<or> plist = [] \<Longrightarrow> hdr_ok t (ig_obj_init t nm plist)"
proof -
  assume "t \<noteq> IG_OBJ_MODULE \<or> plist = []"
  then have "id_ok t nm (make_id t plist nm)" by (rule id_ok_make_id)
  then show ?thesis
    by (cases "plist = []")
       (simp_all add: hdr_ok_def ig_obj_init_def Let_def attr_set_def attr_str_def attr_get_def)
qed

lemma struct_of_same [simp]:
  "obj_id (struct_of obj b) = obj_id obj" "obj_name (struct_of obj b) = obj_name obj"
  "obj_refcount (struct_of obj b) = obj_refcount obj" "obj_body (struct_of obj b) = b"
  "obj_attributes (struct_of obj b) = obj_attributes obj"
  "obj_type (struct_of obj b) = body_type b"
  by (simp_all add: struct_of_def obj_type_def)

lemma header_ok_struct_of: "hdr_ok (body_type b) obj \<Longrightarrow> header_ok (struct_of obj b)"
  by (simp add: header_ok_hdr hdr_ok_def)

section \<open>The database invariant\<close>

text \<open>
  Whatever a table holds is also reachable by a name table or a queue, and is no default instance
  that waits for its parent.
\<close>

definition anch_inv :: "ig_lib_db \<Rightarrow> bool" where
  "anch_inv db \<longleftrightarrow>
     (\<forall>t k x. tables db t k = Some x \<longrightarrow> anchored db x \<and> (\<forall>mo. inst_skel db x \<noteq> Some (mo, None)))"

text \<open>Every module is filed under its name.\<close>

definition listed :: "addr \<Rightarrow> ig_struct \<Rightarrow> ig_lib_db \<Rightarrow> bool" where
  "listed x s db \<longleftrightarrow> (obj_type s = IG_OBJ_MODULE \<longrightarrow> tables db Modules_by_name (obj_name s) = Some x)"

definition mods_inv :: "ig_lib_db \<Rightarrow> bool" where
  "mods_inv db \<longleftrightarrow> (\<forall>x s. heap db x = Some s \<longrightarrow> listed x s db)"

text \<open>
  The id of a default instance is determined by the name of its module. What is live stays live
  and keeps its id, its name and its type: \<open>keeps\<close>.
\<close>

definition default_id :: "string \<Rightarrow> string" where
  "default_id nm = ''instance##'' @ nm"

lemma default_id_inj [simp]: "default_id a = default_id b \<longleftrightarrow> a = b"
  by (simp add: default_id_def)

definition default_named :: "'a ig_heap_scheme \<Rightarrow> bool" where
  "default_named h \<longleftrightarrow>
     (\<forall>m r i q sm si. mod_skel h m = Some (r, Some i, q) \<longrightarrow> heap h m = Some sm \<longrightarrow>
        heap h i = Some si \<longrightarrow> obj_id si = default_id (obj_name sm))"

definition keeps :: "'a ig_heap_scheme \<Rightarrow> 'a ig_heap_scheme \<Rightarrow> bool" where
  "keeps h h' \<longleftrightarrow>
     (\<forall>x s. heap h x = Some s \<longrightarrow>
        (\<exists>s'. heap h' x = Some s' \<and> obj_id s' = obj_id s \<and> obj_name s' = obj_name s \<and>
              obj_type s' = obj_type s))"

lemma keepsD: "keeps h h' \<Longrightarrow> heap h x = Some s \<Longrightarrow>
    \<exists>s'. heap h' x = Some s' \<and> obj_id s' = obj_id s \<and> obj_name s' = obj_name s \<and> obj_type s' = obj_type s"
  by (simp add: keeps_def)

lemma keeps_refl: "keeps h h"
  by (simp add: keeps_def)

lemma keeps_trans: "keeps h h' \<Longrightarrow> keeps h' h'' \<Longrightarrow> keeps h h''"
  unfolding keeps_def by metis

lemma keeps_type_at: "keeps h h' \<Longrightarrow> type_at h \<subseteq>\<^sub>m type_at h'"
  by (fastforce simp: map_le_def type_at_def dom_def dest: keepsD)

lemma default_named_keeps:
  assumes k: "keeps h h'" and ok: "heap_ok h"
    and sub: "\<And>m r i q. mod_skel h' m = Some (r, Some i, q) \<Longrightarrow> \<exists>r q. mod_skel h m = Some (r, Some i, q)"
    and n: "default_named h"
  shows "default_named h'"
  unfolding default_named_def
proof (intro allI impI)
  fix m r i q sm si
  assume m: "mod_skel h' m = Some (r, Some i, q)" "heap h' m = Some sm" "heap h' i = Some si"
  obtain r' q' where m': "mod_skel h m = Some (r', Some i, q')" using sub [OF m(1)] by blast
  then obtain sm' mb where sm': "heap h m = Some sm'" "obj_body sm' = Module mb" "mod_default_instance mb = Some i"
    by (auto simp: mod_skel_Some)
  then obtain si' where si': "heap h i = Some si'"
    using heap_okD [OF ok sm'(1)] by (auto simp: module_ok_def type_at_Some)
  have "obj_id si' = default_id (obj_name sm')" 
    using n m' sm'(1) si' unfolding default_named_def by blast
  then show "obj_id si = default_id (obj_name sm)"
    using keepsD [OF k sm'(1)] keepsD [OF k si'] m(2,3) by simp
qed

definition db_inv :: "ig_lib_db \<Rightarrow> bool" where
  "db_inv db \<longleftrightarrow> base_inv 0 0 db \<and> hier_inv db \<and> anch_inv db \<and> mods_inv db \<and> default_named db"

lemma db_invD: "db_inv db \<Longrightarrow> base_inv 0 0 db" "db_inv db \<Longrightarrow> hier_inv db" "db_inv db \<Longrightarrow> anch_inv db"
  "db_inv db \<Longrightarrow> heap_ok db" "db_inv db \<Longrightarrow> tables_ok db" "db_inv db \<Longrightarrow> mods_inv db"
  "db_inv db \<Longrightarrow> default_named db"
  by (auto simp: db_inv_def base_inv_def)

lemma anchored_mono:
  assumes "\<And>t k. table_is_name t \<Longrightarrow> tables db t k = Some x \<Longrightarrow> tables db' t k = Some x"
    and "\<And>b. set (owned_at db b) \<subseteq> set (owned_at db' b)" and "anchored db x"
  shows "anchored db' x"
  using assms unfolding anchored_def by blast

text \<open>Live objects that no table and no queue leads to, and operations that leave no such object
  behind.\<close>

definition waste :: "ig_lib_db \<Rightarrow> addr set" where
  "waste db = {x. heap db x \<noteq> None \<and> \<not> anchored db x}"

lemma waste_mono:
  assumes names: "\<And>t k x. table_is_name t \<Longrightarrow> tables db t k = Some x \<Longrightarrow> tables db' t k = Some x"
    and own: "\<And>b. set (owned_at db b) \<subseteq> set (owned_at db' b)"
    and new: "\<And>x. heap db' x \<noteq> None \<Longrightarrow> heap db x = None \<Longrightarrow> anchored db' x"
  shows "waste db' \<subseteq> waste db"
proof
  fix x assume x: "x \<in> waste db'"
  then have "heap db x \<noteq> None" using new by (auto simp: waste_def)
  moreover have "\<not> anchored db x"
    using anchored_mono [OF names own] x by (auto simp: waste_def)
  ultimately show "x \<in> waste db" by (simp add: waste_def)
qed

lemma hier_inv_cong:
  assumes "mod_skel h' = mod_skel h" and "inst_skel h' = inst_skel h" and "hier_inv h"
  shows "hier_inv h'"
  using assms by (simp add: hier_inv_def module_up_def)

lemma skel_next_addr [simp]:
  "mod_skel (h\<lparr>next_addr := n\<rparr>) = mod_skel h" "inst_skel (h\<lparr>next_addr := n\<rparr>) = inst_skel h"
  by (simp_all add: mod_skel_def inst_skel_def fun_eq_iff)

lemma skel_set_table [simp]:
  "mod_skel (set_table t m db) = mod_skel db" "inst_skel (set_table t m db) = inst_skel db"
  by (simp_all add: mod_skel_def inst_skel_def fun_eq_iff)

lemma anchored_next_addr [simp]: "anchored (db\<lparr>next_addr := n\<rparr>) x = anchored db x"
  by (simp add: anchored_def owned_at_def)

lemma default_named_next_addr: "default_named (h\<lparr>next_addr := n\<rparr>) = default_named h"
proof -
  have "heap (h\<lparr>next_addr := n\<rparr>) = heap h" by simp
  then show ?thesis unfolding default_named_def skel_next_addr by (simp only:)
qed

lemma db_inv_skip:
  assumes "db_inv db" shows "db_inv (db\<lparr>next_addr := Suc (next_addr db)\<rparr>)"
  unfolding db_inv_def
proof (intro conjI)
  show "base_inv 0 0 (db\<lparr>next_addr := Suc (next_addr db)\<rparr>)"
    using assms by (intro base_inv_skip [of 0]) (simp add: db_inv_def)
  show "hier_inv (db\<lparr>next_addr := Suc (next_addr db)\<rparr>)"
    by (rule hier_inv_cong [of _ db]) (use assms in \<open>simp_all add: db_inv_def\<close>)
  show "anch_inv (db\<lparr>next_addr := Suc (next_addr db)\<rparr>)"
    using assms by (simp add: db_inv_def anch_inv_def)
  show "mods_inv (db\<lparr>next_addr := Suc (next_addr db)\<rparr>)"
    using assms by (simp add: db_inv_def mods_inv_def listed_def)
  show "default_named (db\<lparr>next_addr := Suc (next_addr db)\<rparr>)"
    using db_invD(7) [OF assms] by (simp only: default_named_next_addr)
qed

section \<open>One new object below an existing one\<close>

definition attached :: "addr \<Rightarrow> ig_body \<Rightarrow> ig_struct \<Rightarrow> ig_lib_db \<Rightarrow> ig_lib_db" where
  "attached b bp s db =
     set_table Objects_by_id ((tables db Objects_by_id)(obj_id s \<mapsto> next_addr db))
       (put b ((the (heap db b))\<lparr>obj_body := bp\<rparr>) (allocd (s\<lparr>obj_refcount := 2\<rparr>) db))"

text \<open>A new struct, ready to be attached: its header is complete and it owns nothing.\<close>

definition new_leaf :: "ig_struct \<Rightarrow> bool" where
  "new_leaf s \<longleftrightarrow> header_ok s \<and> owned (obj_body s) = [] \<and> obj_refcount s = 0"

definition gains :: "addr \<Rightarrow> ig_body \<Rightarrow> ig_body \<Rightarrow> bool" where
  "gains a bp b \<longleftrightarrow> body_type bp = body_type b \<and>
     (\<forall>x. count_list (owned bp) x = count_list (owned b) x + (if x = a then 1 else 0))"

lemma gainsI:
  assumes "body_type bp = body_type b" and "mset (owned bp) = add_mset a (mset (owned b))"
  shows "gains a bp b"
  using assms by (simp add: gains_def flip: count_mset)

lemma count_pos_mem: "count_list xs x \<noteq> 0 \<Longrightarrow> x \<in> set xs"
  by (induction xs) (auto split: if_splits)

lemma base_inv_attached:
  assumes inv: "base_inv 0 0 db" and s: "new_leaf s"
    and b: "heap db b = Some sp" and g: "gains (next_addr db) bp (obj_body sp)"
    and ok: "body_ok (type_at (allocd s db)) (obj_body s)" "body_ok (type_at (allocd s db)) bp"
    and free: "tables db Objects_by_id (obj_id s) = None"
  shows "base_inv 0 0 (attached b bp s db)"
proof -
  let ?a = "next_addr db"
  let ?s1 = "s\<lparr>obj_refcount := 1\<rparr>" and ?s2 = "s\<lparr>obj_refcount := 2\<rparr>"
  let ?sp = "sp\<lparr>obj_body := bp\<rparr>"
  let ?db1 = "allocd s db"
  let ?db2 = "put b ?sp ?db1" let ?db3 = "put ?a ?s1 ?db2"
  let ?db4 = "set_table Objects_by_id ((tables ?db3 Objects_by_id)(obj_id s \<mapsto> ?a)) ?db3"
  let ?db5 = "put ?a ?s2 ?db4"
  have h: "heap_ok db" using inv by (simp add: base_inv_def)
  have hs: "header_ok s" "header_ok ?s1" "header_ok ?s2"
    using s by (simp_all add: new_leaf_def header_ok_def obj_type_def)
  have ba: "b \<noteq> ?a" using heap_okD [OF h b] by auto
  have ty2: "type_at ?db2 = type_at ?db1"
    by (rule type_at_put [of _ _ sp]) (use b ba g in \<open>auto simp: obj_type_def gains_def\<close>)
  have ty3: "type_at ?db3 = type_at ?db1"
    by (subst type_at_put [of _ _ s]) (use ba ty2 in \<open>simp_all add: obj_type_def\<close>)
  have 1: "base_inv ?a 0 ?db1" using inv hs(1) ok(1) s by (intro base_inv_alloc) (auto simp: new_leaf_def)
  have 2: "base_inv ?a (- 1) ?db2"
    by (rule base_inv_put [OF 1, where s = sp and k = 1 and d = 0])
       (use b ba g ok heap_okD [OF h b] in \<open>auto simp: gains_def obj_type_def header_ok_def\<close>)
  have 3: "base_inv ?a 0 ?db3"
    by (rule base_inv_put [OF 2, where s = s and k = 0 and d = 1])
       (use ba hs ok ty2 s in \<open>auto simp: new_leaf_def obj_type_def\<close>)
  have 4: "base_inv ?a (0 - 1) ?db4"
    by (rule base_inv_set_table [OF 3, where s = ?s1]) (use free in \<open>simp_all add: entry_ok_def\<close>)
  have 5: "base_inv ?a 0 ?db5"
    by (rule base_inv_put [OF 4, where s = ?s1 and k = 0 and d = 1])
       (use ba hs ok ty3 s in \<open>auto simp: new_leaf_def obj_type_def\<close>)
  have "?db5 = attached b bp s db"
    using ba b by (simp add: attached_def put_def set_table_def fun_upd_twist)
  with base_inv_zero [OF 5] show ?thesis by simp
qed

lemma attached_heap:
  "heap (attached b bp s db) =
     (heap db)(next_addr db \<mapsto> s\<lparr>obj_refcount := 2\<rparr>, b \<mapsto> (the (heap db b))\<lparr>obj_body := bp\<rparr>)"
  by (simp add: attached_def)

lemma attached_tables:
  "tables (attached b bp s db) =
     (tables db)(Objects_by_id := (tables db Objects_by_id)(obj_id s \<mapsto> next_addr db))"
  by (simp add: attached_def)

definition same_skel :: "ig_body \<Rightarrow> ig_body \<Rightarrow> bool" where
  "same_skel b b' \<longleftrightarrow>
     map_option (\<lambda>m. (mod_resource m, mod_default_instance m, mod_mod_instances m)) (as_module b) =
     map_option (\<lambda>m. (mod_resource m, mod_default_instance m, mod_mod_instances m)) (as_module b') \<and>
     map_option (\<lambda>i. (inst_module i, inst_parent i)) (as_instance b) =
     map_option (\<lambda>i. (inst_module i, inst_parent i)) (as_instance b')"

lemma skel_attached:
  assumes "heap_ok db" "heap db b = Some sp" "same_skel bp (obj_body sp)"
    and "as_module (obj_body s) = None" "as_instance (obj_body s) = None"
  shows "mod_skel (attached b bp s db) = mod_skel db" "inst_skel (attached b bp s db) = inst_skel db"
  using assms heap_ok_fresh [OF assms(1)] heap_okD [OF assms(1,2)]
  by (auto simp: fun_eq_iff mod_skel_def inst_skel_def attached_heap same_skel_def)

theorem db_inv_attached:
  assumes inv: "db_inv db" and s: "new_leaf s"
    and b: "heap db b = Some sp" and g: "gains (next_addr db) bp (obj_body sp)"
    and ok: "body_ok (type_at (allocd s db)) (obj_body s)" "body_ok (type_at (allocd s db)) bp"
    and free: "tables db Objects_by_id (obj_id s) = None"
    and skel: "same_skel bp (obj_body sp)" "as_module (obj_body s) = None" "as_instance (obj_body s) = None"
  shows "db_inv (attached b bp s db)" and "keeps db (attached b bp s db)"
    and "waste (attached b bp s db) \<subseteq> waste db"
proof -
  let ?db = "attached b bp s db"
  note h = db_invD(4) [OF inv]
  have ba: "b \<noteq> next_addr db" using heap_okD [OF h b] by auto
  have fresh: "heap db (next_addr db) = None" using h by (rule heap_ok_fresh)
  note sk = skel_attached [OF h b skel]
  have own: "set (owned_at db c) \<subseteq> set (owned_at ?db c)" for c
  proof (cases "c = b")
    case True
    have "set (owned (obj_body sp)) \<subseteq> set (owned bp)"
    proof
      fix x assume "x \<in> set (owned (obj_body sp))"
      then show "x \<in> set (owned bp)"
        using g count_list_0_iff [of "owned (obj_body sp)" x]
        by (intro count_pos_mem) (simp add: gains_def)
    qed
    with True b show ?thesis by (simp add: owned_at_def attached_heap)
  qed (use fresh in \<open>auto simp: owned_at_def attached_heap\<close>)
  have "anch_inv ?db"
    unfolding anch_inv_def
  proof (intro allI impI)
    fix t k x assume x: "tables ?db t k = Some x"
    show "anchored ?db x \<and> (\<forall>mo. inst_skel ?db x \<noteq> Some (mo, None))"
    proof (cases "x = next_addr db")
      case True
      have "x \<in> set (owned bp)" using g True by (intro count_pos_mem) (simp add: gains_def)
      then have "x \<in> set (owned_at ?db b)" by (simp add: owned_at_def attached_heap)
      moreover have "inst_skel ?db x = None" unfolding sk(2) using True fresh by (simp add: inst_skel_def)
      ultimately show ?thesis by (auto simp: anchored_def)
    next
      case False
      then have "tables db t k = Some x" using x by (auto simp: attached_tables split: if_splits)
      with inv have "anchored db x" "\<forall>mo. inst_skel db x \<noteq> Some (mo, None)"
        by (auto simp: db_inv_def anch_inv_def)
      moreover have "anchored ?db x"
        by (rule anchored_mono [OF _ own \<open>anchored db x\<close>]) (auto simp: attached_tables)
      ultimately show ?thesis by (simp add: sk)
    qed
  qed
  moreover have "hier_inv ?db" using sk db_invD(2) [OF inv] by (rule hier_inv_cong)
  moreover have "base_inv 0 0 ?db"
    using db_invD(1) [OF inv] s b g ok free by (rule base_inv_attached)
  moreover have "mods_inv ?db"
    unfolding mods_inv_def
  proof (intro allI impI)
    fix x sx assume x: "heap ?db x = Some sx"
    show "listed x sx ?db"
    proof (cases "x = next_addr db")
      case True
      then show ?thesis
        using x ba skel(2) by (cases "obj_body s") (auto simp: attached_heap listed_def obj_type_def)
    next
      case False
      then obtain s' where "heap db x = Some s'" "obj_type sx = obj_type s'" "obj_name sx = obj_name s'"
        using x b g by (cases "x = b") (auto simp: attached_heap obj_type_def gains_def)
      then show ?thesis
        using db_invD(6) [OF inv] by (auto simp: mods_inv_def listed_def attached_tables)
    qed
  qed
  moreover have keeps: "keeps db ?db"
    unfolding keeps_def
  proof (intro allI impI)
    fix x sx assume x: "heap db x = Some sx"
    have "x \<noteq> next_addr db" using x fresh by auto
    then show "\<exists>s'. heap ?db x = Some s' \<and> obj_id s' = obj_id sx \<and> obj_name s' = obj_name sx \<and>
                 obj_type s' = obj_type sx"
      using x b g by (cases "x = b") (auto simp: attached_heap obj_type_def gains_def)
  qed
  moreover from keeps have "default_named ?db"
    using h by (rule default_named_keeps) (use db_invD(7) [OF inv] in \<open>auto simp: sk\<close>)
  ultimately show "db_inv ?db" by (simp add: db_inv_def)
  show "keeps db ?db" by (rule keeps)
  show "waste ?db \<subseteq> waste db"
  proof (rule waste_mono [OF _ own])
    fix x assume "heap ?db x \<noteq> None" "heap db x = None"
    then have "x = next_addr db" using b by (auto simp: attached_heap split: if_splits)
    then have "x \<in> set (owned bp)" using g by (intro count_pos_mem) (simp add: gains_def)
    then have "x \<in> set (owned_at ?db b)" by (simp add: owned_at_def attached_heap)
    then show "anchored ?db x" by (auto simp: anchored_def)
  qed (auto simp: attached_tables)
qed

end
