(* ===== verification/Ig_Attr.thy ===== *)
theory Ig_Attr
  imports Ig_Ops
begin

text \<open>
  Properties of single objects: attributes, which are written once when they are constant, the
  ids made of type and names, the header of a new object, and reference counting.
\<close>

section \<open>Attributes\<close>

lemma attr_get_set:
  "attr_get (snd (attr_set s n v c)) k =
     (if k = n \<and> fst (attr_set s n v c) then Some v else attr_get s k)"
  by (simp add: attr_set_def attr_get_def Let_def split: option.split)

lemma attr_set_ok: "fst (attr_set s n v c) \<longleftrightarrow> (\<forall>at. obj_attributes s n = Some at \<longrightarrow> \<not> attr_constant at)"
  by (simp add: attr_set_def Let_def split: option.split)

text \<open>Setting an attribute fails exactly when a constant one of that name exists, and then nothing
  changes; otherwise the name reads back as the new value, every other attribute and every other
  object stays as it is.\<close>

theorem attr_set_get:
  assumes "heap h a = Some s"
  shows "holds (ig_obj_attr_set (Some a) (Some n) (Some v) c h) (\<lambda>(ok, h').
     (ok \<longleftrightarrow> (\<forall>at. obj_attributes s n = Some at \<longrightarrow> \<not> attr_constant at)) \<and>
     (\<forall>k. ig_obj_attr_get (Some a) (Some k) h' = Inr (if ok \<and> k = n then Some v else attr_get s k)) \<and>
     (\<forall>b. b \<noteq> a \<longrightarrow> heap h' b = heap h b) \<and> (\<not> ok \<longrightarrow> heap h' = heap h))"
proof -
  have "heap (put a s h) = heap h" using assms by (simp add: fun_upd_idem)
  moreover have "\<not> fst (attr_set s n v c) \<Longrightarrow> snd (attr_set s n v c) = s"
    by (auto simp: attr_set_def Let_def split: option.splits)
  ultimately show ?thesis
    using assms
    by (auto simp: ig_obj_attr_set_def ig_obj_attr_get_def heap_get_def split_beta attr_get_set attr_set_ok)
qed

theorem attr_set_get_witness:
  "holds (ig_obj_attr_set (Some 0) (Some ''type'') (Some ''net'') False
            (put 0 (struct_of (ig_obj_init IG_OBJ_PORT ''p'' ([] :: ig_object list)) (RfReg \<lparr>reg_parent = None\<rparr>))
              \<lparr>heap = Map.empty, next_addr = 1\<rparr>)) (\<lambda>(ok, h'). \<not> ok)"
proof -
  let ?s = "struct_of (ig_obj_init IG_OBJ_PORT ''p'' ([] :: ig_object list)) (RfReg \<lparr>reg_parent = None\<rparr>)"
  let ?h = "put 0 ?s \<lparr>heap = Map.empty, next_addr = 1\<rparr>"
  have s: "heap ?h 0 = Some ?s" by simp
  have "obj_attributes ?s ''type'' = Some \<lparr>attr_constant = True, attr_value = ''port''\<rparr>"
    using hdr_ok_init [of IG_OBJ_PORT "[] :: ig_object list" "''p''"] by (simp add: hdr_ok_def)
  then show ?thesis
    using attr_set_get [OF s, of "''type''" "''net''" False] by (auto simp: holds_iff)
qed

text \<open>Pairs of names and values, as the argument list of \<open>set_attribute\<close> has them.\<close>

fun pairs_of :: "string list \<Rightarrow> (string \<times> string) list" where
  "pairs_of (n # v # li) = (n, v) # pairs_of li"
| "pairs_of _ = []"

definition is_const :: "'a ig_object_scheme \<Rightarrow> string \<Rightarrow> bool" where
  "is_const s n \<longleftrightarrow> (\<exists>at. obj_attributes s n = Some at \<and> attr_constant at)"

definition set_pairs :: "(string \<times> string) list \<Rightarrow> 'a ig_object_scheme \<Rightarrow> 'a ig_object_scheme" where
  "set_pairs kvs s = foldl (\<lambda>s (k, v). snd (attr_set s k v False)) s kvs"

lemma is_const_set: "is_const (snd (attr_set s k v False)) n = is_const s n"
  by (auto simp: is_const_def attr_set_def Let_def split: option.split)

lemma is_const_ok: "fst (attr_set s k v False) \<longleftrightarrow> \<not> is_const s k"
  by (auto simp: is_const_def attr_set_ok)

lemma attr_set_pairs_eq:
  assumes "heap h a = Some s"
  shows "attr_set_pairs (Some a) li result h =
    Inr (result \<and> (\<forall>(k, v) \<in> set (pairs_of li). \<not> is_const s k), put a (set_pairs (pairs_of li) s) h)"
  using assms
proof (induction "Some a" li result h arbitrary: s rule: attr_set_pairs.induct)
  case (1 name val li result h)
  let ?s1 = "snd (attr_set s name val False)"
  have st: "ig_obj_attr_set (Some a) (Some name) (Some val) False h =
              Inr (\<not> is_const s name, put a ?s1 h)"
    using "1.prems" by (simp add: ig_obj_attr_set_def heap_get_def split_beta is_const_ok)
  have p: "put a x (put a y h) = put a x h" for x y by (simp add: put_def)
  have "attr_set_pairs (Some a) li (result \<and> \<not> is_const s name) (put a ?s1 h) =
     Inr ((result \<and> \<not> is_const s name) \<and> (\<forall>(k, v) \<in> set (pairs_of li). \<not> is_const ?s1 k),
          put a (set_pairs (pairs_of li) ?s1) (put a ?s1 h))"
    using "1.hyps" [OF st refl, of ?s1] by simp
  then show ?case by (simp add: st p is_const_set set_pairs_def)
qed (simp_all add: set_pairs_def put_def fun_upd_idem)

text \<open>Where the pairs are applied, a name that is not constant reads as its last value in the list.\<close>

lemma attr_get_set_pairs:
  "attr_get (set_pairs kvs s) n =
     (if is_const s n then attr_get s n
      else case map_of (rev kvs) n of Some v \<Rightarrow> Some v | None \<Rightarrow> attr_get s n)"
proof (induction kvs arbitrary: s)
  case (Cons kv kvs)
  obtain k v where kv: "kv = (k, v)" by (cases kv)
  have st: "set_pairs (kv # kvs) s = set_pairs kvs (snd (attr_set s k v False))" by (simp add: set_pairs_def kv)
  show ?case
    unfolding st Cons.IH is_const_set
    by (auto simp: attr_get_set is_const_ok kv map_add_def split: option.split)
qed (simp add: set_pairs_def)

text \<open>\<open>ig_obj_attr_set_from_gslist\<close> refuses a list of odd length untouched; otherwise constant
  attributes keep their values, every other listed name gets the last value listed for it, and the
  result says whether no constant attribute was named.\<close>

theorem attr_set_from_gslist_correct:
  assumes "heap h a = Some s"
  shows "if odd (length li)
     then ig_obj_attr_set_from_gslist (Some a) li h = Inr (False, h)
     else holds (ig_obj_attr_set_from_gslist (Some a) li h) (\<lambda>(ok, h').
       (ok \<longleftrightarrow> (\<forall>(k, v) \<in> set (pairs_of li). \<not> is_const s k)) \<and>
       (\<forall>n. ig_obj_attr_get (Some a) (Some n) h' = Inr
          (if is_const s n then attr_get s n
           else case map_of (rev (pairs_of li)) n of Some v \<Rightarrow> Some v | None \<Rightarrow> attr_get s n)))"
  using attr_set_pairs_eq [OF assms, of li True]
  by (simp add: ig_obj_attr_set_from_gslist_def odd_iff_mod_2_eq_one ig_obj_attr_get_def heap_get_def
        attr_get_set_pairs)

theorem attr_set_from_gslist_witness:
  "ig_obj_attr_set_from_gslist (Some 0) [''a''] 
     (put 0 (struct_of (ig_obj_init IG_OBJ_PORT ''p'' ([] :: ig_object list)) (RfReg \<lparr>reg_parent = None\<rparr>))
        \<lparr>heap = Map.empty, next_addr = 1\<rparr>) =
   Inr (False, put 0 (struct_of (ig_obj_init IG_OBJ_PORT ''p'' ([] :: ig_object list)) (RfReg \<lparr>reg_parent = None\<rparr>))
        \<lparr>heap = Map.empty, next_addr = 1\<rparr>)"
proof -
  let ?s = "struct_of (ig_obj_init IG_OBJ_PORT ''p'' ([] :: ig_object list)) (RfReg \<lparr>reg_parent = None\<rparr>)"
  have s: "heap (put 0 ?s \<lparr>heap = Map.empty, next_addr = 1\<rparr>) 0 = Some ?s" by simp
  show ?thesis using attr_set_from_gslist_correct [OF s, of "[''a'']"] by simp
qed

section \<open>Ids\<close>








text \<open>A new object carries its type, id and name, and the id of its last parent when it has one,
  as constant attributes that agree with the fields of the struct; it has no reference yet.\<close>

theorem obj_init_header:
  "obj_refcount (ig_obj_init t name plist) = 0 \<and> obj_name (ig_obj_init t name plist) = name \<and>
   obj_id (ig_obj_init t name plist) = make_id t plist name \<and>
   obj_attributes (ig_obj_init t name plist) =
     [''type'' \<mapsto> \<lparr>attr_constant = True, attr_value = ig_obj_type_name t\<rparr>,
      ''id'' \<mapsto> \<lparr>attr_constant = True, attr_value = make_id t plist name\<rparr>,
      ''name'' \<mapsto> \<lparr>attr_constant = True, attr_value = name\<rparr>] ++
     (if plist = [] then Map.empty
      else [''parent'' \<mapsto> \<lparr>attr_constant = True, attr_value = obj_id (last plist)\<rparr>])"
  by (simp add: ig_obj_init_def Let_def attr_set_def attr_str_def attr_get_def)

section \<open>Reference counts\<close>

text \<open>Taking a reference to a live object and dropping it again changes nothing, as long as the
  object was referenced before.\<close>

theorem ref_unref:
  assumes "heap h a = Some s" and "1 \<le> obj_refcount s"
  shows "res_bind (ig_obj_ref (Some a) h) (ig_obj_unref (Some a)) = Inr h"
proof -
  let ?h = "put a (s\<lparr>obj_refcount := obj_refcount s + 1\<rparr>) h"
  have r: "ig_obj_ref (Some a) h = Inr ?h" using assms(1) by (simp add: ig_obj_ref_def heap_get_def)
  have "ig_obj_unref (Some a) ?h = Inr (put a s ?h)"
    using ig_obj_unref_keep [of ?h a "s\<lparr>obj_refcount := obj_refcount s + 1\<rparr>"] assms by simp
  moreover have "put a s ?h = h" using assms(1) by (simp add: put_def fun_upd_idem)
  ultimately show ?thesis by (simp add: r)
qed

theorem ref_unref_witness:
  "let s = (struct_of (ig_obj_init IG_OBJ_NET ''n'' ([] :: ig_object list)) (Net \<lparr>net_objects = []\<rparr>))\<lparr>obj_refcount := 1\<rparr>;
       h = \<lparr>heap = [0 \<mapsto> s], next_addr = 1\<rparr>
   in res_bind (ig_obj_ref (Some 0) h) (ig_obj_unref (Some 0)) = Inr h"
  unfolding Let_def
  by (rule ref_unref [where s = "(struct_of (ig_obj_init IG_OBJ_NET ''n'' ([] :: ig_object list))
        (Net \<lparr>net_objects = []\<rparr>))\<lparr>obj_refcount := 1\<rparr>"]) simp_all

end
