(* ===== verification/Ig_Names.thy ===== *)
theory Ig_Names
  imports Ig_Data
begin

text \<open>
  Name generation of \<open>src/lib/ig_lib.c\<close>: the suffixes of signals, pins and ports, and their
  removal (\<open>ig_lib_gen_name_iscaps\<close>, \<open>ig_lib_gen_name_signal\<close>, \<open>ig_lib_gen_name_pinport\<close>,
  \<open>ig_lib_rm_suffix_pinport\<close>). \<open>ascii_lower\<close> and \<open>ascii_upper\<close> are the C character classes of
  the ASCII letters.
\<close>

section \<open>Definitions\<close>

definition ascii_lower :: "char \<Rightarrow> bool" where
  "ascii_lower c \<longleftrightarrow> 97 \<le> (of_char c :: nat) \<and> (of_char c :: nat) \<le> 122"

definition ascii_upper :: "char \<Rightarrow> bool" where
  "ascii_upper c \<longleftrightarrow> 65 \<le> (of_char c :: nat) \<and> (of_char c :: nat) \<le> 90"

fun iscaps_loop :: "string \<Rightarrow> bool \<Rightarrow> bool" where
  "iscaps_loop [] hasupper = hasupper"
| "iscaps_loop (c # cs) hasupper =
     (if ascii_lower c then False else iscaps_loop cs (if ascii_upper c then True else hasupper))"

definition ig_lib_gen_name_iscaps :: "string option \<Rightarrow> bool" where
  "ig_lib_gen_name_iscaps name =
     (case name of None \<Rightarrow> False | Some name \<Rightarrow> iscaps_loop name False)"

definition ig_lib_gen_name_signal :: "string \<Rightarrow> string" where
  "ig_lib_gen_name_signal basename =
     (if ig_lib_gen_name_iscaps (Some basename) then basename @ ''_S'' else basename @ ''_s'')"

definition ig_lib_gen_name_pinport :: "string \<Rightarrow> ig_port_dir \<Rightarrow> string" where
  "ig_lib_gen_name_pinport basename dir =
     (case dir of
        IG_PD_IN \<Rightarrow> if ig_lib_gen_name_iscaps (Some basename) then basename @ ''_I'' else basename @ ''_i''
      | IG_PD_OUT \<Rightarrow> if ig_lib_gen_name_iscaps (Some basename) then basename @ ''_O'' else basename @ ''_o''
      | IG_PD_BIDIR \<Rightarrow> if ig_lib_gen_name_iscaps (Some basename) then basename @ ''_B'' else basename @ ''_b'')"

text \<open>
  The character tests are those of the code: each asks one character to be three letters at once,
  so neither branch is ever taken.
\<close>

definition ig_lib_rm_suffix_pinport :: "string \<Rightarrow> string" where
  "ig_lib_rm_suffix_pinport pinportname =
     (let len = length pinportname in
      if len < 3 then pinportname
      else if pinportname ! (len - 2) \<noteq> CHR ''_'' then pinportname
      else if ig_lib_gen_name_iscaps (Some pinportname) \<and>
              pinportname ! (len - 1) = CHR ''I'' \<and> pinportname ! (len - 1) = CHR ''O'' \<and>
              pinportname ! (len - 1) = CHR ''B'' then pinportname
      else if \<not> ig_lib_gen_name_iscaps (Some pinportname) \<and>
              pinportname ! (len - 1) = CHR ''i'' \<and> pinportname ! (len - 1) = CHR ''o'' \<and>
              pinportname ! (len - 1) = CHR ''b'' then pinportname
      else take (len - 2) pinportname)"

section \<open>Lemmas\<close>

lemma iscaps_loop_eq:
  "iscaps_loop s h \<longleftrightarrow> (\<forall>c \<in> set s. \<not> ascii_lower c) \<and> (h \<or> (\<exists>c \<in> set s. ascii_upper c))"
  by (induction s arbitrary: h) auto

text \<open>The suffix letter of a direction, in the case of the name.\<close>

definition dir_letter :: "bool \<Rightarrow> ig_port_dir \<Rightarrow> char" where
  "dir_letter caps dir =
     (case dir of
        IG_PD_IN \<Rightarrow> if caps then CHR ''I'' else CHR ''i''
      | IG_PD_OUT \<Rightarrow> if caps then CHR ''O'' else CHR ''o''
      | IG_PD_BIDIR \<Rightarrow> if caps then CHR ''B'' else CHR ''b'')"

lemma gen_name_pinport_eq:
  "ig_lib_gen_name_pinport name dir = name @ [CHR ''_'', dir_letter (ig_lib_gen_name_iscaps (Some name)) dir]"
  by (simp add: ig_lib_gen_name_pinport_def dir_letter_def split: ig_port_dir.split)

lemma dir_letter_inj: "dir_letter c d = dir_letter c e \<longleftrightarrow> d = e"
  by (cases d; cases e; cases c) (simp_all add: dir_letter_def)

lemma rm_suffix_eq:
  "ig_lib_rm_suffix_pinport s =
     (if 3 \<le> length s \<and> s ! (length s - 2) = CHR ''_'' then take (length s - 2) s else s)"
  by (auto simp: ig_lib_rm_suffix_pinport_def Let_def)

section \<open>Properties\<close>

text \<open>A name counts as upper case exactly when it has no lower case letter and at least one upper
  case letter; digits and other characters do not matter.\<close>

theorem iscaps_correct:
  "ig_lib_gen_name_iscaps (Some s) \<longleftrightarrow> (\<forall>c \<in> set s. \<not> ascii_lower c) \<and> (\<exists>c \<in> set s. ascii_upper c)"
  by (simp add: ig_lib_gen_name_iscaps_def iscaps_loop_eq)

theorem iscaps_correct_witness:
  "ig_lib_gen_name_iscaps (Some ''CLK_1'') \<and> \<not> ig_lib_gen_name_iscaps (Some ''Clk'') \<and> \<not> ig_lib_gen_name_iscaps (Some ''_1'')"
  using iscaps_correct [of "''CLK_1''"] iscaps_correct [of "''Clk''"] iscaps_correct [of "''_1''"]
  by (simp add: ascii_lower_def ascii_upper_def)

text \<open>Removing the suffix undoes adding it, for every direction: the base name comes back, except
  that the suffix of the empty name is too short to be removed.\<close>

theorem rm_suffix_gen_name:
  "ig_lib_rm_suffix_pinport (ig_lib_gen_name_pinport name dir) =
     (if name = [] then ig_lib_gen_name_pinport name dir else name)"
  by (cases name) (auto simp: rm_suffix_eq gen_name_pinport_eq nth_append)

text \<open>Generated pin and port names never collide: the name determines the base name and the
  direction.\<close>

theorem gen_name_pinport_inj:
  "ig_lib_gen_name_pinport a d = ig_lib_gen_name_pinport b e \<longleftrightarrow> a = b \<and> d = e"
  by (auto simp: gen_name_pinport_eq dir_letter_inj)

text \<open>The character tests of \<open>ig_lib_rm_suffix_pinport\<close> never hold, so whatever follows the
  underscore is cut off: any last character is taken for a direction.\<close>

theorem rm_suffix_any_letter:
  "ig_lib_rm_suffix_pinport (name @ [CHR ''_'', c]) = (if name = [] then [CHR ''_'', c] else name)"
  by (cases name) (auto simp: rm_suffix_eq nth_append)

end
