(* ===== verification/Ig_Htree.thy ===== *)
theory Ig_Htree
  imports Ig_Hierarchy Ig_Names
begin

text \<open>
  Hierarchy trees of \<open>src/lib/ig_lib.c\<close>: merging the hierarchy lists of all endpoints of a signal
  or parameter into one tree (\<open>ig_lib_merge_hierarchy_list\<close>), cutting the tree down to the part
  the signal lives in (\<open>ig_lib_htree_reduce\<close>), and walking it in pre-order to create pins, ports
  and declarations (\<open>ig_lib_htree_process_signal\<close>) or adjustments and parameters
  (\<open>ig_lib_htree_process_parameter\<close>). A \<open>GNode\<close> tree is the datatype \<open>gnode\<close>. A non-empty
  \<open>GList\<close> of infos is its head together with its tail, since the code never puts an empty one
  into the lists it merges.
\<close>

datatype 'a gnode = GNode (gdata: 'a) (gchildren: "'a gnode list")

type_synonym hier = "ig_lib_connection_info \<times> ig_lib_connection_info list"

section \<open>Merging\<close>

definition merge_dir ::
    "ig_lib_connection_dir \<Rightarrow> ig_lib_connection_dir \<Rightarrow> ig_lib_connection_dir" where
  "merge_dir node i =
     (if node = IG_LCDIR_DEFAULT then i
      else if i \<noteq> IG_LCDIR_DEFAULT \<and> i \<noteq> node then IG_LCDIR_BIDIR else node)"

definition merge_info ::
    "ig_lib_connection_info \<Rightarrow> ig_lib_connection_info \<Rightarrow> ig_lib_connection_info" where
  "merge_info node i =
     (let node = (if ci_local_name i \<noteq> None
                  then node\<lparr>ci_local_name := ci_local_name i, ci_force_name := ci_force_name i\<rparr>
                  else node);
          node = node\<lparr>ci_dir := merge_dir (ci_dir node) (ci_dir i)\<rparr>;
          node = node\<lparr>ci_invert := (ci_invert node \<or> ci_invert i)\<rparr>
      in if ci_is_explicit i then node\<lparr>ci_is_explicit := True\<rparr> else node)"

fun prepend_next :: "ig_lib_connection_info list \<Rightarrow> hier list \<Rightarrow> hier list" where
  "prepend_next [] successor_list = successor_list"
| "prepend_next (c # cs) successor_list = (c, cs) # successor_list"

fun merge_level ::
    "ig_lib_connection_info \<Rightarrow> hier list \<Rightarrow> hier list
       \<Rightarrow> (ig_lib_connection_info \<times> hier list) option" where
  "merge_level node [] successor_list = Some (node, successor_list)"
| "merge_level node ((i, rest) # li) successor_list =
     (if ci_obj i \<noteq> ci_obj node then None
      else merge_level (merge_info node i) li (prepend_next rest successor_list))"

text \<open>Same object, and no two different names.\<close>

definition same_child :: "ig_lib_connection_info \<Rightarrow> ig_lib_connection_info \<Rightarrow> bool" where
  "same_child ref i \<longleftrightarrow>
     ci_obj i = ci_obj ref \<and>
     (case (ci_local_name i, ci_local_name ref) of (Some a, Some b) \<Rightarrow> a = b | _ \<Rightarrow> True)"

function group_hiers :: "hier list \<Rightarrow> hier list list" where
  "group_hiers [] = []"
| "group_hiers (r # li) =
     (r # filter (\<lambda>i. same_child (fst r) (fst i)) li)
       # group_hiers (filter (\<lambda>i. \<not> same_child (fst r) (fst i)) li)"
  by pat_completeness auto
termination
  by (relation "measure length") (auto simp: le_imp_less_Suc)

definition hiers_size :: "hier list \<Rightarrow> nat" where
  "hiers_size hs = (\<Sum>h\<leftarrow>hs. Suc (length (snd h)))"

lemma hiers_size_simps [simp]:
  "hiers_size [] = 0"
  "hiers_size (h # hs) = Suc (length (snd h)) + hiers_size hs"
  by (simp_all add: hiers_size_def)

lemma hiers_size_filter: "hiers_size (filter P hs) + hiers_size (filter (\<lambda>x. \<not> P x) hs) = hiers_size hs"
  by (induction hs) auto

lemma hiers_size_group: "g \<in> set (group_hiers hs) \<Longrightarrow> hiers_size g \<le> hiers_size hs"
proof (induction hs rule: group_hiers.induct)
  case 1
  then show ?case by simp
next
  case (2 r li)
  note split = hiers_size_filter [of "\<lambda>i. same_child (fst r) (fst i)" li]
  show ?case
  proof (cases "g = r # filter (\<lambda>i. same_child (fst r) (fst i)) li")
    case True
    then show ?thesis using split by simp
  next
    case False
    then have "hiers_size g \<le> hiers_size (filter (\<lambda>i. \<not> same_child (fst r) (fst i)) li)"
      using 2 by simp
    then show ?thesis using split by simp
  qed
qed

lemma hiers_size_prepend: "hiers_size (prepend_next rest s) = length rest + hiers_size s"
  by (cases rest) auto

lemma merge_level_size:
  "merge_level node li s = Some (node', s') \<Longrightarrow> hiers_size s' + length li = hiers_size s + hiers_size li"
proof (induction node li s rule: merge_level.induct)
  case (2 node i rest li s)
  then show ?case by (auto simp: hiers_size_prepend split: if_splits)
qed simp

definition node_name :: "string \<Rightarrow> ig_lib_connection_info \<Rightarrow> string" where
  "node_name signame node = (case ci_local_name node of None \<Rightarrow> signame | Some n \<Rightarrow> n)"

definition child_default_name :: "string \<Rightarrow> ig_lib_connection_info \<Rightarrow> string" where
  "child_default_name signame node =
     (if ci_force_name node then ig_lib_rm_suffix_pinport (node_name signame node)
      else node_name signame node)"

text \<open>\<open>g_node_insert (result, 0, child)\<close> puts every new child first; no child comes of \<open>NULL\<close>.\<close>

function ig_lib_merge_hierarchy_list ::
    "hier list \<Rightarrow> string \<Rightarrow> ig_lib_connection_info gnode option" where
  "ig_lib_merge_hierarchy_list [] signame = None"
| "ig_lib_merge_hierarchy_list (h # hs) signame =
     (case merge_level (fst h) hs (prepend_next (snd h) []) of
        None \<Rightarrow> None
      | Some (node, successor_list) \<Rightarrow>
          Some (GNode (node\<lparr>ci_local_name := Some (node_name signame node)\<rparr>)
            (concat (map (\<lambda>g. case ig_lib_merge_hierarchy_list g (child_default_name signame node) of
                                None \<Rightarrow> [] | Some t \<Rightarrow> [t])
                         (rev (group_hiers successor_list))))))"
  by pat_completeness auto
termination
proof (relation "measure (\<lambda>(hs, _). hiers_size hs)", goal_cases)
  case (2 h hs signame x node successor_list g)
  then have "hiers_size g \<le> hiers_size successor_list"
    by (simp add: hiers_size_group)
  moreover have "hiers_size successor_list + length hs = length (snd h) + hiers_size hs"
    using merge_level_size [of "fst h" hs] 2 by (auto simp: hiers_size_prepend)
  ultimately show ?case by simp
qed simp

section \<open>Reducing\<close>

text \<open>
  The loop walks down while a node has one child; the flag says whether it stopped at the root.
  \<open>ig_lib_htree_reduce\<close> then unlinks the node found, frees the tree it was given and returns the
  node: when the node is the root itself, what it returns has just been freed.
\<close>

fun reduce_loop ::
    "bool \<Rightarrow> ig_lib_connection_info gnode \<Rightarrow> (bool \<times> ig_lib_connection_info gnode) option" where
  "reduce_loop is_root (GNode c cs) =
     (case cs of
        [] \<Rightarrow> None
      | [t] \<Rightarrow> if ci_is_explicit (gdata t) then Some (False, t) else reduce_loop False t
      | _ \<Rightarrow> Some (is_root, GNode c cs))"

datatype reduce_result =
    Reduced "ig_lib_connection_info gnode" | Reduced_null | Reduced_freed

definition ig_lib_htree_reduce :: "ig_lib_connection_info gnode \<Rightarrow> reduce_result" where
  "ig_lib_htree_reduce hier_tree =
     (case reduce_loop True hier_tree of
        None \<Rightarrow> Reduced_null
      | Some (is_root, t) \<Rightarrow> if is_root then Reduced_freed else Reduced t)"

section \<open>Traversal\<close>

text \<open>
  \<open>g_node_traverse\<close> in pre-order. A visit gets the info with the parent name its parent's visit
  stored, and returns the name it stores in its children.
\<close>

fun htree_traverse ::
    "(bool \<Rightarrow> ig_lib_connection_info \<Rightarrow> 's \<Rightarrow> (string \<times> 's) res) \<Rightarrow> bool \<Rightarrow> string option
       \<Rightarrow> ig_lib_connection_info gnode \<Rightarrow> 's \<Rightarrow> 's res"
  and htree_traverse_list ::
    "(bool \<Rightarrow> ig_lib_connection_info \<Rightarrow> 's \<Rightarrow> (string \<times> 's) res) \<Rightarrow> string
       \<Rightarrow> ig_lib_connection_info gnode list \<Rightarrow> 's \<Rightarrow> 's res" where
  "htree_traverse visit is_root parent_name (GNode c cs) s =
     res_bind (visit is_root (c\<lparr>ci_parent_name := parent_name\<rparr>) s)
       (\<lambda>(name, s). htree_traverse_list visit name cs s)"
| "htree_traverse_list visit name [] s = Inr s"
| "htree_traverse_list visit name (t # ts) s =
     res_bind (htree_traverse visit False (Some name) t s) (htree_traverse_list visit name ts)"

record process_data =
  pd_db :: ig_lib_db
  pd_gen_objs :: "addr list"
  pd_error :: bool

definition port_dir_of :: "ig_lib_connection_dir \<Rightarrow> ig_port_dir" where
  "port_dir_of dir = (case dir of IG_LCDIR_UP \<Rightarrow> IG_PD_OUT | IG_LCDIR_BIDIR \<Rightarrow> IG_PD_BIDIR | _ \<Rightarrow> IG_PD_IN)"

text \<open>The result of creating one object: it is recorded, or the traversal is marked as failed.\<close>

definition record_obj :: "ptr \<Rightarrow> ig_lib_db \<Rightarrow> process_data \<Rightarrow> process_data" where
  "record_obj obj db pdata =
     (case obj of
        Some a \<Rightarrow> pdata\<lparr>pd_db := db, pd_gen_objs := a # pd_gen_objs pdata\<rparr>
      | None \<Rightarrow> pdata\<lparr>pd_db := db, pd_error := True\<rparr>)"

text \<open>
  Creation of a declaration, adjustment or parameter in the traversal: the object is dropped when
  its id is taken, otherwise registered and appended to a queue of its parent by \<open>push\<close>.
\<close>

definition process_add ::
    "ptr \<Rightarrow> (addr \<Rightarrow> ig_lib_db \<Rightarrow> ig_lib_db res) \<Rightarrow> ig_lib_db \<Rightarrow> (ptr \<times> ig_lib_db) res" where
  "process_add obj push db =
     res_bind (heap_get db obj) (\<lambda>s.
     if table_contains db Objects_by_id (obj_id s)
     then res_bind (ig_leaf_free obj db) (\<lambda>db. Inr (None, db))
     else
       res_bind (table_insert Objects_by_id (obj_id s) (the obj) db) (\<lambda>db.
       res_bind (ig_obj_ref obj db) (\<lambda>db.
       res_bind (push (the obj) db) (\<lambda>db.
       res_bind (ig_obj_ref obj db) (\<lambda>db. Inr (obj, db))))))"

definition pin_name_of :: "ig_lib_connection_info \<Rightarrow> string \<Rightarrow> string" where
  "pin_name_of cinfo local_name =
     (if ci_force_name cinfo then local_name
      else ig_lib_gen_name_pinport local_name (port_dir_of (ci_dir cinfo)))"

definition signal_name_of :: "ig_lib_connection_info \<Rightarrow> string \<Rightarrow> string" where
  "signal_name_of cinfo local_name =
     (if ci_force_name cinfo then local_name else ig_lib_gen_name_signal local_name)"

definition or_empty :: "string option \<Rightarrow> string" where
  "or_empty name = (case name of None \<Rightarrow> '''' | Some n \<Rightarrow> n)"

definition local_name_of :: "ig_lib_connection_info \<Rightarrow> string res" where
  "local_name_of cinfo = (case ci_local_name cinfo of None \<Rightarrow> Inl NullDeref | Some n \<Rightarrow> Inr n)"

definition ig_lib_htree_process_signal_tfunc ::
    "bool \<Rightarrow> ig_lib_connection_info \<Rightarrow> process_data \<Rightarrow> (string \<times> process_data) res" where
  "ig_lib_htree_process_signal_tfunc is_root cinfo pdata =
     (let db = pd_db pdata; obj = Some (ci_obj cinfo) in
      res_bind (heap_get db obj) (\<lambda>s.
      res_bind (local_name_of cinfo) (\<lambda>local_name.
      case obj_type s of
        IG_OBJ_INSTANCE \<Rightarrow>
          (let pin_name = pin_name_of cinfo local_name;
               conn_name = or_empty (ci_parent_name cinfo)
           in res_bind (ig_lib_add_pin obj (Some pin_name) (Some conn_name)
                          (Some (if ci_invert cinfo then ''true'' else ''false'')) db)
                (\<lambda>(inst_pin, db). Inr (pin_name, record_obj inst_pin db pdata)))
      | IG_OBJ_MODULE \<Rightarrow>
          (if is_root then
             (let signal_name = signal_name_of cinfo local_name
              in res_bind (ig_decl_new (Some signal_name) obj db) (\<lambda>(mod_decl, db).
                 res_bind (process_add mod_decl
                             (\<lambda>a. modify as_module Module obj
                                (\<lambda>m. res_bind (push_tail_opt a (mod_decls m))
                                       (\<lambda>q. Inr (m\<lparr>mod_decls := q\<rparr>)))) db)
                   (\<lambda>(mod_decl, db). Inr (signal_name, record_obj mod_decl db pdata))))
           else
             (let signal_name = or_empty (ci_parent_name cinfo);
                  pdata = (if ci_parent_name cinfo = None then pdata\<lparr>pd_error := True\<rparr> else pdata)
              in res_bind (ig_lib_add_port obj (port_dir_of (ci_dir cinfo)) (Some signal_name) db)
                   (\<lambda>(mod_port, db). Inr (signal_name, record_obj mod_port db pdata))))
      | _ \<Rightarrow> Inl InternalError)))"

definition ig_lib_htree_process_signal ::
    "ig_lib_connection_info gnode \<Rightarrow> ig_lib_db \<Rightarrow> (addr list \<times> ig_lib_db) res" where
  "ig_lib_htree_process_signal hier_tree db =
     res_bind (htree_traverse ig_lib_htree_process_signal_tfunc True
                 (ci_parent_name (gdata hier_tree)) hier_tree
                 \<lparr>pd_db = db, pd_gen_objs = [], pd_error = False\<rparr>)
       (\<lambda>data. Inr (if pd_error data then [] else pd_gen_objs data, pd_db data))"

text \<open>The flag \<open>root_local\<close> of the parameter traversal is always false where it is called.\<close>

definition ig_lib_htree_process_parameter_tfunc ::
    "string option \<Rightarrow> bool \<Rightarrow> bool \<Rightarrow> ig_lib_connection_info \<Rightarrow> process_data
       \<Rightarrow> (string \<times> process_data) res" where
  "ig_lib_htree_process_parameter_tfunc defvalue root_local is_root cinfo pdata =
     (let db = pd_db pdata; obj = Some (ci_obj cinfo) in
      res_bind (heap_get db obj) (\<lambda>s.
      res_bind (local_name_of cinfo) (\<lambda>local_name.
      case obj_type s of
        IG_OBJ_INSTANCE \<Rightarrow>
          (let adj_name = or_empty (ci_parent_name cinfo); par_name = local_name
           in res_bind (ig_adjustment_new (Some par_name) (Some adj_name) obj db) (\<lambda>(inst_adj, db).
              res_bind (process_add inst_adj
                          (\<lambda>a. modify as_instance Instance obj
                             (\<lambda>i. Inr (i\<lparr>inst_adjustments := push_tail a (inst_adjustments i)\<rparr>))) db)
                (\<lambda>(inst_adj, db). Inr (par_name, record_obj inst_adj db pdata))))
      | IG_OBJ_MODULE \<Rightarrow>
          (let par_name = (if is_root then local_name else or_empty (ci_parent_name cinfo))
           in res_bind (ig_param_new (Some par_name) defvalue (root_local \<and> is_root) obj db)
                (\<lambda>(mod_param, db).
              res_bind (process_add mod_param
                          (\<lambda>a. modify as_module Module obj
                             (\<lambda>m. Inr (m\<lparr>mod_params := push_tail a (mod_params m)\<rparr>))) db)
                (\<lambda>(mod_param, db). Inr (par_name, record_obj mod_param db pdata))))
      | _ \<Rightarrow> Inl InternalError)))"

definition ig_lib_htree_process_parameter ::
    "ig_lib_connection_info gnode \<Rightarrow> string option \<Rightarrow> ig_lib_db \<Rightarrow> (addr list \<times> ig_lib_db) res" where
  "ig_lib_htree_process_parameter hier_tree defvalue db =
     res_bind (htree_traverse (ig_lib_htree_process_parameter_tfunc defvalue False) True
                 (ci_parent_name (gdata hier_tree)) hier_tree
                 \<lparr>pd_db = db, pd_gen_objs = [], pd_error = False\<rparr>)
       (\<lambda>data. Inr (if pd_error data then [] else pd_gen_objs data, pd_db data))"

end
