(* ===== verification/Ig_Connect.thy ===== *)
theory Ig_Connect
  imports Ig_Htree
begin

text \<open>
  Signals and parameters over the hierarchy, \<open>ig_lib_connection\<close> and \<open>ig_lib_parameter\<close> of
  \<open>src/lib/ig_lib.c\<close>, with \<open>ig_lib_add_net\<close> and \<open>ig_lib_add_generic\<close>, which collect the
  created objects. The debug print of the trees is modelled in \<open>Ig_Print\<close> and left out here. It is,
  however, the first code that reads the tree \<open>ig_lib_htree_reduce\<close> returned, so a freed root is the
  fault \<open>UseAfterFree\<close>.
\<close>

section \<open>Nets and generics\<close>

definition net_member_add :: "addr \<Rightarrow> string \<Rightarrow> string \<Rightarrow> addr \<Rightarrow> ig_lib_db \<Rightarrow> ig_lib_db res" where
  "net_member_add net name net_id obj db =
     res_bind (ig_obj_attr_set (Some obj) (Some ''signal'') (Some name) True db) (\<lambda>(_, db).
     res_bind (ig_obj_attr_set (Some obj) (Some ''net'') (Some name) True db) (\<lambda>(_, db).
     res_bind (ig_obj_attr_set (Some obj) (Some ''netid'') (Some net_id) True db) (\<lambda>(_, db).
     res_bind (heap_get db (Some obj)) (\<lambda>s.
     res_bind
       (case obj_body s of
          Port x \<Rightarrow> Inr (set_body obj (Port (x\<lparr>port_net := Some net\<rparr>)) db)
        | Pin x \<Rightarrow> Inr (set_body obj (Pin (x\<lparr>pin_net := Some net\<rparr>)) db)
        | Decl x \<Rightarrow> Inr (set_body obj (Decl (x\<lparr>decl_net := Some net\<rparr>)) db)
        | _ \<Rightarrow> Inl InternalError) (\<lambda>db.
     res_bind (ig_obj_ref (Some obj) db) (\<lambda>db.
     modify as_net Net (Some net)
       (\<lambda>n. Inr (n\<lparr>net_objects := push_tail obj (net_objects n)\<rparr>)) db))))))"

definition ig_lib_add_net ::
    "string option \<Rightarrow> addr list \<Rightarrow> ig_lib_db \<Rightarrow> (ptr \<times> ig_lib_db) res" where
  "ig_lib_add_net name objs db =
     (case name of None \<Rightarrow> Inr (None, db) | Some nm \<Rightarrow>
      res_bind (ig_net_new name db) (\<lambda>(net, db).
      if net = None then Inr (None, db) else
      res_bind (heap_get db net) (\<lambda>s.
      res_bind (res_fold (net_member_add (the net) nm (obj_id s)) objs db) (\<lambda>db.
      res_bind (register3 Nets_by_name Nets_by_id (the net) (obj_name s) (obj_id s) db)
        (\<lambda>db. Inr (net, db))))))"

definition generic_member_add :: "addr \<Rightarrow> string \<Rightarrow> string \<Rightarrow> addr \<Rightarrow> ig_lib_db \<Rightarrow> ig_lib_db res" where
  "generic_member_add gen name gen_id obj db =
     res_bind (ig_obj_attr_set (Some obj) (Some ''parameter'') (Some name) True db) (\<lambda>(_, db).
     res_bind (ig_obj_attr_set (Some obj) (Some ''generic'') (Some name) True db) (\<lambda>(_, db).
     res_bind (ig_obj_attr_set (Some obj) (Some ''genericid'') (Some gen_id) True db) (\<lambda>(_, db).
     res_bind (heap_get db (Some obj)) (\<lambda>s.
     res_bind
       (case obj_body s of
          Param x \<Rightarrow> Inr (set_body obj (Param (x\<lparr>param_generic := Some gen\<rparr>)) db)
        | Adjustment x \<Rightarrow> Inr (set_body obj (Adjustment (x\<lparr>adj_generic := Some gen\<rparr>)) db)
        | _ \<Rightarrow> Inl InternalError) (\<lambda>db.
     res_bind (ig_obj_ref (Some obj) db) (\<lambda>db.
     modify as_generic Generic (Some gen)
       (\<lambda>n. Inr (n\<lparr>generic_objects := push_tail obj (generic_objects n)\<rparr>)) db))))))"

definition ig_lib_add_generic ::
    "string option \<Rightarrow> addr list \<Rightarrow> ig_lib_db \<Rightarrow> (ptr \<times> ig_lib_db) res" where
  "ig_lib_add_generic name objs db =
     (case name of None \<Rightarrow> Inr (None, db) | Some nm \<Rightarrow>
      res_bind (ig_generic_new name db) (\<lambda>(gen, db).
      if gen = None then Inr (None, db) else
      res_bind (heap_get db gen) (\<lambda>s.
      res_bind (res_fold (generic_member_add (the gen) nm (obj_id s)) objs db) (\<lambda>db.
      res_bind (register3 Generics_by_name Generics_by_id (the gen) (obj_name s) (obj_id s) db)
        (\<lambda>db. Inr (gen, db))))))"

section \<open>The hierarchies of the endpoints\<close>

text \<open>
  The loop over the targets: every hierarchy found is put in front of the list, an empty one
  raises the error flag.
\<close>

fun gen_hierarchies ::
    "'a ig_heap_scheme \<Rightarrow> ig_lib_connection_info list \<Rightarrow> hier list \<Rightarrow> bool
       \<Rightarrow> (hier list \<times> bool) res" where
  "gen_hierarchies h [] hier_start_list error = Inr (hier_start_list, error)"
| "gen_hierarchies h (start # li) hier_start_list error =
     res_bind (ig_lib_gen_hierarchy h (start\<lparr>ci_is_explicit := True\<rparr>)) (\<lambda>target_hier.
     case target_hier of
       [] \<Rightarrow> gen_hierarchies h li hier_start_list True
     | c # cs \<Rightarrow> gen_hierarchies h li ((c, cs) # hier_start_list) error)"

text \<open>
  The common middle part: merge, reduce, process. The result is the list of generated objects,
  or \<open>None\<close> when no tree comes about.
\<close>

definition build_objects ::
    "hier list \<Rightarrow> string
       \<Rightarrow> (ig_lib_connection_info gnode \<Rightarrow> ig_lib_db \<Rightarrow> (addr list \<times> ig_lib_db) res)
       \<Rightarrow> ig_lib_db \<Rightarrow> (addr list option \<times> ig_lib_db) res" where
  "build_objects hier_start_list name process db =
     (case ig_lib_merge_hierarchy_list hier_start_list name of
        None \<Rightarrow> Inr (None, db)
      | Some hier_tree \<Rightarrow>
          (case ig_lib_htree_reduce hier_tree of
             Reduced_null \<Rightarrow> Inr (None, db)
           | Reduced_freed \<Rightarrow> Inl UseAfterFree
           | Reduced t \<Rightarrow> res_bind (process t db) (\<lambda>(objs, db). Inr (Some objs, db))))"

definition ig_lib_connection ::
    "string \<Rightarrow> ig_lib_connection_info option \<Rightarrow> ig_lib_connection_info list \<Rightarrow> ig_lib_db
       \<Rightarrow> (bool \<times> ptr \<times> ig_lib_db) res" where
  "ig_lib_connection signame source targets db =
     res_bind (gen_hierarchies db
                 (case source of None \<Rightarrow> [] | Some src \<Rightarrow> [src\<lparr>ci_dir := IG_LCDIR_UP\<rparr>]) [] False)
       (\<lambda>(hier_start_list, error).
     res_bind (gen_hierarchies db targets hier_start_list error) (\<lambda>(hier_start_list, error).
     if error then Inr (False, None, db) else
     if table_contains db Nets_by_name signame then Inr (False, None, db) else
     res_bind (build_objects hier_start_list signame ig_lib_htree_process_signal db)
       (\<lambda>(gen_objs_res, db).
     case gen_objs_res of
       None \<Rightarrow> Inr (False, None, db)
     | Some objs \<Rightarrow>
         res_bind (ig_lib_add_net (Some signame) objs db) (\<lambda>(net, db).
         Inr (objs \<noteq> [], net, db)))))"

definition ig_lib_parameter ::
    "string \<Rightarrow> string option \<Rightarrow> ig_lib_connection_info list \<Rightarrow> ig_lib_db
       \<Rightarrow> (bool \<times> ptr \<times> ig_lib_db) res" where
  "ig_lib_parameter parname defvalue targets db =
     res_bind (gen_hierarchies db targets [] False) (\<lambda>(hier_start_list, error).
     if error then Inr (False, None, db) else
     if table_contains db Generics_by_name parname then Inr (False, None, db) else
     res_bind (build_objects hier_start_list parname
                 (\<lambda>t. ig_lib_htree_process_parameter t defvalue) db)
       (\<lambda>(gen_objs_res, db).
     case gen_objs_res of
       None \<Rightarrow> Inr (False, None, db)
     | Some objs \<Rightarrow>
         res_bind (ig_lib_add_generic (Some parname) objs db) (\<lambda>(gen, db).
         Inr (objs \<noteq> [], gen, db))))"

end
