(* ===== verification/Ig_Leaf.thy ===== *)
theory Ig_Leaf
  imports Ig_Ops Ig_Connect
begin

text \<open>
  The operations that hang one new object below an existing one, in closed form: they never fault
  on a database that satisfies \<open>db_inv\<close>, they return \<open>NULL\<close> and leave everything but the next
  address alone exactly when the id of the new object is taken, and otherwise they end in the
  state \<open>attached\<close>.
\<close>

section \<open>The shared tail of the operations\<close>

lemma fetch_Some:
  "heap h b = Some s \<Longrightarrow> sel (obj_body s) = Some x \<Longrightarrow> fetch sel h (Some b) = Inr x"
  by (simp add: fetch_def heap_get_def)

lemma modify_Some:
  "heap h b = Some s \<Longrightarrow> sel (obj_body s) = Some x \<Longrightarrow> f x = Inr x' \<Longrightarrow>
     modify sel con (Some b) f h = Inr (put b (s\<lparr>obj_body := con x'\<rparr>) h)"
  by (simp add: modify_def fetch_Some set_body_def put_def)

lemma ref_Some: "heap h a = Some s \<Longrightarrow>
    ig_obj_ref (Some a) h = Inr (put a (s\<lparr>obj_refcount := obj_refcount s + 1\<rparr>) h)"
  by (simp add: ig_obj_ref_def heap_get_def)

lemma insert_free: "tables db t k = None \<Longrightarrow>
    table_insert t k a db = Inr (set_table t ((tables db t)(k \<mapsto> a)) db)"
  by (simp add: table_insert_def Let_def)

lemma new_struct_eq: "new_struct obj b (db :: ig_lib_db) = Inr (Some (next_addr db), allocd (struct_of obj b) db)"
  by (simp add: new_struct_def alloc_def)

lemma leaf_free_allocd:
  assumes "heap db (next_addr db) = None"
  shows "ig_leaf_free (Some (next_addr db)) (allocd s db) = Inr (db\<lparr>next_addr := Suc (next_addr db)\<rparr>)"
proof -
  have "(heap db)(next_addr db := None) = heap db" using assms by (simp add: fun_upd_idem)
  then show ?thesis
    by (simp add: ig_leaf_free_def ig_obj_free_def heap_get_def put_def slice_free_def)
qed

lemma entry_free_allocd:
  assumes "heap db (next_addr db) = None" and "obj_body s = RfEntry e" and "entry_regs e = []"
  shows "ig_rf_entry_free unref (Some (next_addr db)) (allocd s db) = Inr (db\<lparr>next_addr := Suc (next_addr db)\<rparr>)"
proof -
  have "(heap db)(next_addr db := None) = heap db" using assms by (simp add: fun_upd_idem)
  then show ?thesis
    using assms(2,3)
    by (simp add: ig_rf_entry_free_def ig_obj_free_def heap_get_def put_def slice_free_def fetch_def
          child_queue_unref_def)
qed

definition attach_result ::
    "addr \<Rightarrow> ig_body \<Rightarrow> ig_struct \<Rightarrow> ig_lib_db \<Rightarrow> ptr \<times> ig_lib_db" where
  "attach_result b bp s db =
     (if table_contains db Objects_by_id (obj_id s)
      then (None, db\<lparr>next_addr := Suc (next_addr db)\<rparr>)
      else (Some (next_addr db), attached b bp s db))"

text \<open>Queue first, then table, and table first, then queue: the same state.\<close>

lemma attach_push_first:
  assumes "heap db (next_addr db) = None" and b: "heap db b = Some sp" "sel (obj_body sp) = Some x"
    and f: "f x = Inr x'" and s: "obj_refcount s = 0" and free: "tables db Objects_by_id (obj_id s) = None"
  shows "res_bind (modify sel con (Some b) f (allocd s db)) (\<lambda>db'.
         res_bind (ig_obj_ref (Some (next_addr db)) db') (\<lambda>db'.
         res_bind (table_insert Objects_by_id (obj_id s) (next_addr db) db') (\<lambda>db'.
         res_bind (ig_obj_ref (Some (next_addr db)) db') (\<lambda>db'. Inr (Some (next_addr db), db'))))) =
         Inr (Some (next_addr db), attached b (con x') s db)"
proof -
  have ne: "b \<noteq> next_addr db" using assms(1) b by auto
  have "modify sel con (Some b) f (allocd s db) =
          Inr (put b (sp\<lparr>obj_body := con x'\<rparr>) (allocd s db))"
    using b ne f by (intro modify_Some) simp_all
  then show ?thesis
    using s free b ne
    by (simp add: ref_Some [of _ "next_addr db" s] ref_Some [of _ "next_addr db" "s\<lparr>obj_refcount := 1\<rparr>"]
          insert_free attached_def put_def set_table_def fun_upd_twist)
qed

lemma attach_table_first:
  assumes "heap db (next_addr db) = None" and b: "heap db b = Some sp" "sel (obj_body sp) = Some x"
    and f: "f x = Inr x'" and s: "obj_refcount s = 0" and free: "tables db Objects_by_id (obj_id s) = None"
  shows "res_bind (table_insert Objects_by_id (obj_id s) (next_addr db) (allocd s db)) (\<lambda>db'.
         res_bind (ig_obj_ref (Some (next_addr db)) db') (\<lambda>db'.
         res_bind (modify sel con (Some b) f db') (\<lambda>db'.
         res_bind (ig_obj_ref (Some (next_addr db)) db') (\<lambda>db'. Inr (Some (next_addr db), db'))))) =
         Inr (Some (next_addr db), attached b (con x') s db)"
proof -
  let ?db1 = "put (next_addr db) (s\<lparr>obj_refcount := 1\<rparr>)
     (set_table Objects_by_id ((tables db Objects_by_id)(obj_id s \<mapsto> next_addr db)) (allocd s db))"
  have ne: "b \<noteq> next_addr db" using assms(1) b by auto
  have "modify sel con (Some b) f ?db1 = Inr (put b (sp\<lparr>obj_body := con x'\<rparr>) ?db1)"
    using b ne f by (intro modify_Some) simp_all
  then show ?thesis
    using s free b ne
    by (simp add: ref_Some [of _ "next_addr db" s] ref_Some [of _ "next_addr db" "s\<lparr>obj_refcount := 1\<rparr>"]
          insert_free attached_def put_def set_table_def fun_upd_twist)
qed


section \<open>The invariant\<close>

text \<open>What an operation that adds objects guarantees: the invariant, that no object vanishes or
  changes its id, name or type, and that no object is left behind that nothing leads to.\<close>

definition grows :: "ig_lib_db \<Rightarrow> ig_lib_db \<Rightarrow> bool" where
  "grows db db' \<longleftrightarrow> db_inv db' \<and> keeps db db' \<and> waste db' \<subseteq> waste db"

lemma grows_refl: "db_inv db \<Longrightarrow> grows db db"
  by (simp add: grows_def keeps_refl)

lemma grows_trans: "grows db db' \<Longrightarrow> grows db' db'' \<Longrightarrow> grows db db''"
  by (auto simp: grows_def intro: keeps_trans)

lemma grows_skip: "db_inv db \<Longrightarrow> grows db (db\<lparr>next_addr := Suc (next_addr db)\<rparr>)"
  by (simp add: grows_def db_inv_skip keeps_def waste_def)

lemma grows_type_at: "grows db db' \<Longrightarrow> type_at db x = Some t \<Longrightarrow> type_at db' x = Some t"
  by (force simp: grows_def keeps_def type_at_def)

lemma type_at_heap [simp]: "type_at (db\<lparr>heap := m\<rparr>) a = map_option obj_type (m a)"
  by (simp add: type_at_def)

lemma type_at_old: "heap_ok db \<Longrightarrow> heap db b = Some sp \<Longrightarrow> type_at (allocd s db) b = Some (obj_type sp)"
  using heap_okD [of db b sp] by simp

lemma not_next_addr: "heap_ok db \<Longrightarrow> heap db b = Some sp \<Longrightarrow> b \<noteq> next_addr db"
  using heap_okD [of db b sp] by auto

lemma grows_attach_result:
  assumes inv: "db_inv db" and s: "new_leaf s" and b: "heap db b = Some sp"
    and g: "gains (next_addr db) bp (obj_body sp)"
    and ok: "body_ok (type_at (allocd s db)) (obj_body s)"
      "body_ok (type_at (allocd s db)) (obj_body sp) \<Longrightarrow> body_ok (type_at (allocd s db)) bp"
    and skel: "same_skel bp (obj_body sp)" "as_module (obj_body s) = None" "as_instance (obj_body s) = None"
  shows "grows db (snd (attach_result b bp s db))"
proof (cases "table_contains db Objects_by_id (obj_id s)")
  case True
  then show ?thesis using inv by (simp add: attach_result_def grows_skip)
next
  case False
  have "body_ok (type_at db) (obj_body sp)" using heap_okD [OF db_invD(4) [OF inv] b] by simp
  then have bp: "body_ok (type_at (allocd s db)) bp"
    using ok(2) body_ok_mono [OF type_at_allocd [OF db_invD(4) [OF inv]]] by blast
  have free: "tables db Objects_by_id (obj_id s) = None" using False by (simp add: table_contains_def)
  show ?thesis
    using db_inv_attached [OF inv s b g ok(1) bp free skel] False
    by (simp add: attach_result_def grows_def)
qed

text \<open>
  The parents an object can be hung below, with the queue it goes to. \<open>with_port\<close> and the others
  are the parent's new contents.
\<close>

named_theorems with_defs \<open>the new contents of a parent\<close>

definition with_port :: "addr \<Rightarrow> ig_module \<Rightarrow> ig_body" where
  [with_defs]: "with_port a m = Module (m\<lparr>mod_ports := mod_ports m @ [a]\<rparr>)"

definition with_param :: "addr \<Rightarrow> ig_module \<Rightarrow> ig_body" where
  [with_defs]: "with_param a m = Module (m\<lparr>mod_params := mod_params m @ [a]\<rparr>)"

definition with_decl :: "addr \<Rightarrow> ig_module \<Rightarrow> ig_body" where
  [with_defs]: "with_decl a m = Module (m\<lparr>mod_decls := map_option (\<lambda>q. q @ [a]) (mod_decls m)\<rparr>)"

definition with_pin :: "addr \<Rightarrow> ig_instance \<Rightarrow> ig_body" where
  [with_defs]: "with_pin a i = Instance (i\<lparr>inst_pins := inst_pins i @ [a]\<rparr>)"

definition with_adjustment :: "addr \<Rightarrow> ig_instance \<Rightarrow> ig_body" where
  [with_defs]: "with_adjustment a i = Instance (i\<lparr>inst_adjustments := inst_adjustments i @ [a]\<rparr>)"

definition with_entry :: "addr \<Rightarrow> ig_rf_regfile \<Rightarrow> ig_body" where
  [with_defs]: "with_entry a r = Regfile (r\<lparr>regfile_entries := regfile_entries r @ [a]\<rparr>)"

definition with_reg :: "addr \<Rightarrow> ig_rf_entry \<Rightarrow> ig_body" where
  [with_defs]: "with_reg a e = RfEntry (e\<lparr>entry_regs := entry_regs e @ [a]\<rparr>)"

text \<open>\<open>hangs T a t b bp\<close>: the body \<open>b\<close> turns into \<open>bp\<close> by taking \<open>a\<close>, an object of type \<open>t\<close>.\<close>

definition hangs :: "addr \<Rightarrow> ig_object_type \<Rightarrow> ig_body \<Rightarrow> ig_body \<Rightarrow> bool" where
  "hangs a t b bp \<longleftrightarrow>
     gains a bp b \<and> same_skel bp b \<and> (\<forall>T. T a = Some t \<longrightarrow> body_ok T b \<longrightarrow> body_ok T bp)"

lemma hangs_rules:
  "hangs a IG_OBJ_PORT (Module m) (with_port a m)"
  "hangs a IG_OBJ_PARAMETER (Module m) (with_param a m)"
  "mod_decls m \<noteq> None \<Longrightarrow> hangs a IG_OBJ_DECLARATION (Module m) (with_decl a m)"
  "hangs a IG_OBJ_PIN (Instance i) (with_pin a i)"
  "hangs a IG_OBJ_ADJUSTMENT (Instance i) (with_adjustment a i)"
  "hangs a IG_OBJ_REGFILE_ENTRY (Regfile r) (with_entry a r)"
  "hangs a IG_OBJ_REGFILE_REG (RfEntry e) (with_reg a e)"
  by (auto simp: hangs_def with_defs same_skel_def module_ok_def intro!: gainsI)

lemma grows_hang:
  assumes inv: "db_inv db" and s: "new_leaf s" and b: "heap db b = Some sp"
    and h: "hangs (next_addr db) (obj_type s) (obj_body sp) bp"
    and ok: "body_ok (type_at (allocd s db)) (obj_body s)"
    and skel: "as_module (obj_body s) = None" "as_instance (obj_body s) = None"
  shows "grows db (snd (attach_result b bp s db))"
  using assms by (intro grows_attach_result) (auto simp: hangs_def)

section \<open>Ports\<close>

definition port_struct :: "string \<Rightarrow> ig_port_dir \<Rightarrow> addr \<Rightarrow> ig_struct \<Rightarrow> ig_struct" where
  "port_struct name dir m sp =
     struct_of (attr_const (ig_obj_init IG_OBJ_PORT name [sp]) ''direction'' (ig_port_dir_name dir))
       (Port \<lparr>port_dir = dir, port_parent = Some m, port_net = None\<rparr>)"

lemma id_of_child:
  assumes "heap_ok h" and "heap h b = Some sp"
  shows "make_id t [sp] name = ig_obj_type_name t @ ''##'' @ obj_name sp @ ''#'' @ name"
proof -
  have "header_ok sp" using heap_okD [OF assms] by simp
  then show ?thesis by (simp add: make_id_def plist_id_def attr_str_def attr_get_def header_ok_def)
qed

lemma add_port_eq:
  assumes inv: "db_inv db" and m: "heap db m = Some sp" "obj_body sp = Module mb"
  shows "ig_lib_add_port (Some m) dir (Some name) db =
           Inr (attach_result m (with_port (next_addr db) mb) (port_struct name dir m sp) db)"
proof -
  let ?s = "port_struct name dir m sp"
  have fresh: "heap db (next_addr db) = None" using db_invD(4) [OF inv] by (rule heap_ok_fresh)
  have new: "ig_port_new (Some name) dir (Some m) db = Inr (Some (next_addr db), allocd ?s db)"
    using m by (simp add: ig_port_new_def heap_get_def Let_def new_struct_eq port_struct_def)
  show ?thesis
  proof (cases "table_contains db Objects_by_id (obj_id ?s)")
    case True
    then show ?thesis
      using fresh
      by (simp add: ig_lib_add_port_def new heap_get_def attach_result_def leaf_free_allocd table_contains_def)
  next
    case False
    have s0: "obj_refcount ?s = 0" by (simp add: port_struct_def)
    have free: "tables db Objects_by_id (obj_id ?s) = None" using False by (simp add: table_contains_def)
    show ?thesis
      using attach_push_first [where sel = as_module and con = Module and x = mb and
          f = "\<lambda>m. Inr (m\<lparr>mod_ports := push_tail (next_addr db) (mod_ports m)\<rparr>)",
          OF fresh m(1) _ _ s0 free] m(2) False free
      by (simp add: ig_lib_add_port_def new heap_get_def attach_result_def table_contains_def
            with_port_def push_tail_def)
  qed
qed

lemma body_of_type:
  "type_at h a = Some IG_OBJ_MODULE \<Longrightarrow> \<exists>s m. heap h a = Some s \<and> obj_body s = Module m"
  "type_at h a = Some IG_OBJ_INSTANCE \<Longrightarrow> \<exists>s i. heap h a = Some s \<and> obj_body s = Instance i"
  "type_at h a = Some IG_OBJ_REGFILE \<Longrightarrow> \<exists>s r. heap h a = Some s \<and> obj_body s = Regfile r"
  "type_at h a = Some IG_OBJ_REGFILE_ENTRY \<Longrightarrow> \<exists>s e. heap h a = Some s \<and> obj_body s = RfEntry e"
  by (auto simp: type_at_Some obj_type_def elim: body_type.elims)

lemma new_leaf_struct:
  "hdr_ok (body_type b) obj \<Longrightarrow> owned b = [] \<Longrightarrow> obj_refcount obj = 0 \<Longrightarrow> new_leaf (struct_of obj b)"
  by (simp add: new_leaf_def header_ok_struct_of)

lemma grows_add_port:
  assumes inv: "db_inv db" and m: "type_at db m = Some IG_OBJ_MODULE"
  shows "holds (ig_lib_add_port (Some m) dir (Some name) db) (\<lambda>(_, db'). grows db db')"
proof -
  obtain sp mb where sp: "heap db m = Some sp" "obj_body sp = Module mb"
    using body_of_type(1) [OF m] by blast
  have "grows db (snd (attach_result m (with_port (next_addr db) mb) (port_struct name dir m sp) db))"
    by (rule grows_hang [OF inv _ sp(1)])
       (use sp db_invD(4) [OF inv] hangs_rules in
         \<open>simp_all add: port_struct_def new_leaf_struct hdr_ok_attr_const hdr_ok_init not_next_addr obj_type_def\<close>)
  then show ?thesis using add_port_eq [OF inv sp] by (simp add: split_beta)
qed

section \<open>Pins\<close>

definition pin_base :: "string \<Rightarrow> string \<Rightarrow> addr \<Rightarrow> ig_struct \<Rightarrow> ig_struct" where
  "pin_base name conn i sp =
     struct_of (attr_const (ig_obj_init IG_OBJ_PIN name [sp]) ''connection'' conn)
       (Pin \<lparr>pin_connection = conn, pin_parent = Some i, pin_net = None\<rparr>)"

definition pin_struct :: "string \<Rightarrow> string \<Rightarrow> string option \<Rightarrow> addr \<Rightarrow> ig_struct \<Rightarrow> ig_struct" where
  "pin_struct name conn invert i sp =
     (case invert of None \<Rightarrow> pin_base name conn i sp
      | Some v \<Rightarrow> snd (attr_set (pin_base name conn i sp) ''invert'' v False))"

lemma attr_str_connection:
  "attr_str (attr_const (ig_obj_init IG_OBJ_PIN name [sp]) ''connection'' conn) ''connection'' = conn"
  by (simp add: attr_str_def attr_get_def attr_const_def attr_set_def ig_obj_init_def Let_def)

lemma pin_struct_same [simp]:
  "obj_id (pin_struct name conn invert i sp) = make_id IG_OBJ_PIN [sp] name"
  "obj_name (pin_struct name conn invert i sp) = name"
  "obj_refcount (pin_struct name conn invert i sp) = 0"
  "obj_body (pin_struct name conn invert i sp) =
     Pin \<lparr>pin_connection = conn, pin_parent = Some i, pin_net = None\<rparr>"
  by (simp_all add: pin_struct_def pin_base_def attr_set_same attr_set_body split: option.split)

lemma new_leaf_pin: "new_leaf (pin_struct name conn invert i sp)"
proof -
  have "hdr_ok IG_OBJ_PIN (pin_base name conn i sp)"
    using header_ok_struct_of [of "Pin \<lparr>pin_connection = conn, pin_parent = Some i, pin_net = None\<rparr>"]
    by (simp add: pin_base_def header_ok_hdr hdr_ok_attr_const hdr_ok_init)
  then have "hdr_ok IG_OBJ_PIN (pin_struct name conn invert i sp)"
    by (simp add: pin_struct_def hdr_ok_attr_set split: option.split)
  then show ?thesis by (simp add: new_leaf_def header_ok_hdr obj_type_def)
qed

lemma add_pin_eq:
  assumes inv: "db_inv db" and i: "heap db i = Some sp" "obj_body sp = Instance ib"
  shows "ig_lib_add_pin (Some i) (Some name) (Some conn) invert db =
           Inr (attach_result i (with_pin (next_addr db) ib) (pin_struct name conn invert i sp) db)"
proof -
  let ?s = "pin_struct name conn invert i sp"
  have fresh: "heap db (next_addr db) = None" using db_invD(4) [OF inv] by (rule heap_ok_fresh)
  have new: "ig_pin_new (Some name) (Some conn) (Some i) db =
               Inr (Some (next_addr db), allocd (pin_base name conn i sp) db)"
    using i by (simp add: ig_pin_new_def heap_get_def Let_def new_struct_eq pin_base_def attr_str_connection)
  have attr: "\<exists>ok. ig_obj_attr_set (Some (next_addr db)) (Some ''invert'') invert False
               (allocd (pin_base name conn i sp) db) = Inr (ok, allocd ?s db)"
    by (cases invert) (auto simp: ig_obj_attr_set_def pin_struct_def heap_get_def put_def split_beta)
  then obtain ok where attr: "ig_obj_attr_set (Some (next_addr db)) (Some ''invert'') invert False
               (allocd (pin_base name conn i sp) db) = Inr (ok, allocd ?s db)" by blast
  show ?thesis
  proof (cases "table_contains db Objects_by_id (obj_id ?s)")
    case True
    then show ?thesis
      using fresh
      by (simp add: ig_lib_add_pin_def new attr heap_get_def attach_result_def leaf_free_allocd table_contains_def)
  next
    case False
    then have free: "tables db Objects_by_id (obj_id ?s) = None" by (simp add: table_contains_def)
    show ?thesis
      using attach_table_first [where sel = as_instance and con = Instance and x = ib and s = ?s and
          f = "\<lambda>i. Inr (i\<lparr>inst_pins := push_tail (next_addr db) (inst_pins i)\<rparr>)",
          OF fresh i(1) _ _ _ free] i(2) False free
      by (simp add: ig_lib_add_pin_def new attr heap_get_def attach_result_def table_contains_def
            with_pin_def push_tail_def)
  qed
qed

lemma grows_add_pin:
  assumes inv: "db_inv db" and i: "type_at db i = Some IG_OBJ_INSTANCE"
  shows "holds (ig_lib_add_pin (Some i) (Some name) (Some conn) invert db) (\<lambda>(_, db'). grows db db')"
proof -
  obtain sp ib where sp: "heap db i = Some sp" "obj_body sp = Instance ib"
    using body_of_type(2) [OF i] by blast
  have "grows db (snd (attach_result i (with_pin (next_addr db) ib) (pin_struct name conn invert i sp) db))"
    by (rule grows_hang [OF inv new_leaf_pin sp(1)])
       (use sp db_invD(4) [OF inv] hangs_rules in \<open>simp_all add: not_next_addr obj_type_def\<close>)
  then show ?thesis using add_pin_eq [OF inv sp] by (simp add: split_beta)
qed

section \<open>Regfile entries and registers\<close>

definition entry_struct :: "string \<Rightarrow> addr \<Rightarrow> ig_struct list \<Rightarrow> ig_struct" where
  "entry_struct name r plist =
     struct_of (ig_obj_init IG_OBJ_REGFILE_ENTRY name plist) (RfEntry \<lparr>entry_regs = [], entry_parent = Some r\<rparr>)"

definition reg_struct :: "string \<Rightarrow> addr \<Rightarrow> ig_struct list \<Rightarrow> ig_struct" where
  "reg_struct name e plist =
     struct_of (ig_obj_init IG_OBJ_REGFILE_REG name plist) (RfReg \<lparr>reg_parent = Some e\<rparr>)"

lemma regfile_parent_live:
  assumes "heap_ok h" and "heap h r = Some sr" and "obj_body sr = Regfile rb"
  shows "\<exists>m sm. regfile_parent rb = Some m \<and> heap h m = Some sm \<and> obj_type sm = IG_OBJ_MODULE"
  using heap_okD [OF assms(1,2)] assms(3) by (auto simp: type_at_Some)

lemma entry_parent_live:
  assumes "heap_ok h" and "heap h e = Some se" and "obj_body se = RfEntry eb"
  shows "\<exists>r sr rb. entry_parent eb = Some r \<and> heap h r = Some sr \<and> obj_body sr = Regfile rb"
proof -
  have "\<exists>r. entry_parent eb = Some r \<and> type_at h r = Some IG_OBJ_REGFILE"
    using heap_okD [OF assms(1,2)] assms(3) by auto
  then show ?thesis using body_of_type(3) by blast
qed

lemma add_entry_eq:
  assumes inv: "db_inv db" and r: "heap db r = Some sr" "obj_body sr = Regfile rb"
    and m: "regfile_parent rb = Some m" "heap db m = Some sm"
  shows "ig_lib_add_regfile_entry (Some name) (Some r) db =
           Inr (attach_result r (with_entry (next_addr db) rb) (entry_struct name r [sm, sr]) db)"
proof -
  let ?s = "entry_struct name r [sm, sr]"
  have fresh: "heap db (next_addr db) = None" using db_invD(4) [OF inv] by (rule heap_ok_fresh)
  have new: "ig_rf_entry_new (Some name) (Some r) db = Inr (Some (next_addr db), allocd ?s db)"
    using r m by (simp add: ig_rf_entry_new_def fetch_def heap_get_def new_struct_eq entry_struct_def)
  show ?thesis
  proof (cases "table_contains db Objects_by_id (obj_id ?s)")
    case True
    moreover have "ig_rf_entry_free ig_obj_unref (Some (next_addr db)) (allocd ?s db) =
                     Inr (db\<lparr>next_addr := Suc (next_addr db)\<rparr>)"
      by (rule entry_free_allocd [OF fresh, of _ "\<lparr>entry_regs = [], entry_parent = Some r\<rparr>"])
         (simp_all add: entry_struct_def)
    ultimately show ?thesis
      by (simp add: ig_lib_add_regfile_entry_def new heap_get_def attach_result_def table_contains_def)
  next
    case False
    then have free: "tables db Objects_by_id (obj_id ?s) = None" by (simp add: table_contains_def)
    have s0: "obj_refcount ?s = 0" by (simp add: entry_struct_def)
    show ?thesis
      using attach_push_first [where sel = as_regfile and con = Regfile and x = rb and s = ?s and
          f = "\<lambda>r. Inr (r\<lparr>regfile_entries := push_tail (next_addr db) (regfile_entries r)\<rparr>)",
          OF fresh r(1) _ _ s0 free] r(2) False free
      by (simp add: ig_lib_add_regfile_entry_def new heap_get_def attach_result_def table_contains_def
            with_entry_def push_tail_def)
  qed
qed

lemma grows_add_entry:
  assumes inv: "db_inv db" and r: "type_at db r = Some IG_OBJ_REGFILE"
  shows "holds (ig_lib_add_regfile_entry (Some name) (Some r) db) (\<lambda>(_, db'). grows db db')"
proof -
  obtain sr rb where sr: "heap db r = Some sr" "obj_body sr = Regfile rb"
    using body_of_type(3) [OF r] by blast
  obtain m sm where m: "regfile_parent rb = Some m" "heap db m = Some sm"
    using regfile_parent_live [OF db_invD(4) [OF inv] sr] by blast
  have "grows db (snd (attach_result r (with_entry (next_addr db) rb) (entry_struct name r [sm, sr]) db))"
    by (rule grows_hang [OF inv _ sr(1)])
       (use sr db_invD(4) [OF inv] hangs_rules in
         \<open>simp_all add: entry_struct_def new_leaf_struct hdr_ok_init not_next_addr obj_type_def\<close>)
  then show ?thesis using add_entry_eq [OF inv sr m] by (simp add: split_beta)
qed

lemma add_reg_eq:
  assumes inv: "db_inv db" and e: "heap db e = Some se" "obj_body se = RfEntry eb"
    and r: "entry_parent eb = Some r" "heap db r = Some sr" "obj_body sr = Regfile rb"
    and m: "regfile_parent rb = Some m" "heap db m = Some sm"
  shows "ig_lib_add_regfile_reg (Some name) (Some e) db =
           Inr (attach_result e (with_reg (next_addr db) eb) (reg_struct name e [sm, sr, se]) db)"
proof -
  let ?s = "reg_struct name e [sm, sr, se]"
  have fresh: "heap db (next_addr db) = None" using db_invD(4) [OF inv] by (rule heap_ok_fresh)
  have new: "ig_rf_reg_new (Some name) (Some e) db = Inr (Some (next_addr db), allocd ?s db)"
    using e r m by (simp add: ig_rf_reg_new_def fetch_def heap_get_def new_struct_eq reg_struct_def)
  show ?thesis
  proof (cases "table_contains db Objects_by_id (obj_id ?s)")
    case True
    then show ?thesis
      using fresh
      by (simp add: ig_lib_add_regfile_reg_def new heap_get_def attach_result_def leaf_free_allocd table_contains_def)
  next
    case False
    then have free: "tables db Objects_by_id (obj_id ?s) = None" by (simp add: table_contains_def)
    have s0: "obj_refcount ?s = 0" by (simp add: reg_struct_def)
    show ?thesis
      using attach_push_first [where sel = as_rf_entry and con = RfEntry and x = eb and s = ?s and
          f = "\<lambda>e. Inr (e\<lparr>entry_regs := push_tail (next_addr db) (entry_regs e)\<rparr>)",
          OF fresh e(1) _ _ s0 free] e(2) False free
      by (simp add: ig_lib_add_regfile_reg_def new heap_get_def attach_result_def table_contains_def
            with_reg_def push_tail_def)
  qed
qed

lemma grows_add_reg:
  assumes inv: "db_inv db" and e: "type_at db e = Some IG_OBJ_REGFILE_ENTRY"
  shows "holds (ig_lib_add_regfile_reg (Some name) (Some e) db) (\<lambda>(_, db'). grows db db')"
proof -
  note h = db_invD(4) [OF inv]
  obtain se eb where se: "heap db e = Some se" "obj_body se = RfEntry eb"
    using body_of_type(4) [OF e] by blast
  obtain r sr rb where r: "entry_parent eb = Some r" "heap db r = Some sr" "obj_body sr = Regfile rb"
    using entry_parent_live [OF h se] by blast
  obtain m sm where m: "regfile_parent rb = Some m" "heap db m = Some sm"
    using regfile_parent_live [OF h r(2,3)] by blast
  have "grows db (snd (attach_result e (with_reg (next_addr db) eb) (reg_struct name e [sm, sr, se]) db))"
    by (rule grows_hang [OF inv _ se(1)])
       (use se h hangs_rules in
         \<open>simp_all add: reg_struct_def new_leaf_struct hdr_ok_init not_next_addr obj_type_def\<close>)
  then show ?thesis using add_reg_eq [OF inv se r m] by (simp add: split_beta)
qed

section \<open>Declarations, parameters and adjustments\<close>

definition decl_struct :: "string \<Rightarrow> addr \<Rightarrow> ig_struct \<Rightarrow> ig_struct" where
  "decl_struct name m sp =
     struct_of (ig_obj_init IG_OBJ_DECLARATION name [sp]) (Decl \<lparr>decl_parent = Some m, decl_net = None\<rparr>)"

definition param_struct :: "string \<Rightarrow> string \<Rightarrow> bool \<Rightarrow> addr \<Rightarrow> ig_struct \<Rightarrow> ig_struct" where
  "param_struct name v local m sp =
     struct_of (attr_const (attr_const (ig_obj_init IG_OBJ_PARAMETER name [sp]) ''value'' v) ''local'' (bool_str local))
       (Param \<lparr>param_value = v, param_local = local, param_parent = Some m, param_generic = None\<rparr>)"

definition adjustment_struct :: "string \<Rightarrow> string \<Rightarrow> addr \<Rightarrow> ig_struct \<Rightarrow> ig_struct" where
  "adjustment_struct name v i sp =
     struct_of (attr_const (ig_obj_init IG_OBJ_ADJUSTMENT name [sp]) ''value'' v)
       (Adjustment \<lparr>adj_value = v, adj_parent = Some i, adj_generic = None\<rparr>)"

lemma attr_str_value:
  "attr_str (attr_const (ig_obj_init t name [sp]) ''value'' v) ''value'' = v"
  "attr_str (attr_const (attr_const (ig_obj_init t name [sp]) ''value'' v) ''local'' w) ''value'' = v"
  by (simp_all add: attr_str_def attr_get_def attr_const_def attr_set_def ig_obj_init_def Let_def)

lemma process_add_eq:
  assumes "db_inv db" and b: "heap db b = Some sp" "sel (obj_body sp) = Some x"
    and push: "push (next_addr db) = modify sel con (Some b) f" and f: "f x = Inr x'"
    and s: "obj_refcount s = 0"
  shows "process_add (Some (next_addr db)) push (allocd s db) =
           Inr (attach_result b (con x') s db)"
proof -
  have fresh: "heap db (next_addr db) = None" using db_invD(4) [OF assms(1)] by (rule heap_ok_fresh)
  show ?thesis
  proof (cases "table_contains db Objects_by_id (obj_id s)")
    case True
    then show ?thesis
      using fresh push
      by (simp add: process_add_def heap_get_def attach_result_def leaf_free_allocd table_contains_def)
  next
    case False
    then have free: "tables db Objects_by_id (obj_id s) = None" by (simp add: table_contains_def)
    show ?thesis
      using attach_table_first [where sel = sel and con = con and x = x and f = f, OF fresh b f s free] False free push
      by (simp add: process_add_def heap_get_def attach_result_def table_contains_def)
  qed
qed

lemma new_structs_refcount [simp]:
  "obj_refcount (decl_struct name m sp) = 0" "obj_refcount (param_struct name v local m sp) = 0"
  "obj_refcount (adjustment_struct name v m sp) = 0"
  by (simp_all add: decl_struct_def param_struct_def adjustment_struct_def)

lemma add_decl_eq:
  assumes inv: "db_inv db" and m: "heap db m = Some sp" "obj_body sp = Module mb" "mod_decls mb \<noteq> None"
  shows "res_bind (ig_decl_new (Some name) (Some m) db) (\<lambda>(d, db).
           process_add d (\<lambda>a. modify as_module Module (Some m)
             (\<lambda>m. res_bind (push_tail_opt a (mod_decls m)) (\<lambda>q. Inr (m\<lparr>mod_decls := q\<rparr>)))) db) =
         Inr (attach_result m (with_decl (next_addr db) mb) (decl_struct name m sp) db)"
proof -
  have "ig_decl_new (Some name) (Some m) db = Inr (Some (next_addr db), allocd (decl_struct name m sp) db)"
    using m by (simp add: ig_decl_new_def heap_get_def new_struct_eq decl_struct_def)
  then show ?thesis
    using m
    by (auto simp: push_tail_opt_def push_tail_def with_decl_def
          intro!: process_add_eq [OF inv m(1), where sel = as_module and x = mb])
qed

lemma grows_add_decl:
  assumes inv: "db_inv db" and m: "heap db m = Some sp" "obj_body sp = Module mb" "mod_decls mb \<noteq> None"
  shows "grows db (snd (attach_result m (with_decl (next_addr db) mb) (decl_struct name m sp) db))"
  by (rule grows_hang [OF inv _ m(1)])
     (use m db_invD(4) [OF inv] hangs_rules(3) [of mb] in
       \<open>simp_all add: decl_struct_def new_leaf_struct hdr_ok_init not_next_addr obj_type_def\<close>)

lemma add_param_eq:
  assumes inv: "db_inv db" and m: "heap db m = Some sp" "obj_body sp = Module mb"
  shows "res_bind (ig_param_new (Some name) (Some v) local (Some m) db) (\<lambda>(d, db).
           process_add d (\<lambda>a. modify as_module Module (Some m)
             (\<lambda>m. Inr (m\<lparr>mod_params := push_tail a (mod_params m)\<rparr>))) db) =
         Inr (attach_result m (with_param (next_addr db) mb) (param_struct name v local m sp) db)"
proof -
  have "ig_param_new (Some name) (Some v) local (Some m) db =
          Inr (Some (next_addr db), allocd (param_struct name v local m sp) db)"
    using m by (simp add: ig_param_new_def heap_get_def new_struct_eq param_struct_def Let_def attr_str_value)
  then show ?thesis
    using m
    by (auto simp: push_tail_def with_param_def
          intro!: process_add_eq [OF inv m(1), where sel = as_module and x = mb])
qed

lemma grows_add_param:
  assumes inv: "db_inv db" and m: "heap db m = Some sp" "obj_body sp = Module mb"
  shows "grows db (snd (attach_result m (with_param (next_addr db) mb) (param_struct name v local m sp) db))"
  by (rule grows_hang [OF inv _ m(1)])
     (use m db_invD(4) [OF inv] hangs_rules(2) in
       \<open>simp_all add: param_struct_def new_leaf_struct hdr_ok_attr_const hdr_ok_init not_next_addr obj_type_def\<close>)

lemma add_adjustment_eq:
  assumes inv: "db_inv db" and i: "heap db i = Some sp" "obj_body sp = Instance ib"
  shows "res_bind (ig_adjustment_new (Some name) (Some v) (Some i) db) (\<lambda>(d, db).
           process_add d (\<lambda>a. modify as_instance Instance (Some i)
             (\<lambda>i. Inr (i\<lparr>inst_adjustments := push_tail a (inst_adjustments i)\<rparr>))) db) =
         Inr (attach_result i (with_adjustment (next_addr db) ib) (adjustment_struct name v i sp) db)"
proof -
  have "ig_adjustment_new (Some name) (Some v) (Some i) db =
          Inr (Some (next_addr db), allocd (adjustment_struct name v i sp) db)"
    using i by (simp add: ig_adjustment_new_def heap_get_def new_struct_eq adjustment_struct_def Let_def attr_str_value)
  then show ?thesis
    using i
    by (auto simp: push_tail_def with_adjustment_def
          intro!: process_add_eq [OF inv i(1), where sel = as_instance and x = ib])
qed

lemma grows_add_adjustment:
  assumes inv: "db_inv db" and i: "heap db i = Some sp" "obj_body sp = Instance ib"
  shows "grows db (snd (attach_result i (with_adjustment (next_addr db) ib) (adjustment_struct name v i sp) db))"
  by (rule grows_hang [OF inv _ i(1)])
     (use i db_invD(4) [OF inv] hangs_rules(5) in
       \<open>simp_all add: adjustment_struct_def new_leaf_struct hdr_ok_attr_const hdr_ok_init not_next_addr obj_type_def\<close>)

section \<open>The contract of the operations\<close>

text \<open>
  What adding a child promises: \<open>NULL\<close> and an untouched database if the id is taken; otherwise one
  new object with the given id, name and contents and two references, filed under its id, and
  nothing else changed but the parent.
\<close>

definition adds_child ::
    "addr \<Rightarrow> ig_body \<Rightarrow> string \<Rightarrow> string \<Rightarrow> ig_body \<Rightarrow> ig_lib_db \<Rightarrow> ptr \<times> ig_lib_db \<Rightarrow> bool"
where
  "adds_child b bp i nm body db r \<longleftrightarrow> (case r of (p, db') \<Rightarrow>
     if tables db Objects_by_id i \<noteq> None
     then p = None \<and> heap db' = heap db \<and> tables db' = tables db
     else p = Some (next_addr db) \<and>
       (\<exists>s. heap db' (next_addr db) = Some s \<and> obj_id s = i \<and> obj_name s = nm \<and> obj_refcount s = 2 \<and>
            obj_body s = body) \<and>
       map_option obj_body (heap db' b) = Some bp \<and>
       (\<forall>x. x \<noteq> b \<longrightarrow> x \<noteq> next_addr db \<longrightarrow> heap db' x = heap db x) \<and>
       tables db' = (tables db)(Objects_by_id := (tables db Objects_by_id)(i \<mapsto> next_addr db)))"

lemma attach_adds_child:
  assumes "heap_ok db" "heap db b = Some sp" "obj_id s = i" "obj_name s = nm" "obj_body s = body"
  shows "adds_child b bp i nm body db (attach_result b bp s db)"
  using assms not_next_addr [OF assms(1,2)]
  by (auto simp: adds_child_def attach_result_def table_contains_def attached_heap attached_tables)

lemma id_of_plist:
  assumes "heap_ok h" and "\<forall>s \<in> set plist. \<exists>a. heap h a = Some s"
  shows "make_id t plist name = ig_obj_type_name t @ ''##'' @ concat (map (\<lambda>s. obj_name s @ ''#'') plist) @ name"
proof -
  have "attr_str s ''name'' = obj_name s" if "s \<in> set plist" for s
    using assms heap_okD [OF assms(1)] that by (fastforce simp: attr_str_def attr_get_def header_ok_def)
  then have "map (\<lambda>s. attr_str s ''name'' @ ''#'') plist = map (\<lambda>s. obj_name s @ ''#'') plist" by simp
  then show ?thesis by (simp only: make_id_def plist_id_def)
qed

end
