(* ===== verification/Ig_Register.thy ===== *)
theory Ig_Register
  imports Ig_Leaf
begin

text \<open>
  Registration under a name and an id, \<open>register3\<close>, and the operations that use it or that may
  displace another object from a table: modules, instances, regfiles, codesections. The proofs
  follow one object \<open>a\<close> through the states in which its reference count is not yet right.
\<close>

section \<open>States that differ in reference counts only\<close>

definition rc_eq :: "'a ig_heap_scheme \<Rightarrow> 'b ig_heap_scheme \<Rightarrow> bool" where
  "rc_eq h h' \<longleftrightarrow> (\<forall>x. \<exists>f. heap h' x = map_option (\<lambda>s. s\<lparr>obj_refcount := f s\<rparr>) (heap h x))"

lemma rc_eqD: "rc_eq h h' \<Longrightarrow> \<exists>f. heap h' x = map_option (\<lambda>s. s\<lparr>obj_refcount := f s\<rparr>) (heap h x)"
  by (simp add: rc_eq_def)

lemma rc_eq_refl: "rc_eq h h"
  unfolding rc_eq_def using recount_self by blast

lemma rc_eq_trans: "rc_eq h h' \<Longrightarrow> rc_eq h' h'' \<Longrightarrow> rc_eq h h''"
  unfolding rc_eq_def
proof (intro allI)
  fix x assume "\<forall>x. \<exists>f. heap h' x = map_option (\<lambda>s. s\<lparr>obj_refcount := f s\<rparr>) (heap h x)"
    and "\<forall>x. \<exists>f. heap h'' x = map_option (\<lambda>s. s\<lparr>obj_refcount := f s\<rparr>) (heap h' x)"
  then obtain f g where "heap h' x = map_option (\<lambda>s. s\<lparr>obj_refcount := f s\<rparr>) (heap h x)"
    "heap h'' x = map_option (\<lambda>s. s\<lparr>obj_refcount := g s\<rparr>) (heap h' x)" by blast
  then show "\<exists>f. heap h'' x = map_option (\<lambda>s. s\<lparr>obj_refcount := f s\<rparr>) (heap h x)"
    by (intro exI [of _ "\<lambda>s. g (s\<lparr>obj_refcount := f s\<rparr>)"]) (cases "heap h x"; simp)
qed

lemma rc_eq_put: "heap h a = Some s \<Longrightarrow> rc_eq h (put a (s\<lparr>obj_refcount := n\<rparr>) h)"
  unfolding rc_eq_def
proof (intro allI)
  fix x assume "heap h a = Some s"
  then show "\<exists>f. heap (put a (s\<lparr>obj_refcount := n\<rparr>) h) x = map_option (\<lambda>s. s\<lparr>obj_refcount := f s\<rparr>) (heap h x)"
    using recount_self [of "heap h x"] by (cases "x = a") auto
qed

lemma rc_eq_pointwise:
  assumes "rc_eq h h'"
  shows "owned_at h' b = owned_at h b" "type_at h' b = type_at h b" "mod_skel h' b = mod_skel h b"
    "inst_skel h' b = inst_skel h b"
  using rc_eqD [OF assms, of b]
  by (cases "heap h b"; auto simp: owned_at_def type_at_def mod_skel_def inst_skel_def obj_type_def)+

lemma rc_eq_same:
  assumes "rc_eq h h'"
  shows "owned_at h' = owned_at h" "type_at h' = type_at h" "mod_skel h' = mod_skel h"
    "inst_skel h' = inst_skel h"
  using rc_eq_pointwise [OF assms] by auto

lemma rc_eq_heap: "rc_eq h h' \<Longrightarrow> heap h x = Some s \<Longrightarrow> \<exists>n. heap h' x = Some (s\<lparr>obj_refcount := n\<rparr>)"
  using rc_eqD [of h h' x] by auto

lemma base_inv_ref:
  assumes inv: "base_inv a n db" and a: "heap db a = Some s"
  shows "base_inv a (n + 1) (put a (s\<lparr>obj_refcount := obj_refcount s + 1\<rparr>) db)"
proof (rule base_inv_put [OF inv a, where k = 0 and d = 1])
  have "heap_ok db" using inv by (simp add: base_inv_def)
  then show "header_ok (s\<lparr>obj_refcount := obj_refcount s + 1\<rparr>)"
    "body_ok (type_at db) (obj_body (s\<lparr>obj_refcount := obj_refcount s + 1\<rparr>))"
    using heap_okD [OF _ a] by (simp_all add: header_ok_def obj_type_def)
qed (simp_all add: obj_type_def)

text \<open>One insertion, in the form the sequences below use it.\<close>

definition others_ok :: "addr \<Rightarrow> ig_lib_db \<Rightarrow> bool" where
  "others_ok a db \<longleftrightarrow>
     (\<forall>t k x. tables db t k = Some x \<longrightarrow> x \<noteq> a \<longrightarrow>
        anchored db x \<and> (\<forall>mo. inst_skel db x \<noteq> Some (mo, None)))"

lemma anchored_same:
  assumes "\<And>t k. table_is_name t \<Longrightarrow> tables db' t k = tables db t k" and "owned_at db' = owned_at db"
  shows "anchored db' x = anchored db x"
  using assms by (auto simp: anchored_def)

lemma insert_step:
  assumes inv: "base_inv a n db" and oth: "others_ok a db" and a: "heap db a = Some s" "entry_ok t k s"
    and free: "tables db t k \<noteq> Some a" "table_is_name t \<Longrightarrow> tables db t k = None"
  shows "holds (table_insert t k a db) (\<lambda>db'.
           base_inv a (n - 1) db' \<and> others_ok a db' \<and> rc_eq db db' \<and> heap db' a = Some s \<and>
           next_addr db' = next_addr db \<and> tables db' = (tables db)(t := (tables db t)(k \<mapsto> a)))"
proof -
  let ?db = "set_table t ((tables db t)(k \<mapsto> a)) db"
  have anch: "anchored ?db x" if "anchored db x" for x
  proof (rule anchored_mono [OF _ _ that])
    fix t' k' assume "table_is_name t'" "tables db t' k' = Some x"
    then show "tables ?db t' k' = Some x" using free(2) by auto
  qed simp
  have "holds (table_insert t k a db) (\<lambda>db'.
           base_inv a (n - 1) db' \<and> type_at db' = type_at db \<and> next_addr db' = next_addr db \<and>
           tables db' = (tables db)(t := (tables db t)(k \<mapsto> a)) \<and> heap db' a = Some s \<and>
           (\<forall>x. \<exists>f. heap db' x = map_option (\<lambda>s. s\<lparr>obj_refcount := f s\<rparr>) (heap db x)))"
  proof (rule base_inv_table_insert [OF inv a])
    fix x assume x: "tables db t k = Some x"
    then have "x \<noteq> a" using free(1) by auto
    then show "x \<noteq> a \<and> anchored ?db x" using oth x anch by (auto simp: others_ok_def)
  qed
  then show ?thesis
  proof (rule holds_mono, elim conjE, intro conjI)
    fix db' :: ig_lib_db
    assume tb: "tables db' = (tables db)(t := (tables db t)(k \<mapsto> a))"
      and "\<forall>x. \<exists>f. heap db' x = map_option (\<lambda>s. s\<lparr>obj_refcount := f s\<rparr>) (heap db x)"
    then show rc: "rc_eq db db'" by (simp add: rc_eq_def)
    have "anchored db' x = anchored ?db x" for x
      by (rule anchored_same) (simp_all add: tb rc_eq_same [OF rc])
    then show "others_ok a db'"
      using oth anch by (auto simp: others_ok_def tb rc_eq_same [OF rc] split: if_splits)
  qed assumption+
qed


section \<open>Registration\<close>

lemma refs_thrice:
  assumes inv: "base_inv a n db" and a: "heap db a = Some s"
  shows "holds (res_bind (ig_obj_ref (Some a) db) (\<lambda>db. res_bind (ig_obj_ref (Some a) db) (\<lambda>db.
           ig_obj_ref (Some a) db))) (\<lambda>db'. base_inv a (n + 3) db' \<and> rc_eq db db' \<and>
             next_addr db' = next_addr db \<and> tables db' = tables db)"
proof -
  let ?s1 = "s\<lparr>obj_refcount := obj_refcount s + 1\<rparr>"
  let ?s2 = "?s1\<lparr>obj_refcount := obj_refcount ?s1 + 1\<rparr>"
  let ?s3 = "?s2\<lparr>obj_refcount := obj_refcount ?s2 + 1\<rparr>"
  let ?db1 = "put a ?s1 db" let ?db2 = "put a ?s2 ?db1" let ?db3 = "put a ?s3 ?db2"
  have 1: "base_inv a (n + 1) ?db1" using inv a by (rule base_inv_ref)
  have 2: "base_inv a (n + 1 + 1) ?db2" by (rule base_inv_ref [OF 1]) simp
  have 3: "base_inv a (n + 1 + 1 + 1) ?db3" by (rule base_inv_ref [OF 2]) simp
  have "rc_eq db ?db1" using a by (rule rc_eq_put)
  moreover have "rc_eq ?db1 ?db2" by (rule rc_eq_put) simp
  moreover have "rc_eq ?db2 ?db3" by (rule rc_eq_put) simp
  ultimately have rc: "rc_eq db ?db3" by (blast intro: rc_eq_trans)
  have "res_bind (ig_obj_ref (Some a) db) (\<lambda>db. res_bind (ig_obj_ref (Some a) db) (\<lambda>db.
          ig_obj_ref (Some a) db)) = Inr ?db3"
  proof -
    have r1: "ig_obj_ref (Some a) db = Inr ?db1" using a by (rule ref_Some)
    have r2: "ig_obj_ref (Some a) ?db1 = Inr ?db2" by (rule ref_Some) simp
    have r3: "ig_obj_ref (Some a) ?db2 = Inr ?db3" by (rule ref_Some) simp
    show ?thesis by (simp only: r1 r2 r3 res_bind.simps)
  qed
  with 3 rc show ?thesis by (simp add: add.assoc)
qed

lemma others_ok_all:
  assumes "others_ok a db" and "anchored db a" and "\<forall>mo. inst_skel db a \<noteq> Some (mo, None)"
  shows "anch_inv db"
  using assms unfolding anch_inv_def others_ok_def by blast

definition registered :: "ig_table \<Rightarrow> ig_table \<Rightarrow> addr \<Rightarrow> string \<Rightarrow> string \<Rightarrow> ig_lib_db
    \<Rightarrow> ig_table \<Rightarrow> string \<rightharpoonup> addr" where
  "registered nt it a l_name l_id db =
     (tables db)(nt := (tables db nt)(l_name \<mapsto> a), it := (tables db it)(l_id \<mapsto> a),
                 Objects_by_id := (tables db Objects_by_id)(l_id \<mapsto> a))"

lemma rc_eq_keeps: "rc_eq db db' \<Longrightarrow> keeps db db'"
  unfolding keeps_def by (fastforce simp: obj_type_def dest: rc_eq_heap)

lemma default_named_rc_eq: "rc_eq (db :: ig_lib_db) (db' :: ig_lib_db) \<Longrightarrow> heap_ok db \<Longrightarrow> default_named db \<Longrightarrow> default_named db'"
  by (rule default_named_keeps [of db db']) (simp_all add: rc_eq_keeps rc_eq_same)

lemma listed_rc_eq: "rc_eq db db' \<Longrightarrow> heap db' x = Some s' \<Longrightarrow>
    (\<And>s. heap db x = Some s \<Longrightarrow> listed x s db') \<Longrightarrow> listed x s' db'"
  using rc_eqD [of db db' x] by (cases "heap db x") (auto simp: listed_def obj_type_def)

lemma mods_inv_rc_eq:
  assumes "rc_eq db db'" and "\<And>x s. heap db x = Some s \<Longrightarrow> listed x s db'"
  shows "mods_inv db'"
  unfolding mods_inv_def using listed_rc_eq [OF assms(1)] assms(2) by blast

theorem register3_ok:
  assumes inv: "base_inv a 0 db" and hier: "hier_inv db" and oth: "others_ok a db"
    and dn: "default_named db"
    and mods: "\<And>x s. heap db x = Some s \<Longrightarrow> x \<noteq> a \<Longrightarrow> listed x s db"
    and a: "heap db a = Some s" "obj_name s = l_name" "obj_id s = l_id"
    and inst: "\<forall>mo. inst_skel db a \<noteq> Some (mo, None)"
    and nt: "table_is_name nt" "table_type nt = Some (obj_type s)" "tables db nt l_name = None"
    and it: "\<not> table_is_name it" "table_type it = Some (obj_type s)" "tables db it l_id \<noteq> Some a"
    and ob: "tables db Objects_by_id l_id \<noteq> Some a"
  shows "holds (register3 nt it a l_name l_id db) (\<lambda>db'.
           db_inv db' \<and> rc_eq db db' \<and> next_addr db' = next_addr db \<and>
           tables db' = registered nt it a l_name l_id db)"
proof -
  have ne: "nt \<noteq> it" "nt \<noteq> Objects_by_id" "it \<noteq> Objects_by_id"
    using nt it by auto
  note i1 = insert_step [OF inv oth a(1), of nt l_name]
  obtain db1 where db1: "table_insert nt l_name a db = Inr db1" "base_inv a (0 - 1) db1" "others_ok a db1"
      "rc_eq db db1" "heap db1 a = Some s" "next_addr db1 = next_addr db"
      "tables db1 = (tables db)(nt := (tables db nt)(l_name \<mapsto> a))"
    using i1 a nt by (auto simp: holds_iff entry_ok_def)
  obtain db2 where db2: "table_insert it l_id a db1 = Inr db2" "base_inv a (0 - 1 - 1) db2" "others_ok a db2"
      "rc_eq db1 db2" "heap db2 a = Some s" "next_addr db2 = next_addr db1"
      "tables db2 = (tables db1)(it := (tables db1 it)(l_id \<mapsto> a))"
    using insert_step [OF db1(2,3,5), of it l_id] a it ne db1(7) by (auto simp: holds_iff entry_ok_def)
  obtain db3 where db3: "table_insert Objects_by_id l_id a db2 = Inr db3" "base_inv a (0 - 1 - 1 - 1) db3"
      "others_ok a db3" "rc_eq db2 db3" "heap db3 a = Some s" "next_addr db3 = next_addr db2"
      "tables db3 = (tables db2)(Objects_by_id := (tables db2 Objects_by_id)(l_id \<mapsto> a))"
    using insert_step [OF db2(2,3,5), of Objects_by_id l_id] a ob ne db1(7) db2(7)
    by (auto simp: holds_iff entry_ok_def)
  obtain db4 where db4: "res_bind (ig_obj_ref (Some a) db3) (\<lambda>db. res_bind (ig_obj_ref (Some a) db) (\<lambda>db.
      ig_obj_ref (Some a) db)) = Inr db4" "base_inv a (0 - 1 - 1 - 1 + 3) db4" "rc_eq db3 db4"
      "next_addr db4 = next_addr db3" "tables db4 = tables db3"
    using refs_thrice [OF db3(2,5)] by (auto simp: holds_iff)
  have rc: "rc_eq db db4" using db1(4) db2(4) db3(4) db4(3) by (blast intro: rc_eq_trans)
  have tb: "tables db4 = registered nt it a l_name l_id db"
    using db1(7) db2(7) db3(7) db4(5) ne by (auto simp: registered_def fun_eq_iff)
  have "anchored db4 x = anchored db3 x" for x
    by (rule anchored_same) (simp_all add: db4(5) rc_eq_same [OF db4(3)])
  then have "others_ok a db4"
    using db3(3) by (simp add: others_ok_def db4(5) rc_eq_same [OF db4(3)])
  moreover have "anchored db4 a"
    using nt(1) ne unfolding anchored_def tb
    by (intro disjI1 exI [of _ nt] exI [of _ l_name]) (simp add: registered_def)
  moreover have "\<forall>mo. inst_skel db4 a \<noteq> Some (mo, None)" using inst by (simp add: rc_eq_same [OF rc])
  ultimately have "anch_inv db4" by (rule others_ok_all)
  moreover have "hier_inv db4" by (rule hier_inv_cong [OF _ _ hier]) (simp_all add: rc_eq_same [OF rc])
  moreover have "base_inv 0 0 db4" using db4(2) base_inv_zero by simp
  moreover have "mods_inv db4"
  proof (rule mods_inv_rc_eq [OF rc])
    fix x sx assume x: "heap db x = Some sx"
    show "listed x sx db4"
    proof (cases "x = a")
      case True
      then show ?thesis
        using x a nt ne by (auto simp: listed_def tb registered_def elim!: table_type.elims)
    next
      case False
      with x mods have "listed x sx db" by blast
      then show ?thesis
        using nt it ne by (auto simp: listed_def tb registered_def)
    qed
  qed
  moreover have "default_named db4"
    using rc _ dn by (rule default_named_rc_eq) (use inv in \<open>simp add: base_inv_def\<close>)
  ultimately show ?thesis
    using rc tb db1 db2 db3 db4 by (simp add: register3_def db_inv_def)
qed

text \<open>What is registered, owned or was there before is no waste.\<close>

lemma waste_registered:
  assumes rc: "rc_eq db1 db'" and tb: "tables db' = registered nt it a l_name l_id db1"
    and nt: "table_is_name nt" "tables db1 nt l_name = None" and it: "\<not> table_is_name it"
    and old: "tables db1 = tables db" "\<And>b. set (owned_at db b) \<subseteq> set (owned_at db1 b)"
    and new: "\<And>x. heap db1 x \<noteq> None \<Longrightarrow> heap db x = None \<Longrightarrow> x = a \<or> (\<exists>b. x \<in> set (owned_at db1 b))"
  shows "waste db' \<subseteq> waste db"
proof (rule waste_mono)
  show "tables db' t k = Some x" if "table_is_name t" "tables db t k = Some x" for t k x
    using that nt it by (auto simp: tb registered_def old(1))
  show "set (owned_at db b) \<subseteq> set (owned_at db' b)" for b using old(2) by (simp add: rc_eq_same [OF rc])
  show "anchored db' x" if live: "heap db' x \<noteq> None" "heap db x = None" for x
  proof -
    have "heap db1 x \<noteq> None" using live(1) rc_eqD [OF rc, of x] by auto
    then consider "x = a" | b where "x \<in> set (owned_at db' b)" using new [of x] live(2) by (auto simp: rc_eq_same [OF rc])
    then show ?thesis
    proof cases
      case 1
      have "tables db' nt l_name = Some a" using nt(1) it by (auto simp: tb registered_def)
      then show ?thesis using nt(1) 1 unfolding anchored_def by blast
    qed (auto simp: anchored_def)
  qed
qed

end
