(* ===== verification/Ig_Skel.thy ===== *)
theory Ig_Skel
  imports Ig_Forest
begin

text \<open>
  How the hierarchy changes when a module, a resource, a default instance or an instance of a
  resource is added, on the skeletons of modules and instances alone.
\<close>

lemma skel_resource: "skel_ok M I \<Longrightarrow> M m = Some (True, d, q) \<Longrightarrow> d = None"
  unfolding skel_ok_def by blast

lemma skel_add_resource:
  assumes "skel_ok M I" and "M m = None"
  shows "skel_ok (M(m \<mapsto> (True, None, []))) I" and "up_of (M(m \<mapsto> (True, None, []))) I = up_of M I"
proof -
  show "skel_ok (M(m \<mapsto> (True, None, []))) I"
    using assms unfolding skel_ok_def by (fastforce split: if_splits)
  show "up_of (M(m \<mapsto> (True, None, []))) I = up_of M I"
    using assms by (auto simp: fun_eq_iff up_of_def)
qed

lemma skel_default_inst:
  "skel_ok M I \<Longrightarrow> M m = Some (False, d, q) \<Longrightarrow>
     \<exists>i p. d = Some i \<and> I i = Some (Some m, p) \<and> q = (if p = None then [] else [i])"
  using skel_default by blast

lemma skel_not_default:
  "skel_ok M I \<Longrightarrow> M m = Some (r, Some i, q) \<Longrightarrow> \<exists>p. I i = Some (Some m, p)"
  unfolding skel_ok_def by (cases r) (fastforce+)

lemma skel_add_module:
  assumes ok: "skel_ok M I" and "M m = None" and "I i = None"
  shows "skel_ok (M(m \<mapsto> (False, Some i, []))) (I(i \<mapsto> (Some m, None)))"
    and "up_of (M(m \<mapsto> (False, Some i, []))) (I(i \<mapsto> (Some m, None))) = up_of M I"
proof -
  have I: "mo \<noteq> Some m \<and> p \<noteq> Some m" if "I j = Some (mo, p)" for j mo p
    using ok that assms(2) unfolding skel_ok_def by fastforce
  show "skel_ok (M(m \<mapsto> (False, Some i, []))) (I(i \<mapsto> (Some m, None)))"
    unfolding skel_ok_def
  proof (intro conjI allI impI)
    fix m' d q assume "(M(m \<mapsto> (False, Some i, []))) m' = Some (True, d, q)"
    then show "d = None" using skel_resource [OF ok] by (auto split: if_splits)
  next
    fix m' d q assume m': "(M(m \<mapsto> (False, Some i, []))) m' = Some (False, d, q)"
    show "\<exists>ia p. d = Some ia \<and> (I(i \<mapsto> (Some m, None))) ia = Some (Some m', p) \<and>
                  q = (if p = None then [] else [ia])"
    proof (cases "m' = m")
      case False
      then obtain ia p where "d = Some ia" "I ia = Some (Some m', p)" "q = (if p = None then [] else [ia])"
        using skel_default_inst [OF ok, of m' d q] m' by auto
      then show ?thesis using assms(3) by (intro exI [of _ ia] exI [of _ p]) auto
    qed (use m' in auto)
  next
    fix j mo p assume j: "(I(i \<mapsto> (Some m, None))) j = Some (mo, p)"
    show "\<exists>m' r d q. mo = Some m' \<and> (M(m \<mapsto> (False, Some i, []))) m' = Some (r, d, q) \<and>
                  (\<not> r \<longrightarrow> d = Some j) \<and> (r \<longrightarrow> p \<noteq> None)"
    proof (cases "j = i")
      case False
      then have "I j = Some (mo, p)" using j by simp
      with ok I show ?thesis unfolding skel_ok_def by fastforce
    qed (use j in auto)
    fix pm assume "p = Some pm"
    with j have "I j = Some (mo, Some pm)" by (auto split: if_splits)
    then show "\<exists>d q. (M(m \<mapsto> (False, Some i, []))) pm = Some (False, d, q)"
      using skel_parent [OF ok] I by fastforce
  qed
  show "up_of (M(m \<mapsto> (False, Some i, []))) (I(i \<mapsto> (Some m, None))) = up_of M I"
    using assms skel_not_default [OF ok]
    by (fastforce simp: fun_eq_iff up_of_def split: option.splits)
qed

lemma skel_link_default:
  assumes ok: "skel_ok M I" and m: "M m = Some (False, Some i, [])" and i: "I i = Some (Some m, None)"
    and p: "M p = Some (False, d, q)"
  shows "skel_ok (M(m \<mapsto> (False, Some i, [i]))) (I(i \<mapsto> (Some m, Some p)))"
    and "up_of (M(m \<mapsto> (False, Some i, [i]))) (I(i \<mapsto> (Some m, Some p))) = (up_of M I)(m \<mapsto> p)"
proof -
  have only: "m' = m" if "M m' = Some (r, Some i, q)" for m' r q
    using skel_not_default [OF ok that] i by simp
  show "skel_ok (M(m \<mapsto> (False, Some i, [i]))) (I(i \<mapsto> (Some m, Some p)))"
    unfolding skel_ok_def
  proof (intro conjI allI impI)
    fix m' d q assume "(M(m \<mapsto> (False, Some i, [i]))) m' = Some (True, d, q)"
    then show "d = None" using skel_resource [OF ok] by (auto split: if_splits)
  next
    fix m' d q assume m': "(M(m \<mapsto> (False, Some i, [i]))) m' = Some (False, d, q)"
    show "\<exists>ia pa. d = Some ia \<and> (I(i \<mapsto> (Some m, Some p))) ia = Some (Some m', pa) \<and>
                  q = (if pa = None then [] else [ia])"
    proof (cases "m' = m")
      case False
      then obtain ia pa where "d = Some ia" "I ia = Some (Some m', pa)" "q = (if pa = None then [] else [ia])"
        using skel_default_inst [OF ok, of m' d q] m' by auto
      moreover have "ia \<noteq> i" using only m' False calculation(1) by auto
      ultimately show ?thesis by (intro exI [of _ ia] exI [of _ pa]) auto
    qed (use m' in auto)
  next
    fix j mo pa assume j: "(I(i \<mapsto> (Some m, Some p))) j = Some (mo, pa)"
    show "\<exists>m' r d q. mo = Some m' \<and> (M(m \<mapsto> (False, Some i, [i]))) m' = Some (r, d, q) \<and>
                  (\<not> r \<longrightarrow> d = Some j) \<and> (r \<longrightarrow> pa \<noteq> None)"
    proof (cases "j = i")
      case False
      then have "I j = Some (mo, pa)" using j by simp
      then obtain m' r d q where "mo = Some m'" "M m' = Some (r, d, q)" "\<not> r \<longrightarrow> d = Some j" "r \<longrightarrow> pa \<noteq> None"
        using ok unfolding skel_ok_def by blast
      then show ?thesis using m False by (cases "m' = m") auto
    qed (use j in auto)
    fix pm assume pm: "pa = Some pm"
    have "\<exists>d q. M pm = Some (False, d, q)"
      using j p skel_parent [OF ok, of j mo pm] pm by (auto split: if_splits)
    then show "\<exists>d q. (M(m \<mapsto> (False, Some i, [i]))) pm = Some (False, d, q)" by auto
  qed
  show "up_of (M(m \<mapsto> (False, Some i, [i]))) (I(i \<mapsto> (Some m, Some p))) = (up_of M I)(m \<mapsto> p)"
    using m only by (fastforce simp: fun_eq_iff up_of_def split: option.splits)
qed

lemma skel_add_resource_inst:
  assumes ok: "skel_ok M I" and m: "M m = Some (True, d, q)" and i: "I i = None"
    and p: "M p = Some (False, d', q')"
  shows "skel_ok (M(m \<mapsto> (True, d, r))) (I(i \<mapsto> (Some m, Some p)))"
    and "up_of (M(m \<mapsto> (True, d, r))) (I(i \<mapsto> (Some m, Some p))) = up_of M I"
proof -
  have d: "d = None" using ok m unfolding skel_ok_def by blast
  show "skel_ok (M(m \<mapsto> (True, d, r))) (I(i \<mapsto> (Some m, Some p)))"
    unfolding skel_ok_def
  proof (intro conjI allI impI)
    fix m' da q assume "(M(m \<mapsto> (True, d, r))) m' = Some (True, da, q)"
    then show "da = None" using skel_resource [OF ok] d by (auto split: if_splits)
  next
    fix m' da q assume m': "(M(m \<mapsto> (True, d, r))) m' = Some (False, da, q)"
    then have "M m' = Some (False, da, q)" by (auto split: if_splits)
    then obtain ia pa where "da = Some ia" "I ia = Some (Some m', pa)" "q = (if pa = None then [] else [ia])"
      using skel_default_inst [OF ok] by blast
    then show "\<exists>ia pa. da = Some ia \<and> (I(i \<mapsto> (Some m, Some p))) ia = Some (Some m', pa) \<and>
                  q = (if pa = None then [] else [ia])"
      using i by (intro exI [of _ ia] exI [of _ pa]) auto
  next
    fix j mo pa assume j: "(I(i \<mapsto> (Some m, Some p))) j = Some (mo, pa)"
    show "\<exists>m' s da q. mo = Some m' \<and> (M(m \<mapsto> (True, d, r))) m' = Some (s, da, q) \<and>
                  (\<not> s \<longrightarrow> da = Some j) \<and> (s \<longrightarrow> pa \<noteq> None)"
    proof (cases "j = i")
      case False
      then have "I j = Some (mo, pa)" using j by simp
      then obtain m' s da q where "mo = Some m'" "M m' = Some (s, da, q)" "\<not> s \<longrightarrow> da = Some j" "s \<longrightarrow> pa \<noteq> None"
        using ok unfolding skel_ok_def by blast
      then show ?thesis using m False by (cases "m' = m") auto
    qed (use j in auto)
    fix pm assume pm: "pa = Some pm"
    have "\<exists>d q. M pm = Some (False, d, q)"
      using j p skel_parent [OF ok, of j mo pm] pm by (auto split: if_splits)
    then show "\<exists>da q. (M(m \<mapsto> (True, d, r))) pm = Some (False, da, q)" using m by auto
  qed
  show "up_of (M(m \<mapsto> (True, d, r))) (I(i \<mapsto> (Some m, Some p))) = up_of M I"
    using m d i skel_not_default [OF ok] by (fastforce simp: fun_eq_iff up_of_def split: option.splits)
qed

end
