(* ===== verification/Ig_Modules.thy ===== *)
theory Ig_Modules
  imports Ig_Register Ig_Skel
begin

text \<open>
  The operations that register an object under a name: modules, regfiles and instances, and the
  codesections, whose generated names may collide. Each is shown to end normally on a database
  that satisfies \<open>db_inv\<close>, with its result and the invariant of the new database.
\<close>

section \<open>Modules\<close>

definition module_id :: "string \<Rightarrow> string" where
  "module_id nm = ''module##'' @ nm"

definition module_struct :: "string \<Rightarrow> bool \<Rightarrow> bool \<Rightarrow> ptr \<Rightarrow> ig_struct" where
  "module_struct nm ilm resource d =
     struct_of (attr_const (attr_const (ig_obj_init IG_OBJ_MODULE nm ([] :: ig_object list)) ''ilm'' (bool_str ilm))
                  ''resource'' (bool_str resource))
       (Module ((empty_module ilm resource)\<lparr>mod_default_instance := d\<rparr>))"

definition instance_struct :: "string \<Rightarrow> addr \<Rightarrow> string \<Rightarrow> ptr \<Rightarrow> ig_struct list \<Rightarrow> ig_struct" where
  "instance_struct nm m m_id parent plist =
     struct_of (attr_const (ig_obj_init IG_OBJ_INSTANCE nm plist) ''module'' m_id)
       (Instance \<lparr>inst_module = Some m, inst_parent = parent, inst_adjustments = [], inst_pins = []\<rparr>)"

lemma module_struct_same [simp]:
  "obj_id (module_struct nm ilm resource d) = module_id nm"
  "obj_name (module_struct nm ilm resource d) = nm"
  "obj_refcount (module_struct nm ilm resource d) = 0"
  "obj_body (module_struct nm ilm resource d) = Module ((empty_module ilm resource)\<lparr>mod_default_instance := d\<rparr>)"
  "obj_type (module_struct nm ilm resource d) = IG_OBJ_MODULE"
  by (simp_all add: module_struct_def make_id_def plist_id_def module_id_def)

lemma module_struct_header: "header_ok (module_struct nm ilm resource d)"
  by (simp add: module_struct_def header_ok_struct_of hdr_ok_attr_const hdr_ok_init)

lemma module_struct_default:
  "(module_struct nm ilm resource d)\<lparr>obj_body := Module ((empty_module ilm resource)\<lparr>mod_default_instance := d'\<rparr>)\<rparr>
     = module_struct nm ilm resource d'"
  by (simp add: module_struct_def struct_of_def)

lemma instance_struct_same [simp]:
  "obj_id (instance_struct nm m m_id p plist) = make_id IG_OBJ_INSTANCE plist nm"
  "obj_name (instance_struct nm m m_id p plist) = nm"
  "obj_refcount (instance_struct nm m m_id p plist) = 0"
  "obj_body (instance_struct nm m m_id p plist) =
     Instance \<lparr>inst_module = Some m, inst_parent = p, inst_adjustments = [], inst_pins = []\<rparr>"
  "obj_type (instance_struct nm m m_id p plist) = IG_OBJ_INSTANCE"
  by (simp_all add: instance_struct_def)

lemma instance_struct_header: "header_ok (instance_struct nm m m_id p plist)"
  by (simp add: instance_struct_def header_ok_struct_of hdr_ok_attr_const hdr_ok_init)

lemma module_id_free:
  assumes inv: "db_inv db" and "tables db Modules_by_name nm = None"
  shows "tables db Objects_by_id (module_id nm) = None" "tables db Modules_by_id (module_id nm) = None"
proof -
  have no: "tables db t (module_id nm) \<noteq> Some x" if t: "\<not> table_is_name t" for t x
  proof
    assume "tables db t (module_id nm) = Some x"
    then obtain s where s: "heap db x = Some s" "entry_ok t (module_id nm) s"
      using tables_okD [OF db_invD(5) [OF inv]] by blast
    then have id: "obj_id s = module_id nm" using t by (simp add: entry_ok_def)
    have "id_ok (obj_type s) (obj_name s) (obj_id s)"
      using heap_okD [OF db_invD(4) [OF inv] s(1)] by (simp add: header_ok_def)
    then have "obj_type s = IG_OBJ_MODULE \<and> obj_name s = nm"
      using id by (cases "obj_type s") (auto simp: id_ok_def module_id_def)
    then have "tables db Modules_by_name nm = Some x"
      using db_invD(6) [OF inv] s(1) by (auto simp: mods_inv_def listed_def)
    with assms(2) show False by simp
  qed
  show "tables db Objects_by_id (module_id nm) = None"
    using no [of Objects_by_id] by (cases "tables db Objects_by_id (module_id nm)") auto
  show "tables db Modules_by_id (module_id nm) = None"
    using no [of Modules_by_id] by (cases "tables db Modules_by_id (module_id nm)") auto
qed

text \<open>The database right after \<open>ig_module_new\<close>: a resource alone, or a module with its default instance.\<close>

definition new_resource :: "string \<Rightarrow> bool \<Rightarrow> ig_lib_db \<Rightarrow> ig_lib_db" where
  "new_resource nm ilm db = allocd (module_struct nm ilm True None) db"

definition new_module :: "string \<Rightarrow> bool \<Rightarrow> ig_lib_db \<Rightarrow> ig_lib_db" where
  "new_module nm ilm db =
     (let m = next_addr db; i = Suc m
      in put i ((instance_struct nm m (module_id nm) None [])\<lparr>obj_refcount := 1\<rparr>)
           (put m (module_struct nm ilm False (Some i))
             (allocd (instance_struct nm m (module_id nm) None [])
               (allocd (module_struct nm ilm False None) db))))"

lemma module_new_resource:
  "ig_module_new (Some nm) ilm True db = Inr (Some (next_addr db), new_resource nm ilm db)"
  by (simp add: ig_module_new_def alloc_def Let_def new_resource_def module_struct_def empty_module_def)

lemma module_new_module:
  "ig_module_new (Some nm) ilm False db = Inr (Some (next_addr db), new_module nm ilm db)"
proof -
  let ?m = "next_addr db" let ?i = "Suc ?m"
  let ?db1 = "allocd (module_struct nm ilm False None) db"
  let ?si = "instance_struct nm ?m (module_id nm) None []"
  let ?db2 = "allocd ?si ?db1"
  have m0: "struct_of (attr_const (attr_const (ig_obj_init IG_OBJ_MODULE nm ([] :: ig_object list)) ''ilm'' (bool_str ilm))
              ''resource'' (bool_str False)) (Module (empty_module ilm False)) = module_struct nm ilm False None"
    by (simp add: module_struct_def empty_module_def Let_def)
  have inst: "ig_instance_new (Some nm) (Some ?m) None ?db1 = Inr (Some ?i, ?db2)"
    by (simp add: ig_instance_new_def heap_get_def new_struct_def alloc_def instance_struct_def Let_def)
  have set: "set_body ?m (Module ((empty_module ilm False)\<lparr>mod_default_instance := Some ?i\<rparr>)) ?db2 =
               put ?m (module_struct nm ilm False (Some ?i)) ?db2"
    by (simp add: set_body_def put_def module_struct_default)
  have ref: "ig_obj_ref (Some ?i) (put ?m (module_struct nm ilm False (Some ?i)) ?db2) = Inr (new_module nm ilm db)"
    by (simp add: ref_Some [of _ ?i ?si] new_module_def Let_def)
  have al: "alloc (module_struct nm ilm False None) db = (?m, ?db1)" by (rule alloc_def)
  show ?thesis
    by (simp only: ig_module_new_def option.case Let_def m0 al prod.case if_False inst set ref res_bind.simps)
qed


lemma module_ok_empty:
  "module_ok T ((empty_module ilm resource)\<lparr>mod_default_instance := d\<rparr>) = ptr_ok T IG_OBJ_INSTANCE d"
  by (simp add: module_ok_def empty_module_def Let_def)

lemma owned_empty:
  "owned (Module ((empty_module ilm resource)\<lparr>mod_default_instance := d\<rparr>)) = (case d of None \<Rightarrow> [] | Some i \<Rightarrow> [i])"
  by (simp add: empty_module_def Let_def split: option.split)

lemma skel_allocd:
  "mod_skel (allocd s db) = (mod_skel db)(next_addr db :=
     map_option (\<lambda>m. (mod_resource m, mod_default_instance m, mod_mod_instances m)) (as_module (obj_body s)))"
  "inst_skel (allocd s db) = (inst_skel db)(next_addr db :=
     map_option (\<lambda>i. (inst_module i, inst_parent i)) (as_instance (obj_body s)))"
  by (auto simp: fun_eq_iff mod_skel_def inst_skel_def)

lemma skel_put:
  "mod_skel (put a s h) = (mod_skel h)(a :=
     map_option (\<lambda>m. (mod_resource m, mod_default_instance m, mod_mod_instances m)) (as_module (obj_body s)))"
  "inst_skel (put a s h) = (inst_skel h)(a :=
     map_option (\<lambda>i. (inst_module i, inst_parent i)) (as_instance (obj_body s)))"
  by (auto simp: fun_eq_iff mod_skel_def inst_skel_def)

lemma skel_fresh:
  assumes "heap h a = None" shows "mod_skel h a = None" "inst_skel h a = None"
  using assms by (simp_all add: mod_skel_def inst_skel_def)

lemma base_inv_new_resource:
  assumes "base_inv 0 0 db" shows "base_inv (next_addr db) 0 (new_resource nm ilm db)"
  unfolding new_resource_def
  by (rule base_inv_alloc [OF assms])
     (simp_all add: module_struct_header module_ok_empty owned_empty del: owned.simps)

lemma base_inv_new_module:
  assumes inv: "base_inv 0 0 db" shows "base_inv (next_addr db) 0 (new_module nm ilm db)"
proof -
  let ?m = "next_addr db" let ?i = "Suc ?m"
  let ?sm = "module_struct nm ilm False None" let ?sm' = "module_struct nm ilm False (Some ?i)"
  let ?si = "instance_struct nm ?m (module_id nm) None []"
  let ?si' = "?si\<lparr>obj_refcount := 1\<rparr>"
  let ?db1 = "allocd ?sm db"
  let ?db2 = "allocd ?si ?db1"
  let ?db3 = "put ?m ?sm' ?db2"
  let ?db4 = "put ?i ?si' ?db3"
  have 1: "base_inv ?m 0 ?db1"
    by (rule base_inv_alloc [OF inv])
       (simp_all add: module_struct_header module_ok_empty owned_empty del: owned.simps)
  have "base_inv (next_addr ?db1) 0 ?db2"
    by (rule base_inv_alloc [OF 1]) (simp_all add: instance_struct_header)
  then have 2: "base_inv ?i 0 ?db2" by simp
  have 3: "base_inv ?i (- 1) ?db3"
  proof (rule base_inv_put [OF 2, where s = ?sm and k = 1 and d = 0])
    show "heap ?db2 ?m = Some ?sm" by simp
    show "body_ok (type_at ?db2) (obj_body ?sm')" by (simp add: module_ok_empty)
    show "int (count_list (owned (obj_body ?sm')) x) =
            int (count_list (owned (obj_body ?sm)) x) + (if x = ?i then 1 else 0)" for x
      by (simp add: owned_empty del: owned.simps)
  qed (simp_all add: module_struct_header)
  have 4: "base_inv ?i 0 ?db4"
  proof (rule base_inv_put [OF 3, where s = ?si and k = 0 and d = 1])
    show "header_ok ?si'" using instance_struct_header [of nm ?m "module_id nm" None "[]"]
      by (simp add: header_ok_def obj_type_def)
    show "body_ok (type_at ?db3) (obj_body ?si')" by (simp add: type_at_def)
  qed (simp_all add: obj_type_def)
  have "new_module nm ilm db = ?db4" by (simp add: new_module_def Let_def)
  with base_inv_zero [OF 4] show ?thesis by simp
qed


text \<open>What the new cells change, for both kinds of module.\<close>

lemma new_module_cells:
  assumes h: "heap_ok db" and db': "db' = (if resource then new_resource nm ilm db else new_module nm ilm db)"
  shows "tables db' = tables db"
    and "heap db' (next_addr db) =
           Some (module_struct nm ilm resource (if resource then None else Some (Suc (next_addr db))))"
    and "\<And>x. x < next_addr db \<Longrightarrow> heap db' x = heap db x"
    and "\<And>x s. heap db' x = Some s \<Longrightarrow> x \<noteq> next_addr db \<Longrightarrow> x < next_addr db \<or> obj_type s = IG_OBJ_INSTANCE"
    and "mod_skel db' = (mod_skel db)(next_addr db \<mapsto>
           (resource, if resource then None else Some (Suc (next_addr db)), []))"
    and "inst_skel db' = (if resource then inst_skel db
           else (inst_skel db)(Suc (next_addr db) \<mapsto> (Some (next_addr db), None)))"
    and "next_addr db' = (if resource then Suc (next_addr db) else Suc (Suc (next_addr db)))"
proof -
  let ?m = "next_addr db"
  have lt: "x < ?m" if "heap db x = Some s" for x s using heap_okD [OF h that] by simp
  show "tables db' = tables db" by (simp add: db' new_resource_def new_module_def Let_def)
  show "heap db' ?m = Some (module_struct nm ilm resource (if resource then None else Some (Suc ?m)))"
    by (simp add: db' new_resource_def new_module_def Let_def)
  show "heap db' x = heap db x" if "x < ?m" for x
    using that by (simp add: db' new_resource_def new_module_def Let_def)
  show "x < ?m \<or> obj_type s = IG_OBJ_INSTANCE" if "heap db' x = Some s" "x \<noteq> ?m" for x s
    using that lt [of x]
    by (cases "x = Suc ?m")
       (auto simp: db' new_resource_def new_module_def Let_def obj_type_def split: if_splits)
  have z: "heap db x = None" if "\<not> x < ?m" for x
    using that lt [of x] by (cases "heap db x") auto
  show "mod_skel db' = (mod_skel db)(?m \<mapsto> (resource, if resource then None else Some (Suc ?m), []))"
    using z by (auto simp: db' new_resource_def new_module_def Let_def mod_skel_def empty_module_def fun_eq_iff)
  show "inst_skel db' = (if resource then inst_skel db else (inst_skel db)(Suc ?m \<mapsto> (Some ?m, None)))"
    using z by (auto simp: db' new_resource_def new_module_def Let_def inst_skel_def fun_eq_iff)
  show "next_addr db' = (if resource then Suc ?m else Suc (Suc ?m))"
    by (simp add: db' new_resource_def new_module_def Let_def)
qed

lemma others_ok_new:
  assumes anch: "anch_inv db" and h: "heap_ok db" "tables_ok db"
    and tb: "tables db' = tables db" and old: "\<And>x. x < next_addr db \<Longrightarrow> heap db' x = heap db x"
  shows "others_ok a db'"
  unfolding others_ok_def
proof (intro allI impI)
  fix t k x assume x: "tables db' t k = Some x" "x \<noteq> a"
  then have "tables db t k = Some x" by (simp add: tb)
  then have *: "anchored db x" "\<forall>mo. inst_skel db x \<noteq> Some (mo, None)" "heap db x \<noteq> None"
    using anch tables_okD [OF h(2), of t k x] by (auto simp: anch_inv_def)
  have lt: "y < next_addr db" if "heap db y \<noteq> None" for y using heap_okD [OF h(1)] that by auto
  have "anchored db' x"
  proof (rule anchored_mono [OF _ _ *(1)])
    show "set (owned_at db b) \<subseteq> set (owned_at db' b)" for b
      using lt [of b] old [of b] by (cases "heap db b") (auto simp: owned_at_def)
  qed (simp add: tb)
  moreover have "inst_skel db' x = inst_skel db x"
    using old [OF lt [OF *(3)]] by (simp add: inst_skel_def)
  ultimately show "anchored db' x \<and> (\<forall>mo. inst_skel db' x \<noteq> Some (mo, None))" using * by simp
qed

lemma hier_inv_new_module:
  assumes inv: "db_inv db" and db': "db' = (if resource then new_resource nm ilm db else new_module nm ilm db)"
  shows "hier_inv db'"
proof -
  let ?m = "next_addr db"
  have h: "heap_ok db" using inv by (rule db_invD)
  have ok: "skel_ok (mod_skel db) (inst_skel db)" and wf: "wf {(p, m). module_up db m = Some p}"
    using db_invD(2) [OF inv] by (auto simp: hier_inv_def)
  have "heap db ?m = None" "heap db (Suc ?m) = None"
    using heap_ok_fresh [OF h] heap_okD [OF h, of "Suc ?m"] by (auto intro: ccontr)
  then have f: "mod_skel db ?m = None" "inst_skel db (Suc ?m) = None" by (simp_all add: skel_fresh)
  note sk = new_module_cells(5,6) [OF h db']
  have "skel_ok (mod_skel db') (inst_skel db') \<and> module_up db' = module_up db"
    unfolding module_up_def sk
    using skel_add_resource [of "mod_skel db" "inst_skel db" ?m, OF ok f(1)]
      skel_add_module [of "mod_skel db" "inst_skel db" ?m "Suc ?m", OF ok f]
    by (cases resource) simp_all
  with wf show ?thesis by (simp add: hier_inv_def)
qed

theorem add_module_result:
  assumes inv: "db_inv db"
  shows "holds (ig_lib_add_module (Some nm) ilm resource db) (\<lambda>(p, db').
     if tables db Modules_by_name nm = None
     then p = Some (next_addr db) \<and> grows db db' \<and>
          tables db' = registered Modules_by_name Modules_by_id (next_addr db) nm (module_id nm) db \<and>
          type_at db' (next_addr db) = Some IG_OBJ_MODULE \<and>
          mod_skel db' = (mod_skel db)(next_addr db \<mapsto>
            (resource, if resource then None else Some (Suc (next_addr db)), []))
     else p = None \<and> db' = db)"
proof (cases "tables db Modules_by_name nm")
  case (Some x)
  then show ?thesis by (simp add: ig_lib_add_module_def table_contains_def)
next
  case None
  let ?m = "next_addr db"
  let ?s = "module_struct nm ilm resource (if resource then None else Some (Suc ?m))"
  define db1 where "db1 = (if resource then new_resource nm ilm db else new_module nm ilm db)"
  have h: "heap_ok db" and t: "tables_ok db" using inv by (auto dest: db_invD)
  note cells = new_module_cells [OF h db1_def]
  have new: "ig_module_new (Some nm) ilm resource db = Inr (Some ?m, db1)"
    by (cases resource) (simp_all add: module_new_resource module_new_module db1_def)
  have fresh: "heap db ?m = None" using h by (rule heap_ok_fresh)
  note free = module_id_free [OF inv None]
  have "holds (register3 Modules_by_name Modules_by_id ?m nm (module_id nm) db1) (\<lambda>db'.
     db_inv db' \<and> rc_eq db1 db' \<and> next_addr db' = next_addr db1 \<and>
     tables db' = registered Modules_by_name Modules_by_id ?m nm (module_id nm) db1)"
  proof (rule register3_ok [where s = ?s])
    show "base_inv ?m 0 db1"
      using db_invD(1) [OF inv] by (simp add: db1_def base_inv_new_resource base_inv_new_module)
    show "hier_inv db1" using inv db1_def by (rule hier_inv_new_module)
    show "others_ok ?m db1" by (rule others_ok_new [OF db_invD(3) [OF inv] h t cells(1,3)])
    show "listed x s db1" if "heap db1 x = Some s" "x \<noteq> ?m" for x s
      using cells(4) [OF that] cells(3) [of x] that db_invD(6) [OF inv]
      by (auto simp: listed_def mods_inv_def cells(1))
    show "default_named db1"
      unfolding default_named_def
    proof (intro allI impI)
      fix m r i q sm si
      assume m: "mod_skel db1 m = Some (r, Some i, q)" "heap db1 m = Some sm" "heap db1 i = Some si"
      show "obj_id si = default_id (obj_name sm)"
      proof (cases "m = ?m")
        case True
        with m have "\<not> resource" "i = Suc ?m" by (auto simp: cells(5) split: if_splits)
        with m True show ?thesis by (auto simp: db1_def new_module_def Let_def make_id_def plist_id_def default_id_def)
      next
        case False
        then have m': "mod_skel db m = Some (r, Some i, q)" using m(1) by (simp add: cells(5))
        obtain p where i: "inst_skel db i = Some (Some m, p)"
          using skel_not_default [of "mod_skel db" "inst_skel db", OF _ m'] db_invD(2) [OF inv]
          unfolding hier_inv_def by blast
        have "m < ?m" "i < ?m"
          using m' i heap_okD [OF h] by (auto simp: mod_skel_Some inst_skel_Some)
        then show ?thesis
          using db_invD(7) [OF inv] m' m(2,3) cells(3) unfolding default_named_def by metis
      qed
    qed
    show "\<forall>mo. inst_skel db1 ?m \<noteq> Some (mo, None)"
      by (simp add: cells(6) skel_fresh [OF fresh])
  qed (use cells free None in simp_all)
  then obtain db' where reg: "register3 Modules_by_name Modules_by_id ?m nm (module_id nm) db1 = Inr db'"
      "db_inv db'" "rc_eq db1 db'" "tables db' = registered Modules_by_name Modules_by_id ?m nm (module_id nm) db1"
    by (auto simp: holds_iff)
  have ty: "type_at db' = type_at db1" using reg(3) by (rule rc_eq_same)
  have "keeps db db1"
    unfolding keeps_def
  proof (intro allI impI)
    fix x s assume x: "heap db x = Some s"
    then have "heap db1 x = Some s" using heap_okD [OF h x] cells(3) by simp
    then show "\<exists>s'. heap db1 x = Some s' \<and> obj_id s' = obj_id s \<and> obj_name s' = obj_name s \<and> obj_type s' = obj_type s"
      by simp
  qed
  then have "keeps db db'" using rc_eq_keeps [OF reg(3)] by (rule keeps_trans)
  moreover have "type_at db' ?m = Some IG_OBJ_MODULE" by (simp add: ty type_at_def cells(2))
  moreover have "mod_skel db' = mod_skel db1" using reg(3) by (rule rc_eq_same)
  moreover have "waste db' \<subseteq> waste db"
  proof (rule waste_registered [OF reg(3,4)])
    show "set (owned_at db b) \<subseteq> set (owned_at db1 b)" for b
    proof (cases "heap db b")
      case (Some s)
      then show ?thesis using heap_okD [OF h Some] cells(3) [of b] by (simp add: owned_at_def)
    qed (simp add: owned_at_def)
    show "x = ?m \<or> (\<exists>b. x \<in> set (owned_at db1 b))" if x: "heap db1 x \<noteq> None" "heap db x = None" for x
    proof (cases "x = ?m")
      case False
      then have i: "\<not> resource" "x = Suc ?m"
        using x by (cases resource; simp add: db1_def new_resource_def new_module_def Let_def split: if_split_asm)+
      have "owned_at db1 ?m = [Suc ?m]"
        using i(1) by (simp add: owned_at_def cells(2) module_struct_def empty_module_def Let_def)
      then show ?thesis using i(2) by (intro disjI2 exI [of _ ?m]) simp
    qed simp
  qed (use cells(1) None in simp_all)
  ultimately show ?thesis
    using None reg free cells(5)
    by (simp add: ig_lib_add_module_def table_contains_def new heap_get_def cells(1,2) grows_def registered_def)
qed

end
