(* ===== verification/Ig_Sections.thy ===== *)
theory Ig_Sections
  imports Ig_Modules
begin

text \<open>
  Codesections and regfiles. Both hang a new object below a module before it is filed; a
  codesection replaces whatever is filed under its id, a regfile is also filed under its name.
\<close>

section \<open>Between hanging and filing\<close>

definition hung :: "addr \<Rightarrow> ig_body \<Rightarrow> ig_struct \<Rightarrow> ig_lib_db \<Rightarrow> ig_lib_db" where
  "hung b bp s db =
     put (next_addr db) (s\<lparr>obj_refcount := 1\<rparr>)
       (put b ((the (heap db b))\<lparr>obj_body := bp\<rparr>) (allocd s db))"

lemma hung_same [simp]:
  "tables (hung b bp s db) = tables db" "next_addr (hung b bp s db) = Suc (next_addr db)"
  by (simp_all add: hung_def)

lemma hung_heap:
  "heap (hung b bp s db) = (heap db)(b \<mapsto> (the (heap db b))\<lparr>obj_body := bp\<rparr>, next_addr db \<mapsto> s\<lparr>obj_refcount := 1\<rparr>)"
  by (auto simp: hung_def fun_eq_iff)

lemma base_inv_hung:
  assumes inv: "base_inv 0 0 db" and s: "new_leaf s"
    and b: "heap db b = Some sp" and g: "gains (next_addr db) bp (obj_body sp)"
    and ok: "body_ok (type_at (allocd s db)) (obj_body s)" "body_ok (type_at (allocd s db)) bp"
  shows "base_inv (next_addr db) 0 (hung b bp s db)" and "type_at (hung b bp s db) = type_at (allocd s db)"
proof -
  let ?a = "next_addr db"
  let ?s1 = "s\<lparr>obj_refcount := 1\<rparr>" and ?sp = "sp\<lparr>obj_body := bp\<rparr>"
  let ?db1 = "allocd s db"
  let ?db2 = "put b ?sp ?db1"
  let ?db3 = "put ?a ?s1 ?db2"
  have h: "heap_ok db" using inv by (simp add: base_inv_def)
  have hs: "header_ok s" "header_ok ?s1"
    using s by (simp_all add: new_leaf_def header_ok_def obj_type_def)
  have ba: "b \<noteq> ?a" using heap_okD [OF h b] by auto
  have ty2: "type_at ?db2 = type_at ?db1"
    by (rule type_at_put [of _ _ sp]) (use b ba g in \<open>auto simp: obj_type_def gains_def\<close>)
  have ty3: "type_at ?db3 = type_at ?db1"
    by (subst type_at_put [of _ _ s]) (use ba ty2 in \<open>simp_all add: obj_type_def\<close>)
  have 1: "base_inv ?a 0 ?db1" using inv hs(1) ok(1) s by (intro base_inv_alloc) (auto simp: new_leaf_def)
  have 2: "base_inv ?a (- 1) ?db2"
    by (rule base_inv_put [OF 1, where s = sp and k = 1 and d = 0])
       (use b ba g ok heap_okD [OF h b] in \<open>auto simp: gains_def obj_type_def header_ok_def\<close>)
  have 3: "base_inv ?a 0 ?db3"
    by (rule base_inv_put [OF 2, where s = s and k = 0 and d = 1])
       (use ba hs ok ty2 s in \<open>auto simp: new_leaf_def obj_type_def\<close>)
  have "?db3 = hung b bp s db" using b by (simp add: hung_def)
  with 3 ty3 show "base_inv ?a 0 (hung b bp s db)" "type_at (hung b bp s db) = type_at ?db1" by simp_all
qed

lemma skel_hung:
  assumes "heap_ok db" "heap db b = Some sp" "same_skel bp (obj_body sp)"
    and "as_module (obj_body s) = None" "as_instance (obj_body s) = None"
  shows "mod_skel (hung b bp s db) = mod_skel db" "inst_skel (hung b bp s db) = inst_skel db"
  using assms heap_ok_fresh [OF assms(1)] heap_okD [OF assms(1,2)]
  by (auto simp: fun_eq_iff mod_skel_def inst_skel_def hung_heap same_skel_def)

lemma gains_subset: "gains a bp b \<Longrightarrow> set (owned b) \<subseteq> set (owned bp)"
proof
  fix x assume g: "gains a bp b" and "x \<in> set (owned b)"
  then show "x \<in> set (owned bp)"
    using count_list_0_iff [of "owned b" x] by (intro count_pos_mem) (simp add: gains_def)
qed

lemma owned_hung:
  assumes "heap_ok db" "heap db b = Some sp" "gains (next_addr db) bp (obj_body sp)"
  shows "set (owned_at db c) \<subseteq> set (owned_at (hung b bp s db) c)"
    and "next_addr db \<in> set (owned_at (hung b bp s db) b)"
proof -
  have ba: "b \<noteq> next_addr db" using heap_okD [OF assms(1,2)] by auto
  have fresh: "heap db (next_addr db) = None" using assms(1) by (rule heap_ok_fresh)
  show "set (owned_at db c) \<subseteq> set (owned_at (hung b bp s db) c)"
    using gains_subset [OF assms(3)] assms(2) ba fresh
    by (cases "c = b"; cases "c = next_addr db") (auto simp: owned_at_def hung_heap)
  have "next_addr db \<in> set (owned bp)" using assms(3) by (intro count_pos_mem) (simp add: gains_def)
  then show "next_addr db \<in> set (owned_at (hung b bp s db) b)" using ba by (simp add: owned_at_def hung_heap)
qed

lemma waste_hung:
  assumes "heap_ok db" "heap db b = Some sp" "gains (next_addr db) bp (obj_body sp)"
  shows "\<And>c. set (owned_at db c) \<subseteq> set (owned_at (hung b bp s db) c)"
    and "\<And>x. heap (hung b bp s db) x \<noteq> None \<Longrightarrow> heap db x = None \<Longrightarrow> \<exists>c. x \<in> set (owned_at (hung b bp s db) c)"
proof -
  show "\<exists>c. x \<in> set (owned_at (hung b bp s db) c)" if "heap (hung b bp s db) x \<noteq> None" "heap db x = None" for x
  proof -
    have "x = next_addr db" using that assms(2) by (auto simp: hung_heap split: if_splits)
    then show ?thesis using owned_hung(2) [OF assms] by blast
  qed
qed (rule owned_hung(1) [OF assms])

theorem hung_ok:
  assumes inv: "db_inv db" and s: "new_leaf s" and b: "heap db b = Some sp"
    and hg: "hangs (next_addr db) (obj_type s) (obj_body sp) bp"
    and ok: "body_ok (type_at (allocd s db)) (obj_body s)"
    and skel: "as_module (obj_body s) = None" "as_instance (obj_body s) = None"
  shows "base_inv (next_addr db) 0 (hung b bp s db)" "hier_inv (hung b bp s db)"
    "others_ok (next_addr db) (hung b bp s db)" "anchored (hung b bp s db) (next_addr db)"
    "keeps db (hung b bp s db)"
    "\<And>x sx. heap (hung b bp s db) x = Some sx \<Longrightarrow> listed x sx (hung b bp s db)"
    "inst_skel (hung b bp s db) (next_addr db) = None" "default_named (hung b bp s db)"
proof -
  note h = db_invD(4) [OF inv]
  have g: "gains (next_addr db) bp (obj_body sp)" and sk: "same_skel bp (obj_body sp)"
    using hg by (simp_all add: hangs_def)
  have ba: "b \<noteq> next_addr db" using heap_okD [OF h b] by auto
  have fresh: "heap db (next_addr db) = None" using h by (rule heap_ok_fresh)
  have "body_ok (type_at (allocd s db)) (obj_body sp)"
    using heap_okD [OF h b] body_ok_mono [OF type_at_allocd [OF h]] by blast
  then have okp: "body_ok (type_at (allocd s db)) bp" using hg by (simp add: hangs_def)
  show "base_inv (next_addr db) 0 (hung b bp s db)"
    using db_invD(1) [OF inv] s b g ok okp by (rule base_inv_hung)
  show keeps: "keeps db (hung b bp s db)"
    unfolding keeps_def
  proof (intro allI impI)
    fix x sx assume x: "heap db x = Some sx"
    have "x \<noteq> next_addr db" using x fresh by auto
    then show "\<exists>s'. heap (hung b bp s db) x = Some s' \<and> obj_id s' = obj_id sx \<and> obj_name s' = obj_name sx \<and>
                 obj_type s' = obj_type sx"
      using x b g by (cases "x = b") (auto simp: hung_heap obj_type_def gains_def)
  qed
  note skh = skel_hung [OF h b sk skel]
  show "default_named (hung b bp s db)"
    using keeps h by (rule default_named_keeps) (use db_invD(7) [OF inv] in \<open>auto simp: skh\<close>)
  show "hier_inv (hung b bp s db)" using skh db_invD(2) [OF inv] by (rule hier_inv_cong)
  show "inst_skel (hung b bp s db) (next_addr db) = None" by (simp add: skh skel_fresh [OF fresh])
  show "anchored (hung b bp s db) (next_addr db)"
    using owned_hung(2) [OF h b g] unfolding anchored_def by blast
  show "others_ok (next_addr db) (hung b bp s db)"
    unfolding others_ok_def
  proof (intro allI impI)
    fix t k x assume "tables (hung b bp s db) t k = Some x"
    then have "anchored db x" "\<forall>mo. inst_skel db x \<noteq> Some (mo, None)"
      using db_invD(3) [OF inv] by (auto simp: anch_inv_def)
    moreover from this(1) have "anchored (hung b bp s db) x"
      by (rule anchored_mono [rotated 2]) (simp_all add: owned_hung(1) [OF h b g])
    ultimately show "anchored (hung b bp s db) x \<and> (\<forall>mo. inst_skel (hung b bp s db) x \<noteq> Some (mo, None))"
      by (simp add: skh)
  qed
  show "listed x sx (hung b bp s db)" if x: "heap (hung b bp s db) x = Some sx" for x sx
  proof (cases "x = next_addr db")
    case True
    then show ?thesis
      using x skel(1) by (cases "obj_body s") (auto simp: hung_heap listed_def obj_type_def)
  next
    case False
    then obtain s' where "heap db x = Some s'" "obj_type sx = obj_type s'" "obj_name sx = obj_name s'"
      using x b g by (cases "x = b") (auto simp: hung_heap obj_type_def gains_def)
    then show ?thesis using db_invD(6) [OF inv] by (auto simp: mods_inv_def listed_def)
  qed
qed

section \<open>Codesections\<close>

definition code_name :: "string option \<Rightarrow> ig_module \<Rightarrow> string" where
  "code_name name m =
     (case name of None \<Rightarrow> ''_cs_'' @ dec_string (length (opt_queue (mod_code m))) | Some n \<Rightarrow> n)"

definition code_struct :: "string \<Rightarrow> string \<Rightarrow> addr \<Rightarrow> ig_struct \<Rightarrow> ig_struct" where
  "code_struct name code m sp =
     struct_of (attr_const (ig_obj_init IG_OBJ_CODESECTION name [sp]) ''code'' code)
       (Code \<lparr>code_code = code, code_parent = Some m\<rparr>)"

definition with_code :: "addr \<Rightarrow> ig_module \<Rightarrow> ig_body" where
  "with_code a m = Module (m\<lparr>mod_code := map_option (\<lambda>q. q @ [a]) (mod_code m)\<rparr>)"

definition with_regfile :: "addr \<Rightarrow> ig_module \<Rightarrow> ig_body" where
  "with_regfile a m = Module (m\<lparr>mod_regfiles := map_option (\<lambda>q. q @ [a]) (mod_regfiles m)\<rparr>)"

lemma hangs_module_rules:
  "mod_code m \<noteq> None \<Longrightarrow> hangs a IG_OBJ_CODESECTION (Module m) (with_code a m)"
  "mod_regfiles m \<noteq> None \<Longrightarrow> hangs a IG_OBJ_REGFILE (Module m) (with_regfile a m)"
  by (auto simp: hangs_def with_code_def with_regfile_def same_skel_def module_ok_def intro!: gainsI)

lemma attr_str_code: "attr_str (attr_const (ig_obj_init t name [sp]) ''code'' v) ''code'' = v"
  by (simp add: attr_str_def attr_get_def attr_const_def attr_set_def ig_obj_init_def Let_def)

lemma code_struct_same [simp]:
  "obj_id (code_struct name code m sp) = make_id IG_OBJ_CODESECTION [sp] name"
  "obj_refcount (code_struct name code m sp) = 0" "obj_type (code_struct name code m sp) = IG_OBJ_CODESECTION"
  "obj_body (code_struct name code m sp) = Code \<lparr>code_code = code, code_parent = Some m\<rparr>"
  by (simp_all add: code_struct_def)

lemma module_queues:
  assumes "heap_ok h" "heap h m = Some sp" "obj_body sp = Module mb" "\<not> mod_resource mb"
  shows "mod_decls mb \<noteq> None" "mod_code mb \<noteq> None" "mod_regfiles mb \<noteq> None" "mod_child_instances mb \<noteq> None"
  using heap_okD [OF assms(1,2)] assms(3,4) by (auto simp: module_ok_def)

lemma push_ref_hung:
  assumes "heap db (next_addr db) = None" and b: "heap db b = Some sp" "sel (obj_body sp) = Some x"
    and f: "f x = Inr x'" and s: "obj_refcount s = 0"
  shows "\<exists>db'. modify sel con (Some b) f (allocd s db) = Inr db' \<and>
           ig_obj_ref (Some (next_addr db)) db' = Inr (hung b (con x') s db)"
proof -
  have ne: "b \<noteq> next_addr db" using assms(1) b by auto
  have "modify sel con (Some b) f (allocd s db) =
          Inr (put b (sp\<lparr>obj_body := con x'\<rparr>) (allocd s db))"
    using b ne f by (intro modify_Some) simp_all
  then show ?thesis
    using s b ne by (simp add: ref_Some [of _ "next_addr db" s] hung_def)
qed

theorem add_codesection_result:
  assumes inv: "db_inv db" and m: "heap db m = Some sp" "obj_body sp = Module mb"
  shows "holds (ig_lib_add_codesection name (Some code) (Some m) db) (\<lambda>(p, db').
     if mod_resource mb then p = None \<and> db' = db
     else p = Some (next_addr db) \<and> grows db db' \<and>
          tables db' = (tables db)(Objects_by_id :=
            (tables db Objects_by_id)(make_id IG_OBJ_CODESECTION [sp] (code_name name mb) \<mapsto> next_addr db)) \<and>
          (\<exists>sp'. heap db' m = Some sp' \<and> obj_body sp' = with_code (next_addr db) mb))"
proof (cases "mod_resource mb")
  case True
  then show ?thesis
    using m by (simp add: ig_lib_add_codesection_def ig_code_new_def fetch_def heap_get_def)
next
  case False
  let ?a = "next_addr db" let ?s = "code_struct (code_name name mb) code m sp"
  let ?id = "make_id IG_OBJ_CODESECTION [sp] (code_name name mb)"
  let ?db1 = "hung m (with_code ?a mb) ?s db"
  have h: "heap_ok db" using inv by (rule db_invD)
  have fresh: "heap db ?a = None" using h by (rule heap_ok_fresh)
  obtain q where q: "mod_code mb = Some q" using module_queues(2) [OF h m False] by auto
  have new: "ig_code_new name (Some code) (Some m) db = Inr (Some ?a, allocd ?s db)"
    using m False q
    by (simp add: ig_code_new_def fetch_def heap_get_def queue_of_def Let_def code_name_def
          new_struct_eq code_struct_def attr_str_code cong: option.case_cong)
  obtain db0 where ref: "modify as_module Module (Some m)
       (\<lambda>m. res_bind (push_tail_opt ?a (mod_code m)) (\<lambda>q. Inr (m\<lparr>mod_code := q\<rparr>))) (allocd ?s db) = Inr db0"
      "ig_obj_ref (Some ?a) db0 = Inr ?db1"
    using push_ref_hung [OF fresh m(1), of as_module mb "\<lambda>m. res_bind (push_tail_opt ?a (mod_code m))
        (\<lambda>q. Inr (m\<lparr>mod_code := q\<rparr>))" "mb\<lparr>mod_code := Some (q @ [?a])\<rparr>" ?s Module] m q
    by (auto simp: push_tail_opt_def push_tail_def with_code_def)
  have leaf: "new_leaf ?s"
    by (simp add: code_struct_def new_leaf_struct hdr_ok_attr_const hdr_ok_init)
  have hg: "hangs ?a (obj_type ?s) (obj_body sp) (with_code ?a mb)" using hangs_module_rules(1) q m by simp
  have bk: "body_ok (type_at (allocd ?s db)) (obj_body ?s)"
    using m not_next_addr [OF h m(1)] by (simp add: obj_type_def)
  have sel: "as_module (obj_body ?s) = None" "as_instance (obj_body ?s) = None" by simp_all
  note ok = hung_ok [OF inv leaf m(1) hg bk sel]
  have a1: "heap ?db1 ?a = Some (?s\<lparr>obj_refcount := 1\<rparr>)" by (simp add: hung_heap)
  have fr: "tables ?db1 Objects_by_id ?id \<noteq> Some ?a"
    using tables_okD [OF db_invD(5) [OF inv], of Objects_by_id ?id ?a] fresh by auto
  obtain db2 where db2: "table_insert Objects_by_id ?id ?a ?db1 = Inr db2" "base_inv ?a (0 - 1) db2"
      "others_ok ?a db2" "rc_eq ?db1 db2" "heap db2 ?a = Some (?s\<lparr>obj_refcount := 1\<rparr>)"
      "next_addr db2 = next_addr ?db1" "tables db2 = (tables ?db1)(Objects_by_id := (tables ?db1 Objects_by_id)(?id \<mapsto> ?a))"
    using insert_step [OF ok(1) _ a1, of Objects_by_id ?id] ok(3) fr by (auto simp: holds_iff entry_ok_def)
  let ?db3 = "put ?a (?s\<lparr>obj_refcount := 2\<rparr>) db2"
  have ref2: "ig_obj_ref (Some ?a) db2 = Inr ?db3" using ref_Some [OF db2(5)] by simp
  have b3: "base_inv 0 0 ?db3" using base_inv_ref [OF db2(2,5)] base_inv_zero by simp
  have rc: "rc_eq ?db1 ?db3"
    using db2(4) rc_eq_put [OF db2(5), of 2] by (auto intro: rc_eq_trans)
  have anch: "anchored ?db3 x = anchored ?db1 x" for x
    by (rule anchored_same) (auto simp: db2(7) rc_eq_same [OF rc])
  have "others_ok ?a ?db3"
    using ok(3) unfolding others_ok_def anch rc_eq_same [OF rc] by (auto simp: db2(7) split: if_splits)
  moreover have "anchored ?db3 ?a" using ok(4) by (simp add: anch)
  moreover have "\<forall>mo. inst_skel ?db3 ?a \<noteq> Some (mo, None)" using ok(7) by (simp add: rc_eq_same [OF rc])
  ultimately have "anch_inv ?db3" by (rule others_ok_all)
  moreover have "hier_inv ?db3" by (rule hier_inv_cong [OF _ _ ok(2)]) (simp_all add: rc_eq_same [OF rc])
  moreover have "mods_inv ?db3"
    using ok(6) by (intro mods_inv_rc_eq [OF rc]) (auto simp: listed_def db2(7))
  moreover have "default_named ?db3"
    using rc _ ok(8) by (rule default_named_rc_eq) (use ok(1) in \<open>simp add: base_inv_def\<close>)
  ultimately have "db_inv ?db3" using b3 by (simp add: db_inv_def)
  moreover have "keeps db ?db3" using ok(5) rc_eq_keeps [OF rc] by (rule keeps_trans)
  moreover have "\<exists>sp'. heap ?db3 m = Some sp' \<and> obj_body sp' = with_code ?a mb"
  proof -
    have "heap ?db1 m = Some (sp\<lparr>obj_body := with_code ?a mb\<rparr>)"
      using m not_next_addr [OF h m(1)] by (simp add: hung_heap)
    then show ?thesis using rc_eq_heap [OF rc] by fastforce
  qed
  moreover have "ig_lib_add_codesection name (Some code) (Some m) db = Inr (Some ?a, ?db3)"
    by (simp add: ig_lib_add_codesection_def new heap_get_def ref db2(1) ref2)
  moreover have "waste ?db3 \<subseteq> waste db"
  proof (rule waste_mono)
    note w = waste_hung [OF h m(1), where bp = "with_code ?a mb" and s = ?s]
    have g: "gains ?a (with_code ?a mb) (obj_body sp)" using hg by (simp add: hangs_def)
    show "set (owned_at db c) \<subseteq> set (owned_at ?db3 c)" for c using w(1) [OF g] by (simp add: rc_eq_same [OF rc])
    show "anchored ?db3 x" if x: "heap ?db3 x \<noteq> None" "heap db x = None" for x
    proof -
      have "heap ?db1 x \<noteq> None" using x(1) rc_eqD [OF rc, of x] by auto
      then have "\<exists>c. x \<in> set (owned_at ?db3 c)" using w(2) [OF g _ x(2)] by (simp add: rc_eq_same [OF rc])
      then show ?thesis by (auto simp: anchored_def)
    qed
  qed (auto simp: db2(7))
  ultimately show ?thesis using False by (simp add: grows_def db2(7))
qed

section \<open>Regfiles\<close>

definition regfile_struct :: "string \<Rightarrow> addr \<Rightarrow> ig_struct \<Rightarrow> ig_struct" where
  "regfile_struct name m sp =
     struct_of (attr_const (ig_obj_init IG_OBJ_REGFILE name [sp]) ''module'' (obj_id sp))
       (Regfile \<lparr>regfile_entries = [], regfile_parent = Some m\<rparr>)"

lemma regfile_struct_same [simp]:
  "obj_id (regfile_struct name m sp) = make_id IG_OBJ_REGFILE [sp] name"
  "obj_name (regfile_struct name m sp) = name"
  "obj_refcount (regfile_struct name m sp) = 0" "obj_type (regfile_struct name m sp) = IG_OBJ_REGFILE"
  "obj_body (regfile_struct name m sp) = Regfile \<lparr>regfile_entries = [], regfile_parent = Some m\<rparr>"
  by (simp_all add: regfile_struct_def)

text \<open>The only operation of this kind that can abort: a regfile id may be taken although the name is
  free, when names contain the separator of the ids.\<close>

theorem add_regfile_result:
  assumes inv: "db_inv db" and m: "heap db m = Some sp" "obj_body sp = Module mb"
  shows "if tables db Regfiles_by_name nm \<noteq> None \<or> mod_resource mb
     then ig_lib_add_regfile (Some nm) (Some m) db = Inr (None, db)
     else if tables db Objects_by_id (make_id IG_OBJ_REGFILE [sp] nm) \<noteq> None
     then ig_lib_add_regfile (Some nm) (Some m) db = Inl InternalError
     else holds (ig_lib_add_regfile (Some nm) (Some m) db) (\<lambda>(p, db').
        p = Some (next_addr db) \<and> grows db db' \<and>
        tables db' = registered Regfiles_by_name Regfiles_by_id (next_addr db) nm
                       (make_id IG_OBJ_REGFILE [sp] nm) db \<and>
        type_at db' (next_addr db) = Some IG_OBJ_REGFILE)"
proof -
  let ?a = "next_addr db" let ?s = "regfile_struct nm m sp"
  let ?id = "make_id IG_OBJ_REGFILE [sp] nm"
  let ?db1 = "hung m (with_regfile ?a mb) ?s db"
  have h: "heap_ok db" using inv by (rule db_invD)
  have fresh: "heap db ?a = None" using h by (rule heap_ok_fresh)
  have new: "ig_rf_regfile_new (Some nm) (Some m) db =
      (if mod_resource mb then Inr (None, db) else Inr (Some ?a, allocd ?s db))"
    using m by (simp add: ig_rf_regfile_new_def fetch_def heap_get_def Let_def new_struct_eq regfile_struct_def)
  consider "tables db Regfiles_by_name nm \<noteq> None \<or> mod_resource mb"
    | "tables db Regfiles_by_name nm = None" "\<not> mod_resource mb" "tables db Objects_by_id ?id \<noteq> None"
    | "tables db Regfiles_by_name nm = None" "\<not> mod_resource mb" "tables db Objects_by_id ?id = None"
    by blast
  then show ?thesis
  proof cases
    case 1
    then show ?thesis by (auto simp: ig_lib_add_regfile_def table_contains_def new)
  next
    case 2
    then show ?thesis by (simp add: ig_lib_add_regfile_def table_contains_def new heap_get_def)
  next
    case 3
    obtain q where q: "mod_regfiles mb = Some q" using module_queues(3) [OF h m 3(2)] by auto
    obtain db0 where ref: "modify as_module Module (Some m)
         (\<lambda>m. res_bind (push_tail_opt ?a (mod_regfiles m)) (\<lambda>q. Inr (m\<lparr>mod_regfiles := q\<rparr>))) (allocd ?s db) = Inr db0"
        "ig_obj_ref (Some ?a) db0 = Inr ?db1"
      using push_ref_hung [OF fresh m(1), of as_module mb "\<lambda>m. res_bind (push_tail_opt ?a (mod_regfiles m))
          (\<lambda>q. Inr (m\<lparr>mod_regfiles := q\<rparr>))" "mb\<lparr>mod_regfiles := Some (q @ [?a])\<rparr>" ?s Module] m q
      by (auto simp: push_tail_opt_def push_tail_def with_regfile_def)
    have leaf: "new_leaf ?s" by (simp add: regfile_struct_def new_leaf_struct hdr_ok_attr_const hdr_ok_init)
    have hg: "hangs ?a (obj_type ?s) (obj_body sp) (with_regfile ?a mb)" using hangs_module_rules(2) q m by simp
    have bk: "body_ok (type_at (allocd ?s db)) (obj_body ?s)"
      using m not_next_addr [OF h m(1)] by (simp add: obj_type_def)
    have sel: "as_module (obj_body ?s) = None" "as_instance (obj_body ?s) = None" by simp_all
  note ok = hung_ok [OF inv leaf m(1) hg bk sel]
    have notin: "tables db t k \<noteq> Some ?a" for t k
      using tables_okD [OF db_invD(5) [OF inv], of t k ?a] fresh by auto
    have "holds (register3 Regfiles_by_name Regfiles_by_id ?a nm ?id ?db1) (\<lambda>db'.
       db_inv db' \<and> rc_eq ?db1 db' \<and> next_addr db' = next_addr ?db1 \<and>
       tables db' = registered Regfiles_by_name Regfiles_by_id ?a nm ?id ?db1)"
      by (rule register3_ok [where s = "?s\<lparr>obj_refcount := 1\<rparr>"])
         (use ok 3 notin in \<open>simp_all add: hung_heap obj_type_def\<close>)
    then obtain db' where reg: "register3 Regfiles_by_name Regfiles_by_id ?a nm ?id ?db1 = Inr db'"
        "db_inv db'" "rc_eq ?db1 db'" "tables db' = registered Regfiles_by_name Regfiles_by_id ?a nm ?id ?db1"
      by (auto simp: holds_iff)
    have ty: "type_at db' = type_at ?db1" using reg(3) by (rule rc_eq_same)
    have "type_at db' ?a = Some IG_OBJ_REGFILE" by (simp add: ty) (simp add: type_at_def hung_heap obj_type_def)
    moreover have "ig_lib_add_regfile (Some nm) (Some m) db = Inr (Some ?a, db')"
      using 3 by (simp add: ig_lib_add_regfile_def table_contains_def new heap_get_def ref reg(1))
    moreover have "keeps db db'" using ok(5) rc_eq_keeps [OF reg(3)] by (rule keeps_trans)
    moreover have "waste db' \<subseteq> waste db"
    proof (rule waste_registered [OF reg(3,4)])
      note w = waste_hung [OF h m(1), where bp = "with_regfile ?a mb" and s = ?s]
      have g: "gains ?a (with_regfile ?a mb) (obj_body sp)" using hg by (simp add: hangs_def)
      show "set (owned_at db c) \<subseteq> set (owned_at ?db1 c)" for c using w(1) [OF g] .
      show "x = ?a \<or> (\<exists>c. x \<in> set (owned_at ?db1 c))" if "heap ?db1 x \<noteq> None" "heap db x = None" for x
        using w(2) [OF g that] by blast
    qed (use 3 in simp_all)
    ultimately show ?thesis using 3 reg by (simp add: grows_def registered_def)
  qed
qed

end
