(* ===== verification/Ig_Instances.thy ===== *)
theory Ig_Instances
  imports Ig_Sections
begin

text \<open>
  \<open>ig_lib_add_instance\<close>: giving the default instance of a module its parent, and creating a new
  instance of a resource. The first is refused exactly when it would close a cycle.
\<close>

section \<open>What the cycle check decides\<close>

definition ancestor :: "'a ig_heap_scheme \<Rightarrow> addr \<Rightarrow> addr \<Rightarrow> bool" where
  "ancestor h x y \<longleftrightarrow> (x, y) \<in> {(p, m). module_up h m = Some p}\<^sup>*"

lemma ancestor_root:
  assumes "up_path (module_up h) y ps" and "module_up h x = None"
  shows "ancestor h x y \<longleftrightarrow> last ps = x"
proof -
  have "ancestor h x y \<longleftrightarrow> x \<in> set ps" using up_path_rtrancl [OF assms(1)] by (simp add: ancestor_def)
  moreover have "x \<in> set ps \<Longrightarrow> last ps = x"
  proof -
    assume "x \<in> set ps"
    then obtain qs where "up_path (module_up h) x qs" "last qs = last ps"
      using up_path_suffix [OF assms(1)] by blast
    moreover have "up_path (module_up h) x [x]" using assms(2) by (rule up_path.root)
    ultimately show ?thesis using up_path_unique by fastforce
  qed
  moreover have "ps \<noteq> []" using up_path_hd [OF assms(1)] by auto
  ultimately show ?thesis by auto
qed

lemma path_modules:
  assumes inv: "hier_inv h" and "up_path (module_up h) p ps" and "mod_skel h p = Some (False, d, q)"
  shows "\<exists>d q. mod_skel h (last ps) = Some (False, d, q)"
  using assms(2,3)
proof (induction arbitrary: d q rule: up_path.induct)
  case (step x p ps)
  have "inst_skel h (default_at h x) = Some (Some x, Some p)"
    using default_at_skel [OF inv step.prems] step.hyps by simp
  then obtain d' q' where "mod_skel h p = Some (False, d', q')"
    using inv skel_parent by (fastforce simp: hier_inv_def)
  then show ?case using step.IH up_path_hd [OF step.hyps(2)] by auto
qed auto

theorem check_cycle_exact:
  assumes inv: "db_inv db" and p: "mod_skel db p = Some (False, dp, qp)"
    and t: "mod_skel db t = Some (False, Some d, [])"
  shows "ig_lib_check_cycle db (Some d) (Some p) = Inr (ancestor db t p)"
proof -
  note hi = db_invD(2) [OF inv]
  obtain ps where path: "up_path (module_up db) p ps" using hierarchy.path_exists [OF hi] by blast
  have d: "default_at db t = d" "inst_skel db d = Some (Some t, None)" "module_up db t = None"
    using default_at_skel [OF hi t] skel_default [of "mod_skel db" "inst_skel db" t "Some d" "[]"] hi t
    by (auto simp: hier_inv_def split: if_splits)
  then obtain sd where sd: "heap db d = Some sd" by (auto simp: inst_skel_Some)
  obtain st tb where st: "heap db t = Some st" "obj_body st = Module tb"
    using t by (auto simp: mod_skel_Some)
  obtain d' q' where l: "mod_skel db (last ps) = Some (False, d', q')"
    using path_modules [OF hi path p] by blast
  obtain sl lb where sl: "heap db (last ps) = Some sl" "obj_body sl = Module lb"
    using l by (auto simp: mod_skel_Some)
  note ld = default_at_skel [OF hi l]
  obtain r where r: "heap db (default_at db (last ps)) = Some r"
      "ig_lib_check_cycle db (Some d) (Some p) = Inr (obj_id r = obj_id sd)"
    using check_cycle_eq [OF hi p path sd] by blast
  have n: "obj_id si = default_id (obj_name sm)"
    if "mod_skel db m = Some (r, Some i, q)" "heap db m = Some sm" "heap db i = Some si" for m r i q sm si
    using db_invD(7) [OF inv] that unfolding default_named_def by blast
  have "mod_skel db (last ps) = Some (False, Some (default_at db (last ps)), q')" using l ld(2) by simp
  then have "obj_id r = default_id (obj_name sl)" using n sl(1) r(1) by blast
  moreover have "obj_id sd = default_id (obj_name st)" using n t st(1) sd by blast
  moreover have "obj_name sl = obj_name st \<longleftrightarrow> last ps = t"
  proof
    assume eq: "obj_name sl = obj_name st"
    have "tables db Modules_by_name (obj_name sl) = Some (last ps)" "tables db Modules_by_name (obj_name st) = Some t"
      using db_invD(6) [OF inv] sl st by (auto simp: mods_inv_def listed_def obj_type_def)
    with eq show "last ps = t" by simp
  qed (use sl st in auto)
  ultimately show ?thesis using r(2) ancestor_root [OF path d(3)] by simp
qed

section \<open>Default instances\<close>

definition linked_inst :: "ig_struct \<Rightarrow> ig_instance \<Rightarrow> addr \<Rightarrow> ig_struct \<Rightarrow> ig_struct" where
  "linked_inst sd ib p sp =
     (snd (attr_set (sd\<lparr>obj_body := Instance (ib\<lparr>inst_parent := Some p\<rparr>)\<rparr>) ''parent'' (obj_id sp) True))
       \<lparr>obj_refcount := obj_refcount sd + 1\<rparr>"

definition with_child :: "addr \<Rightarrow> ig_module \<Rightarrow> ig_body" where
  "with_child a m = Module (m\<lparr>mod_child_instances := map_option (\<lambda>q. q @ [a]) (mod_child_instances m)\<rparr>)"

definition with_mod_instance :: "addr \<Rightarrow> ig_module \<Rightarrow> ig_body" where
  "with_mod_instance a m = Module (m\<lparr>mod_mod_instances := mod_mod_instances m @ [a]\<rparr>)"

definition linked :: "addr \<Rightarrow> ig_struct \<Rightarrow> addr \<Rightarrow> ig_body \<Rightarrow> addr \<Rightarrow> ig_body \<Rightarrow> ig_lib_db \<Rightarrow> ig_lib_db" where
  "linked d sd t tbody p pbody db =
     db\<lparr>heap := (heap db)(p \<mapsto> (the (heap db p))\<lparr>obj_body := pbody\<rparr>,
                          t \<mapsto> (the (heap db t))\<lparr>obj_body := tbody\<rparr>, d \<mapsto> sd)\<rparr>"

lemma linked_inst_same [simp]:
  "obj_id (linked_inst sd ib p sp) = obj_id sd" "obj_name (linked_inst sd ib p sp) = obj_name sd"
  "obj_refcount (linked_inst sd ib p sp) = obj_refcount sd + 1"
  "obj_body (linked_inst sd ib p sp) = Instance (ib\<lparr>inst_parent := Some p\<rparr>)"
  by (simp_all add: linked_inst_def attr_set_same attr_set_body)

lemma linked_inst_header:
  "header_ok sd \<Longrightarrow> obj_body sd = Instance ib \<Longrightarrow> header_ok (linked_inst sd ib p sp)"
proof -
  assume h: "header_ok sd" "obj_body sd = Instance ib"
  let ?s = "sd\<lparr>obj_body := Instance (ib\<lparr>inst_parent := Some p\<rparr>)\<rparr>"
  let ?s' = "snd (attr_set ?s ''parent'' (obj_id sp) True)"
  have "hdr_ok IG_OBJ_INSTANCE ?s" using h by (simp add: header_ok_hdr obj_type_def hdr_ok_def)
  then have "hdr_ok IG_OBJ_INSTANCE ?s'" by (rule hdr_ok_attr_set)
  then show ?thesis by (simp add: linked_inst_def header_ok_hdr obj_type_def hdr_ok_def attr_set_body)
qed

lemma add_default_eq:
  assumes t: "heap db t = Some st" "obj_body st = Module tb" "mod_default_instance tb = Some d"
    and d: "heap db d = Some sd" "obj_body sd = Instance ib"
    and p: "heap db p = Some sp" "obj_body sp = Module pb" "mod_child_instances pb \<noteq> None"
    and tp: "\<not> c \<Longrightarrow> t \<noteq> p"
    and c: "ig_lib_check_cycle db (Some d) (Some p) = Inr c"
  shows "add_default_instance nm (Some t) (Some p) db =
     Inr (if nm \<noteq> obj_name sd \<or> inst_parent ib \<noteq> None \<or> c then (None, db)
          else (Some d, linked d (linked_inst sd ib p sp) t (with_mod_instance d tb) p (with_child d pb) db))"
proof (cases "nm \<noteq> obj_name sd \<or> inst_parent ib \<noteq> None \<or> c")
  case True
  then show ?thesis
    using t d c by (auto simp: add_default_instance_def fetch_def heap_get_def Let_def)
next
  case False
  then have tp': "t \<noteq> p" using tp by auto
  have ne: "d \<noteq> t" "d \<noteq> p" using t d p by auto
  obtain q where q: "mod_child_instances pb = Some q" using p(3) by auto
  let ?sd1 = "sd\<lparr>obj_body := Instance (ib\<lparr>inst_parent := Some p\<rparr>)\<rparr>"
  let ?sd2 = "snd (attr_set ?sd1 ''parent'' (obj_id sp) True)"
  let ?db1 = "put d ?sd1 db" let ?db2 = "put d ?sd2 ?db1"
  let ?db3 = "put p (sp\<lparr>obj_body := with_child d pb\<rparr>) ?db2"
  let ?db4 = "put t (st\<lparr>obj_body := with_mod_instance d tb\<rparr>) ?db3"
  have m1: "modify as_instance Instance (Some d) (\<lambda>i. Inr (i\<lparr>inst_parent := Some p\<rparr>)) db = Inr ?db1"
    using d by (intro modify_Some) simp_all
  obtain ok where m2: "ig_obj_attr_set (Some d) (Some ''parent'') (Some (obj_id sp)) True ?db1 = Inr (ok, ?db2)"
    by (auto simp: ig_obj_attr_set_def heap_get_def split_beta)
  have m3: "modify as_module Module (Some p) (\<lambda>m. res_bind (push_tail_opt d (mod_child_instances m))
              (\<lambda>q. Inr (m\<lparr>mod_child_instances := q\<rparr>))) ?db2 = Inr ?db3"
    unfolding with_child_def
    by (rule modify_Some [where x = pb and s = sp])
       (use p(1,2) q ne in \<open>simp_all add: push_tail_opt_def push_tail_def\<close>)
  have m4: "modify as_module Module (Some t) (\<lambda>m. Inr (m\<lparr>mod_mod_instances := push_tail d (mod_mod_instances m)\<rparr>)) ?db3
              = Inr ?db4"
    unfolding with_mod_instance_def
    by (rule modify_Some [where x = tb and s = st]) (use t ne tp' in \<open>simp_all add: push_tail_def\<close>)
  have m5: "ig_obj_ref (Some d) ?db4 = Inr (put d (linked_inst sd ib p sp) ?db4)"
    using ne by (subst ref_Some [of _ d ?sd2]) (simp_all add: linked_inst_def attr_set_same)
  have "put d (linked_inst sd ib p sp) ?db4 =
          linked d (linked_inst sd ib p sp) t (with_mod_instance d tb) p (with_child d pb) db"
    using ne tp' t p by (simp add: linked_def put_def fun_eq_iff)
  moreover have "heap_get ?db1 (Some p) = Inr sp" using p ne by (simp add: heap_get_def)
  ultimately show ?thesis
    using False t d c
    by (simp add: add_default_instance_def fetch_Some heap_get_def [of db] Let_def m1 m2 m3 m4 m5)
qed


lemma base_inv_linked:
  assumes inv: "base_inv 0 0 db"
    and t: "heap db t = Some st" "obj_body st = Module tb" "mod_default_instance tb = Some d" "mod_mod_instances tb = []"
    and d: "heap db d = Some sd" "obj_body sd = Instance ib"
    and p: "heap db p = Some sp" "obj_body sp = Module pb" "mod_child_instances pb \<noteq> None"
    and tp: "t \<noteq> p"
  shows "base_inv d 0 (linked d (linked_inst sd ib p sp) t (with_mod_instance d tb) p (with_child d pb) db)"
proof -
  let ?sd3 = "linked_inst sd ib p sp" let ?sd2 = "?sd3\<lparr>obj_refcount := obj_refcount sd\<rparr>"
  let ?sp' = "sp\<lparr>obj_body := with_child d pb\<rparr>" let ?st' = "st\<lparr>obj_body := with_mod_instance d tb\<rparr>"
  let ?db1 = "put d ?sd2 db"
  let ?db2 = "put p ?sp' ?db1" let ?db3 = "put t ?st' ?db2"
  let ?db4 = "put d ?sd3 ?db3"
  have h: "heap_ok db" using inv by (simp add: base_inv_def)
  have ne: "d \<noteq> t" "d \<noteq> p" using t d p by auto
  obtain q where q: "mod_child_instances pb = Some q" using p(3) by auto
  have tm: "type_at db p = Some IG_OBJ_MODULE" "type_at db d = Some IG_OBJ_INSTANCE"
    using p d by (simp_all add: type_at_def obj_type_def)
  have hs3: "header_ok ?sd3" using heap_okD [OF h d(1)] d(2) by (intro linked_inst_header) simp_all
  then have hs2: "header_ok ?sd2" by (simp add: header_ok_def obj_type_def)
  have bd: "body_ok (type_at db) (obj_body ?sd3)" using heap_okD [OF h d(1)] d(2) tm by simp
  have bp: "body_ok (type_at db) (with_child d pb)"
    using heap_okD [OF h p(1)] p(2) tm q by (auto simp: with_child_def module_ok_def)
  have bt: "body_ok (type_at db) (with_mod_instance d tb)"
    using heap_okD [OF h t(1)] t tm by (auto simp: with_mod_instance_def module_ok_def)
  have 1: "base_inv d 0 ?db1"
    by (rule base_inv_put [OF base_inv_zero [OF inv] d(1), where k = 0 and d = 0])
       (use d hs2 bd in \<open>simp_all add: obj_type_def\<close>)
  have ty1: "type_at ?db1 = type_at db" 
    by (rule type_at_put [OF d(1)]) (use d(2) in \<open>simp add: obj_type_def\<close>)
  have 2: "base_inv d (- 1) ?db2"
  proof (rule base_inv_put [OF 1, where s = sp and k = 1 and d = 0])
    have "gains d (with_child d pb) (obj_body sp)"
      using p q by (intro gainsI) (simp_all add: with_child_def)
    then show "int (count_list (owned (obj_body ?sp')) x) = int (count_list (owned (obj_body sp)) x) + (if x = d then 1 else 0)" for x
      by (simp add: gains_def)
  qed (use p ne bp ty1 heap_okD [OF h p(1)] in \<open>simp_all add: with_child_def obj_type_def header_ok_def\<close>)
  have ty2: "type_at ?db2 = type_at db"
    using p ne ty1 by (subst type_at_put [of _ _ sp]) (simp_all add: with_child_def obj_type_def)
  have 3: "base_inv d (- 1) ?db3"
  proof (rule base_inv_put [OF 2, where s = st and k = 0 and d = 0])
    have "mset (owned (obj_body ?st')) = mset (owned (obj_body st))"
      using t by (simp add: with_mod_instance_def)
    then show "int (count_list (owned (obj_body ?st')) x) = int (count_list (owned (obj_body st)) x) + (if x = d then 0 else 0)" for x
      by (simp flip: count_mset)
  qed (use t ne tp bt ty2 heap_okD [OF h t(1)] in \<open>simp_all add: with_mod_instance_def obj_type_def header_ok_def\<close>)
  have ty3: "type_at ?db3 = type_at db"
    using t ne tp ty2 by (subst type_at_put [of _ _ st]) (simp_all add: with_mod_instance_def obj_type_def)
  have 4: "base_inv d 0 ?db4"
    by (rule base_inv_put [OF 3, where s = ?sd2 and k = 0 and d = 1])
       (use ne d hs3 bd ty3 in \<open>simp_all add: obj_type_def\<close>)
  have "?db4 = linked d ?sd3 t (with_mod_instance d tb) p (with_child d pb) db"
    using ne tp t p by (simp add: linked_def put_def fun_eq_iff)
  with 4 show ?thesis by simp
qed

lemma linked_skel:
  assumes t: "heap db t = Some st" "obj_body st = Module tb"
    and d: "heap db d = Some sd" "obj_body sd = Instance ib"
    and p: "heap db p = Some sp" "obj_body sp = Module pb" and tp: "t \<noteq> p"
  shows "mod_skel (linked d (linked_inst sd ib p sp) t (with_mod_instance d tb) p (with_child d pb) db) =
           (mod_skel db)(t \<mapsto> (mod_resource tb, mod_default_instance tb, mod_mod_instances tb @ [d]))"
    and "inst_skel (linked d (linked_inst sd ib p sp) t (with_mod_instance d tb) p (with_child d pb) db) =
           (inst_skel db)(d \<mapsto> (inst_module ib, Some p))"
  using assms
  by (auto simp: fun_eq_iff mod_skel_def inst_skel_def linked_def with_mod_instance_def with_child_def)

theorem linked_ok:
  assumes inv: "db_inv db"
    and t: "heap db t = Some st" "obj_body st = Module tb" "\<not> mod_resource tb" "mod_default_instance tb = Some d"
    and d: "heap db d = Some sd" "obj_body sd = Instance ib" "inst_parent ib = None"
    and p: "heap db p = Some sp" "obj_body sp = Module pb" "\<not> mod_resource pb"
    and anc: "\<not> ancestor db t p"
    and L: "L = linked d (linked_inst sd ib p sp) t (with_mod_instance d tb) p (with_child d pb) db"
  shows "base_inv d 0 L" "hier_inv L" "others_ok d L" "default_named L" "keeps db L"
    "\<And>x s. heap L x = Some s \<Longrightarrow> listed x s L" "inst_skel L d = Some (Some t, Some p)"
    "module_up L = (module_up db)(t \<mapsto> p)" "tables L = tables db" "heap L d = Some (linked_inst sd ib p sp)"
    "\<And>b. set (owned_at db b) \<subseteq> set (owned_at L b)" "\<And>x. heap L x \<noteq> None \<Longrightarrow> heap db x \<noteq> None"
proof -
  note h = db_invD(4) [OF inv] and hi = db_invD(2) [OF inv]
  have ok: "skel_ok (mod_skel db) (inst_skel db)" using hi by (simp add: hier_inv_def)
  have Mt: "mod_skel db t = Some (False, Some d, mod_mod_instances tb)" using t by (simp add: mod_skel_Some)
  have Id: "inst_skel db d = Some (inst_module ib, None)" using d by (simp add: inst_skel_Some)
  have Mp: "mod_skel db p = Some (False, mod_default_instance pb, mod_mod_instances pb)"
    using p by (simp add: mod_skel_Some)
  have it: "inst_module ib = Some t" "mod_mod_instances tb = []" "module_up db t = None"
    using skel_default [OF ok Mt] Id by (auto simp: module_up_def split: if_splits)
  have tp: "t \<noteq> p" using anc by (auto simp: ancestor_def)
  have ne: "d \<noteq> t" "d \<noteq> p" using t d p by auto
  note sk = linked_skel [OF t(1,2) d(1,2) p(1,2) tp, folded L]
  have Mt': "mod_skel db t = Some (False, Some d, [])" and Id': "inst_skel db d = Some (Some t, None)"
    using Mt Id it by simp_all
  note link = skel_link_default [OF ok Mt' Id' Mp]
  show "base_inv d 0 L"
    unfolding L using db_invD(1) [OF inv] t(1,2,4) it(2) d(1,2) p(1,2) module_queues(4) [OF h p] tp
    by (rule base_inv_linked)
  have skL: "mod_skel L = (mod_skel db)(t \<mapsto> (False, Some d, [d]))" "inst_skel L = (inst_skel db)(d \<mapsto> (Some t, Some p))"
    using sk t it by simp_all
  show up: "module_up L = (module_up db)(t \<mapsto> p)"
    unfolding module_up_def skL by (rule link(2))
  show "inst_skel L d = Some (Some t, Some p)" by (simp add: skL)
  show tb: "tables L = tables db" by (simp add: L linked_def)
  show "heap L d = Some (linked_inst sd ib p sp)" by (simp add: L linked_def)
  obtain ps where path: "up_path (module_up db) p ps" using hierarchy.path_exists [OF hi] by blast
  have "last ps \<noteq> t" using ancestor_root [OF path it(3)] anc by simp
  then have "wf {(q, y). module_up L y = Some q}"
    unfolding up using hierarchy.link_wf_iff [OF hi it(3) path] by simp
  moreover have "skel_ok (mod_skel L) (inst_skel L)" unfolding skL by (rule link(1))
  ultimately show "hier_inv L" by (simp add: hier_inv_def)
  have heapL: "heap L = (heap db)(p \<mapsto> sp\<lparr>obj_body := with_child d pb\<rparr>, t \<mapsto> st\<lparr>obj_body := with_mod_instance d tb\<rparr>,
                 d \<mapsto> linked_inst sd ib p sp)"
    using t p by (simp add: L linked_def)
  show k: "keeps db L"
    unfolding keeps_def
  proof (intro allI impI)
    fix x s assume x: "heap db x = Some s"
    show "\<exists>s'. heap L x = Some s' \<and> obj_id s' = obj_id s \<and> obj_name s' = obj_name s \<and> obj_type s' = obj_type s"
      using x t d p by (auto simp: heapL obj_type_def with_mod_instance_def with_child_def)
  qed
  show "default_named L"
    using k h by (rule default_named_keeps) (use db_invD(7) [OF inv] Mt' in \<open>auto simp: skL split: if_splits\<close>)
  show "listed x s L" if x: "heap L x = Some s" for x s
  proof -
    obtain s' where "heap db x = Some s'" "obj_type s = obj_type s'" "obj_name s = obj_name s'"
      using x t d p by (auto simp: heapL obj_type_def with_mod_instance_def with_child_def split: if_splits)
    then show ?thesis using db_invD(6) [OF inv] by (auto simp: mods_inv_def listed_def tb)
  qed
  show own: "set (owned_at db b) \<subseteq> set (owned_at L b)" for b
  proof -
    have "set (owned (Module pb)) \<subseteq> set (owned (with_child d pb))"
      using module_queues(4) [OF h p] by (intro gains_subset [of d] gainsI) (auto simp: with_child_def)
    moreover have "set (owned (Module tb)) \<subseteq> set (owned (with_mod_instance d tb))"
    proof -
      have "mset (owned (with_mod_instance d tb)) = mset (owned (Module tb))"
        using t(4) it(2) by (simp add: with_mod_instance_def)
      then show ?thesis using mset_eq_setD by blast
    qed
    ultimately show ?thesis
      using t(1,2) d(1,2) p(1,2) ne tp
      by (auto simp: owned_at_def heapL fun_upd_def simp del: owned.simps(1))
  qed
  show "heap db x \<noteq> None" if "heap L x \<noteq> None" for x
    using that t(1) d(1) p(1) by (auto simp: heapL split: if_splits)
  show "others_ok d L"
    unfolding others_ok_def
  proof (intro allI impI)
    fix tt k x assume "tables L tt k = Some x" "x \<noteq> d"
    moreover have "anchored db x \<Longrightarrow> anchored L x"
      using own by (rule anchored_mono [rotated]) (simp_all add: tb)
    ultimately show "anchored L x \<and> (\<forall>mo. inst_skel L x \<noteq> Some (mo, None))"
      using db_invD(3) [OF inv] by (auto simp: anch_inv_def tb skL)
  qed
qed

section \<open>Instances of resources\<close>

definition resource_inst ::
    "string \<Rightarrow> addr \<Rightarrow> ig_struct \<Rightarrow> ig_module \<Rightarrow> addr \<Rightarrow> ig_struct \<Rightarrow> ig_module \<Rightarrow> ig_lib_db \<Rightarrow> ig_lib_db" where
  "resource_inst nm t st tb p sp pb db =
     db\<lparr>heap := (heap db)(p \<mapsto> sp\<lparr>obj_body := with_child (next_addr db) pb\<rparr>,
                  t \<mapsto> st\<lparr>obj_body := with_mod_instance (next_addr db) tb\<rparr>,
                  next_addr db \<mapsto> (instance_struct nm t (obj_id st) (Some p) [sp])\<lparr>obj_refcount := 2\<rparr>),
        next_addr := Suc (next_addr db)\<rparr>"

lemma add_resource_eq:
  assumes inv: "heap_ok db" and t: "heap db t = Some st" "obj_body st = Module tb" "mod_resource tb"
    and p: "heap db p = Some sp" "obj_body sp = Module pb" "\<not> mod_resource pb"
  shows "add_resource_instance nm (Some t) (Some p) db =
           Inr (Some (next_addr db), resource_inst nm t st tb p sp pb db)"
proof -
  let ?a = "next_addr db" let ?s = "instance_struct nm t (obj_id st) (Some p) [sp]"
  have tp: "t \<noteq> p" using t p by auto
  have ne: "t \<noteq> ?a" "p \<noteq> ?a" using not_next_addr [OF inv] t(1) p(1) by blast+
  obtain q where q: "mod_child_instances pb = Some q" using module_queues(4) [OF inv p] by auto
  let ?db1 = "allocd ?s db"
  let ?db2 = "put p (sp\<lparr>obj_body := with_child ?a pb\<rparr>) ?db1"
  let ?db3 = "put ?a (?s\<lparr>obj_refcount := 1\<rparr>) ?db2"
  let ?db4 = "put t (st\<lparr>obj_body := with_mod_instance ?a tb\<rparr>) ?db3"
  have new: "ig_instance_new (Some nm) (Some t) (Some p) db = Inr (Some ?a, ?db1)"
    using t p by (simp add: ig_instance_new_def fetch_Some heap_get_def Let_def new_struct_eq instance_struct_def)
  have m2: "modify as_module Module (Some p) (\<lambda>m. res_bind (push_tail_opt ?a (mod_child_instances m))
              (\<lambda>q. Inr (m\<lparr>mod_child_instances := q\<rparr>))) ?db1 = Inr ?db2"
    unfolding with_child_def
    by (rule modify_Some [where x = pb and s = sp])
       (use p(1,2) q ne in \<open>simp_all add: push_tail_opt_def push_tail_def\<close>)
  have m3: "ig_obj_ref (Some ?a) ?db2 = Inr ?db3" using ne by (subst ref_Some [of _ ?a ?s]) simp_all
  have m4: "modify as_module Module (Some t) (\<lambda>m. Inr (m\<lparr>mod_mod_instances := push_tail ?a (mod_mod_instances m)\<rparr>)) ?db3
              = Inr ?db4"
    unfolding with_mod_instance_def
    by (rule modify_Some [where x = tb and s = st]) (use t ne tp in \<open>simp_all add: push_tail_def\<close>)
  have m5: "ig_obj_ref (Some ?a) ?db4 = Inr (put ?a (?s\<lparr>obj_refcount := 2\<rparr>) ?db4)"
    using ne by (subst ref_Some [of _ ?a "?s\<lparr>obj_refcount := 1\<rparr>"]) simp_all
  have "put ?a (?s\<lparr>obj_refcount := 2\<rparr>) ?db4 = resource_inst nm t st tb p sp pb db"
    using ne tp by (simp add: resource_inst_def put_def fun_upd_twist)
  then show ?thesis by (simp add: add_resource_instance_def new m2 m3 m4 m5)
qed

lemma base_inv_resource_inst:
  assumes inv: "base_inv 0 0 db" and t: "heap db t = Some st" "obj_body st = Module tb" "mod_resource tb"
    "mod_default_instance tb = None"
    and p: "heap db p = Some sp" "obj_body sp = Module pb" "\<not> mod_resource pb"
  shows "base_inv (next_addr db) 0 (resource_inst nm t st tb p sp pb db)"
proof -
  let ?a = "next_addr db" let ?s = "instance_struct nm t (obj_id st) (Some p) [sp]"
  let ?s1 = "?s\<lparr>obj_refcount := 1\<rparr>" let ?s2 = "?s\<lparr>obj_refcount := 2\<rparr>"
  let ?sp' = "sp\<lparr>obj_body := with_child ?a pb\<rparr>" let ?st' = "st\<lparr>obj_body := with_mod_instance ?a tb\<rparr>"
  have h: "heap_ok db" using inv by (simp add: base_inv_def)
  have tp: "t \<noteq> p" using t p by auto
  have ne: "t \<noteq> ?a" "p \<noteq> ?a" using not_next_addr [OF h] t(1) p(1) by blast+
  obtain q where q: "mod_child_instances pb = Some q" using module_queues(4) [OF h p] by auto
  let ?db1 = "allocd ?s db" let ?db2 = "put p ?sp' ?db1" let ?db3 = "put ?a ?s1 ?db2"
  let ?db4 = "put t ?st' ?db3" let ?db5 = "put ?a ?s2 ?db4"
  let ?T = "type_at ?db1"
  have T: "?T t = Some IG_OBJ_MODULE" "?T p = Some IG_OBJ_MODULE" "?T ?a = Some IG_OBJ_INSTANCE"
    using t p ne by (simp_all add: obj_type_def)
  have hs: "header_ok ?s" "header_ok ?s1" "header_ok ?s2"
    using instance_struct_header [of nm t "obj_id st" "Some p" "[sp]"] by (simp_all add: header_ok_def obj_type_def)
  have bs: "body_ok ?T (obj_body ?s)" using T by simp
  have bo: "body_ok ?T (Module pb)" "body_ok ?T (Module tb)"
    using heap_okD [OF h t(1)] heap_okD [OF h p(1)] t(2) p(2) body_ok_mono [OF type_at_allocd [OF h]] by metis+
  have bp: "body_ok ?T (with_child ?a pb)" using bo(1) T(3) q by (auto simp: with_child_def module_ok_def)
  have bt: "body_ok ?T (with_mod_instance ?a tb)" using bo(2) T(3) by (auto simp: with_mod_instance_def module_ok_def)
  have 1: "base_inv ?a 0 ?db1" by (rule base_inv_alloc [OF inv hs(1) bs]) simp_all
  have 2: "base_inv ?a (- 1) ?db2"
  proof (rule base_inv_put [OF 1, where s = sp and k = 1 and d = 0])
    have "gains ?a (with_child ?a pb) (obj_body sp)" using p q by (intro gainsI) (simp_all add: with_child_def)
    then show "int (count_list (owned (obj_body ?sp')) x) = int (count_list (owned (obj_body sp)) x) + (if x = ?a then 1 else 0)" for x
      by (simp add: gains_def)
  qed (use p ne bp heap_okD [OF h p(1)] in \<open>simp_all add: with_child_def obj_type_def header_ok_def\<close>)
  have ty2: "type_at ?db2 = ?T"
    using p ne by (subst type_at_put [of _ _ sp]) (simp_all add: with_child_def obj_type_def)
  have 3: "base_inv ?a 0 ?db3"
    by (rule base_inv_put [OF 2, where s = ?s and k = 0 and d = 1])
       (use ne hs bs ty2 in \<open>simp_all add: obj_type_def\<close>)
  have ty3: "type_at ?db3 = ?T"
    using ne ty2 by (subst type_at_put [of _ _ ?s]) (simp_all add: obj_type_def)
  have 4: "base_inv ?a (- 1) ?db4"
  proof (rule base_inv_put [OF 3, where s = st and k = 1 and d = 0])
    have "gains ?a (with_mod_instance ?a tb) (obj_body st)"
      using t by (intro gainsI) (simp_all add: with_mod_instance_def)
    then show "int (count_list (owned (obj_body ?st')) x) = int (count_list (owned (obj_body st)) x) + (if x = ?a then 1 else 0)" for x
      by (simp add: gains_def)
  qed (use t ne tp bt ty3 heap_okD [OF h t(1)] in \<open>simp_all add: with_mod_instance_def obj_type_def header_ok_def\<close>)
  have ty4: "type_at ?db4 = ?T"
    using t ne tp ty3 by (subst type_at_put [of _ _ st]) (simp_all add: with_mod_instance_def obj_type_def)
  have 5: "base_inv ?a 0 ?db5"
    by (rule base_inv_put [OF 4, where s = ?s1 and k = 0 and d = 1])
       (use ne hs bs ty4 in \<open>simp_all add: obj_type_def\<close>)
  have "?db5 = resource_inst nm t st tb p sp pb db"
    using ne tp by (simp add: resource_inst_def put_def fun_upd_twist)
  with 5 show ?thesis by simp
qed

theorem resource_ok:
  assumes inv: "db_inv db"
    and t: "heap db t = Some st" "obj_body st = Module tb" "mod_resource tb"
    and p: "heap db p = Some sp" "obj_body sp = Module pb" "\<not> mod_resource pb"
    and R: "R = resource_inst nm t st tb p sp pb db"
  shows "base_inv (next_addr db) 0 R" "hier_inv R" "others_ok (next_addr db) R" "default_named R" "keeps db R"
    "\<And>x s. heap R x = Some s \<Longrightarrow> listed x s R" "inst_skel R (next_addr db) = Some (Some t, Some p)"
    "module_up R = module_up db" "tables R = tables db"
    "heap R (next_addr db) = Some ((instance_struct nm t (obj_id st) (Some p) [sp])\<lparr>obj_refcount := 2\<rparr>)"
    "\<And>b. set (owned_at db b) \<subseteq> set (owned_at R b)"
    "\<And>x. heap R x \<noteq> None \<Longrightarrow> heap db x = None \<Longrightarrow> x = next_addr db"
proof -
  let ?a = "next_addr db"
  note h = db_invD(4) [OF inv] and hi = db_invD(2) [OF inv]
  have ok: "skel_ok (mod_skel db) (inst_skel db)" using hi by (simp add: hier_inv_def)
  have fresh: "heap db ?a = None" using h by (rule heap_ok_fresh)
  have tp: "t \<noteq> p" using t p by auto
  have ne: "t \<noteq> ?a" "p \<noteq> ?a" using not_next_addr [OF h] t(1) p(1) by blast+
  have Mt: "mod_skel db t = Some (True, mod_default_instance tb, mod_mod_instances tb)"
    using t by (simp add: mod_skel_Some)
  have Mp: "mod_skel db p = Some (False, mod_default_instance pb, mod_mod_instances pb)"
    using p by (simp add: mod_skel_Some)
  have dn: "mod_default_instance tb = None" using skel_resource [OF ok Mt] .
  have heapR: "heap R = (heap db)(p \<mapsto> sp\<lparr>obj_body := with_child ?a pb\<rparr>,
                  t \<mapsto> st\<lparr>obj_body := with_mod_instance ?a tb\<rparr>,
                  ?a \<mapsto> (instance_struct nm t (obj_id st) (Some p) [sp])\<lparr>obj_refcount := 2\<rparr>)"
    by (simp add: R resource_inst_def)
  have skR: "mod_skel R = (mod_skel db)(t \<mapsto> (True, mod_default_instance tb, mod_mod_instances tb @ [?a]))"
    "inst_skel R = (inst_skel db)(?a \<mapsto> (Some t, Some p))"
    using t p tp ne fresh
    by (auto simp: fun_eq_iff mod_skel_def inst_skel_def heapR with_mod_instance_def with_child_def)
  note link = skel_add_resource_inst [OF ok Mt skel_fresh(2) [OF fresh] Mp]
  show "base_inv ?a 0 R"
    unfolding R using db_invD(1) [OF inv] t dn p by (rule base_inv_resource_inst)
  show up: "module_up R = module_up db" unfolding module_up_def skR by (rule link(2))
  show "inst_skel R ?a = Some (Some t, Some p)" by (simp add: skR)
  show tb: "tables R = tables db" by (simp add: R resource_inst_def)
  show "heap R ?a = Some ((instance_struct nm t (obj_id st) (Some p) [sp])\<lparr>obj_refcount := 2\<rparr>)"
    by (simp add: heapR)
  have "skel_ok (mod_skel R) (inst_skel R)" unfolding skR by (rule link(1))
  then show "hier_inv R" using hi by (simp add: hier_inv_def up)
  show k: "keeps db R"
    unfolding keeps_def
  proof (intro allI impI)
    fix x s assume x: "heap db x = Some s"
    have "x \<noteq> ?a" using x fresh by auto
    then show "\<exists>s'. heap R x = Some s' \<and> obj_id s' = obj_id s \<and> obj_name s' = obj_name s \<and> obj_type s' = obj_type s"
      using x t p by (auto simp: heapR obj_type_def with_mod_instance_def with_child_def)
  qed
  show "default_named R"
    using k h by (rule default_named_keeps) (use db_invD(7) [OF inv] Mt in \<open>auto simp: skR split: if_splits\<close>)
  show "listed x s R" if x: "heap R x = Some s" for x s
  proof (cases "x = ?a")
    case True
    then show ?thesis using x by (auto simp: heapR listed_def obj_type_def)
  next
    case False
    then obtain s' where "heap db x = Some s'" "obj_type s = obj_type s'" "obj_name s = obj_name s'"
      using x t p by (auto simp: heapR obj_type_def with_mod_instance_def with_child_def split: if_splits)
    then show ?thesis using db_invD(6) [OF inv] by (auto simp: mods_inv_def listed_def tb)
  qed
  show own: "set (owned_at db b) \<subseteq> set (owned_at R b)" for b
  proof -
    have "set (owned (Module pb)) \<subseteq> set (owned (with_child ?a pb))"
      using module_queues(4) [OF h p] by (intro gains_subset [of ?a] gainsI) (auto simp: with_child_def)
    moreover have "set (owned (Module tb)) \<subseteq> set (owned (with_mod_instance ?a tb))"
      using dn by (intro gains_subset [of ?a] gainsI) (auto simp: with_mod_instance_def)
    ultimately show ?thesis
      using t(1,2) p(1,2) fresh ne tp
      by (auto simp: owned_at_def heapR fun_upd_def simp del: owned.simps(1))
  qed
  show "x = ?a" if "heap R x \<noteq> None" "heap db x = None" for x
    using that t(1) p(1) by (auto simp: heapR split: if_splits)
  show "others_ok ?a R"
    unfolding others_ok_def
  proof (intro allI impI)
    fix tt k x assume "tables R tt k = Some x" "x \<noteq> ?a"
    moreover have "anchored db x \<Longrightarrow> anchored R x"
      using own by (rule anchored_mono [rotated]) (simp_all add: tb)
    ultimately show "anchored R x \<and> (\<forall>mo. inst_skel R x \<noteq> Some (mo, None))"
      using db_invD(3) [OF inv] by (auto simp: anch_inv_def tb skR)
  qed
qed

section \<open>The whole operation\<close>

lemma register_instance:
  assumes "base_inv i 0 db1" "hier_inv db1" "others_ok i db1" "default_named db1"
    and "\<And>x s. heap db1 x = Some s \<Longrightarrow> listed x s db1" and "inst_skel db1 i = Some (mo, Some p)"
    and "heap db1 i = Some s" "obj_type s = IG_OBJ_INSTANCE" "tables db1 Instances_by_name (obj_name s) = None"
    and "\<And>t k. tables db1 t k \<noteq> Some i"
  shows "\<exists>db'. register3 Instances_by_name Instances_by_id i (obj_name s) (obj_id s) db1 = Inr db' \<and>
           db_inv db' \<and> rc_eq db1 db' \<and>
           tables db' = registered Instances_by_name Instances_by_id i (obj_name s) (obj_id s) db1"
  using register3_ok [of i db1 s "obj_name s" "obj_id s" Instances_by_name Instances_by_id] assms
  by (simp add: holds_iff) blast

text \<open>
  The specification of \<open>ig_lib_add_instance\<close>: when it is refused, and what changes in the module
  hierarchy otherwise. A module is refused exactly when the instance name is taken, the parent is
  a resource, the name is not that of the default instance, the module already has an instance, or
  the parent lies below the module.
\<close>

theorem add_instance_module_result:
  assumes inv: "db_inv db"
    and t: "heap db t = Some st" "obj_body st = Module tb" "\<not> mod_resource tb" "mod_default_instance tb = Some d"
    and d: "heap db d = Some sd" "obj_body sd = Instance ib"
    and p: "heap db p = Some sp" "obj_body sp = Module pb"
  shows "holds (ig_lib_add_instance (Some nm) (Some t) (Some p) db) (\<lambda>(r, db').
     if tables db Instances_by_name nm \<noteq> None \<or> mod_resource pb \<or> nm \<noteq> obj_name sd \<or>
        inst_parent ib \<noteq> None \<or> ancestor db t p
     then r = None \<and> db' = db
     else r = Some d \<and> grows db db' \<and> module_up db' = (module_up db)(t \<mapsto> p) \<and>
          tables db' = registered Instances_by_name Instances_by_id d nm (obj_id sd) db)"
proof (cases "tables db Instances_by_name nm \<noteq> None \<or> mod_resource pb")
  case True
  then show ?thesis using p by (auto simp: ig_lib_add_instance_def table_contains_def fetch_Some)
next
  case False
  note h = db_invD(4) [OF inv] and hi = db_invD(2) [OF inv]
  have ok: "skel_ok (mod_skel db) (inst_skel db)" using hi by (simp add: hier_inv_def)
  have Mt: "mod_skel db t = Some (False, Some d, mod_mod_instances tb)" using t by (simp add: mod_skel_Some)
  have Id: "inst_skel db d = Some (inst_module ib, inst_parent ib)" using d by (simp add: inst_skel_Some)
  have Mp: "mod_skel db p = Some (False, mod_default_instance pb, mod_mod_instances pb)"
    using p False by (simp add: mod_skel_Some)
  show ?thesis
  proof (cases "nm \<noteq> obj_name sd \<or> inst_parent ib \<noteq> None")
    case True
    then show ?thesis
      using False t d p
      by (auto simp: ig_lib_add_instance_def table_contains_def fetch_Some add_default_instance_def heap_get_def)
  next
    case ready: False
    have "mod_mod_instances tb = []"
      using skel_default [OF ok Mt] Id ready by (auto split: if_splits)
    then have chk: "ig_lib_check_cycle db (Some d) (Some p) = Inr (ancestor db t p)"
      using check_cycle_exact [OF inv Mp] Mt by simp
    let ?L = "linked d (linked_inst sd ib p sp) t (with_mod_instance d tb) p (with_child d pb) db"
    have tp: "\<not> ancestor db t p \<Longrightarrow> t \<noteq> p" by (auto simp: ancestor_def)
    have ch: "mod_child_instances pb \<noteq> None" using module_queues(4) [OF h p] False by blast
    have arm: "add_default_instance nm (Some t) (Some p) db =
        Inr (if ancestor db t p then (None, db) else (Some d, ?L))"
      using add_default_eq [OF t(1,2,4) d p ch tp chk, of nm] ready by simp
    show ?thesis
    proof (cases "ancestor db t p")
      case True
      then show ?thesis
        using False t p arm by (simp add: ig_lib_add_instance_def table_contains_def fetch_Some)
    next
      case nc: False
      have p3: "\<not> mod_resource pb" and d3: "inst_parent ib = None" using False ready by auto
      note L = linked_ok [OF inv t d d3 p p3 nc refl]
      have notin: "tables db tt k \<noteq> Some d" for tt k
        using db_invD(3) [OF inv] Id d3 by (auto simp: anch_inv_def)
      obtain db' where reg: "register3 Instances_by_name Instances_by_id d (obj_name sd) (obj_id sd) ?L = Inr db'"
          "db_inv db'" "rc_eq ?L db'"
          "tables db' = registered Instances_by_name Instances_by_id d (obj_name sd) (obj_id sd) ?L"
        using register_instance [OF L(1-4,6,7,10)] False ready notin L(9) by (auto simp: obj_type_def)
      have "module_up db' = module_up ?L" using reg(3) by (simp add: module_up_def rc_eq_same)
      moreover have "keeps db db'" using L(5) rc_eq_keeps [OF reg(3)] by (rule keeps_trans)
      moreover have "ig_lib_add_instance (Some nm) (Some t) (Some p) db = Inr (Some d, db')"
        using False t p arm nc L(10) reg(1)
        by (simp add: ig_lib_add_instance_def table_contains_def fetch_Some heap_get_def)
      moreover have "waste db' \<subseteq> waste db"
        by (rule waste_registered [OF reg(3,4)]) (use L(9,11,12) False ready in auto)
      ultimately show ?thesis
        using False ready nc reg L(8,9) by (simp add: grows_def registered_def)
    qed
  qed
qed

theorem add_instance_resource_result:
  assumes inv: "db_inv db" and t: "heap db t = Some st" "obj_body st = Module tb" "mod_resource tb"
    and p: "heap db p = Some sp" "obj_body sp = Module pb"
  shows "holds (ig_lib_add_instance (Some nm) (Some t) (Some p) db) (\<lambda>(r, db').
     if tables db Instances_by_name nm \<noteq> None \<or> mod_resource pb
     then r = None \<and> db' = db
     else r = Some (next_addr db) \<and> grows db db' \<and> module_up db' = module_up db \<and>
          tables db' = registered Instances_by_name Instances_by_id (next_addr db) nm
                         (make_id IG_OBJ_INSTANCE [sp] nm) db)"
proof (cases "tables db Instances_by_name nm \<noteq> None \<or> mod_resource pb")
  case True
  then show ?thesis using p by (auto simp: ig_lib_add_instance_def table_contains_def fetch_Some)
next
  case False
  let ?a = "next_addr db" let ?R = "resource_inst nm t st tb p sp pb db"
  note h = db_invD(4) [OF inv]
  have p3: "\<not> mod_resource pb" using False by auto
  note R = resource_ok [OF inv t p p3 refl, where nm = nm]
  have notin: "tables db tt k \<noteq> Some ?a" for tt k
    using tables_okD [OF db_invD(5) [OF inv], of tt k ?a] heap_ok_fresh [OF h] by auto
  obtain db' where reg: "register3 Instances_by_name Instances_by_id ?a nm (make_id IG_OBJ_INSTANCE [sp] nm) ?R = Inr db'"
      "db_inv db'" "rc_eq ?R db'"
      "tables db' = registered Instances_by_name Instances_by_id ?a nm (make_id IG_OBJ_INSTANCE [sp] nm) ?R"
    using register_instance [OF R(1-4,6,7,10)] False notin R(9) by (auto simp: obj_type_def)
  have "module_up db' = module_up ?R" using reg(3) by (simp add: module_up_def rc_eq_same)
  moreover have "keeps db db'" using R(5) rc_eq_keeps [OF reg(3)] by (rule keeps_trans)
  moreover have "ig_lib_add_instance (Some nm) (Some t) (Some p) db = Inr (Some ?a, db')"
    using False t p add_resource_eq [OF h t p p3, of nm] R(10) reg(1)
    by (simp add: ig_lib_add_instance_def table_contains_def fetch_Some heap_get_def)
  moreover have "waste db' \<subseteq> waste db"
    by (rule waste_registered [OF reg(3,4)]) (use R(9,11,12) False in auto)
  ultimately show ?thesis
    using False reg R(8,9) by (simp add: grows_def registered_def)
qed

end
