(* ===== verification/Ig_Members.thy ===== *)
theory Ig_Members
  imports Ig_Instances
begin

text \<open>
  Nets and generics collect the objects generated for a signal or parameter. The locale
  \<open>member_group\<close> is the contract of the step that adds one object to such a collection; the loop
  over all objects is proved once from it. It is interpreted on \<open>net_member_add\<close> and on
  \<open>generic_member_add\<close>.
\<close>

section \<open>Updates that keep the shape of the database\<close>

lemma db_inv_update:
  assumes inv: "db_inv db" and base: "base_inv 0 0 db'" and tb: "tables db' = tables db"
    and sk: "mod_skel db' = mod_skel db" "inst_skel db' = inst_skel db" and k: "keeps db db'"
    and own: "\<And>b. set (owned_at db b) \<subseteq> set (owned_at db' b)"
    and old: "\<And>x s. heap db' x = Some s \<Longrightarrow> obj_type s = IG_OBJ_MODULE \<Longrightarrow> heap db x \<noteq> None"
  shows "db_inv db'"
  unfolding db_inv_def
proof (intro conjI base)
  show "hier_inv db'" using sk db_invD(2) [OF inv] by (rule hier_inv_cong)
  show "anch_inv db'"
    unfolding anch_inv_def
  proof (intro allI impI)
    fix t k x assume "tables db' t k = Some x"
    then have *: "anchored db x" "\<forall>mo. inst_skel db x \<noteq> Some (mo, None)"
      using db_invD(3) [OF inv] by (auto simp: anch_inv_def tb)
    have "anchored db' x" by (rule anchored_mono [OF _ own *(1)]) (simp add: tb)
    then show "anchored db' x \<and> (\<forall>mo. inst_skel db' x \<noteq> Some (mo, None))" using * by (simp add: sk)
  qed
  show "mods_inv db'"
    unfolding mods_inv_def listed_def
  proof (intro allI impI)
    fix x s assume x: "heap db' x = Some s" "obj_type s = IG_OBJ_MODULE"
    then obtain s0 where s0: "heap db x = Some s0" using old by blast
    then have "obj_name s = obj_name s0" "obj_type s0 = IG_OBJ_MODULE" using keepsD [OF k s0] x by auto
    then show "tables db' Modules_by_name (obj_name s) = Some x"
      using db_invD(6) [OF inv] s0 by (auto simp: mods_inv_def listed_def tb)
  qed
  show "default_named db'"
    using k db_invD(4) [OF inv] by (rule default_named_keeps) (use db_invD(7) [OF inv] in \<open>auto simp: sk\<close>)
qed

lemma db_inv_alloc:
  assumes inv: "db_inv db" and s: "new_leaf s" "body_ok (type_at (allocd s db)) (obj_body s)"
    and ty: "as_module (obj_body s) = None" "as_instance (obj_body s) = None"
  shows "db_inv (allocd s db)" and "keeps db (allocd s db)"
proof -
  note h = db_invD(4) [OF inv]
  have fresh: "heap db (next_addr db) = None" using h by (rule heap_ok_fresh)
  show k: "keeps db (allocd s db)"
    unfolding keeps_def using fresh by auto
  show "db_inv (allocd s db)"
  proof (rule db_inv_update [OF inv])
    show "base_inv 0 0 (allocd s db)"
      using base_inv_alloc [OF db_invD(1) [OF inv] _ s(2)] s(1) base_inv_zero
      by (auto simp: new_leaf_def)
    show "mod_skel (allocd s db) = mod_skel db" "inst_skel (allocd s db) = inst_skel db"
      using ty fresh by (auto simp: mod_skel_def inst_skel_def fun_eq_iff)
    show "keeps db (allocd s db)" by (rule k)
    show "set (owned_at db b) \<subseteq> set (owned_at (allocd s db) b)" for b
      using fresh by (auto simp: owned_at_def)
    show "heap db x \<noteq> None" if "heap (allocd s db) x = Some s'" "obj_type s' = IG_OBJ_MODULE" for x s'
      using that ty(1) by (cases "obj_body s") (auto simp: obj_type_def split: if_splits)
  qed simp
qed

section \<open>The contract\<close>

definition body_at :: "'a ig_heap_scheme \<Rightarrow> addr \<Rightarrow> ig_body option" where
  "body_at h x = map_option obj_body (heap h x)"

text \<open>
  What a generated object says about the design: its contents without the pointer to its group, with
  its name and whether it is inverted. Later operations keep it.
\<close>

fun bare :: "ig_body \<Rightarrow> ig_body option" where
  "bare (Port x) = Some (Port (x\<lparr>port_net := None\<rparr>))"
| "bare (Pin x) = Some (Pin (x\<lparr>pin_net := None\<rparr>))"
| "bare (Decl x) = Some (Decl (x\<lparr>decl_net := None\<rparr>))"
| "bare (Param x) = Some (Param (x\<lparr>param_generic := None\<rparr>))"
| "bare (Adjustment x) = Some (Adjustment (x\<lparr>adj_generic := None\<rparr>))"
| "bare _ = None"

type_synonym content = "string \<times> string option \<times> ig_body"

definition struct_content :: "ig_struct \<Rightarrow> content option" where
  "struct_content s = map_option (\<lambda>b. (obj_name s, attr_get s ''invert'', b)) (bare (obj_body s))"

definition content_at :: "'a ig_heap_scheme \<Rightarrow> addr \<rightharpoonup> content" where
  "content_at h x = Option.bind (heap h x) struct_content"

lemma content_kept:
  assumes "\<And>x s. heap h x = Some s \<Longrightarrow> struct_content s \<noteq> None \<Longrightarrow>
             \<exists>s'. heap h' x = Some s' \<and> struct_content s' = struct_content s"
  shows "content_at h \<subseteq>\<^sub>m content_at h'"
  using assms by (fastforce simp: map_le_def content_at_def bind_eq_Some_conv)

text \<open>\<open>x\<close> has joined the collection \<open>n\<close>.\<close>

definition joined ::
    "(ig_body \<Rightarrow> addr list) \<Rightarrow> (ig_body \<Rightarrow> ptr) \<Rightarrow> addr \<Rightarrow> addr \<Rightarrow> ig_lib_db \<Rightarrow> ig_lib_db \<Rightarrow> bool"
where
  "joined members owner n x db db' \<longleftrightarrow>
     db_inv db' \<and> keeps db db' \<and> tables db' = tables db \<and> next_addr db' = next_addr db \<and>
     module_up db' = module_up db \<and>
     map_option members (body_at db' n) = map_option (\<lambda>b. members b @ [x]) (body_at db n) \<and>
     map_option owner (body_at db' x) = Some (Some n) \<and>
     (\<forall>y. y \<noteq> n \<longrightarrow> y \<noteq> x \<longrightarrow> heap db' y = heap db y) \<and>
     (\<forall>b. set (owned_at db b) \<subseteq> set (owned_at db' b)) \<and> dom (heap db') = dom (heap db) \<and>
     content_at db \<subseteq>\<^sub>m content_at db'"

locale member_group =
  fixes add :: "addr \<Rightarrow> string \<Rightarrow> string \<Rightarrow> addr \<Rightarrow> ig_lib_db \<Rightarrow> ig_lib_db res"
    and kinds :: "ig_object_type set" and group_type :: "ig_object_type"
    and members :: "ig_body \<Rightarrow> addr list" and owner :: "ig_body \<Rightarrow> ptr"
  assumes other: "group_type \<notin> kinds"
    and add_ok: "db_inv db \<Longrightarrow> type_at db n = Some group_type \<Longrightarrow> type_at db x = Some t \<Longrightarrow> t \<in> kinds \<Longrightarrow>
      holds (add n nm i x db) (joined members owner n x db)"
begin

lemma add_all:
  assumes "db_inv db" "type_at db n = Some group_type" "\<forall>x \<in> set xs. \<exists>t \<in> kinds. type_at db x = Some t"
  shows "holds (res_fold (add n nm i) xs db) (\<lambda>db'.
     db_inv db' \<and> keeps db db' \<and> tables db' = tables db \<and> next_addr db' = next_addr db \<and>
     module_up db' = module_up db \<and>
     map_option members (body_at db' n) = map_option (\<lambda>b. members b @ xs) (body_at db n) \<and>
     (\<forall>x \<in> set xs. map_option owner (body_at db' x) = Some (Some n)) \<and>
     (\<forall>y. y \<noteq> n \<longrightarrow> y \<notin> set xs \<longrightarrow> heap db' y = heap db y) \<and>
     (\<forall>b. set (owned_at db b) \<subseteq> set (owned_at db' b)) \<and> dom (heap db') = dom (heap db) \<and>
     content_at db \<subseteq>\<^sub>m content_at db')"
  using assms
proof (induction xs arbitrary: db)
  case Nil
  then show ?case by (simp add: keeps_refl)
next
  case (Cons x xs)
  obtain t where t: "t \<in> kinds" "type_at db x = Some t" using Cons.prems(3) by auto
  obtain db1 where db1: "add n nm i x db = Inr db1" and j: "joined members owner n x db db1"
    using add_ok [OF Cons.prems(1,2) t(2,1), of nm i] by (auto simp: holds_iff)
  have k1: "keeps db db1" and inv1: "db_inv db1" using j by (simp_all add: joined_def)
  have ty: "type_at db1 y = Some u" if "type_at db y = Some u" for y u
    using keeps_type_at [OF k1] that by (auto simp: map_le_def dom_def)
  have n1: "type_at db1 n = Some group_type" using ty Cons.prems(2) by blast
  have xs1: "\<forall>y \<in> set xs. \<exists>t \<in> kinds. type_at db1 y = Some t" using ty Cons.prems(3) by auto
  show ?case
    unfolding res_fold.simps db1 res_bind.simps
  proof (rule holds_mono [OF Cons.IH [OF inv1 n1 xs1]], elim conjE, intro conjI)
    fix db' :: ig_lib_db
    assume a: "map_option members (body_at db' n) = map_option (\<lambda>b. members b @ xs) (body_at db1 n)"
      and b: "\<forall>x \<in> set xs. map_option owner (body_at db' x) = Some (Some n)"
      and c: "\<forall>y. y \<noteq> n \<longrightarrow> y \<notin> set xs \<longrightarrow> heap db' y = heap db1 y"
      and d: "tables db' = tables db1" "next_addr db' = next_addr db1" "module_up db' = module_up db1"
      and k: "keeps db1 db'" and i: "db_inv db'"
      and o: "\<forall>b. set (owned_at db1 b) \<subseteq> set (owned_at db' b)" "dom (heap db') = dom (heap db1)"
      and v: "content_at db1 \<subseteq>\<^sub>m content_at db'"
    show "keeps db db'" using k1 k by (rule keeps_trans)
    show "tables db' = tables db" "next_addr db' = next_addr db" "module_up db' = module_up db"
      using d j by (simp_all add: joined_def)
    show "map_option members (body_at db' n) = map_option (\<lambda>b. members b @ x # xs) (body_at db n)"
      using a j by (cases "body_at db n"; cases "body_at db1 n") (auto simp: joined_def)
    have xn: "x \<noteq> n" using t Cons.prems(2) other by auto
    show "\<forall>y \<in> set (x # xs). map_option owner (body_at db' y) = Some (Some n)"
    proof
      fix y assume "y \<in> set (x # xs)"
      then consider "y \<in> set xs" | "y = x" "x \<notin> set xs" by auto
      then show "map_option owner (body_at db' y) = Some (Some n)"
      proof cases
        case 2
        then have "heap db' x = heap db1 x" using c xn by simp
        with 2 j show ?thesis by (simp add: joined_def body_at_def)
      qed (use b in blast)
    qed
    show "\<forall>y. y \<noteq> n \<longrightarrow> y \<notin> set (x # xs) \<longrightarrow> heap db' y = heap db y"
      using c j by (auto simp: joined_def)
    show "\<forall>b. set (owned_at db b) \<subseteq> set (owned_at db' b)" "dom (heap db') = dom (heap db)"
      using o j unfolding joined_def by blast+
    show "content_at db \<subseteq>\<^sub>m content_at db'"
      using j v unfolding joined_def by (blast intro: map_le_trans)
  qed assumption
qed

end

section \<open>One member\<close>

text \<open>The three constant attributes a member gets, and the pointer to its group.\<close>

definition member_attrs :: "(string \<times> string) list \<Rightarrow> ig_struct \<Rightarrow> ig_struct" where
  "member_attrs kvs s = foldl (\<lambda>s (k, v). snd (attr_set s k v True)) s kvs"

lemma member_attrs_same [simp]:
  "obj_id (member_attrs kvs s) = obj_id s" "obj_name (member_attrs kvs s) = obj_name s"
  "obj_refcount (member_attrs kvs s) = obj_refcount s" "obj_body (member_attrs kvs s) = obj_body s"
  by (induction kvs arbitrary: s) (auto simp: member_attrs_def attr_set_same attr_set_body split: prod.split)

lemma attr_get_other: "k \<noteq> n \<Longrightarrow> attr_get (snd (attr_set s n v c)) k = attr_get s k"
  by (simp add: attr_set_def attr_get_def Let_def split: option.split)

lemma member_attrs_other: "k \<notin> fst ` set kvs \<Longrightarrow> attr_get (member_attrs kvs s) k = attr_get s k"
  by (induction kvs arbitrary: s) (auto simp: member_attrs_def attr_get_other)

lemma hdr_ok_member_attrs: "hdr_ok t s \<Longrightarrow> hdr_ok t (member_attrs kvs s)"
  by (induction kvs arbitrary: s) (auto simp: member_attrs_def hdr_ok_attr_set split: prod.split)

fun net_of :: "ig_body \<Rightarrow> ptr" where
  "net_of (Port x) = port_net x"
| "net_of (Pin x) = pin_net x"
| "net_of (Decl x) = decl_net x"
| "net_of _ = None"

fun set_net :: "addr \<Rightarrow> ig_body \<Rightarrow> ig_body" where
  "set_net n (Port x) = Port (x\<lparr>port_net := Some n\<rparr>)"
| "set_net n (Pin x) = Pin (x\<lparr>pin_net := Some n\<rparr>)"
| "set_net n (Decl x) = Decl (x\<lparr>decl_net := Some n\<rparr>)"
| "set_net n b = b"

fun generic_of :: "ig_body \<Rightarrow> ptr" where
  "generic_of (Param x) = param_generic x"
| "generic_of (Adjustment x) = adj_generic x"
| "generic_of _ = None"

fun set_generic :: "addr \<Rightarrow> ig_body \<Rightarrow> ig_body" where
  "set_generic n (Param x) = Param (x\<lparr>param_generic := Some n\<rparr>)"
| "set_generic n (Adjustment x) = Adjustment (x\<lparr>adj_generic := Some n\<rparr>)"
| "set_generic n b = b"

fun net_members :: "ig_body \<Rightarrow> addr list" where
  "net_members (Net n) = net_objects n"
| "net_members _ = []"

fun generic_members :: "ig_body \<Rightarrow> addr list" where
  "generic_members (Generic g) = generic_objects g"
| "generic_members _ = []"

definition joined_state :: "addr \<Rightarrow> ig_struct \<Rightarrow> ig_body \<Rightarrow> addr \<Rightarrow> ig_struct \<Rightarrow> ig_body \<Rightarrow> ig_lib_db \<Rightarrow> ig_lib_db" where
  "joined_state n sn nb x sx xb db =
     put n (sn\<lparr>obj_body := nb\<rparr>) (put x (sx\<lparr>obj_body := xb, obj_refcount := obj_refcount sx + 1\<rparr>) db)"

lemma attr_set_step:
  "heap db x = Some s \<Longrightarrow> \<exists>ok. ig_obj_attr_set (Some x) (Some k) (Some v) c db = Inr (ok, put x (snd (attr_set s k v c)) db)"
  by (auto simp: ig_obj_attr_set_def heap_get_def split_beta)

lemma joined_base:
  assumes inv: "base_inv 0 0 db" and x: "heap db x = Some s0" and n: "heap db n = Some sn" and ne: "n \<noteq> x"
    and sx: "obj_id sx = obj_id s0" "obj_name sx = obj_name s0" "obj_refcount sx = obj_refcount s0"
      "obj_body sx = obj_body s0" "header_ok sx"
    and xb: "body_type xb = body_type (obj_body s0)" "owned xb = owned (obj_body s0)" "body_ok (type_at db) xb"
    and nb: "gains x nb (obj_body sn)" "body_ok (type_at db) nb"
  shows "base_inv 0 0 (joined_state n sn nb x sx xb db)"
proof -
  let ?s1 = "sx\<lparr>obj_body := xb\<rparr>" and ?s2 = "sx\<lparr>obj_body := xb, obj_refcount := obj_refcount sx + 1\<rparr>"
  let ?db1 = "put x ?s1 db" let ?db2 = "put x ?s2 ?db1" let ?db3 = "put n (sn\<lparr>obj_body := nb\<rparr>) ?db2"
  have h: "heap_ok db" using inv by (simp add: base_inv_def)
  have hs: "header_ok ?s1" "header_ok ?s2" using sx xb by (simp_all add: header_ok_def obj_type_def)
  have ty1: "type_at ?db1 = type_at db" by (rule type_at_put [OF x]) (simp add: obj_type_def xb)
  have ty2: "type_at ?db2 = type_at db" using ty1 by (subst type_at_put [of _ _ ?s1]) (simp_all add: obj_type_def)
  have 1: "base_inv x 0 ?db1"
    by (rule base_inv_put [OF base_inv_zero [OF inv] x, where k = 0 and d = 0])
       (use sx xb hs in \<open>simp_all add: obj_type_def\<close>)
  have 2: "base_inv x 1 ?db2"
    by (rule base_inv_put [OF 1, where s = ?s1 and k = 0 and d = 1])
       (use hs xb ty1 in \<open>simp_all add: obj_type_def\<close>)
  have 3: "base_inv x 0 ?db3"
    by (rule base_inv_put [OF 2, where s = sn and k = 1 and d = 0])
       (use n ne nb ty2 heap_okD [OF h n] in \<open>simp_all add: gains_def obj_type_def header_ok_def\<close>)
  have "?db3 = joined_state n sn nb x sx xb db" by (simp add: joined_state_def put_def)
  with base_inv_zero [OF 3] show ?thesis by simp
qed

theorem joined_ok:
  assumes inv: "db_inv db" and x: "heap db x = Some s0" and n: "heap db n = Some sn" and ne: "n \<noteq> x"
    and xb: "body_type xb = body_type (obj_body s0)" "owned xb = owned (obj_body s0)" "body_ok (type_at db) xb"
      "same_skel xb (obj_body s0)" "owner xb = Some n" "bare xb = bare (obj_body s0)"
    and nb: "gains x nb (obj_body sn)" "body_ok (type_at db) nb" "same_skel nb (obj_body sn)"
      "members nb = members (obj_body sn) @ [x]" "bare (obj_body sn) = None"
    and kvs: "''invert'' \<notin> fst ` set kvs"
  shows "joined members owner n x db (joined_state n sn nb x (member_attrs kvs s0) xb db)"
proof -
  let ?L = "joined_state n sn nb x (member_attrs kvs s0) xb db"
  note h = db_invD(4) [OF inv]
  have heapL: "heap ?L = (heap db)(x \<mapsto> (member_attrs kvs s0)\<lparr>obj_body := xb, obj_refcount := obj_refcount s0 + 1\<rparr>,
                 n \<mapsto> sn\<lparr>obj_body := nb\<rparr>)"
    by (simp add: joined_state_def)
  have "header_ok s0" using heap_okD [OF h x] by simp
  then have hd: "header_ok (member_attrs kvs s0)"
    using hdr_ok_member_attrs by (simp add: header_ok_hdr obj_type_def)
  have base: "base_inv 0 0 ?L"
    using db_invD(1) [OF inv] x n ne by (rule joined_base) (use hd xb nb in simp_all)
  have sk: "mod_skel ?L = mod_skel db" "inst_skel ?L = inst_skel db"
    using x n ne xb(4) nb(3) by (auto simp: fun_eq_iff mod_skel_def inst_skel_def heapL same_skel_def)
  have k: "keeps db ?L"
    unfolding keeps_def using x n ne xb(1) nb(1) by (auto simp: heapL obj_type_def gains_def)
  have own: "set (owned_at db b) \<subseteq> set (owned_at ?L b)" for b
  proof (cases "b = n")
    case True
    then show ?thesis using n gains_subset [OF nb(1)] by (simp add: owned_at_def heapL)
  next
    case False
    then show ?thesis using x xb(2) by (cases "b = x") (simp_all add: owned_at_def heapL)
  qed
  have "db_inv ?L"
    by (rule db_inv_update [OF inv base _ sk k own]) (use x n in \<open>auto simp: joined_state_def split: if_splits\<close>)
  moreover have "module_up ?L = module_up db" by (simp add: module_up_def sk)
  moreover have "content_at db \<subseteq>\<^sub>m content_at ?L"
  proof (rule content_kept)
    fix y s assume y: "heap db y = Some s" "struct_content s \<noteq> None"
    then have "y \<noteq> n" using n nb(5) by (auto simp: struct_content_def)
    then show "\<exists>s'. heap ?L y = Some s' \<and> struct_content s' = struct_content s"
      using y(1) x xb(6) member_attrs_other [OF kvs, of s0]
      unfolding heapL by (cases "y = x") (simp_all add: struct_content_def attr_get_def)
  qed
  ultimately show ?thesis
    using k x n ne xb nb own
    by (simp add: joined_def body_at_def heapL) (auto simp: joined_state_def)
qed

section \<open>Nets and generics provide the contract\<close>

lemma member_add_steps:
  assumes "heap db x = Some s0"
  shows "\<exists>a b c. ig_obj_attr_set (Some x) (Some k1) (Some v1) True db = Inr (a, put x (member_attrs [(k1, v1)] s0) db) \<and>
     ig_obj_attr_set (Some x) (Some k2) (Some v2) True (put x (member_attrs [(k1, v1)] s0) db) =
       Inr (b, put x (member_attrs [(k1, v1), (k2, v2)] s0) db) \<and>
     ig_obj_attr_set (Some x) (Some k3) (Some v3) True (put x (member_attrs [(k1, v1), (k2, v2)] s0) db) =
       Inr (c, put x (member_attrs [(k1, v1), (k2, v2), (k3, v3)] s0) db)"
proof -
  have p: "put x s (put x s' db) = put x s db" for s s' by (simp add: put_def)
  show ?thesis
    using attr_set_step [OF assms, of k1 v1 True]
      attr_set_step [of "put x (member_attrs [(k1, v1)] s0) db" x "member_attrs [(k1, v1)] s0" k2 v2 True]
      attr_set_step [of "put x (member_attrs [(k1, v1), (k2, v2)] s0) db" x
        "member_attrs [(k1, v1), (k2, v2)] s0" k3 v3 True]
    by (simp add: member_attrs_def p)
qed

definition net_attrs :: "string \<Rightarrow> string \<Rightarrow> (string \<times> string) list" where
  "net_attrs nm i = [(''signal'', nm), (''net'', nm), (''netid'', i)]"

definition generic_attrs :: "string \<Rightarrow> string \<Rightarrow> (string \<times> string) list" where
  "generic_attrs nm i = [(''parameter'', nm), (''generic'', nm), (''genericid'', i)]"

lemma net_member_add_eq:
  assumes x: "heap db x = Some s0" "obj_type s0 \<in> net_types"
    and n: "heap db n = Some sn" "obj_body sn = Net nb"
  shows "net_member_add n nm i x db =
     Inr (joined_state n sn (Net (nb\<lparr>net_objects := net_objects nb @ [x]\<rparr>)) x
            (member_attrs (net_attrs nm i) s0) (set_net n (obj_body s0)) db)"
proof -
  let ?s3 = "member_attrs (net_attrs nm i) s0"
  let ?db3 = "put x ?s3 db"
  let ?s4 = "?s3\<lparr>obj_body := set_net n (obj_body s0)\<rparr>"
  let ?db4 = "put x ?s4 ?db3" let ?db5 = "put x (?s4\<lparr>obj_refcount := obj_refcount ?s4 + 1\<rparr>) ?db4"
  have ne: "n \<noteq> x" using x n by (auto simp: obj_type_def net_types_def)
  obtain a b c where st:
    "ig_obj_attr_set (Some x) (Some ''signal'') (Some nm) True db = Inr (a, put x (member_attrs [(''signal'', nm)] s0) db)"
    "ig_obj_attr_set (Some x) (Some ''net'') (Some nm) True (put x (member_attrs [(''signal'', nm)] s0) db) =
       Inr (b, put x (member_attrs [(''signal'', nm), (''net'', nm)] s0) db)"
    "ig_obj_attr_set (Some x) (Some ''netid'') (Some i) True (put x (member_attrs [(''signal'', nm), (''net'', nm)] s0) db) =
       Inr (c, ?db3)"
    using member_add_steps [OF x(1), of "''signal''" nm "''net''" nm "''netid''" i] unfolding net_attrs_def by blast
  have body: "(case obj_body s0 of
          Port x' \<Rightarrow> Inr (set_body x (Port (x'\<lparr>port_net := Some n\<rparr>)) ?db3)
        | Pin x' \<Rightarrow> Inr (set_body x (Pin (x'\<lparr>pin_net := Some n\<rparr>)) ?db3)
        | Decl x' \<Rightarrow> Inr (set_body x (Decl (x'\<lparr>decl_net := Some n\<rparr>)) ?db3)
        | _ \<Rightarrow> Inl InternalError) = Inr ?db4"
    using x(2) by (cases "obj_body s0") (simp_all add: obj_type_def net_types_def set_body_def put_def)
  have ref: "ig_obj_ref (Some x) ?db4 = Inr ?db5" by (rule ref_Some) simp
  have md: "modify as_net Net (Some n) (\<lambda>n. Inr (n\<lparr>net_objects := push_tail x (net_objects n)\<rparr>)) ?db5 =
              Inr (put n (sn\<lparr>obj_body := Net (nb\<lparr>net_objects := net_objects nb @ [x]\<rparr>)\<rparr>) ?db5)"
    by (rule modify_Some [where x = nb and s = sn]) (use n ne in \<open>simp_all add: push_tail_def\<close>)
  have fin: "put n (sn\<lparr>obj_body := Net (nb\<lparr>net_objects := net_objects nb @ [x]\<rparr>)\<rparr>) ?db5 =
      joined_state n sn (Net (nb\<lparr>net_objects := net_objects nb @ [x]\<rparr>)) x ?s3 (set_net n (obj_body s0)) db"
    by (simp add: joined_state_def put_def)
  have hg: "heap_get ?db3 (Some x) = Inr ?s3" by (simp add: heap_get_def)
  show ?thesis
    unfolding net_member_add_def st hg res_bind.simps split member_attrs_same
    by (simp only: body ref md fin res_bind.simps)
qed

lemma set_net_ok:
  assumes "body_type b \<in> net_types" and "T n = Some IG_OBJ_NET" and "body_ok T b"
  shows "body_type (set_net n b) = body_type b" "owned (set_net n b) = owned b" "body_ok T (set_net n b)"
    "same_skel (set_net n b) b" "net_of (set_net n b) = Some n" "bare (set_net n b) = bare b"
  using assms by (cases b; simp add: net_types_def same_skel_def)+

interpretation nets: member_group net_member_add net_types IG_OBJ_NET net_members net_of
proof
  show "IG_OBJ_NET \<notin> net_types" by (simp add: net_types_def)
next
  fix db n x t nm i
  assume inv: "db_inv db" and n: "type_at db n = Some IG_OBJ_NET" and x: "type_at db x = Some t" "t \<in> net_types"
  obtain sn nb where sn: "heap db n = Some sn" "obj_body sn = Net nb"
    using n by (auto simp: type_at_Some obj_type_def elim: body_type.elims)
  obtain s0 where s0: "heap db x = Some s0" "obj_type s0 \<in> net_types"
    using x by (auto simp: type_at_Some)
  have ne: "n \<noteq> x" using s0 sn by (auto simp: obj_type_def net_types_def)
  note h = db_invD(4) [OF inv]
  have ok0: "body_ok (type_at db) (obj_body s0)" and okn: "body_ok (type_at db) (Net nb)"
    using heap_okD [OF h s0(1)] heap_okD [OF h sn(1)] sn(2) by simp_all
  have bt: "body_type (obj_body s0) \<in> net_types" using s0(2) by (simp add: obj_type_def)
  note xb = set_net_ok [OF bt n ok0]
  have "joined net_members net_of n x db (joined_state n sn (Net (nb\<lparr>net_objects := net_objects nb @ [x]\<rparr>)) x
            (member_attrs (net_attrs nm i) s0) (set_net n (obj_body s0)) db)"
  proof (rule joined_ok [where members = net_members and owner = net_of, OF inv s0(1) sn(1) ne xb])
    show "gains x (Net (nb\<lparr>net_objects := net_objects nb @ [x]\<rparr>)) (obj_body sn)"
      using sn by (intro gainsI) simp_all
    show "body_ok (type_at db) (Net (nb\<lparr>net_objects := net_objects nb @ [x]\<rparr>))"
      using okn x by auto
  qed (use sn in \<open>simp_all add: same_skel_def net_attrs_def\<close>)
  then show "holds (net_member_add n nm i x db) (joined net_members net_of n x db)"
    by (simp add: net_member_add_eq [OF s0 sn])
qed

lemma generic_member_add_eq:
  assumes x: "heap db x = Some s0" "obj_type s0 \<in> generic_types"
    and n: "heap db n = Some sn" "obj_body sn = Generic nb"
  shows "generic_member_add n nm i x db =
     Inr (joined_state n sn (Generic (nb\<lparr>generic_objects := generic_objects nb @ [x]\<rparr>)) x
            (member_attrs (generic_attrs nm i) s0) (set_generic n (obj_body s0)) db)"
proof -
  let ?s3 = "member_attrs (generic_attrs nm i) s0"
  let ?db3 = "put x ?s3 db"
  let ?s4 = "?s3\<lparr>obj_body := set_generic n (obj_body s0)\<rparr>"
  let ?db4 = "put x ?s4 ?db3" let ?db5 = "put x (?s4\<lparr>obj_refcount := obj_refcount ?s4 + 1\<rparr>) ?db4"
  have ne: "n \<noteq> x" using x n by (auto simp: obj_type_def generic_types_def)
  obtain a b c where st:
    "ig_obj_attr_set (Some x) (Some ''parameter'') (Some nm) True db = Inr (a, put x (member_attrs [(''parameter'', nm)] s0) db)"
    "ig_obj_attr_set (Some x) (Some ''generic'') (Some nm) True (put x (member_attrs [(''parameter'', nm)] s0) db) =
       Inr (b, put x (member_attrs [(''parameter'', nm), (''generic'', nm)] s0) db)"
    "ig_obj_attr_set (Some x) (Some ''genericid'') (Some i) True (put x (member_attrs [(''parameter'', nm), (''generic'', nm)] s0) db) =
       Inr (c, ?db3)"
    using member_add_steps [OF x(1), of "''parameter''" nm "''generic''" nm "''genericid''" i] unfolding generic_attrs_def by blast
  have body: "(case obj_body s0 of
          Param x' \<Rightarrow> Inr (set_body x (Param (x'\<lparr>param_generic := Some n\<rparr>)) ?db3)
        | Adjustment x' \<Rightarrow> Inr (set_body x (Adjustment (x'\<lparr>adj_generic := Some n\<rparr>)) ?db3)
        | _ \<Rightarrow> Inl InternalError) = Inr ?db4"
    using x(2) by (cases "obj_body s0") (simp_all add: obj_type_def generic_types_def set_body_def put_def)
  have ref: "ig_obj_ref (Some x) ?db4 = Inr ?db5" by (rule ref_Some) simp
  have md: "modify as_generic Generic (Some n) (\<lambda>n. Inr (n\<lparr>generic_objects := push_tail x (generic_objects n)\<rparr>)) ?db5 =
              Inr (put n (sn\<lparr>obj_body := Generic (nb\<lparr>generic_objects := generic_objects nb @ [x]\<rparr>)\<rparr>) ?db5)"
    by (rule modify_Some [where x = nb and s = sn]) (use n ne in \<open>simp_all add: push_tail_def\<close>)
  have fin: "put n (sn\<lparr>obj_body := Generic (nb\<lparr>generic_objects := generic_objects nb @ [x]\<rparr>)\<rparr>) ?db5 =
      joined_state n sn (Generic (nb\<lparr>generic_objects := generic_objects nb @ [x]\<rparr>)) x ?s3 (set_generic n (obj_body s0)) db"
    by (simp add: joined_state_def put_def)
  have hg: "heap_get ?db3 (Some x) = Inr ?s3" by (simp add: heap_get_def)
  show ?thesis
    unfolding generic_member_add_def st hg res_bind.simps split member_attrs_same
    by (simp only: body ref md fin res_bind.simps)
qed

lemma set_generic_ok:
  assumes "body_type b \<in> generic_types" and "T n = Some IG_OBJ_GENERIC" and "body_ok T b"
  shows "body_type (set_generic n b) = body_type b" "owned (set_generic n b) = owned b" "body_ok T (set_generic n b)"
    "same_skel (set_generic n b) b" "generic_of (set_generic n b) = Some n" "bare (set_generic n b) = bare b"
  using assms by (cases b; simp add: generic_types_def same_skel_def)+

interpretation generics: member_group generic_member_add generic_types IG_OBJ_GENERIC generic_members generic_of
proof
  show "IG_OBJ_GENERIC \<notin> generic_types" by (simp add: generic_types_def)
next
  fix db n x t nm i
  assume inv: "db_inv db" and n: "type_at db n = Some IG_OBJ_GENERIC" and x: "type_at db x = Some t" "t \<in> generic_types"
  obtain sn nb where sn: "heap db n = Some sn" "obj_body sn = Generic nb"
    using n by (auto simp: type_at_Some obj_type_def elim: body_type.elims)
  obtain s0 where s0: "heap db x = Some s0" "obj_type s0 \<in> generic_types"
    using x by (auto simp: type_at_Some)
  have ne: "n \<noteq> x" using s0 sn by (auto simp: obj_type_def generic_types_def)
  note h = db_invD(4) [OF inv]
  have ok0: "body_ok (type_at db) (obj_body s0)" and okn: "body_ok (type_at db) (Generic nb)"
    using heap_okD [OF h s0(1)] heap_okD [OF h sn(1)] sn(2) by simp_all
  have bt: "body_type (obj_body s0) \<in> generic_types" using s0(2) by (simp add: obj_type_def)
  note xb = set_generic_ok [OF bt n ok0]
  have "joined generic_members generic_of n x db (joined_state n sn (Generic (nb\<lparr>generic_objects := generic_objects nb @ [x]\<rparr>)) x
            (member_attrs (generic_attrs nm i) s0) (set_generic n (obj_body s0)) db)"
  proof (rule joined_ok [where members = generic_members and owner = generic_of, OF inv s0(1) sn(1) ne xb])
    show "gains x (Generic (nb\<lparr>generic_objects := generic_objects nb @ [x]\<rparr>)) (obj_body sn)"
      using sn by (intro gainsI) simp_all
    show "body_ok (type_at db) (Generic (nb\<lparr>generic_objects := generic_objects nb @ [x]\<rparr>))"
      using okn x by auto
  qed (use sn in \<open>simp_all add: same_skel_def generic_attrs_def\<close>)
  then show "holds (generic_member_add n nm i x db) (joined generic_members generic_of n x db)"
    by (simp add: generic_member_add_eq [OF s0 sn])
qed

section \<open>Adding a net or a generic\<close>

lemma new_group_leaf:
  "new_leaf (struct_of (ig_obj_init IG_OBJ_NET nm ([] :: ig_object list)) (Net \<lparr>net_objects = []\<rparr>))"
  "new_leaf (struct_of (ig_obj_init IG_OBJ_GENERIC nm ([] :: ig_object list)) (Generic \<lparr>generic_objects = []\<rparr>))"
  by (simp_all add: new_leaf_struct hdr_ok_init)

lemma register_group:
  assumes inv: "db_inv db" and a: "heap db a = Some s"
    and nt: "table_is_name nt" "table_type nt = Some (obj_type s)" "tables db nt (obj_name s) = None"
    and it: "\<not> table_is_name it" "table_type it = Some (obj_type s)"
    and new: "\<And>t k. tables db t k \<noteq> Some a" and ty: "obj_type s \<noteq> IG_OBJ_INSTANCE"
  shows "\<exists>db'. register3 nt it a (obj_name s) (obj_id s) db = Inr db' \<and> db_inv db' \<and> rc_eq db db' \<and>
           tables db' = registered nt it a (obj_name s) (obj_id s) db"
proof -
  have "\<forall>mo. inst_skel db a \<noteq> Some (mo, None)"
    using a ty by (auto simp: inst_skel_Some obj_type_def)
  moreover have "others_ok a db" using db_invD(3) [OF inv] by (auto simp: anch_inv_def others_ok_def)
  moreover have "base_inv a 0 db" using db_invD(1) [OF inv] by (rule base_inv_zero)
  moreover have "listed x s' db" if "heap db x = Some s'" for x s'
    using db_invD(6) [OF inv] that by (simp add: mods_inv_def)
  ultimately show ?thesis
    using register3_ok [of a db s "obj_name s" "obj_id s" nt it] db_invD(2,7) [OF inv] a nt it new
    by (auto simp: holds_iff)
qed

lemma waste_group:
  assumes own: "\<forall>b. set (owned_at (allocd s db) b) \<subseteq> set (owned_at db1 b)" and d: "dom (heap db1) = dom (heap (allocd s db))"
    and fresh: "heap db (next_addr db) = None" and tb: "tables db1 = tables (allocd s db)"
    and reg: "rc_eq db1 db2" "tables db2 = registered nt it (next_addr db) l_name l_id db1"
    and nt: "table_is_name nt" "tables db1 nt l_name = None" and it: "\<not> table_is_name it"
  shows "waste db2 \<subseteq> waste db"
proof (rule waste_registered [OF reg nt it])
  show "set (owned_at db b) \<subseteq> set (owned_at db1 b)" for b
  proof -
    have "set (owned_at db b) \<subseteq> set (owned_at (allocd s db) b)" using fresh by (auto simp: owned_at_def)
    then show ?thesis using own by blast
  qed
  show "x = next_addr db \<or> (\<exists>b. x \<in> set (owned_at db1 b))" if "heap db1 x \<noteq> None" "heap db x = None" for x
  proof -
    have "x \<in> dom (heap (allocd s db))" using that(1) d by blast
    then show ?thesis using that(2) by auto
  qed
qed (use tb in simp)

lemma content_rc_eq:
  assumes "rc_eq h h'"
  shows "content_at h \<subseteq>\<^sub>m content_at h'"
proof (rule content_kept)
  fix x s assume "heap h x = Some s"
  moreover obtain f where "heap h' x = map_option (\<lambda>s. s\<lparr>obj_refcount := f s\<rparr>) (heap h x)"
    using rc_eqD [OF assms] by blast
  ultimately show "\<exists>s'. heap h' x = Some s' \<and> struct_content s' = struct_content s"
    by (simp add: struct_content_def attr_get_def)
qed

lemma content_alloc: "heap h (next_addr h) = None \<Longrightarrow> content_at h \<subseteq>\<^sub>m content_at (allocd s h)"
  by (rule content_kept) auto

lemma body_at_rc_eq: "rc_eq h h' \<Longrightarrow> body_at h' x = body_at h x"
  using rc_eqD [of h h' x] by (cases "heap h x") (auto simp: body_at_def)

text \<open>
  A net holds exactly the given objects, in their order, and each of them points back to it. The
  empty list gives an empty net.
\<close>

theorem add_net_result:
  assumes inv: "db_inv db" and free: "tables db Nets_by_name nm = None"
    and objs: "\<forall>x \<in> set objs. \<exists>t \<in> net_types. type_at db x = Some t"
  shows "holds (ig_lib_add_net (Some nm) objs db) (\<lambda>(p, db').
     p = Some (next_addr db) \<and> grows db db' \<and> module_up db' = module_up db \<and>
     body_at db' (next_addr db) = Some (Net \<lparr>net_objects = objs\<rparr>) \<and>
     (\<forall>x \<in> set objs. map_option net_of (body_at db' x) = Some (Some (next_addr db))) \<and>
     tables db' = registered Nets_by_name Nets_by_id (next_addr db) nm (''net##'' @ nm) db \<and>
     (\<forall>y. y \<noteq> next_addr db \<longrightarrow> y \<notin> set objs \<longrightarrow> body_at db' y = body_at db y) \<and>
     content_at db \<subseteq>\<^sub>m content_at db')"
proof -
  let ?a = "next_addr db"
  let ?s = "struct_of (ig_obj_init IG_OBJ_NET nm ([] :: ig_object list)) (Net \<lparr>net_objects = []\<rparr>)"
  let ?db0 = "allocd ?s db"
  note h = db_invD(4) [OF inv]
  have fresh: "heap db ?a = None" using h by (rule heap_ok_fresh)
  have id: "obj_id ?s = ''net##'' @ nm" by (simp add: make_id_def plist_id_def)
  note al = db_inv_alloc [OF inv new_group_leaf(1) [of nm]]
  have al1: "db_inv ?db0" and al2: "keeps db ?db0" by (rule al; simp)+
  have n: "type_at ?db0 ?a = Some IG_OBJ_NET" by simp
  have xs: "\<forall>x \<in> set objs. \<exists>t \<in> net_types. type_at ?db0 x = Some t"
    using objs keeps_type_at [OF al2] by (fastforce simp: map_le_def dom_def)
  obtain db1 where db1: "res_fold (net_member_add ?a nm (obj_id ?s)) objs ?db0 = Inr db1" "db_inv db1" "keeps ?db0 db1"
      "tables db1 = tables ?db0" "next_addr db1 = next_addr ?db0" "module_up db1 = module_up ?db0"
      "map_option net_members (body_at db1 ?a) = map_option (\<lambda>b. net_members b @ objs) (body_at ?db0 ?a)"
      "\<forall>x \<in> set objs. map_option net_of (body_at db1 x) = Some (Some ?a)"
      "\<forall>y. y \<noteq> ?a \<longrightarrow> y \<notin> set objs \<longrightarrow> heap db1 y = heap ?db0 y"
      "\<forall>b. set (owned_at ?db0 b) \<subseteq> set (owned_at db1 b)" "dom (heap db1) = dom (heap ?db0)"
      "content_at ?db0 \<subseteq>\<^sub>m content_at db1"
    using nets.add_all [OF al1 n xs, of nm "obj_id ?s"] by (auto simp: holds_iff)
  obtain s1 where s1: "heap db1 ?a = Some s1" "obj_id s1 = obj_id ?s" "obj_name s1 = nm" "obj_type s1 = IG_OBJ_NET"
    using keepsD [OF db1(3), of ?a ?s] by auto
  have "net_members (obj_body s1) = objs" using db1(7) s1(1) by (simp add: body_at_def)
  then have b1: "obj_body s1 = Net \<lparr>net_objects = objs\<rparr>"
    using s1(4) by (cases "obj_body s1") (auto simp: obj_type_def)
  have notin: "tables db1 t k \<noteq> Some ?a" for t k
    using tables_okD [OF db_invD(5) [OF inv], of t k ?a] fresh db1(4) by auto
  obtain db2 where db2: "register3 Nets_by_name Nets_by_id ?a (obj_name s1) (obj_id s1) db1 = Inr db2" "db_inv db2"
      "rc_eq db1 db2" "tables db2 = registered Nets_by_name Nets_by_id ?a (obj_name s1) (obj_id s1) db1"
    using register_group [OF db1(2) s1(1), of Nets_by_name Nets_by_id] s1 free notin db1(4) by auto
  have new: "ig_net_new (Some nm) db = Inr (Some ?a, ?db0)" by (simp add: ig_net_new_def new_struct_eq)
  have "ig_lib_add_net (Some nm) objs db = Inr (Some ?a, db2)"
    using db1(1) db2(1) s1 id
    by (simp only: ig_lib_add_net_def option.case new res_bind.simps split heap_get_def)
       (simp add: struct_of_def)
  moreover have "keeps db db2" using al2 db1(3) rc_eq_keeps [OF db2(3)] by (blast intro: keeps_trans)
  moreover have "module_up db2 = module_up db"
  proof -
    have "mod_skel ?db0 = mod_skel db" "inst_skel ?db0 = inst_skel db"
      using fresh by (auto simp: mod_skel_def inst_skel_def fun_eq_iff)
    then show ?thesis using db1(6) by (simp add: module_up_def rc_eq_same [OF db2(3)])
  qed
  moreover have "tables db2 = registered Nets_by_name Nets_by_id ?a nm (''net##'' @ nm) db"
    using db2(4) db1(4) s1 id by (simp add: registered_def)
  moreover have "waste db2 \<subseteq> waste db"
    by (rule waste_group [OF db1(10,11) fresh db1(4) db2(3,4)]) (use free db1(4) s1(3) in simp_all)
  moreover have "content_at db \<subseteq>\<^sub>m content_at db2"
    using content_alloc [where s = ?s, OF fresh] db1(12) content_rc_eq [OF db2(3)] by (blast intro: map_le_trans)
  ultimately show ?thesis
    using db2(2) b1 s1(1) db1(8,9) by (simp add: grows_def body_at_rc_eq [OF db2(3)]) (simp add: body_at_def)
qed

theorem add_generic_result:
  assumes inv: "db_inv db" and free: "tables db Generics_by_name nm = None"
    and objs: "\<forall>x \<in> set objs. \<exists>t \<in> generic_types. type_at db x = Some t"
  shows "holds (ig_lib_add_generic (Some nm) objs db) (\<lambda>(p, db').
     p = Some (next_addr db) \<and> grows db db' \<and> module_up db' = module_up db \<and>
     body_at db' (next_addr db) = Some (Generic \<lparr>generic_objects = objs\<rparr>) \<and>
     (\<forall>x \<in> set objs. map_option generic_of (body_at db' x) = Some (Some (next_addr db))) \<and>
     tables db' = registered Generics_by_name Generics_by_id (next_addr db) nm (''generic##'' @ nm) db \<and>
     content_at db \<subseteq>\<^sub>m content_at db')"
proof -
  let ?a = "next_addr db"
  let ?s = "struct_of (ig_obj_init IG_OBJ_GENERIC nm ([] :: ig_object list)) (Generic \<lparr>generic_objects = []\<rparr>)"
  let ?db0 = "allocd ?s db"
  note h = db_invD(4) [OF inv]
  have fresh: "heap db ?a = None" using h by (rule heap_ok_fresh)
  have id: "obj_id ?s = ''generic##'' @ nm" by (simp add: make_id_def plist_id_def)
  note al = db_inv_alloc [OF inv new_group_leaf(2) [of nm]]
  have al1: "db_inv ?db0" and al2: "keeps db ?db0" by (rule al; simp)+
  have n: "type_at ?db0 ?a = Some IG_OBJ_GENERIC" by simp
  have xs: "\<forall>x \<in> set objs. \<exists>t \<in> generic_types. type_at ?db0 x = Some t"
    using objs keeps_type_at [OF al2] by (fastforce simp: map_le_def dom_def)
  obtain db1 where db1: "res_fold (generic_member_add ?a nm (obj_id ?s)) objs ?db0 = Inr db1" "db_inv db1" "keeps ?db0 db1"
      "tables db1 = tables ?db0" "next_addr db1 = next_addr ?db0" "module_up db1 = module_up ?db0"
      "map_option generic_members (body_at db1 ?a) = map_option (\<lambda>b. generic_members b @ objs) (body_at ?db0 ?a)"
      "\<forall>x \<in> set objs. map_option generic_of (body_at db1 x) = Some (Some ?a)"
      "\<forall>b. set (owned_at ?db0 b) \<subseteq> set (owned_at db1 b)" "dom (heap db1) = dom (heap ?db0)"
      "content_at ?db0 \<subseteq>\<^sub>m content_at db1"
    using generics.add_all [OF al1 n xs, of nm "obj_id ?s"] by (auto simp: holds_iff)
  obtain s1 where s1: "heap db1 ?a = Some s1" "obj_id s1 = obj_id ?s" "obj_name s1 = nm" "obj_type s1 = IG_OBJ_GENERIC"
    using keepsD [OF db1(3), of ?a ?s] by auto
  have "generic_members (obj_body s1) = objs" using db1(7) s1(1) by (simp add: body_at_def)
  then have b1: "obj_body s1 = Generic \<lparr>generic_objects = objs\<rparr>"
    using s1(4) by (cases "obj_body s1") (auto simp: obj_type_def)
  have notin: "tables db1 t k \<noteq> Some ?a" for t k
    using tables_okD [OF db_invD(5) [OF inv], of t k ?a] fresh db1(4) by auto
  obtain db2 where db2: "register3 Generics_by_name Generics_by_id ?a (obj_name s1) (obj_id s1) db1 = Inr db2" "db_inv db2"
      "rc_eq db1 db2" "tables db2 = registered Generics_by_name Generics_by_id ?a (obj_name s1) (obj_id s1) db1"
    using register_group [OF db1(2) s1(1), of Generics_by_name Generics_by_id] s1 free notin db1(4) by auto
  have new: "ig_generic_new (Some nm) db = Inr (Some ?a, ?db0)" by (simp add: ig_generic_new_def new_struct_eq)
  have "ig_lib_add_generic (Some nm) objs db = Inr (Some ?a, db2)"
    using db1(1) db2(1) s1 id
    by (simp only: ig_lib_add_generic_def option.case new res_bind.simps split heap_get_def)
       (simp add: struct_of_def)
  moreover have "keeps db db2" using al2 db1(3) rc_eq_keeps [OF db2(3)] by (blast intro: keeps_trans)
  moreover have "module_up db2 = module_up db"
  proof -
    have "mod_skel ?db0 = mod_skel db" "inst_skel ?db0 = inst_skel db"
      using fresh by (auto simp: mod_skel_def inst_skel_def fun_eq_iff)
    then show ?thesis using db1(6) by (simp add: module_up_def rc_eq_same [OF db2(3)])
  qed
  moreover have "tables db2 = registered Generics_by_name Generics_by_id ?a nm (''generic##'' @ nm) db"
    using db2(4) db1(4) s1 id by (simp add: registered_def)
  moreover have "waste db2 \<subseteq> waste db"
    by (rule waste_group [OF db1(9,10) fresh db1(4) db2(3,4)]) (use free db1(4) s1(3) in simp_all)
  moreover have "content_at db \<subseteq>\<^sub>m content_at db2"
    using content_alloc [where s = ?s, OF fresh] db1(11) content_rc_eq [OF db2(3)] by (blast intro: map_le_trans)
  ultimately show ?thesis
    using db2(2) b1 s1(1) db1(8) by (simp add: grows_def body_at_rc_eq [OF db2(3)]) (simp add: body_at_def)
qed

end
