(* ===== verification/Ig_Visit.thy ===== *)
theory Ig_Visit
  imports Ig_Members
begin

text \<open>
  The walk over a hierarchy tree: which objects may stand in it, what one visit of
  \<open>ig_lib_htree_process_signal\<close> or \<open>ig_lib_htree_process_parameter\<close> creates, and what a whole walk
  creates. The locale \<open>tree_visitor\<close> is the contract of one visit.
\<close>

section \<open>Leaf operations keep the hierarchy\<close>

definition extends :: "ig_lib_db \<Rightarrow> ig_lib_db \<Rightarrow> bool" where
  "extends db db' \<longleftrightarrow>
     grows db db' \<and> mod_skel db' = mod_skel db \<and> inst_skel db' = inst_skel db \<and>
     (\<forall>t. t \<noteq> Objects_by_id \<longrightarrow> tables db' t = tables db t)"

lemma extends_refl: "db_inv db \<Longrightarrow> extends db db"
  by (simp add: extends_def grows_refl)

lemma extends_trans: "extends db db' \<Longrightarrow> extends db' db'' \<Longrightarrow> extends db db''"
  by (auto simp: extends_def intro: grows_trans)

lemma extendsD: "extends db db' \<Longrightarrow> db_inv db'" "extends db db' \<Longrightarrow> grows db db'"
  by (auto simp: extends_def grows_def)

lemma extends_hang:
  assumes inv: "db_inv db" and s: "new_leaf s" and b: "heap db b = Some sp"
    and h: "hangs (next_addr db) (obj_type s) (obj_body sp) bp"
    and ok: "body_ok (type_at (allocd s db)) (obj_body s)"
    and skel: "as_module (obj_body s) = None" "as_instance (obj_body s) = None"
  shows "extends db (snd (attach_result b bp s db))"
  using grows_hang [OF assms] skel_attached [OF db_invD(4) [OF inv] b _ skel] h
  by (simp add: extends_def attach_result_def hangs_def attached_tables)

lemma attach_result_type:
  assumes "heap_ok db" "heap db b = Some sp" "fst (attach_result b bp s db) = Some x"
  shows "type_at (snd (attach_result b bp s db)) x = Some (obj_type s)"
  using assms not_next_addr [OF assms(1,2)]
  by (auto simp: attach_result_def type_at_def attached_heap obj_type_def split: if_splits)

section \<open>Nodes\<close>

definition nonres :: "'a ig_heap_scheme \<Rightarrow> addr \<Rightarrow> bool" where
  "nonres h m \<longleftrightarrow> (\<exists>d q. mod_skel h m = Some (False, d, q))"

definition node_ok :: "'a ig_heap_scheme \<Rightarrow> addr \<Rightarrow> bool" where
  "node_ok h x \<longleftrightarrow> inst_skel h x \<noteq> None \<or> nonres h x"

definition endpoint_ok :: "'a ig_heap_scheme \<Rightarrow> addr \<Rightarrow> bool" where
  "endpoint_ok h x \<longleftrightarrow> inst_skel h x \<noteq> None \<or> mod_skel h x \<noteq> None"

lemma node_ok_extends: "extends db db' \<Longrightarrow> node_ok db' x = node_ok db x"
  by (simp add: node_ok_def nonres_def extends_def)

lemma nonres_module:
  assumes "nonres h m"
  shows "\<exists>s mb. heap h m = Some s \<and> obj_body s = Module mb \<and> \<not> mod_resource mb"
  using assms by (auto simp: nonres_def mod_skel_Some)

lemma inst_skel_instance:
  assumes "inst_skel h x \<noteq> None"
  shows "\<exists>s ib. heap h x = Some s \<and> obj_body s = Instance ib"
  using assms by (auto simp: inst_skel_Some)

section \<open>One visit\<close>

definition visit_ok :: "ig_lib_db \<Rightarrow> ig_object_type set \<Rightarrow> process_data \<Rightarrow> bool" where
  "visit_ok db0 kinds pd \<longleftrightarrow>
     extends db0 (pd_db pd) \<and> (\<forall>x \<in> set (pd_gen_objs pd). \<exists>t \<in> kinds. type_at (pd_db pd) x = Some t)"

text \<open>
  What the created object looks like. A pin is connected to the name its parent node has, a port
  takes this name over; declarations stand at the root only. Adjustments and parameters are alike.
\<close>

definition signal_wire :: "bool \<Rightarrow> ig_lib_connection_info \<Rightarrow> content \<Rightarrow> bool" where
  "signal_wire is_root c v \<longleftrightarrow> (case v of (name, invert, b) \<Rightarrow>
     (case b of
        Pin p \<Rightarrow> pin_parent p = Some (ci_obj c) \<and> name = pin_name_of c (the (ci_local_name c)) \<and>
                 pin_connection p = or_empty (ci_parent_name c) \<and>
                 invert = Some (if ci_invert c then ''true'' else ''false'')
      | Port p \<Rightarrow> \<not> is_root \<and> port_parent p = Some (ci_obj c) \<and> ci_parent_name c = Some name \<and>
                  port_dir p = port_dir_of (ci_dir c)
      | Decl d \<Rightarrow> is_root \<and> decl_parent d = Some (ci_obj c) \<and>
                  name = signal_name_of c (the (ci_local_name c))
      | _ \<Rightarrow> False))"

definition parameter_wire :: "string \<Rightarrow> bool \<Rightarrow> ig_lib_connection_info \<Rightarrow> content \<Rightarrow> bool" where
  "parameter_wire defvalue is_root c v \<longleftrightarrow> (case v of (name, _, b) \<Rightarrow>
     (case b of
        Adjustment a \<Rightarrow> adj_parent a = Some (ci_obj c) \<and> name = the (ci_local_name c) \<and>
                        adj_value a = or_empty (ci_parent_name c)
      | Param p \<Rightarrow> param_parent p = Some (ci_obj c) \<and> param_value p = defvalue \<and> \<not> param_local p \<and>
                   name = (if is_root then the (ci_local_name c) else or_empty (ci_parent_name c))
      | _ \<Rightarrow> False))"

text \<open>Type and name of the object a node needs, and the id that follows from them.\<close>

definition signal_item :: "'a ig_heap_scheme \<Rightarrow> bool \<Rightarrow> ig_lib_connection_info \<Rightarrow> ig_object_type \<times> string" where
  "signal_item h is_root c =
     (if type_at h (ci_obj c) = Some IG_OBJ_INSTANCE then (IG_OBJ_PIN, pin_name_of c (the (ci_local_name c)))
      else if is_root then (IG_OBJ_DECLARATION, signal_name_of c (the (ci_local_name c)))
      else (IG_OBJ_PORT, or_empty (ci_parent_name c)))"

definition parameter_item :: "'a ig_heap_scheme \<Rightarrow> bool \<Rightarrow> ig_lib_connection_info \<Rightarrow> ig_object_type \<times> string" where
  "parameter_item h is_root c =
     (if type_at h (ci_obj c) = Some IG_OBJ_INSTANCE then (IG_OBJ_ADJUSTMENT, the (ci_local_name c))
      else (IG_OBJ_PARAMETER, if is_root then the (ci_local_name c) else or_empty (ci_parent_name c)))"

definition item_id :: "'a ig_heap_scheme \<Rightarrow> addr \<Rightarrow> ig_object_type \<times> string \<Rightarrow> string" where
  "item_id h x it = ig_obj_type_name (fst it) @ ''##'' @ obj_name (the (heap h x)) @ ''#'' @ snd it"

text \<open>Objects with these ids are created; an id that is taken already is an error.\<close>

definition claimed :: "string list \<Rightarrow> process_data \<Rightarrow> process_data \<Rightarrow> bool" where
  "claimed ids pd pd' \<longleftrightarrow>
     (pd_error pd' \<longleftrightarrow> pd_error pd \<or> \<not> distinct ids \<or> set ids \<inter> dom (tables (pd_db pd) Objects_by_id) \<noteq> {}) \<and>
     dom (tables (pd_db pd') Objects_by_id) = set ids \<union> dom (tables (pd_db pd) Objects_by_id)"

lemma claimed_Nil: "claimed [] pd pd"
  by (simp add: claimed_def)

lemma claimed_append: "claimed xs pd pd1 \<Longrightarrow> claimed ys pd1 pd2 \<Longrightarrow> claimed (xs @ ys) pd pd2"
  unfolding claimed_def by auto

text \<open>A visit that succeeds records one new object, whose content satisfies \<open>P\<close>; errors stay.\<close>

definition visited :: "(content \<Rightarrow> bool) \<Rightarrow> process_data \<Rightarrow> process_data \<Rightarrow> bool" where
  "visited P pd pd' \<longleftrightarrow> content_at (pd_db pd) \<subseteq>\<^sub>m content_at (pd_db pd') \<and> (pd_error pd \<longrightarrow> pd_error pd') \<and>
     (\<not> pd_error pd' \<longrightarrow> (\<exists>x v. pd_gen_objs pd' = x # pd_gen_objs pd \<and> content_at (pd_db pd) x = None \<and>
        content_at (pd_db pd') x = Some v \<and> P v))"

lemma content_attach:
  assumes h: "heap_ok db" and b: "heap db b = Some sp" "bare (obj_body sp) = None"
  shows "content_at db \<subseteq>\<^sub>m content_at (snd (attach_result b bp s db))"
    and "fst (attach_result b bp s db) = Some x \<Longrightarrow>
           content_at db x = None \<and> content_at (snd (attach_result b bp s db)) x = struct_content s"
proof -
  have ne: "b \<noteq> next_addr db" and fresh: "heap db (next_addr db) = None"
    using not_next_addr [OF h b(1)] heap_ok_fresh [OF h] by auto
  show "content_at db \<subseteq>\<^sub>m content_at (snd (attach_result b bp s db))"
  proof (rule content_kept)
    fix y s' assume y: "heap db y = Some s'" "struct_content s' \<noteq> None"
    then have "y \<noteq> b" "y \<noteq> next_addr db" using b fresh by (auto simp: struct_content_def)
    then show "\<exists>s''. heap (snd (attach_result b bp s db)) y = Some s'' \<and> struct_content s'' = struct_content s'"
      using y(1) by (simp add: attach_result_def attached_heap)
  qed
  show "content_at db x = None \<and> content_at (snd (attach_result b bp s db)) x = struct_content s"
    if "fst (attach_result b bp s db) = Some x"
    using that ne fresh
    by (auto simp: attach_result_def attached_heap content_at_def struct_content_def attr_get_def split: if_splits)
qed

definition creates ::
    "ig_lib_db \<Rightarrow> ig_object_type set \<Rightarrow> (content \<Rightarrow> bool) \<Rightarrow> string \<Rightarrow> process_data \<Rightarrow> process_data \<Rightarrow> bool" where
  "creates db0 kinds P i pd pd' \<longleftrightarrow> visit_ok db0 kinds pd' \<and> visited P pd pd' \<and> claimed [i] pd pd'"

lemma record_attach:
  assumes v: "visit_ok db0 kinds pd" and db: "pd_db pd = db" and b: "heap db b = Some sp" "bare (obj_body sp) = None"
    and e: "extends db (snd (attach_result b bp s db))" and k: "obj_type s \<in> kinds"
    and w: "struct_content s = Some v" "P v"
  shows "creates db0 kinds P (obj_id s) pd
           (record_obj (fst (attach_result b bp s db)) (snd (attach_result b bp s db)) pd)"
  unfolding creates_def
proof (intro conjI)
  let ?r = "attach_result b bp s db"
  have h: "heap_ok db" using v db by (auto simp: visit_ok_def extends_def grows_def dest: db_invD)
  have "extends db0 (snd ?r)" using v db e extends_trans by (auto simp: visit_ok_def)
  moreover have "\<exists>t \<in> kinds. type_at (snd ?r) x = Some t" if "x \<in> set (pd_gen_objs pd)" for x
    using v db that grows_type_at [OF extendsD(2) [OF e]] by (fastforce simp: visit_ok_def)
  moreover have "type_at (snd ?r) x = Some (obj_type s)" if "fst ?r = Some x" for x
    using h b(1) that by (rule attach_result_type)
  ultimately show "visit_ok db0 kinds (record_obj (fst ?r) (snd ?r) pd)"
    using k by (auto simp: visit_ok_def record_obj_def split: option.split)
  show "visited P pd (record_obj (fst ?r) (snd ?r) pd)"
    using content_attach [OF h b, of bp s] w db
    by (cases v) (auto simp: visited_def record_obj_def split: option.split)
  show "claimed [obj_id s] pd (record_obj (fst ?r) (snd ?r) pd)"
    using db by (auto simp: claimed_def record_obj_def attach_result_def table_contains_def attached_tables)
qed

lemma node_item:
  assumes e: "extends db0 db" and n: "node_ok db0 x" and sp: "heap db x = Some sp"
  shows "item_id db0 x it = item_id db x it" and "type_at db0 x = Some (obj_type sp)"
proof -
  have "heap db0 x \<noteq> None" using n by (auto simp: node_ok_def nonres_def mod_skel_def inst_skel_def split: option.splits)
  then obtain s0 where s0: "heap db0 x = Some s0" by blast
  have "keeps db0 db" using e by (simp add: extends_def grows_def)
  from keepsD [OF this s0] show "item_id db0 x it = item_id db x it" "type_at db0 x = Some (obj_type sp)"
    using s0 sp by (auto simp: type_at_def item_id_def)
qed

lemma new_names:
  "obj_name (port_struct nm dir m sp) = nm" "obj_name (decl_struct nm m sp) = nm"
  "obj_name (adjustment_struct nm w i sp) = nm" "obj_name (param_struct nm w lc m sp) = nm"
  by (simp_all add: port_struct_def decl_struct_def adjustment_struct_def param_struct_def)

lemma new_inverts:
  "attr_get (pin_struct nm conn (Some v) i sp) ''invert'' = Some v"
  "attr_get (port_struct nm dir m sp) ''invert'' = None" "attr_get (decl_struct nm m sp) ''invert'' = None"
  "attr_get (adjustment_struct nm w i sp) ''invert'' = None" "attr_get (param_struct nm w lc m sp) ''invert'' = None"
  by (simp_all add: pin_struct_def pin_base_def port_struct_def decl_struct_def adjustment_struct_def
      param_struct_def attr_const_def attr_set_def attr_get_def ig_obj_init_def Let_def)

lemma new_contents:
  "struct_content (pin_struct nm conn (Some v) i sp) =
     Some (nm, Some v, Pin \<lparr>pin_connection = conn, pin_parent = Some i, pin_net = None\<rparr>)"
  "struct_content (port_struct nm dir m sp) =
     Some (nm, None, Port \<lparr>port_dir = dir, port_parent = Some m, port_net = None\<rparr>)"
  "struct_content (decl_struct nm m sp) = Some (nm, None, Decl \<lparr>decl_parent = Some m, decl_net = None\<rparr>)"
  "struct_content (adjustment_struct nm w i sp) =
     Some (nm, None, Adjustment \<lparr>adj_value = w, adj_parent = Some i, adj_generic = None\<rparr>)"
  "struct_content (param_struct nm w lc m sp) =
     Some (nm, None, Param \<lparr>param_value = w, param_local = lc, param_parent = Some m, param_generic = None\<rparr>)"
  by (simp add: struct_content_def new_names new_inverts;
      simp add: port_struct_def decl_struct_def adjustment_struct_def param_struct_def)+

lemma new_ids:
  assumes "heap_ok h" and "heap h x = Some sp"
  shows "obj_id (pin_struct nm conn iv x sp) = item_id h x (IG_OBJ_PIN, nm)"
    "obj_id (port_struct nm dir x sp) = item_id h x (IG_OBJ_PORT, nm)"
    "obj_id (decl_struct nm x sp) = item_id h x (IG_OBJ_DECLARATION, nm)"
    "obj_id (adjustment_struct nm w x sp) = item_id h x (IG_OBJ_ADJUSTMENT, nm)"
    "obj_id (param_struct nm w lc x sp) = item_id h x (IG_OBJ_PARAMETER, nm)"
  using assms id_of_child [OF assms]
  by (simp_all add: port_struct_def decl_struct_def adjustment_struct_def param_struct_def item_id_def)

theorem signal_visit_ok:
  assumes v: "visit_ok db0 net_types pd" and n: "node_ok db0 (ci_obj c)" and l: "ci_local_name c = Some ln"
    and pn: "\<not> is_root \<Longrightarrow> ci_parent_name c \<noteq> None"
  shows "holds (ig_lib_htree_process_signal_tfunc is_root c pd) (\<lambda>(n, pd'). n = snd (signal_item db0 is_root c) \<and>
           creates db0 net_types (\<lambda>v. fst v = n \<and> signal_wire is_root c v)
             (item_id db0 (ci_obj c) (signal_item db0 is_root c)) pd pd')"
proof -
  let ?db = "pd_db pd" let ?x = "ci_obj c"
  have inv: "db_inv ?db" and e0: "extends db0 ?db" using v by (auto simp: visit_ok_def extends_def grows_def)
  note h = db_invD(4) [OF inv]
  have nk: "node_ok ?db ?x" using n node_ok_extends [OF e0] by simp
  consider (inst) "inst_skel ?db ?x \<noteq> None" | (modul) "nonres ?db ?x" using nk by (auto simp: node_ok_def)
  then show ?thesis
  proof cases
    case inst
    then obtain sp ib where sp: "heap ?db ?x = Some sp" "obj_body sp = Instance ib" using inst_skel_instance by blast
    let ?pn = "pin_name_of c ln" let ?cn = "or_empty (ci_parent_name c)"
    let ?iv = "Some (if ci_invert c then ''true'' else ''false'')"
    let ?r = "attach_result ?x (with_pin (next_addr ?db) ib) (pin_struct ?pn ?cn ?iv ?x sp) ?db"
    note old = node_item [OF e0 n sp(1)] and ids = new_ids [OF h sp(1)]
    have "extends ?db (snd (attach_result ?x (with_pin (next_addr ?db) ib) (pin_struct ?pn ?cn ?iv ?x sp) ?db))"
      by (rule extends_hang [OF inv new_leaf_pin sp(1)])
         (use sp h hangs_rules in \<open>simp_all add: not_next_addr obj_type_def\<close>)
    note ext = this
    have it: "signal_item db0 is_root c = (IG_OBJ_PIN, ?pn)"
      using sp l old(2) by (simp add: signal_item_def obj_type_def)
    have id: "item_id db0 ?x (IG_OBJ_PIN, ?pn) = obj_id (pin_struct ?pn ?cn ?iv ?x sp)" by (simp only: old(1) ids)
    have "creates db0 net_types (\<lambda>v. fst v = ?pn \<and> signal_wire is_root c v)
            (item_id db0 ?x (signal_item db0 is_root c)) pd (record_obj (fst ?r) (snd ?r) pd)"
      unfolding it id
      by (rule record_attach [OF v refl sp(1) _ ext _ new_contents(1)])
         (use sp l in \<open>auto simp: obj_type_def net_types_def signal_wire_def or_empty_def \<close>)
    then show ?thesis
      using sp l it by (simp add: ig_lib_htree_process_signal_tfunc_def heap_get_def local_name_of_def obj_type_def
          add_pin_eq [OF inv sp] Let_def split_beta)
  next
    case modul
    then obtain sp mb where sp: "heap ?db ?x = Some sp" "obj_body sp = Module mb" "\<not> mod_resource mb"
      using nonres_module by blast
    have dc: "mod_decls mb \<noteq> None" using module_queues(1) [OF h sp] .
    note old = node_item [OF e0 n sp(1)] and ids = new_ids [OF h sp(1)]
    show ?thesis
    proof (cases is_root)
      case True
      let ?nm = "signal_name_of c ln"
      let ?r = "attach_result ?x (with_decl (next_addr ?db) mb) (decl_struct ?nm ?x sp) ?db"
      have "extends ?db (snd ?r)"
        by (rule extends_hang [OF inv _ sp(1)])
           (use sp dc h hangs_rules(3) [of mb] in
             \<open>simp_all add: decl_struct_def new_leaf_struct hdr_ok_init not_next_addr obj_type_def\<close>)
      note ext = this
      have it: "signal_item db0 is_root c = (IG_OBJ_DECLARATION, ?nm)"
        using sp l old(2) True by (simp add: signal_item_def obj_type_def)
      have id: "item_id db0 ?x (IG_OBJ_DECLARATION, ?nm) = obj_id (decl_struct ?nm ?x sp)" by (simp only: old(1) ids)
      have "creates db0 net_types (\<lambda>v. fst v = ?nm \<and> signal_wire is_root c v)
              (item_id db0 ?x (signal_item db0 is_root c)) pd (record_obj (fst ?r) (snd ?r) pd)"
        unfolding it id
        by (rule record_attach [OF v refl sp(1) _ ext _ new_contents(3)])
           (use sp l True in \<open>auto simp: obj_type_def net_types_def signal_wire_def or_empty_def decl_struct_def\<close>)
      moreover have "ig_lib_htree_process_signal_tfunc is_root c pd = Inr (?nm, record_obj (fst ?r) (snd ?r) pd)"
      proof -
        note eq = add_decl_eq [OF inv sp(1,2) dc, of ?nm]
        have "res_bind (ig_decl_new (Some ?nm) (Some ?x) ?db) (\<lambda>(d, db).
                res_bind (process_add d (\<lambda>a. modify as_module Module (Some ?x)
                   (\<lambda>m. res_bind (push_tail_opt a (mod_decls m)) (\<lambda>q. Inr (m\<lparr>mod_decls := q\<rparr>)))) db)
                  (\<lambda>(d, db). Inr (?nm, record_obj d db pd))) = Inr (?nm, record_obj (fst ?r) (snd ?r) pd)"
          using eq by (cases ?r) (auto simp: res_bind_eq_Inr split_beta)
        then show ?thesis
          using True sp l
          by (simp add: ig_lib_htree_process_signal_tfunc_def heap_get_def local_name_of_def obj_type_def Let_def)
      qed
      ultimately show ?thesis using it by simp
    next
      case False
      let ?nm = "or_empty (ci_parent_name c)"
      obtain pn0 where some: "ci_parent_name c = Some pn0" using pn False by auto
      let ?r = "attach_result ?x (with_port (next_addr ?db) mb) (port_struct ?nm (port_dir_of (ci_dir c)) ?x sp) ?db"
      have "extends ?db (snd ?r)"
        by (rule extends_hang [OF inv _ sp(1)])
           (use sp h hangs_rules in
             \<open>simp_all add: port_struct_def new_leaf_struct hdr_ok_attr_const hdr_ok_init not_next_addr obj_type_def\<close>)
      note ext = this
      have it: "signal_item db0 is_root c = (IG_OBJ_PORT, ?nm)"
        using sp l old(2) False some by (simp add: signal_item_def obj_type_def)
      have id: "item_id db0 ?x (IG_OBJ_PORT, ?nm) = obj_id (port_struct ?nm (port_dir_of (ci_dir c)) ?x sp)" by (simp only: old(1) ids)
      have "creates db0 net_types (\<lambda>v. fst v = ?nm \<and> signal_wire is_root c v)
              (item_id db0 ?x (signal_item db0 is_root c)) pd (record_obj (fst ?r) (snd ?r) pd)"
        unfolding it id
        by (rule record_attach [OF v refl sp(1) _ ext _ new_contents(2)])
           (use sp l False some in \<open>auto simp: obj_type_def net_types_def signal_wire_def or_empty_def port_struct_def\<close>)
      then show ?thesis
        using False sp l some it
        by (simp add: ig_lib_htree_process_signal_tfunc_def heap_get_def local_name_of_def obj_type_def Let_def
              add_port_eq [OF inv sp(1,2)] split_beta)
    qed
  qed
qed

theorem parameter_visit_ok:
  assumes v: "visit_ok db0 generic_types pd" and n: "node_ok db0 (ci_obj c)" and l: "ci_local_name c = Some ln"
  shows "holds (ig_lib_htree_process_parameter_tfunc (Some dv) False is_root c pd)
           (\<lambda>(n, pd'). n = snd (parameter_item db0 is_root c) \<and>
              creates db0 generic_types (\<lambda>v. fst v = n \<and> parameter_wire dv is_root c v)
                (item_id db0 (ci_obj c) (parameter_item db0 is_root c)) pd pd')"
proof -
  let ?db = "pd_db pd" let ?x = "ci_obj c"
  have inv: "db_inv ?db" and e0: "extends db0 ?db" using v by (auto simp: visit_ok_def extends_def grows_def)
  note h = db_invD(4) [OF inv]
  have nk: "node_ok ?db ?x" using n node_ok_extends [OF e0] by simp
  consider (inst) "inst_skel ?db ?x \<noteq> None" | (modul) "nonres ?db ?x" using nk by (auto simp: node_ok_def)
  then show ?thesis
  proof cases
    case inst
    then obtain sp ib where sp: "heap ?db ?x = Some sp" "obj_body sp = Instance ib" using inst_skel_instance by blast
    note old = node_item [OF e0 n sp(1)] and ids = new_ids [OF h sp(1)]
    let ?v = "or_empty (ci_parent_name c)"
    let ?r = "attach_result ?x (with_adjustment (next_addr ?db) ib) (adjustment_struct ln ?v ?x sp) ?db"
    have "extends ?db (snd ?r)"
      by (rule extends_hang [OF inv _ sp(1)])
         (use sp h hangs_rules(5) in
           \<open>simp_all add: adjustment_struct_def new_leaf_struct hdr_ok_attr_const hdr_ok_init not_next_addr obj_type_def\<close>)
    note ext = this
    have it: "parameter_item db0 is_root c = (IG_OBJ_ADJUSTMENT, ln)"
      using sp l old(2) by (simp add: parameter_item_def obj_type_def)
    have id: "item_id db0 ?x (IG_OBJ_ADJUSTMENT, ln) = obj_id (adjustment_struct ln ?v ?x sp)" by (simp only: old(1) ids)
    have "creates db0 generic_types (\<lambda>v. fst v = ln \<and> parameter_wire dv is_root c v)
            (item_id db0 ?x (parameter_item db0 is_root c)) pd (record_obj (fst ?r) (snd ?r) pd)"
      unfolding it id
      by (rule record_attach [OF v refl sp(1) _ ext _ new_contents(4)])
         (use sp l in \<open>auto simp: obj_type_def generic_types_def parameter_wire_def or_empty_def adjustment_struct_def\<close>)
    moreover have "res_bind (ig_adjustment_new (Some ln) (Some ?v) (Some ?x) ?db) (\<lambda>(d, db).
              res_bind (process_add d (\<lambda>a. modify as_instance Instance (Some ?x)
                 (\<lambda>i. Inr (i\<lparr>inst_adjustments := push_tail a (inst_adjustments i)\<rparr>))) db)
                (\<lambda>(d, db). Inr (ln, record_obj d db pd))) = Inr (ln, record_obj (fst ?r) (snd ?r) pd)"
      using add_adjustment_eq [OF inv sp, of ln ?v]
      by (cases ?r) (auto simp: res_bind_eq_Inr split_beta)
    ultimately show ?thesis
      using sp l it
      by (simp add: ig_lib_htree_process_parameter_tfunc_def heap_get_def local_name_of_def obj_type_def Let_def)
  next
    case modul
    then obtain sp mb where sp: "heap ?db ?x = Some sp" "obj_body sp = Module mb" "\<not> mod_resource mb"
      using nonres_module by blast
    note old = node_item [OF e0 n sp(1)] and ids = new_ids [OF h sp(1)]
    let ?nm = "if is_root then ln else or_empty (ci_parent_name c)" let ?lc = "False \<and> is_root"
    let ?r = "attach_result ?x (with_param (next_addr ?db) mb) (param_struct ?nm dv ?lc ?x sp) ?db"
    have "extends ?db (snd ?r)"
      by (rule extends_hang [OF inv _ sp(1)])
         (use sp h hangs_rules(2) in
           \<open>simp_all add: param_struct_def new_leaf_struct hdr_ok_attr_const hdr_ok_init not_next_addr obj_type_def\<close>)
    note ext = this
    have it: "parameter_item db0 is_root c = (IG_OBJ_PARAMETER, ?nm)"
      using sp l old(2) by (simp add: parameter_item_def obj_type_def)
    have id: "item_id db0 ?x (IG_OBJ_PARAMETER, ?nm) = obj_id (param_struct ?nm dv ?lc ?x sp)" by (simp only: old(1) ids)
    have "creates db0 generic_types (\<lambda>v. fst v = ?nm \<and> parameter_wire dv is_root c v)
            (item_id db0 ?x (parameter_item db0 is_root c)) pd (record_obj (fst ?r) (snd ?r) pd)"
      unfolding it id
      by (rule record_attach [OF v refl sp(1) _ ext _ new_contents(5)])
         (use sp l in \<open>auto simp: obj_type_def generic_types_def parameter_wire_def or_empty_def param_struct_def\<close>)
    moreover have "res_bind (ig_param_new (Some ?nm) (Some dv) ?lc (Some ?x) ?db) (\<lambda>(d, db).
              res_bind (process_add d (\<lambda>a. modify as_module Module (Some ?x)
                 (\<lambda>m. Inr (m\<lparr>mod_params := push_tail a (mod_params m)\<rparr>))) db)
                (\<lambda>(d, db). Inr (?nm, record_obj d db pd))) = Inr (?nm, record_obj (fst ?r) (snd ?r) pd)"
      using add_param_eq [OF inv sp(1,2), of ?nm dv ?lc]
      by (cases ?r) (auto simp: res_bind_eq_Inr split_beta)
    ultimately show ?thesis
      using sp l it
      by (simp add: ig_lib_htree_process_parameter_tfunc_def heap_get_def local_name_of_def obj_type_def Let_def)
  qed
qed

section \<open>Whole traversals\<close>

text \<open>
  The objects of a walk form a copy of the tree: every node is paired with its object, in pre-order,
  and the name of a node's object is the parent name its children see.
\<close>

fun nodes :: "('a \<times> addr) gnode \<Rightarrow> addr list" where
  "nodes (GNode cx Ts) = snd cx # concat (map nodes Ts)"

fun wired ::
    "(bool \<Rightarrow> ig_lib_connection_info \<Rightarrow> content \<Rightarrow> bool) \<Rightarrow> 'a ig_heap_scheme \<Rightarrow> bool \<Rightarrow> string option
       \<Rightarrow> (ig_lib_connection_info \<times> addr) gnode \<Rightarrow> bool" where
  "wired wire h is_root pn (GNode cx Ts) \<longleftrightarrow>
     (\<exists>v. content_at h (snd cx) = Some v \<and> wire is_root ((fst cx)\<lparr>ci_parent_name := pn\<rparr>) v \<and>
        (\<forall>T \<in> set Ts. wired wire h False (Some (fst v)) T))"

lemma wired_mono: "content_at h \<subseteq>\<^sub>m content_at h' \<Longrightarrow> wired wire h r pn T \<Longrightarrow> wired wire h' r pn T"
proof (induction T arbitrary: r pn)
  case (GNode cx Ts)
  then show ?case by (fastforce simp: map_le_def dom_def)
qed

lemma wired_content: "wired wire h r pn T \<Longrightarrow> x \<in> set (nodes T) \<Longrightarrow> content_at h x \<noteq> None"
  by (induction T arbitrary: r pn) fastforce

definition walked ::
    "(bool \<Rightarrow> ig_lib_connection_info \<Rightarrow> content \<Rightarrow> bool) \<Rightarrow> bool \<Rightarrow> string option
       \<Rightarrow> ig_lib_connection_info gnode list \<Rightarrow> process_data \<Rightarrow> process_data \<Rightarrow> bool" where
  "walked wire r pn ts pd pd' \<longleftrightarrow>
     content_at (pd_db pd) \<subseteq>\<^sub>m content_at (pd_db pd') \<and> (pd_error pd \<longrightarrow> pd_error pd') \<and>
     (\<not> pd_error pd' \<longrightarrow> (\<exists>Ts. map (map_gnode fst) Ts = ts \<and>
        pd_gen_objs pd' = rev (concat (map nodes Ts)) @ pd_gen_objs pd \<and>
        (\<forall>T \<in> set Ts. wired wire (pd_db pd') r pn T) \<and> distinct (concat (map nodes Ts)) \<and>
        (\<forall>x \<in> set (concat (map nodes Ts)). content_at (pd_db pd) x = None)))"

lemma walked_Nil: "walked wire r pn [] pd pd"
  by (simp add: walked_def)

lemma content_Some_mono: "m \<subseteq>\<^sub>m m' \<Longrightarrow> m x = Some v \<Longrightarrow> m' x = Some v"
  by (auto simp: map_le_def dom_def)

lemma content_None_mono: "m \<subseteq>\<^sub>m m' \<Longrightarrow> m' x = None \<Longrightarrow> m x = None"
  by (auto simp: map_le_def dom_def)

lemma walked_Cons:
  assumes 1: "walked wire r pn [t] pd pd1" and 2: "walked wire r pn ts pd1 pd2"
  shows "walked wire r pn (t # ts) pd pd2"
  unfolding walked_def
proof (intro conjI impI)
  show "content_at (pd_db pd) \<subseteq>\<^sub>m content_at (pd_db pd2)"
    using 1 2 by (auto simp: walked_def intro: map_le_trans)
  show "pd_error pd2" if "pd_error pd" using 1 2 that by (simp add: walked_def)
  assume ok: "\<not> pd_error pd2"
  then have ok1: "\<not> pd_error pd1" using 2 by (auto simp: walked_def)
  note c1 = 1 [unfolded walked_def, THEN conjunct1] and c2 = 2 [unfolded walked_def, THEN conjunct1]
  obtain T where T: "map_gnode fst T = t" "pd_gen_objs pd1 = rev (nodes T) @ pd_gen_objs pd"
      "wired wire (pd_db pd1) r pn T" "distinct (nodes T)" "\<forall>x \<in> set (nodes T). content_at (pd_db pd) x = None"
    using 1 ok1 by (auto simp: walked_def)
  obtain Ts where Ts: "map (map_gnode fst) Ts = ts" "pd_gen_objs pd2 = rev (concat (map nodes Ts)) @ pd_gen_objs pd1"
      "\<forall>T \<in> set Ts. wired wire (pd_db pd2) r pn T" "distinct (concat (map nodes Ts))"
      "\<forall>x \<in> set (concat (map nodes Ts)). content_at (pd_db pd1) x = None"
    using 2 ok unfolding walked_def by blast
  have "set (nodes T) \<inter> set (concat (map nodes Ts)) = {}"
    using wired_content [OF T(3)] Ts(5) by blast
  then show "\<exists>Us. map (map_gnode fst) Us = t # ts \<and> pd_gen_objs pd2 = rev (concat (map nodes Us)) @ pd_gen_objs pd \<and>
      (\<forall>T \<in> set Us. wired wire (pd_db pd2) r pn T) \<and> distinct (concat (map nodes Us)) \<and>
      (\<forall>x \<in> set (concat (map nodes Us)). content_at (pd_db pd) x = None)"
    using T Ts wired_mono [OF c2 T(3)] content_None_mono [OF c1]
    by (intro exI [of _ "T # Ts"]) (simp, blast)
qed

lemma walked_node:
  assumes 1: "visited (\<lambda>v. fst v = n \<and> wire r (c\<lparr>ci_parent_name := pn\<rparr>) v) pd pd1"
    and 2: "walked wire False (Some n) ts pd1 pd2"
  shows "walked wire r pn [GNode c ts] pd pd2"
  unfolding walked_def
proof (intro conjI impI)
  show "content_at (pd_db pd) \<subseteq>\<^sub>m content_at (pd_db pd2)"
    using 1 2 by (auto simp: visited_def walked_def intro: map_le_trans)
  show "pd_error pd2" if "pd_error pd" using 1 2 that by (simp add: visited_def walked_def)
  assume ok: "\<not> pd_error pd2"
  then have ok1: "\<not> pd_error pd1" using 2 by (auto simp: walked_def)
  note c1 = 1 [unfolded visited_def, THEN conjunct1] and c2 = 2 [unfolded walked_def, THEN conjunct1]
  obtain x v where x: "pd_gen_objs pd1 = x # pd_gen_objs pd" "content_at (pd_db pd) x = None"
      "content_at (pd_db pd1) x = Some v" "fst v = n" "wire r (c\<lparr>ci_parent_name := pn\<rparr>) v"
    using 1 ok1 unfolding visited_def by blast
  obtain Ts where Ts: "map (map_gnode fst) Ts = ts" "pd_gen_objs pd2 = rev (concat (map nodes Ts)) @ pd_gen_objs pd1"
      "\<forall>T \<in> set Ts. wired wire (pd_db pd2) False (Some n) T" "distinct (concat (map nodes Ts))"
      "\<forall>x \<in> set (concat (map nodes Ts)). content_at (pd_db pd1) x = None"
    using 2 ok unfolding walked_def by blast
  have new: "x \<notin> set (concat (map nodes Ts))" using x(3) Ts(5) by auto
  have "wired wire (pd_db pd2) r pn (GNode (c, x) Ts)"
    using content_Some_mono [OF c2 x(3)] x(4,5) Ts(3) by (auto simp del: split_paired_Ex)
  then show "\<exists>Us. map (map_gnode fst) Us = [GNode c ts] \<and> pd_gen_objs pd2 = rev (concat (map nodes Us)) @ pd_gen_objs pd \<and>
      (\<forall>T \<in> set Us. wired wire (pd_db pd2) r pn T) \<and> distinct (concat (map nodes Us)) \<and>
      (\<forall>x \<in> set (concat (map nodes Us)). content_at (pd_db pd) x = None)"
    using x(1,2) Ts(1,2,4,5) new content_None_mono [OF c1]
    by (intro exI [of _ "[GNode (c, x) Ts]"]) (simp del: wired.simps set_concat)
qed

text \<open>The ids of all objects the nodes of a tree need, in pre-order.\<close>

fun generated_ids ::
    "('a ig_heap_scheme \<Rightarrow> bool \<Rightarrow> ig_lib_connection_info \<Rightarrow> ig_object_type \<times> string) \<Rightarrow> 'a ig_heap_scheme
       \<Rightarrow> bool \<Rightarrow> string option \<Rightarrow> ig_lib_connection_info gnode \<Rightarrow> string list" where
  "generated_ids item h is_root pn (GNode c ts) =
     (let it = item h is_root (c\<lparr>ci_parent_name := pn\<rparr>)
      in item_id h (ci_obj c) it # concat (map (generated_ids item h False (Some (snd it))) ts))"

definition tree_ok :: "'a ig_heap_scheme \<Rightarrow> ig_lib_connection_info gnode \<Rightarrow> bool" where
  "tree_ok h t \<longleftrightarrow> (\<forall>c \<in> set_gnode t. node_ok h (ci_obj c) \<and> ci_local_name c \<noteq> None)"

text \<open>No id occurs twice, and none is in use.\<close>

definition ids_free :: "ig_lib_db \<Rightarrow> string list \<Rightarrow> bool" where
  "ids_free db ids \<longleftrightarrow> distinct ids \<and> (\<forall>i \<in> set ids. tables db Objects_by_id i = None)"

text \<open>The generated objects are the copy of the tree, last one first.\<close>

definition carries ::
    "(bool \<Rightarrow> ig_lib_connection_info \<Rightarrow> content \<Rightarrow> bool) \<Rightarrow> ig_lib_connection_info gnode \<Rightarrow> 'a ig_heap_scheme
       \<Rightarrow> addr list \<Rightarrow> bool" where
  "carries wire t h objs \<longleftrightarrow> (\<exists>T. map_gnode fst T = t \<and> objs = rev (nodes T) \<and> distinct objs \<and>
     wired wire h True (ci_parent_name (gdata t)) T)"

lemma carries_mono: "content_at h \<subseteq>\<^sub>m content_at h' \<Longrightarrow> carries wire t h objs \<Longrightarrow> carries wire t h' objs"
  unfolding carries_def using wired_mono by blast

locale tree_visitor =
  fixes visit :: "bool \<Rightarrow> ig_lib_connection_info \<Rightarrow> process_data \<Rightarrow> (string \<times> process_data) res"
    and kinds :: "ig_object_type set" and wire :: "bool \<Rightarrow> ig_lib_connection_info \<Rightarrow> content \<Rightarrow> bool"
    and item :: "ig_lib_db \<Rightarrow> bool \<Rightarrow> ig_lib_connection_info \<Rightarrow> ig_object_type \<times> string"
  assumes visit_creates: "visit_ok db0 kinds pd \<Longrightarrow> node_ok db0 (ci_obj c) \<Longrightarrow> ci_local_name c \<noteq> None \<Longrightarrow>
    (\<not> r \<Longrightarrow> ci_parent_name c \<noteq> None) \<Longrightarrow>
    holds (visit r c pd) (\<lambda>(n, pd'). n = snd (item db0 r c) \<and>
      creates db0 kinds (\<lambda>v. fst v = n \<and> wire r c v) (item_id db0 (ci_obj c) (item db0 r c)) pd pd')"
begin

definition goes :: "ig_lib_db \<Rightarrow> bool \<Rightarrow> string option \<Rightarrow> ig_lib_connection_info gnode list \<Rightarrow> process_data \<Rightarrow> process_data \<Rightarrow> bool" where
  "goes db0 r pn ts pd pd' \<longleftrightarrow> visit_ok db0 kinds pd' \<and> walked wire r pn ts pd pd' \<and>
     claimed (concat (map (generated_ids item db0 r pn) ts)) pd pd'"

lemma goes_Cons:
  assumes "goes db0 r pn [t] pd pd1" and "goes db0 r pn ts pd1 pd2"
  shows "goes db0 r pn (t # ts) pd pd2"
  using assms walked_Cons claimed_append [of "generated_ids item db0 r pn t"] unfolding goes_def by fastforce

lemma walk_list:
  assumes "\<And>t pd. t \<in> set ts \<Longrightarrow> visit_ok db0 kinds pd \<Longrightarrow>
    holds (htree_traverse visit False (Some n) t pd) (goes db0 False (Some n) [t] pd)"
    and "visit_ok db0 kinds pd"
  shows "holds (htree_traverse_list visit n ts pd) (goes db0 False (Some n) ts pd)"
  using assms
proof (induction ts arbitrary: pd)
  case Nil
  then show ?case by (simp add: goes_def walked_Nil claimed_Nil)
next
  case (Cons t ts)
  obtain pd1 where 1: "htree_traverse visit False (Some n) t pd = Inr pd1" "goes db0 False (Some n) [t] pd pd1"
    using Cons.prems by (auto simp: holds_iff)
  have "holds (htree_traverse_list visit n ts pd1) (goes db0 False (Some n) ts pd1)"
    by (rule Cons.IH) (use Cons.prems(1) 1(2) in \<open>simp_all add: goes_def\<close>)
  with 1 show ?case by (auto simp: holds_iff intro: goes_Cons)
qed

lemma walk_tree:
  "tree_ok db0 t \<Longrightarrow> visit_ok db0 kinds pd \<Longrightarrow> (\<not> r \<Longrightarrow> pn \<noteq> None) \<Longrightarrow>
     holds (htree_traverse visit r pn t pd) (goes db0 r pn [t] pd)"
proof (induction t arbitrary: r pn pd)
  case (GNode c ts)
  let ?c = "c\<lparr>ci_parent_name := pn\<rparr>" let ?it = "item db0 r ?c"
  have "node_ok db0 (ci_obj ?c)" "ci_local_name ?c \<noteq> None" "\<not> r \<Longrightarrow> ci_parent_name ?c \<noteq> None"
    using GNode.prems(1,3) by (simp_all add: tree_ok_def)
  from visit_creates [OF GNode.prems(2) this] obtain pd1 where 1: "visit r ?c pd = Inr (snd ?it, pd1)"
      "visit_ok db0 kinds pd1" "visited (\<lambda>v. fst v = snd ?it \<and> wire r ?c v) pd pd1"
      "claimed [item_id db0 (ci_obj c) ?it] pd pd1"
    by (auto simp: holds_iff creates_def)
  have "holds (htree_traverse_list visit (snd ?it) ts pd1) (goes db0 False (Some (snd ?it)) ts pd1)"
  proof (rule walk_list [OF _ 1(2)])
    fix t pd assume t: "t \<in> set ts" and v: "visit_ok db0 kinds pd"
    then have "tree_ok db0 t" using GNode.prems(1) by (auto simp: tree_ok_def)
    from GNode.IH [OF t this v] show "holds (htree_traverse visit False (Some (snd ?it)) t pd)
        (goes db0 False (Some (snd ?it)) [t] pd)" by simp
  qed
  then obtain pd2 where 2: "htree_traverse_list visit (snd ?it) ts pd1 = Inr pd2" "visit_ok db0 kinds pd2"
      "walked wire False (Some (snd ?it)) ts pd1 pd2"
      "claimed (concat (map (generated_ids item db0 False (Some (snd ?it))) ts)) pd1 pd2"
    by (auto simp: holds_iff goes_def)
  show ?case
    using 1(1) 2(1,2) walked_node [OF 1(3) 2(3)] claimed_append [OF 1(4) 2(4)] by (simp add: goes_def Let_def)
qed

lemma process_tree:
  assumes inv: "db_inv db" and t: "tree_ok db t"
  shows "holds (res_bind (htree_traverse visit True (ci_parent_name (gdata t)) t
                            \<lparr>pd_db = db, pd_gen_objs = [], pd_error = False\<rparr>)
                  (\<lambda>data. Inr (if pd_error data then [] else pd_gen_objs data, pd_db data)))
           (\<lambda>(objs, db'). extends db db' \<and> (\<forall>x \<in> set objs. \<exists>t \<in> kinds. type_at db' x = Some t) \<and>
              (objs \<noteq> [] \<longrightarrow> carries wire t db' objs) \<and>
              (objs \<noteq> [] \<longleftrightarrow> ids_free db (generated_ids item db True (ci_parent_name (gdata t)) t)))"
proof -
  let ?pd0 = "\<lparr>pd_db = db, pd_gen_objs = [], pd_error = False\<rparr>" and ?pn = "ci_parent_name (gdata t)"
  have "visit_ok db kinds ?pd0" by (simp add: visit_ok_def extends_refl [OF inv])
  from walk_tree [OF t this, of True ?pn] obtain pd where pd: "htree_traverse visit True ?pn t ?pd0 = Inr pd"
      "visit_ok db kinds pd" "walked wire True ?pn [t] ?pd0 pd" "claimed (generated_ids item db True ?pn t) ?pd0 pd"
    by (auto simp: holds_iff goes_def)
  have free: "pd_error pd \<longleftrightarrow> \<not> ids_free db (generated_ids item db True ?pn t)"
    using pd(4) by (auto simp: claimed_def ids_free_def)
  show ?thesis
  proof (cases "pd_error pd")
    case True
    then show ?thesis using pd(1,2) free by (simp add: visit_ok_def)
  next
    case False
    then obtain T where T: "map_gnode fst T = t" "pd_gen_objs pd = rev (nodes T)" "distinct (nodes T)"
        "wired wire (pd_db pd) True ?pn T"
      using pd(3) by (auto simp: walked_def)
    then have "carries wire t (pd_db pd) (pd_gen_objs pd)" by (auto simp: carries_def)
    moreover have "pd_gen_objs pd \<noteq> []" using T(2) by (cases T) simp
    ultimately show ?thesis using pd(1,2) False free by (simp add: visit_ok_def)
  qed
qed

end

interpretation signal_walk: tree_visitor ig_lib_htree_process_signal_tfunc net_types signal_wire signal_item
  by unfold_locales (use signal_visit_ok in blast)

interpretation parameter_walk: tree_visitor "ig_lib_htree_process_parameter_tfunc (Some dv) False" generic_types
    "parameter_wire dv" parameter_item for dv
  by unfold_locales (use parameter_visit_ok in blast)

theorem process_signal_ok:
  assumes inv: "db_inv db" and t: "tree_ok db t"
  shows "holds (ig_lib_htree_process_signal t db) (\<lambda>(objs, db'). extends db db' \<and>
           (\<forall>x \<in> set objs. \<exists>t \<in> net_types. type_at db' x = Some t) \<and> (objs \<noteq> [] \<longrightarrow> carries signal_wire t db' objs) \<and>
           (objs \<noteq> [] \<longleftrightarrow> ids_free db (generated_ids signal_item db True (ci_parent_name (gdata t)) t)))"
  unfolding ig_lib_htree_process_signal_def using assms by (rule signal_walk.process_tree)

theorem process_parameter_ok:
  assumes inv: "db_inv db" and t: "tree_ok db t"
  shows "holds (ig_lib_htree_process_parameter t (Some dv) db) (\<lambda>(objs, db'). extends db db' \<and>
           (\<forall>x \<in> set objs. \<exists>t \<in> generic_types. type_at db' x = Some t) \<and>
           (objs \<noteq> [] \<longrightarrow> carries (parameter_wire dv) t db' objs) \<and>
           (objs \<noteq> [] \<longleftrightarrow> ids_free db (generated_ids parameter_item db True (ci_parent_name (gdata t)) t)))"
  unfolding ig_lib_htree_process_parameter_def using assms by (rule parameter_walk.process_tree)

end
