(* ===== verification/Ig_Signals.thy ===== *)
theory Ig_Signals
  imports Ig_Visit
begin

text \<open>
  Signals and parameters end to end: the trees that \<open>ig_lib_merge_hierarchy_list\<close> builds from the
  hierarchies of a database consist of instances and of modules that are no resources, walking
  them creates objects without a fault and keeps \<open>db_inv\<close>, and so do \<open>ig_lib_connection\<close> and
  \<open>ig_lib_parameter\<close>, unless \<open>ig_lib_htree_reduce\<close> returned a tree it had freed.
\<close>

section \<open>The merged tree\<close>

definition tails_all :: "(addr \<Rightarrow> bool) \<Rightarrow> hier list \<Rightarrow> bool" where
  "tails_all P hs \<longleftrightarrow> (\<forall>h \<in> set hs. \<forall>x \<in> set (snd h). P (ci_obj x))"

definition hier_all :: "(addr \<Rightarrow> bool) \<Rightarrow> hier list \<Rightarrow> bool" where
  "hier_all P hs \<longleftrightarrow> (\<forall>h \<in> set hs. P (ci_obj (fst h))) \<and> tails_all P hs"

lemma hier_all_simps [simp]:
  "tails_all P []" "tails_all P (h # hs) \<longleftrightarrow> (\<forall>x \<in> set (snd h). P (ci_obj x)) \<and> tails_all P hs"
  "hier_all P []" "hier_all P (h # hs) \<longleftrightarrow> P (ci_obj (fst h)) \<and> (\<forall>x \<in> set (snd h). P (ci_obj x)) \<and> hier_all P hs"
  by (auto simp: tails_all_def hier_all_def)

lemma hier_all_prepend: "(\<forall>x \<in> set cs. P (ci_obj x)) \<Longrightarrow> hier_all P hs \<Longrightarrow> hier_all P (prepend_next cs hs)"
  by (cases cs) auto

lemma merge_info_obj [simp]: "ci_obj (merge_info n i) = ci_obj n"
  by (simp add: merge_info_def Let_def)

lemma merge_level_all:
  "merge_level node li s = Some (node', s') \<Longrightarrow> tails_all P li \<Longrightarrow> hier_all P s \<Longrightarrow>
     hier_all P s' \<and> ci_obj node' = ci_obj node \<and> (\<forall>h \<in> set li. ci_obj (fst h) = ci_obj node)"
proof (induction node li s rule: merge_level.induct)
  case (2 node i rest li s)
  then show ?case by (auto simp: hier_all_prepend split: if_splits)
qed auto

lemma merge_level_grow:
  "merge_level node li s = Some (node', s') \<Longrightarrow> s' \<noteq> [] \<Longrightarrow> s \<noteq> [] \<or> (\<exists>h \<in> set li. snd h \<noteq> [])"
proof (induction node li s rule: merge_level.induct)
  case (2 node i rest li s)
  then show ?case by (cases rest) (auto split: if_splits)
qed auto

lemma group_hiers_subset: "g \<in> set (group_hiers hs) \<Longrightarrow> set g \<subseteq> set hs"
  by (induction hs rule: group_hiers.induct) auto

lemma hier_all_subset: "hier_all P hs \<Longrightarrow> set g \<subseteq> set hs \<Longrightarrow> hier_all P g"
  by (auto simp: hier_all_def tails_all_def)

lemma merge_tree_all:
  "ig_lib_merge_hierarchy_list hs nm = Some t \<Longrightarrow> hier_all P hs \<Longrightarrow>
     \<forall>c \<in> set_gnode t. P (ci_obj c) \<and> ci_local_name c \<noteq> None"
proof (induction hs nm arbitrary: t rule: ig_lib_merge_hierarchy_list.induct)
  case (2 h hs nm)
  obtain node s where lv: "merge_level (fst h) hs (prepend_next (snd h) []) = Some (node, s)"
    using "2.prems"(1) by (auto split: option.splits)
  have "hier_all P (prepend_next (snd h) [])" "tails_all P hs"
    using "2.prems"(2) by (simp_all add: hier_all_prepend) (simp add: hier_all_def)
  then have all: "hier_all P s" "ci_obj node = ci_obj (fst h)" using merge_level_all [OF lv] by blast+
  have child: "\<forall>c \<in> set_gnode t'. P (ci_obj c) \<and> ci_local_name c \<noteq> None"
    if g: "g \<in> set (group_hiers s)" and t': "ig_lib_merge_hierarchy_list g (child_default_name nm node) = Some t'" for g t'
    using "2.IH" [OF lv refl _ t'] g hier_all_subset [OF all(1) group_hiers_subset [OF g]] by auto
  have "t = GNode (node\<lparr>ci_local_name := Some (node_name nm node)\<rparr>)
            (concat (map (\<lambda>g. case ig_lib_merge_hierarchy_list g (child_default_name nm node) of
                                None \<Rightarrow> [] | Some t \<Rightarrow> [t]) (rev (group_hiers s))))"
    using "2.prems"(1) lv by simp
  note t = this
  show ?case
  proof
    fix c assume "c \<in> set_gnode t"
    then consider "c = node\<lparr>ci_local_name := Some (node_name nm node)\<rparr>"
      | g t' where "g \<in> set (group_hiers s)" "ig_lib_merge_hierarchy_list g (child_default_name nm node) = Some t'"
          "c \<in> set_gnode t'"
      unfolding t by (auto split: option.splits) (metis (no_types, lifting))
    then show "P (ci_obj c) \<and> ci_local_name c \<noteq> None"
    proof cases
      case 1
      then show ?thesis using all(2) "2.prems"(2) by simp
    next
      case 2
      then show ?thesis using child by blast
    qed
  qed
qed simp

text \<open>A lone endpoint may be a resource; where a tree has more than its root, it has none.\<close>

definition top_all :: "(addr \<Rightarrow> bool) \<Rightarrow> hier list \<Rightarrow> bool" where
  "top_all P hs \<longleftrightarrow> tails_all P hs \<and> (\<forall>h \<in> set hs. snd h \<noteq> [] \<longrightarrow> P (ci_obj (fst h)))"

lemma merge_tree_top:
  assumes m: "ig_lib_merge_hierarchy_list hs nm = Some t" and top: "top_all P hs" and ch: "gchildren t \<noteq> []"
  shows "\<forall>c \<in> set_gnode t. P (ci_obj c) \<and> ci_local_name c \<noteq> None"
proof (cases hs)
  case (Cons h hs')
  obtain node s where lv: "merge_level (fst h) hs' (prepend_next (snd h) []) = Some (node, s)"
    using m Cons by (auto split: option.splits)
  have tails: "tails_all P hs'" "\<forall>x \<in> set (snd h). P (ci_obj x)" using top Cons by (auto simp: top_all_def)
  have same: "\<forall>g \<in> set hs'. ci_obj (fst g) = ci_obj (fst h)"
    using merge_level_all [OF lv tails(1)] tails(2) by (auto simp: hier_all_prepend)
  have "s \<noteq> []" using m ch lv Cons by auto
  then have "\<exists>g \<in> set hs. snd g \<noteq> []"
    using merge_level_grow [OF lv] Cons by (cases "snd h") auto
  then have "P (ci_obj (fst h))" using top same Cons by (auto simp: top_all_def)
  then have "hier_all P hs" using tails same Cons by (auto simp: hier_all_def)
  with m show ?thesis by (rule merge_tree_all)
qed (use m in simp)

lemma reduce_loop_subtree:
  "reduce_loop r t = Some (b, t') \<Longrightarrow> set_gnode t' \<subseteq> set_gnode t \<and> gchildren t \<noteq> []"
proof (induction r t rule: reduce_loop.induct)
  case (1 r c cs)
  then show ?case
    by (cases cs; cases "tl cs") (fastforce split: if_splits)+
qed

lemma reduced_tree_ok:
  assumes "ig_lib_merge_hierarchy_list hs nm = Some t" and "top_all (node_ok h) hs"
    and "ig_lib_htree_reduce t = Reduced t'"
  shows "tree_ok h t'"
proof -
  obtain b where "reduce_loop True t = Some (b, t')"
    using assms(3) by (auto simp: ig_lib_htree_reduce_def split: option.splits prod.splits if_splits)
  then have "set_gnode t' \<subseteq> set_gnode t" "gchildren t \<noteq> []" by (auto dest: reduce_loop_subtree)
  then show ?thesis using merge_tree_top [OF assms(1,2)] by (auto simp: tree_ok_def)
qed

section \<open>The hierarchies of the endpoints\<close>

lemma path_nonres:
  assumes inv: "hier_inv h" and "up_path (module_up h) p ps" and "nonres h p"
  shows "\<forall>m \<in> set ps. nonres h m"
  using assms(2,3)
proof (induction rule: up_path.induct)
  case (step x p ps)
  obtain d q where x: "mod_skel h x = Some (False, d, q)" using step.prems by (auto simp: nonres_def)
  have "inst_skel h (default_at h x) = Some (Some x, Some p)"
    using default_at_skel [OF inv x] step.hyps by simp
  then have "nonres h p" using inv skel_parent by (fastforce simp: hier_inv_def nonres_def)
  then show ?case using step by simp
qed simp

lemma hier_objs_node_ok:
  assumes inv: "hier_inv h" and "\<forall>m \<in> set ps. nonres h m"
  shows "\<forall>x \<in> set (hier_objs h ps). node_ok h x"
proof
  fix x assume "x \<in> set (hier_objs h ps)"
  then obtain m where m: "m \<in> set ps" "x = default_at h m \<or> x = m" by (auto simp: hier_objs_def)
  then obtain d q where "mod_skel h m = Some (False, d, q)" using assms(2) by (auto simp: nonres_def)
  then show "node_ok h x" using m assms(2) default_at_skel(1) [OF inv] by (auto simp: node_ok_def)
qed

text \<open>
  The objects next to each other in a hierarchy: an instance and its module, or a module and an
  instance inside it.
\<close>

definition below :: "'a ig_heap_scheme \<Rightarrow> addr \<Rightarrow> addr \<Rightarrow> bool" where
  "below h x y \<longleftrightarrow>
     (case inst_skel h x of Some (mo, _) \<Rightarrow> mo = Some y | None \<Rightarrow> False) \<or>
     (case inst_skel h y of Some (_, p) \<Rightarrow> p = Some x | None \<Rightarrow> False)"

lemma hier_objs_chain:
  assumes inv: "hier_inv h" and "up_path (module_up h) m ps" and "nonres h m"
  shows "successively (below h) (hier_objs h ps) \<and> hier_objs h ps \<noteq> [] \<and> last (hier_objs h ps) = m"
  using assms(2,3)
proof (induction rule: up_path.induct)
  case (root x)
  then show ?case
    using default_at_skel [OF inv] by (auto simp: hier_objs_def nonres_def below_def)
next
  case (step x p ps)
  obtain d q where x: "mod_skel h x = Some (False, d, q)" using step.prems by (auto simp: nonres_def)
  have i: "inst_skel h (default_at h x) = Some (Some x, Some p)"
    using default_at_skel [OF inv x] step.hyps by simp
  then have "nonres h p" using inv skel_parent by (fastforce simp: hier_inv_def nonres_def)
  from step.IH [OF this] have "successively (below h) (hier_objs h ps @ [default_at h x, x])"
    using i by (simp add: successively_append_iff below_def)
  then show ?case by (simp add: hier_objs_def)
qed

text \<open>The node an endpoint becomes: an instance of a module that is no resource stands for the module.\<close>

definition endpoint_node :: "'a ig_heap_scheme \<Rightarrow> addr \<Rightarrow> addr" where
  "endpoint_node h x =
     (case inst_skel h x of
        Some (Some m, _) \<Rightarrow> (case mod_skel h m of Some (False, _) \<Rightarrow> m | _ \<Rightarrow> x)
      | _ \<Rightarrow> x)"

lemma skel_exclusive: "mod_skel h x = Some k \<Longrightarrow> inst_skel h x = None"
  by (cases k) (auto simp: mod_skel_Some inst_skel_def)

lemma gen_hierarchy_cases:
  assumes inv: "hier_inv h" and e: "endpoint_ok h (ci_obj c)"
  obtains (resource) d q where "mod_skel h (ci_obj c) = Some (True, d, q)" "ig_lib_gen_hierarchy h c = Inr [c]"
      "endpoint_node h (ci_obj c) = ci_obj c"
    | (modul) m ps l where "nonres h m" "up_path (module_up h) m ps" "ig_lib_gen_hierarchy h c = Inr l"
      "map ci_obj l = hier_objs h ps" "last l = c\<lparr>ci_obj := m\<rparr>" "endpoint_node h (ci_obj c) = m"
    | (inst) mo m ps l where "inst_skel h (ci_obj c) = Some (mo, Some m)" "nonres h m" "up_path (module_up h) m ps"
      "ig_lib_gen_hierarchy h c = Inr (l @ [c])" "map ci_obj l = hier_objs h ps" "endpoint_node h (ci_obj c) = ci_obj c"
proof -
  have path: "\<exists>ps. up_path (module_up h) x ps" for x using hierarchy.path_exists [OF inv] by blast
  show thesis
  proof (cases "mod_skel h (ci_obj c)")
    case (Some k)
    obtain r d q where k: "k = (r, d, q)" by (cases k) auto
    have node: "endpoint_node h (ci_obj c) = ci_obj c" using skel_exclusive [OF Some] by (simp add: endpoint_node_def)
    show thesis
    proof (cases r)
      case True
      then show thesis using resource [of d q] gen_hierarchy_resource [OF inv] Some k node by auto
    next
      case False
      obtain ps where ps: "up_path (module_up h) (ci_obj c) ps" using path by blast
      obtain l where "ig_lib_gen_hierarchy h c = Inr l" "map ci_obj l = hier_objs h ps" "last l = c"
        using gen_hierarchy_module [OF inv _ ps] Some k False by auto
      then show thesis using modul [OF _ ps, of l] Some k False node by (auto simp: nonres_def)
    qed
  next
    case None
    then obtain mo p where i: "inst_skel h (ci_obj c) = Some (mo, p)" using e by (auto simp: endpoint_ok_def)
    then obtain m r d q where m: "mo = Some m" "mod_skel h m = Some (r, d, q)" "r \<longrightarrow> p \<noteq> None"
      using inv unfolding hier_inv_def skel_ok_def by blast
    show thesis
    proof (cases r)
      case False
      then have g: "ig_lib_gen_hierarchy h c = ig_lib_gen_hierarchy h (c\<lparr>ci_obj := m\<rparr>)"
        using gen_hierarchy_default_instance [OF inv, of c m p d q] i m by auto
      obtain ps where ps: "up_path (module_up h) m ps" using path by blast
      then obtain l where "ig_lib_gen_hierarchy h c = Inr l" "map ci_obj l = hier_objs h ps" "last l = c\<lparr>ci_obj := m\<rparr>"
        using gen_hierarchy_module [OF inv, of "c\<lparr>ci_obj := m\<rparr>" d q ps] m False g by auto
      then show thesis using modul [OF _ ps, of l] i m False by (auto simp: nonres_def endpoint_node_def)
    next
      case True
      with m obtain pm where p: "p = Some pm" by auto
      have np: "nonres h pm" using inv i p skel_parent by (fastforce simp: hier_inv_def nonres_def)
      obtain ps where ps: "up_path (module_up h) pm ps" using path by blast
      obtain l where "ig_lib_gen_hierarchy h c = Inr (l @ [c])" "map ci_obj l = hier_objs h ps"
        using gen_hierarchy_resource_instance [OF inv _ _ ps, of c m d q] i m True p by auto
      then show thesis using inst [OF _ np ps, of mo l] i m p True by (auto simp: endpoint_node_def)
    qed
  qed
qed

definition hierarchy_of :: "'a ig_heap_scheme \<Rightarrow> ig_lib_connection_info \<Rightarrow> ig_lib_connection_info list \<Rightarrow> bool" where
  "hierarchy_of h c l \<longleftrightarrow>
     l \<noteq> [] \<and> successively (below h) (map ci_obj l) \<and> ci_obj (last l) = endpoint_node h (ci_obj c) \<and>
     (ci_is_explicit c \<longrightarrow> ci_is_explicit (last l)) \<and>
     ((\<forall>x \<in> set l. node_ok h (ci_obj x)) \<and> tl l \<noteq> [] \<or>
      (\<exists>d q. l = [c] \<and> mod_skel h (ci_obj c) = Some (True, d, q)))"

theorem gen_hierarchy_shape:
  assumes inv: "hier_inv h" and e: "endpoint_ok h (ci_obj c)"
  shows "\<exists>l. ig_lib_gen_hierarchy h c = Inr l \<and> hierarchy_of h c l"
  using assms
proof (cases rule: gen_hierarchy_cases)
  case (resource d q)
  then show ?thesis by (simp add: hierarchy_of_def)
next
  case (modul m ps l)
  have "\<forall>x \<in> set (hier_objs h ps). node_ok h x"
    using hier_objs_node_ok [OF inv path_nonres [OF inv modul(2,1)]] .
  then have "\<forall>x \<in> set l. node_ok h (ci_obj x)" using modul(4) [symmetric] by auto
  moreover have "tl l \<noteq> []"
  proof -
    have "ps \<noteq> []" using up_path_hd [OF modul(2)] by auto
    then obtain x y zs where "map ci_obj l = x # y # zs" using hier_objs_nonempty [of ps h] modul(4) by metis
    then show ?thesis by (auto simp: map_eq_Cons_conv)
  qed
  ultimately show ?thesis
    using hier_objs_chain [OF inv modul(2,1)] modul(3-6) by (auto simp: hierarchy_of_def)
next
  case (inst mo m ps l)
  have "\<forall>x \<in> set (hier_objs h ps). node_ok h x"
    using hier_objs_node_ok [OF inv path_nonres [OF inv inst(3,2)]] .
  then have "\<forall>x \<in> set (l @ [c]). node_ok h (ci_obj x)" using inst(1) inst(5) [symmetric] by (auto simp: node_ok_def)
  moreover have "l \<noteq> []" and "successively (below h) (map ci_obj l @ [ci_obj c])"
    using hier_objs_chain [OF inv inst(3,2)] inst(1,5) by (auto simp: successively_append_iff below_def)
  ultimately show ?thesis using inst(4,6) by (cases l) (auto simp: hierarchy_of_def)
qed

lemma gen_hierarchy_ok:
  assumes inv: "hier_inv h" and e: "endpoint_ok h (ci_obj c)"
  shows "\<exists>a l. ig_lib_gen_hierarchy h c = Inr (a # l) \<and> (\<forall>x \<in> set l. node_ok h (ci_obj x)) \<and>
           (l \<noteq> [] \<longrightarrow> node_ok h (ci_obj a))"
proof -
  obtain l where "ig_lib_gen_hierarchy h c = Inr l" "hierarchy_of h c l" using gen_hierarchy_shape [OF assms] by blast
  then show ?thesis by (cases l) (auto simp: hierarchy_of_def)
qed

lemma gen_hierarchies_shape:
  assumes inv: "hier_inv h"
  shows "\<forall>c \<in> set li. endpoint_ok h (ci_obj c) \<Longrightarrow>
    \<exists>hs. gen_hierarchies h li acc e = Inr (rev hs @ acc, e) \<and>
      list_all2 (\<lambda>c x. hierarchy_of h (c\<lparr>ci_is_explicit := True\<rparr>) (fst x # snd x)) li hs"
proof (induction li arbitrary: acc)
  case (Cons c li)
  obtain l where l: "ig_lib_gen_hierarchy h (c\<lparr>ci_is_explicit := True\<rparr>) = Inr l"
      "hierarchy_of h (c\<lparr>ci_is_explicit := True\<rparr>) l"
    using gen_hierarchy_shape [OF inv, of "c\<lparr>ci_is_explicit := True\<rparr>"] Cons.prems by auto
  then obtain a k where k: "l = a # k" by (cases l) (auto simp: hierarchy_of_def)
  obtain hs where "gen_hierarchies h li ((a, k) # acc) e = Inr (rev hs @ (a, k) # acc, e)"
      "list_all2 (\<lambda>c x. hierarchy_of h (c\<lparr>ci_is_explicit := True\<rparr>) (fst x # snd x)) li hs"
    using Cons.IH [of "(a, k) # acc"] Cons.prems by auto
  then show ?case using l k by (intro exI [of _ "(a, k) # hs"]) simp
qed simp

lemma hierarchy_top: "hierarchy_of h c (a # l) \<Longrightarrow> (\<forall>x \<in> set l. node_ok h (ci_obj x)) \<and> (l \<noteq> [] \<longrightarrow> node_ok h (ci_obj a))"
  by (auto simp: hierarchy_of_def)

lemma gen_hierarchies_ok:
  assumes inv: "hier_inv h" and "\<forall>c \<in> set li. endpoint_ok h (ci_obj c)" and "top_all (node_ok h) acc"
  shows "holds (gen_hierarchies h li acc e) (\<lambda>(hs, e'). e' = e \<and> top_all (node_ok h) hs \<and> length hs = length li + length acc)"
proof -
  obtain hs where hs: "gen_hierarchies h li acc e = Inr (rev hs @ acc, e)"
      "list_all2 (\<lambda>c x. hierarchy_of h (c\<lparr>ci_is_explicit := True\<rparr>) (fst x # snd x)) li hs"
    using gen_hierarchies_shape [OF assms(1,2)] by blast
  have "\<forall>x \<in> set hs. (\<forall>y \<in> set (snd x). node_ok h (ci_obj y)) \<and> (snd x \<noteq> [] \<longrightarrow> node_ok h (ci_obj (fst x)))"
    using hs(2) hierarchy_top by (fastforce simp: list_all2_conv_all_nth in_set_conv_nth)
  then have "top_all (node_ok h) (rev hs @ acc)"
    using assms(3) by (auto simp: top_all_def tails_all_def)
  then show ?thesis using hs(1) list_all2_lengthD [OF hs(2)] by simp
qed

section \<open>Signals and parameters\<close>

definition info_ok :: "ig_lib_db \<Rightarrow> ig_lib_connection_info \<Rightarrow> bool" where
  "info_ok db c \<longleftrightarrow> endpoint_ok db (ci_obj c)"

text \<open>The hierarchies \<open>ig_lib_connection\<close> collects from its source and its targets.\<close>

definition source_infos :: "ig_lib_connection_info option \<Rightarrow> ig_lib_connection_info list" where
  "source_infos source = (case source of None \<Rightarrow> [] | Some src \<Rightarrow> [src\<lparr>ci_dir := IG_LCDIR_UP\<rparr>])"

lemma endpoint_hierarchies:
  assumes inv: "db_inv db" and s: "\<forall>c \<in> set (source_infos source). info_ok db c" and t: "\<forall>c \<in> set targets. info_ok db c"
  shows "\<exists>hs0 hs. gen_hierarchies db (source_infos source) [] False = Inr (hs0, False) \<and>
           gen_hierarchies db targets hs0 False = Inr (hs, False) \<and> top_all (node_ok db) hs"
proof -
  note hi = db_invD(2) [OF inv]
  have "top_all (node_ok db) []" by (simp add: top_all_def)
  then obtain hs0 where hs0: "gen_hierarchies db (source_infos source) [] False = Inr (hs0, False)"
      "top_all (node_ok db) hs0"
    using gen_hierarchies_ok [OF hi, of "source_infos source" "[]" False] s by (auto simp: holds_iff info_ok_def)
  moreover obtain hs where "gen_hierarchies db targets hs0 False = Inr (hs, False)" "top_all (node_ok db) hs"
    using gen_hierarchies_ok [OF hi, of targets hs0 False] t hs0(2) by (auto simp: holds_iff info_ok_def)
  ultimately show ?thesis by blast
qed

text \<open>
  \<open>ig_lib_connection\<close> in full: a taken net name or endpoints without a common tree are refused and
  change nothing; a tree that branches at its root is the use after free of
  \<open>ig_lib_htree_reduce\<close>; otherwise the objects of the signal are created and a net collects them.
  It succeeds exactly when it leaves at least one object in the net.
\<close>

theorem connection_result:
  assumes inv: "db_inv db" and s: "\<forall>c \<in> set (source_infos source). info_ok db c" and t: "\<forall>c \<in> set targets. info_ok db c"
  shows "\<exists>hs0 hs. gen_hierarchies db (source_infos source) [] False = Inr (hs0, False) \<and>
     gen_hierarchies db targets hs0 False = Inr (hs, False) \<and>
     (if tables db Nets_by_name nm \<noteq> None
      then ig_lib_connection nm source targets db = Inr (False, None, db)
      else case map_option ig_lib_htree_reduce (ig_lib_merge_hierarchy_list hs nm) of
             None \<Rightarrow> ig_lib_connection nm source targets db = Inr (False, None, db)
           | Some Reduced_null \<Rightarrow> ig_lib_connection nm source targets db = Inr (False, None, db)
           | Some Reduced_freed \<Rightarrow> ig_lib_connection nm source targets db = Inl UseAfterFree
           | Some (Reduced tr) \<Rightarrow>
               holds (ig_lib_connection nm source targets db) (\<lambda>(ok, net, db').
                 grows db db' \<and> module_up db' = module_up db \<and>
                 (\<exists>objs n. net = Some n \<and> body_at db' n = Some (Net \<lparr>net_objects = objs\<rparr>) \<and>
                    (ok \<longleftrightarrow> objs \<noteq> []) \<and>
                    (ok \<longleftrightarrow> ids_free db (generated_ids signal_item db True (ci_parent_name (gdata tr)) tr)) \<and>
                    (ok \<longrightarrow> carries signal_wire tr db' objs) \<and>
                    (\<forall>x \<in> set objs. map_option net_of (body_at db' x) = Some (Some n)) \<and>
                    tables db' Nets_by_name nm = Some n)))"
proof -
  obtain hs0 hs where g: "gen_hierarchies db (source_infos source) [] False = Inr (hs0, False)"
      "gen_hierarchies db targets hs0 False = Inr (hs, False)" "top_all (node_ok db) hs"
    using endpoint_hierarchies [OF assms] by blast
  note g' = g(1,2) [unfolded source_infos_def]
  have main: "holds (ig_lib_connection nm source targets db) (\<lambda>(ok, net, db').
                 grows db db' \<and> module_up db' = module_up db \<and>
                 (\<exists>objs n. net = Some n \<and> body_at db' n = Some (Net \<lparr>net_objects = objs\<rparr>) \<and>
                    (ok \<longleftrightarrow> objs \<noteq> []) \<and>
                    (ok \<longleftrightarrow> ids_free db (generated_ids signal_item db True (ci_parent_name (gdata tr)) tr)) \<and>
                    (ok \<longrightarrow> carries signal_wire tr db' objs) \<and>
                    (\<forall>x \<in> set objs. map_option net_of (body_at db' x) = Some (Some n)) \<and>
                    tables db' Nets_by_name nm = Some n))"
    if free: "tables db Nets_by_name nm = None" and m: "ig_lib_merge_hierarchy_list hs nm = Some tree"
      and r: "ig_lib_htree_reduce tree = Reduced tr" for tree tr
  proof -
    have tr: "tree_ok db tr" using m g(3) r by (rule reduced_tree_ok)
    obtain objs db1 where p: "ig_lib_htree_process_signal tr db = Inr (objs, db1)" "extends db db1"
        "\<forall>x \<in> set objs. \<exists>t \<in> net_types. type_at db1 x = Some t" "objs \<noteq> [] \<longrightarrow> carries signal_wire tr db1 objs"
        "objs \<noteq> [] \<longleftrightarrow> ids_free db (generated_ids signal_item db True (ci_parent_name (gdata tr)) tr)"
      using process_signal_ok [OF inv tr] by (auto simp: holds_iff)
    have inv1: "db_inv db1" using p(2) by (rule extendsD)
    have tb: "tables db1 Nets_by_name nm = None" using p(2) free by (simp add: extends_def)
    have up: "module_up db1 = module_up db" using p(2) by (simp add: extends_def module_up_def)
    obtain db2 where n: "ig_lib_add_net (Some nm) objs db1 = Inr (Some (next_addr db1), db2)" "grows db1 db2"
        "module_up db2 = module_up db1" "body_at db2 (next_addr db1) = Some (Net \<lparr>net_objects = objs\<rparr>)"
        "\<forall>x \<in> set objs. map_option net_of (body_at db2 x) = Some (Some (next_addr db1))"
        "tables db2 = registered Nets_by_name Nets_by_id (next_addr db1) nm (''net##'' @ nm) db1"
        "content_at db1 \<subseteq>\<^sub>m content_at db2"
      using add_net_result [OF inv1 tb p(3)] by (auto simp: holds_iff)
    have "ig_lib_connection nm source targets db = Inr (objs \<noteq> [], Some (next_addr db1), db2)"
      using free m r by (simp add: ig_lib_connection_def g' g(2) table_contains_def build_objects_def p(1) n(1))
    moreover have "grows db db2" using extendsD(2) [OF p(2)] n(2) by (rule grows_trans)
    moreover have "tables db2 Nets_by_name nm = Some (next_addr db1)" by (simp add: n(6) registered_def)
    ultimately show ?thesis using n(3-5) up p(4,5) carries_mono [OF n(7)] by simp
  qed
  show ?thesis
  proof (intro exI conjI)
    show "gen_hierarchies db (source_infos source) [] False = Inr (hs0, False)"
      "gen_hierarchies db targets hs0 False = Inr (hs, False)" by (rule g)+
    have start: "ig_lib_connection nm source targets db =
        (if tables db Nets_by_name nm \<noteq> None then Inr (False, None, db) else
         res_bind (build_objects hs nm ig_lib_htree_process_signal db) (\<lambda>(gen_objs_res, db).
           case gen_objs_res of None \<Rightarrow> Inr (False, None, db)
           | Some objs \<Rightarrow> res_bind (ig_lib_add_net (Some nm) objs db) (\<lambda>(net, db). Inr (objs \<noteq> [], net, db))))"
      by (simp add: ig_lib_connection_def g' g(2) table_contains_def)
    show "if tables db Nets_by_name nm \<noteq> None
      then ig_lib_connection nm source targets db = Inr (False, None, db)
      else case map_option ig_lib_htree_reduce (ig_lib_merge_hierarchy_list hs nm) of
             None \<Rightarrow> ig_lib_connection nm source targets db = Inr (False, None, db)
           | Some Reduced_null \<Rightarrow> ig_lib_connection nm source targets db = Inr (False, None, db)
           | Some Reduced_freed \<Rightarrow> ig_lib_connection nm source targets db = Inl UseAfterFree
           | Some (Reduced tr) \<Rightarrow>
               holds (ig_lib_connection nm source targets db) (\<lambda>(ok, net, db').
                 grows db db' \<and> module_up db' = module_up db \<and>
                 (\<exists>objs n. net = Some n \<and> body_at db' n = Some (Net \<lparr>net_objects = objs\<rparr>) \<and>
                    (ok \<longleftrightarrow> objs \<noteq> []) \<and>
                    (ok \<longleftrightarrow> ids_free db (generated_ids signal_item db True (ci_parent_name (gdata tr)) tr)) \<and>
                    (ok \<longrightarrow> carries signal_wire tr db' objs) \<and>
                    (\<forall>x \<in> set objs. map_option net_of (body_at db' x) = Some (Some n)) \<and>
                    tables db' Nets_by_name nm = Some n))"
    proof (cases "tables db Nets_by_name nm = None")
      case False
      then show ?thesis by (simp add: start)
    next
      case free: True
      show ?thesis
      proof (cases "ig_lib_merge_hierarchy_list hs nm")
        case None
        then show ?thesis using free by (simp add: start build_objects_def)
      next
        case m: (Some tree)
        show ?thesis
        proof (cases "ig_lib_htree_reduce tree")
          case (Reduced tr)
          then show ?thesis using free m main [OF free m Reduced] by simp
        qed (use free m in \<open>simp_all add: start build_objects_def\<close>)
      qed
    qed
  qed
qed

theorem parameter_result:
  assumes inv: "db_inv db" and t: "\<forall>c \<in> set targets. info_ok db c"
  shows "\<exists>hs. gen_hierarchies db targets [] False = Inr (hs, False) \<and>
     (if tables db Generics_by_name nm \<noteq> None
      then ig_lib_parameter nm (Some dv) targets db = Inr (False, None, db)
      else case map_option ig_lib_htree_reduce (ig_lib_merge_hierarchy_list hs nm) of
             None \<Rightarrow> ig_lib_parameter nm (Some dv) targets db = Inr (False, None, db)
           | Some Reduced_null \<Rightarrow> ig_lib_parameter nm (Some dv) targets db = Inr (False, None, db)
           | Some Reduced_freed \<Rightarrow> ig_lib_parameter nm (Some dv) targets db = Inl UseAfterFree
           | Some (Reduced tr) \<Rightarrow>
               holds (ig_lib_parameter nm (Some dv) targets db) (\<lambda>(ok, gen, db').
                 grows db db' \<and> module_up db' = module_up db \<and>
                 (\<exists>objs n. gen = Some n \<and> body_at db' n = Some (Generic \<lparr>generic_objects = objs\<rparr>) \<and>
                    (ok \<longleftrightarrow> objs \<noteq> []) \<and>
                    (ok \<longleftrightarrow> ids_free db (generated_ids parameter_item db True (ci_parent_name (gdata tr)) tr)) \<and>
                    (ok \<longrightarrow> carries (parameter_wire dv) tr db' objs) \<and>
                    (\<forall>x \<in> set objs. map_option generic_of (body_at db' x) = Some (Some n)) \<and>
                    tables db' Generics_by_name nm = Some n)))"
    (is "\<exists>hs. _ \<and> ?R hs")
proof -
  have "top_all (node_ok db) []" by (simp add: top_all_def)
  then obtain hs where g: "gen_hierarchies db targets [] False = Inr (hs, False)" "top_all (node_ok db) hs"
    using gen_hierarchies_ok [OF db_invD(2) [OF inv], of targets "[]" False] t by (auto simp: holds_iff info_ok_def)
  have start: "ig_lib_parameter nm (Some dv) targets db =
      (if tables db Generics_by_name nm \<noteq> None then Inr (False, None, db) else
       res_bind (build_objects hs nm (\<lambda>t. ig_lib_htree_process_parameter t (Some dv)) db) (\<lambda>(gen_objs_res, db).
         case gen_objs_res of None \<Rightarrow> Inr (False, None, db)
         | Some objs \<Rightarrow> res_bind (ig_lib_add_generic (Some nm) objs db) (\<lambda>(gen, db). Inr (objs \<noteq> [], gen, db))))"
    by (simp add: ig_lib_parameter_def g(1) table_contains_def)
  have main: "holds (ig_lib_parameter nm (Some dv) targets db) (\<lambda>(ok, gen, db').
                 grows db db' \<and> module_up db' = module_up db \<and>
                 (\<exists>objs n. gen = Some n \<and> body_at db' n = Some (Generic \<lparr>generic_objects = objs\<rparr>) \<and>
                    (ok \<longleftrightarrow> objs \<noteq> []) \<and>
                    (ok \<longleftrightarrow> ids_free db (generated_ids parameter_item db True (ci_parent_name (gdata tr)) tr)) \<and>
                    (ok \<longrightarrow> carries (parameter_wire dv) tr db' objs) \<and>
                    (\<forall>x \<in> set objs. map_option generic_of (body_at db' x) = Some (Some n)) \<and>
                    tables db' Generics_by_name nm = Some n))"
    if free: "tables db Generics_by_name nm = None" and m: "ig_lib_merge_hierarchy_list hs nm = Some tree"
      and r: "ig_lib_htree_reduce tree = Reduced tr" for tree tr
  proof -
    have tr: "tree_ok db tr" using m g(2) r by (rule reduced_tree_ok)
    obtain objs db1 where p: "ig_lib_htree_process_parameter tr (Some dv) db = Inr (objs, db1)" "extends db db1"
        "\<forall>x \<in> set objs. \<exists>t \<in> generic_types. type_at db1 x = Some t" "objs \<noteq> [] \<longrightarrow> carries (parameter_wire dv) tr db1 objs"
        "objs \<noteq> [] \<longleftrightarrow> ids_free db (generated_ids parameter_item db True (ci_parent_name (gdata tr)) tr)"
      using process_parameter_ok [OF inv tr, of dv] by (auto simp: holds_iff)
    have inv1: "db_inv db1" using p(2) by (rule extendsD)
    have tb: "tables db1 Generics_by_name nm = None" using p(2) free by (simp add: extends_def)
    have up: "module_up db1 = module_up db" using p(2) by (simp add: extends_def module_up_def)
    obtain db2 where n: "ig_lib_add_generic (Some nm) objs db1 = Inr (Some (next_addr db1), db2)" "grows db1 db2"
        "module_up db2 = module_up db1" "body_at db2 (next_addr db1) = Some (Generic \<lparr>generic_objects = objs\<rparr>)"
        "\<forall>x \<in> set objs. map_option generic_of (body_at db2 x) = Some (Some (next_addr db1))"
        "tables db2 = registered Generics_by_name Generics_by_id (next_addr db1) nm (''generic##'' @ nm) db1"
        "content_at db1 \<subseteq>\<^sub>m content_at db2"
      using add_generic_result [OF inv1 tb p(3)] by (auto simp: holds_iff)
    have "ig_lib_parameter nm (Some dv) targets db = Inr (objs \<noteq> [], Some (next_addr db1), db2)"
      using free m r by (simp add: start build_objects_def p(1) n(1))
    moreover have "grows db db2" using extendsD(2) [OF p(2)] n(2) by (rule grows_trans)
    moreover have "tables db2 Generics_by_name nm = Some (next_addr db1)" by (simp add: n(6) registered_def)
    ultimately show ?thesis using n(3-5) up p(4,5) carries_mono [OF n(7)] by simp
  qed
  have "?R hs"
  proof (cases "tables db Generics_by_name nm = None")
    case False
    then show ?thesis by (simp add: start)
  next
    case free: True
    show ?thesis
    proof (cases "ig_lib_merge_hierarchy_list hs nm")
      case None
      then show ?thesis using free by (simp add: start build_objects_def)
    next
      case m: (Some tree)
      show ?thesis
      proof (cases "ig_lib_htree_reduce tree")
        case (Reduced tr)
        then show ?thesis using free m main [OF free m Reduced] by simp
      qed (use free m in \<open>simp_all add: start build_objects_def\<close>)
    qed
  qed
  with g(1) show ?thesis by blast
qed

end
