(* ===== verification/Ig_Merge.thy ===== *)
theory Ig_Merge
  imports Ig_Signals
begin

text \<open>
  What merging and reducing do to the hierarchies of a signal: when a common tree exists, which
  paths it has, how the directions of the endpoints combine, and where the reduced tree starts.
\<close>

section \<open>Combining directions\<close>

lemma merge_dir_table:
  "merge_dir IG_LCDIR_DEFAULT d = d" "merge_dir d IG_LCDIR_DEFAULT = d" "merge_dir d d = d"
  "d \<noteq> e \<Longrightarrow> d \<noteq> IG_LCDIR_DEFAULT \<Longrightarrow> e \<noteq> IG_LCDIR_DEFAULT \<Longrightarrow> merge_dir d e = IG_LCDIR_BIDIR"
  by (auto simp: merge_dir_def)

lemma merge_dir_laws:
  "merge_dir a b = merge_dir b a" "merge_dir (merge_dir a b) c = merge_dir a (merge_dir b c)"
  by (cases a; cases b; cases c; simp add: merge_dir_def)+

lemma foldl_merge_dir:
  "foldl merge_dir d ds =
     (let es = filter (\<lambda>e. e \<noteq> IG_LCDIR_DEFAULT) (d # ds)
      in case es of [] \<Rightarrow> IG_LCDIR_DEFAULT | e # _ \<Rightarrow> if \<forall>x \<in> set es. x = e then e else IG_LCDIR_BIDIR)"
proof (induction ds arbitrary: d)
  case Nil
  then show ?case by simp
next
  case (Cons e ds)
  show ?case
    unfolding foldl_Cons Cons.IH
    by (cases d; cases e) (auto simp: merge_dir_def Let_def)
qed

section \<open>When the merge succeeds\<close>

lemma merge_level_None:
  "merge_level node li s = None \<longleftrightarrow> (\<exists>h \<in> set li. ci_obj (fst h) \<noteq> ci_obj node)"
  by (induction node li s rule: merge_level.induct) auto

lemma merge_None:
  "ig_lib_merge_hierarchy_list hs nm = None \<longleftrightarrow> hs = [] \<or> (\<exists>h \<in> set hs. ci_obj (fst h) \<noteq> ci_obj (fst (hd hs)))"
proof (cases hs)
  case (Cons h hs')
  have "ig_lib_merge_hierarchy_list hs nm = None \<longleftrightarrow> merge_level (fst h) hs' (prepend_next (snd h) []) = None"
    using Cons by (simp split: option.split)
  then show ?thesis using Cons by (simp only: merge_level_None) simp
qed simp

lemma group_hiers_same:
  "g \<in> set (group_hiers hs) \<Longrightarrow> g \<noteq> [] \<and> (\<forall>h \<in> set g. ci_obj (fst h) = ci_obj (fst (hd g)))"
proof (induction hs rule: group_hiers.induct)
  case (2 r li)
  then consider "g = r # filter (\<lambda>i. same_child (fst r) (fst i)) li"
    | "g \<in> set (group_hiers (filter (\<lambda>i. \<not> same_child (fst r) (fst i)) li))" by auto
  then show ?case
  proof cases
    case 1
    then show ?thesis by (simp add: same_child_def)
  next
    case 2
    with "2.IH" show ?thesis by blast
  qed
qed simp

lemma group_hiers_cover: "h \<in> set hs \<Longrightarrow> \<exists>g \<in> set (group_hiers hs). h \<in> set g"
proof (induction hs rule: group_hiers.induct)
  case (2 r li)
  show ?case
  proof (cases "h = r \<or> same_child (fst r) (fst h)")
    case True
    then show ?thesis using "2.prems" by auto
  next
    case False
    then obtain g where "g \<in> set (group_hiers (filter (\<lambda>i. \<not> same_child (fst r) (fst i)) li))" "h \<in> set g"
      using 2 by auto
    then show ?thesis by auto
  qed
qed simp

section \<open>Paths\<close>

fun path_in :: "addr list \<Rightarrow> ig_lib_connection_info gnode \<Rightarrow> bool" where
  "path_in [] t = True"
| "path_in (x # xs) (GNode c ts) \<longleftrightarrow> ci_obj c = x \<and> (xs = [] \<or> (\<exists>t \<in> set ts. path_in xs t))"

definition hier_path :: "hier \<Rightarrow> addr list" where
  "hier_path h = map ci_obj (fst h # snd h)"

lemma merge_level_keep:
  "merge_level node li s = Some (node', s') \<Longrightarrow> set s \<subseteq> set s'"
proof (induction node li s rule: merge_level.induct)
  case (2 node i rest li s)
  then show ?case by (cases rest) (auto split: if_splits)
qed simp

lemma merge_level_stable:
  assumes "merge_level node li s = Some (node', s')" and "\<And>n i. E n \<or> E i \<Longrightarrow> E (merge_info n i)"
    and "E node \<or> (\<exists>h \<in> set li. E (fst h))"
  shows "E node'"
  using assms
proof (induction node li s rule: merge_level.induct)
  case (2 node i rest li s)
  have "merge_level (merge_info node i) li (prepend_next rest s) = Some (node', s')" "ci_obj i = ci_obj node"
    using "2.prems"(1) by (simp_all split: if_splits)
  moreover have "E (merge_info node i) \<or> (\<exists>h \<in> set li. E (fst h))" using "2.prems"(2,3) by auto
  ultimately show ?case using "2.IH" "2.prems"(2) by blast
qed simp

lemma merge_level_from:
  "merge_level node li s = Some (node', s') \<Longrightarrow> h \<in> set s' \<Longrightarrow> h \<in> set s \<or> (\<exists>c. (c, fst h # snd h) \<in> set li)"
proof (induction node li s rule: merge_level.induct)
  case (2 node i rest li s)
  then show ?case by (cases rest) (auto split: if_splits)
qed simp

lemma merge_level_succ:
  "merge_level node li s = Some (node', s') \<Longrightarrow> (c, d # ds) \<in> set li \<Longrightarrow> (d, ds) \<in> set s'"
proof (induction node li s rule: merge_level.induct)
  case (2 node i rest li s)
  then have r: "merge_level (merge_info node i) li (prepend_next rest s) = Some (node', s')"
    by (simp split: if_splits)
  show ?case
  proof (cases "(c, d # ds) = (i, rest)")
    case True
    then show ?thesis using merge_level_keep [OF r] by auto
  next
    case False
    then show ?thesis using 2 r by (auto split: if_splits)
  qed
qed simp

text \<open>A path whose last node satisfies \<open>E\<close>.\<close>

fun ends_in :: "(ig_lib_connection_info \<Rightarrow> bool) \<Rightarrow> addr list \<Rightarrow> ig_lib_connection_info gnode \<Rightarrow> bool" where
  "ends_in E [] t = False"
| "ends_in E (x # xs) (GNode c ts) \<longleftrightarrow> ci_obj c = x \<and> (if xs = [] then E c else \<exists>t \<in> set ts. ends_in E xs t)"

lemma ends_path: "ends_in E xs t \<Longrightarrow> path_in xs t"
  by (induction E xs t rule: ends_in.induct) (auto split: if_splits)

text \<open>The tree of a merge, one level at a time.\<close>

lemma merge_node:
  assumes "ig_lib_merge_hierarchy_list (h0 # hs) nm = Some t"
  obtains node s where "merge_level (fst h0) hs (prepend_next (snd h0) []) = Some (node, s)"
    "gdata t = node\<lparr>ci_local_name := Some (node_name nm node)\<rparr>"
    "set (gchildren t) = {t'. \<exists>g \<in> set (group_hiers s). ig_lib_merge_hierarchy_list g (child_default_name nm node) = Some t'}"
    "\<forall>h \<in> set (h0 # hs). ci_obj (fst h) = ci_obj node"
    "\<forall>h \<in> set (h0 # hs). snd h \<noteq> [] \<longrightarrow> (hd (snd h), tl (snd h)) \<in> set s"
proof -
  obtain node s where lv: "merge_level (fst h0) hs (prepend_next (snd h0) []) = Some (node, s)"
    using assms by (auto split: option.splits)
  have t: "t = GNode (node\<lparr>ci_local_name := Some (node_name nm node)\<rparr>)
            (concat (map (\<lambda>g. case ig_lib_merge_hierarchy_list g (child_default_name nm node) of
                                None \<Rightarrow> [] | Some t \<Rightarrow> [t]) (rev (group_hiers s))))"
    using assms lv by simp
  have obj: "\<forall>h \<in> set (h0 # hs). ci_obj (fst h) = ci_obj node"
    using merge_level_all [OF lv, of "\<lambda>_. True"] by (auto simp: tails_all_def hier_all_def)
  have "(hd (snd h), tl (snd h)) \<in> set s" if "h \<in> set (h0 # hs)" "snd h \<noteq> []" for h
  proof (cases "h = h0")
    case True
    then show ?thesis using merge_level_keep [OF lv] that(2) by (cases "snd h0") auto
  next
    case False
    then have "(fst h, hd (snd h) # tl (snd h)) \<in> set hs" using that by simp
    then show ?thesis by (rule merge_level_succ [OF lv])
  qed
  moreover have "set (gchildren t) =
      {t'. \<exists>g \<in> set (group_hiers s). ig_lib_merge_hierarchy_list g (child_default_name nm node) = Some t'}"
    unfolding t by (auto split: option.splits simp: eq_commute [of "Some _"])
  ultimately show thesis using that [OF lv _ _ obj] t by simp
qed

lemma merge_ends:
  assumes E: "\<And>n i. E n \<or> E i \<Longrightarrow> E (merge_info n i)" "\<And>n nm. E n \<Longrightarrow> E (n\<lparr>ci_local_name := nm\<rparr>)"
  shows "ig_lib_merge_hierarchy_list hs nm = Some t \<Longrightarrow> h \<in> set hs \<Longrightarrow> E (last (fst h # snd h)) \<Longrightarrow>
    ends_in E (hier_path h) t"
proof (induction hs nm arbitrary: t h rule: ig_lib_merge_hierarchy_list.induct)
  case (2 h0 hs nm)
  from "2.prems"(1) show ?case
  proof (cases rule: merge_node)
    case (1 node s)
    have obj: "ci_obj node = ci_obj (fst h)" using bspec [OF 1(4) "2.prems"(2)] by simp
    show ?thesis
    proof (cases "snd h")
      case Nil
      have "E (fst h0) \<or> (\<exists>h \<in> set hs. E (fst h)) \<Longrightarrow> E node" using 1(1) E(1) by (rule merge_level_stable)
      then have "E (gdata t)" using "2.prems"(2,3) Nil E(2) 1(2) by auto
      then show ?thesis using Nil obj 1(2) by (cases t) (simp add: hier_path_def)
    next
      case (Cons d ds)
      then have "(d, ds) \<in> set s" using 1(5) "2.prems"(2) by fastforce
      then obtain g where g: "g \<in> set (group_hiers s)" "(d, ds) \<in> set g" using group_hiers_cover by blast
      have "ig_lib_merge_hierarchy_list g (child_default_name nm node) \<noteq> None"
        using group_hiers_same [OF g(1)] unfolding merge_None by blast
      then obtain t' where t': "ig_lib_merge_hierarchy_list g (child_default_name nm node) = Some t'" by blast
      have "ends_in E (hier_path (d, ds)) t'"
        using "2.IH" [OF 1(1) refl _ t' g(2)] g(1) "2.prems"(3) Cons by simp
      moreover have "t' \<in> set (gchildren t)" using 1(3) g(1) t' by blast
      ultimately show ?thesis using obj Cons 1(2) by (cases t) (auto simp: hier_path_def)
    qed
  qed
qed simp

lemma merge_paths:
  assumes "ig_lib_merge_hierarchy_list hs nm = Some t" and "h \<in> set hs"
  shows "path_in (hier_path h) t"
  using ends_path [OF merge_ends [OF _ _ assms, of "\<lambda>_. True"]] by simp

lemma root_info:
  "merge_level node li s = Some (node', s') \<Longrightarrow>
     ci_dir node' = foldl merge_dir (ci_dir node) (map (ci_dir \<circ> fst) li) \<and>
     (ci_invert node' \<longleftrightarrow> ci_invert node \<or> (\<exists>h \<in> set li. ci_invert (fst h))) \<and>
     (ci_is_explicit node' \<longleftrightarrow> ci_is_explicit node \<or> (\<exists>h \<in> set li. ci_is_explicit (fst h)))"
proof (induction node li s rule: merge_level.induct)
  case (2 node i rest li s)
  have i: "ci_dir (merge_info node i) = merge_dir (ci_dir node) (ci_dir i)"
    "ci_invert (merge_info node i) = (ci_invert node \<or> ci_invert i)"
    "ci_is_explicit (merge_info node i) = (ci_is_explicit node \<or> ci_is_explicit i)"
    by (simp_all add: merge_info_def Let_def)
  have r: "merge_level (merge_info node i) li (prepend_next rest s) = Some (node', s')" "ci_obj i = ci_obj node"
    using "2.prems" by (simp_all split: if_splits)
  then show ?case using "2.IH" by (simp add: i)
qed simp

section \<open>Properties\<close>

text \<open>The hierarchies of the endpoints merge exactly when there are any and they all start at the
  same root; below the root merging never fails.\<close>

theorem merge_succeeds_iff:
  "ig_lib_merge_hierarchy_list hs nm \<noteq> None \<longleftrightarrow> hs \<noteq> [] \<and> (\<forall>h \<in> set hs. ci_obj (fst h) = ci_obj (fst (hd hs)))"
  using merge_None [of hs nm] by auto

theorem merge_succeeds_iff_witness: "ig_lib_merge_hierarchy_list [] ''n'' = None"
  using merge_succeeds_iff [of "[]" "''n''"] by simp

text \<open>C16. The merged tree contains the hierarchy of every endpoint as a path from its root, consists
  of nothing but objects of these hierarchies, and every node has a local name.\<close>

theorem merge_tree_paths:
  assumes "ig_lib_merge_hierarchy_list hs nm = Some t"
  shows "(\<forall>h \<in> set hs. path_in (hier_path h) t) \<and>
     (\<forall>c \<in> set_gnode t. (\<exists>h \<in> set hs. ci_obj c \<in> set (hier_path h)) \<and> ci_local_name c \<noteq> None)"
proof -
  have "hier_all (\<lambda>x. \<exists>h \<in> set hs. x \<in> set (hier_path h)) hs"
    by (auto simp: hier_all_def tails_all_def hier_path_def)
  from merge_tree_all [OF assms this] show ?thesis using merge_paths [OF assms] by blast
qed

definition example_info :: "addr \<Rightarrow> ig_lib_connection_dir \<Rightarrow> ig_lib_connection_info" where
  "example_info a d =
     \<lparr>ci_obj = a, ci_parent_name = None, ci_local_name = None, ci_is_explicit = False,
      ci_force_name = False, ci_dir = d, ci_invert = False\<rparr>"

theorem merge_tree_paths_witness:
  "\<exists>t. ig_lib_merge_hierarchy_list
         [(example_info 0 IG_LCDIR_UP, [example_info 1 IG_LCDIR_UP]),
          (example_info 0 IG_LCDIR_DEFAULT, [example_info 2 IG_LCDIR_DEFAULT])] ''s'' = Some t \<and>
       path_in [0, 1] t \<and> path_in [0, 2] t"
proof -
  let ?hs = "[(example_info 0 IG_LCDIR_UP, [example_info 1 IG_LCDIR_UP]),
          (example_info 0 IG_LCDIR_DEFAULT, [example_info 2 IG_LCDIR_DEFAULT])]"
  obtain t where t: "ig_lib_merge_hierarchy_list ?hs ''s'' = Some t"
    using merge_None [of ?hs "''s''"]
    by (cases "ig_lib_merge_hierarchy_list ?hs ''s''") (auto simp: example_info_def)
  from merge_tree_paths [OF t] show ?thesis using t by (auto simp: hier_path_def example_info_def)
qed

text \<open>At every merge the direction of a node is the combination of the directions that meet
  there: unspecified if all are, the common direction if the specified ones agree, and
  bidirectional otherwise. It does not depend on the order of the endpoints.\<close>

theorem merged_root_dir:
  assumes "ig_lib_merge_hierarchy_list hs nm = Some t"
  shows "ci_dir (gdata t) =
     (case filter (\<lambda>d. d \<noteq> IG_LCDIR_DEFAULT) (map (ci_dir \<circ> fst) hs) of
        [] \<Rightarrow> IG_LCDIR_DEFAULT
      | d # ds \<Rightarrow> if \<forall>e \<in> set ds. e = d then d else IG_LCDIR_BIDIR) \<and>
     (ci_invert (gdata t) \<longleftrightarrow> (\<exists>h \<in> set hs. ci_invert (fst h))) \<and>
     (ci_is_explicit (gdata t) \<longleftrightarrow> (\<exists>h \<in> set hs. ci_is_explicit (fst h)))"
proof (cases hs)
  case (Cons h hs')
  obtain node s where lv: "merge_level (fst h) hs' (prepend_next (snd h) []) = Some (node, s)"
    using assms Cons by (auto split: option.splits)
  have "gdata t = node\<lparr>ci_local_name := Some (node_name nm node)\<rparr>" using assms lv Cons by auto
  then show ?thesis
    using root_info [OF lv] Cons
    by (auto simp: foldl_merge_dir Let_def comp_def split: list.split)
qed (use assms in simp)

theorem merged_root_dir_witness:
  "\<exists>t. ig_lib_merge_hierarchy_list
         [(example_info 0 IG_LCDIR_UP, []), (example_info 0 IG_LCDIR_DEFAULT, []),
          (example_info 0 IG_LCDIR_DOWN, [])] ''s'' = Some t \<and> ci_dir (gdata t) = IG_LCDIR_BIDIR"
proof -
  let ?hs = "[(example_info 0 IG_LCDIR_UP, []), (example_info 0 IG_LCDIR_DEFAULT, []),
          (example_info 0 IG_LCDIR_DOWN, [])]"
  obtain t where t: "ig_lib_merge_hierarchy_list ?hs ''s'' = Some t"
    using merge_None [of ?hs "''s''"]
    by (cases "ig_lib_merge_hierarchy_list ?hs ''s''") (auto simp: example_info_def)
  from merged_root_dir [OF t] show ?thesis using t by (auto simp: example_info_def)
qed

text \<open>The nodes the reduction passes: each the only child of the one before.\<close>

inductive only_child :: "ig_lib_connection_info gnode \<Rightarrow> ig_lib_connection_info gnode \<Rightarrow> bool" where
  direct: "only_child (GNode c [t]) t"
| deeper: "\<not> ci_is_explicit (gdata t) \<Longrightarrow> only_child t u \<Longrightarrow> only_child (GNode c [t]) u"

inductive_simps only_child_GNode: "only_child (GNode c ts) u"

lemma reduce_loop_iff:
  "reduce_loop b t = Some (False, u) \<longleftrightarrow>
     (only_child t u \<and> (ci_is_explicit (gdata u) \<or> 2 \<le> length (gchildren u))) \<or>
     (\<not> b \<and> u = t \<and> 2 \<le> length (gchildren t))"
proof (induction b t rule: reduce_loop.induct)
  case (1 b c cs)
  show ?case
  proof (cases cs)
    case Nil
    then show ?thesis by (simp add: only_child_GNode)
  next
    case (Cons t ts)
    show ?thesis
    proof (cases ts)
      case Nil
      have "reduce_loop False t = Some (False, u) \<longleftrightarrow>
          (only_child t u \<and> (ci_is_explicit (gdata u) \<or> 2 \<le> length (gchildren u))) \<or>
          (u = t \<and> 2 \<le> length (gchildren t))" if "\<not> ci_is_explicit (gdata t)"
        using "1.IH" [of t "[]"] Cons Nil that by simp
      then show ?thesis
        using Cons Nil by (auto simp: only_child_GNode)
    next
      case (Cons t' ts')
      then show ?thesis using \<open>cs = t # ts\<close> by (auto simp: only_child_GNode)
    qed
  qed
qed

lemma reduce_loop_root:
  "reduce_loop b t = Some (True, u) \<longleftrightarrow> b \<and> u = t \<and> 2 \<le> length (gchildren t)"
proof (induction b t rule: reduce_loop.induct)
  case (1 b c cs)
  then show ?case by (cases cs; cases "tl cs") auto
qed

lemma reduce_iff:
  "ig_lib_htree_reduce t = Reduced u \<longleftrightarrow> only_child t u \<and> (ci_is_explicit (gdata u) \<or> 2 \<le> length (gchildren u))"
proof -
  have "ig_lib_htree_reduce t = Reduced u \<longleftrightarrow> reduce_loop True t = Some (False, u)"
    by (auto simp: ig_lib_htree_reduce_def split: option.split)
  then show ?thesis by (simp add: reduce_loop_iff)
qed

text \<open>C17. \<open>ig_lib_htree_reduce\<close> returns the first node below the root that is an explicit endpoint or
  a branching, along nodes with a single child. When the root itself branches, what it returns has
  been freed.\<close>

theorem htree_reduce_correct:
  "(ig_lib_htree_reduce t = Reduced u \<longleftrightarrow>
      only_child t u \<and> (ci_is_explicit (gdata u) \<or> 2 \<le> length (gchildren u))) \<and>
   (ig_lib_htree_reduce t = Reduced_freed \<longleftrightarrow> 2 \<le> length (gchildren t))"
proof -
  have "ig_lib_htree_reduce t = Reduced_freed \<longleftrightarrow> (\<exists>v. reduce_loop True t = Some (True, v))"
    by (auto simp: ig_lib_htree_reduce_def split: option.split)
  then show ?thesis by (simp add: reduce_iff reduce_loop_root)
qed

end
