(* ===== verification/Ig_Api.thy ===== *)
theory Ig_Api
  imports Ig_Signals
begin

text \<open>
  The interface of \<open>src/lib/ig_lib.h\<close> as a state machine: a client issues calls one after the
  other, passing pointers to live objects of the declared types. \<open>reachable\<close> collects the
  databases this leads to. Every one of them satisfies \<open>db_inv\<close>, and the only calls that do not
  return are named.
\<close>

section \<open>Calls\<close>

datatype lib_call =
    Add_module string bool bool
  | Add_port addr ig_port_dir string
  | Add_pin addr string string "string option"
  | Add_codesection "string option" string addr
  | Add_regfile string addr
  | Add_regfile_entry string addr
  | Add_regfile_reg string addr
  | Add_instance string addr addr
  | Connection string "ig_lib_connection_info option" "ig_lib_connection_info list"
  | Parameter string string "ig_lib_connection_info list"

fun lib_exec :: "lib_call \<Rightarrow> ig_lib_db \<Rightarrow> (ptr \<times> ig_lib_db) res" where
  "lib_exec (Add_module nm ilm resource) db = ig_lib_add_module (Some nm) ilm resource db"
| "lib_exec (Add_port m dir nm) db = ig_lib_add_port (Some m) dir (Some nm) db"
| "lib_exec (Add_pin i nm conn iv) db = ig_lib_add_pin (Some i) (Some nm) (Some conn) iv db"
| "lib_exec (Add_codesection nm code m) db = ig_lib_add_codesection nm (Some code) (Some m) db"
| "lib_exec (Add_regfile nm m) db = ig_lib_add_regfile (Some nm) (Some m) db"
| "lib_exec (Add_regfile_entry nm r) db = ig_lib_add_regfile_entry (Some nm) (Some r) db"
| "lib_exec (Add_regfile_reg nm e) db = ig_lib_add_regfile_reg (Some nm) (Some e) db"
| "lib_exec (Add_instance nm t p) db = ig_lib_add_instance (Some nm) (Some t) (Some p) db"
| "lib_exec (Connection nm src targets) db =
     res_bind (ig_lib_connection nm src targets db) (\<lambda>(_, net, db). Inr (net, db))"
| "lib_exec (Parameter nm dv targets) db =
     res_bind (ig_lib_parameter nm (Some dv) targets db) (\<lambda>(_, gen, db). Inr (gen, db))"

fun call_ok :: "ig_lib_db \<Rightarrow> lib_call \<Rightarrow> bool" where
  "call_ok db (Add_module nm ilm resource) = True"
| "call_ok db (Add_port m dir nm) = (type_at db m = Some IG_OBJ_MODULE)"
| "call_ok db (Add_pin i nm conn iv) = (type_at db i = Some IG_OBJ_INSTANCE)"
| "call_ok db (Add_codesection nm code m) = (type_at db m = Some IG_OBJ_MODULE)"
| "call_ok db (Add_regfile nm m) = (type_at db m = Some IG_OBJ_MODULE)"
| "call_ok db (Add_regfile_entry nm r) = (type_at db r = Some IG_OBJ_REGFILE)"
| "call_ok db (Add_regfile_reg nm e) = (type_at db e = Some IG_OBJ_REGFILE_ENTRY)"
| "call_ok db (Add_instance nm t p) = (type_at db t = Some IG_OBJ_MODULE \<and> type_at db p = Some IG_OBJ_MODULE)"
| "call_ok db (Connection nm src targets) =
     (\<forall>c \<in> set (source_infos src @ targets). type_at db (ci_obj c) = Some IG_OBJ_MODULE \<or>
        type_at db (ci_obj c) = Some IG_OBJ_INSTANCE)"
| "call_ok db (Parameter nm dv targets) =
     (\<forall>c \<in> set targets. type_at db (ci_obj c) = Some IG_OBJ_MODULE \<or>
        type_at db (ci_obj c) = Some IG_OBJ_INSTANCE)"

inductive lib_step :: "ig_lib_db \<Rightarrow> lib_call \<Rightarrow> ig_lib_db \<Rightarrow> bool" where
  call: "call_ok db c \<Longrightarrow> lib_exec c db = Inr (r, db') \<Longrightarrow> lib_step db c db'"

inductive reachable :: "ig_lib_db \<Rightarrow> bool" where
  start: "reachable ig_lib_db_new"
| step: "reachable db \<Longrightarrow> lib_step db c db' \<Longrightarrow> reachable db'"

inductive_cases lib_stepE: "lib_step db c db'"
inductive_simps lib_step_iff: "lib_step db c db'"

section \<open>The invariant\<close>

lemma db_inv_new: "db_inv ig_lib_db_new"
proof -
  have "finite (UNIV :: ig_table set)" by (rule finite_tables)
  have sk: "mod_skel ig_lib_db_new = Map.empty" "inst_skel ig_lib_db_new = Map.empty"
    by (auto simp: fun_eq_iff mod_skel_def inst_skel_def ig_lib_db_new_def)
  then have "module_up ig_lib_db_new = Map.empty" by (auto simp: module_up_def up_of_def)
  then have "hier_inv ig_lib_db_new" by (simp add: hier_inv_def sk skel_ok_def)
  moreover have "base_inv 0 0 ig_lib_db_new"
    by (simp add: base_inv_def heap_ok_def tables_ok_def counts_ok_def ig_lib_db_new_def)
  moreover have "anch_inv ig_lib_db_new" "mods_inv ig_lib_db_new" "default_named ig_lib_db_new"
    by (simp_all add: anch_inv_def mods_inv_def default_named_def sk) (simp_all add: ig_lib_db_new_def)
  ultimately show ?thesis by (simp add: db_inv_def)
qed

lemma endpoint_type:
  assumes "type_at db x = Some IG_OBJ_MODULE \<or> type_at db x = Some IG_OBJ_INSTANCE"
  shows "endpoint_ok db x"
proof -
  consider s m where "heap db x = Some s" "obj_body s = Module m" | s i where "heap db x = Some s" "obj_body s = Instance i"
    using assms body_of_type(1,2) by blast
  then show ?thesis by cases (auto simp: endpoint_ok_def mod_skel_def inst_skel_def)
qed

text \<open>The faults a call may end in: two calls can, each for one reason.\<close>

definition expected_fault :: "lib_call \<Rightarrow> ig_lib_db \<Rightarrow> fault \<Rightarrow> bool" where
  "expected_fault c db e =
     (case c of
        Add_regfile nm m \<Rightarrow> e = InternalError \<and> tables db Regfiles_by_name nm = None \<and>
          (\<exists>sp. heap db m = Some sp \<and> tables db Objects_by_id (make_id IG_OBJ_REGFILE [sp] nm) \<noteq> None)
      | Connection nm src targets \<Rightarrow> e = UseAfterFree \<and> tables db Nets_by_name nm = None
      | Parameter nm dv targets \<Rightarrow> e = UseAfterFree \<and> tables db Generics_by_name nm = None
      | _ \<Rightarrow> False)"

definition outcome :: "lib_call \<Rightarrow> ig_lib_db \<Rightarrow> (ptr \<times> ig_lib_db) res \<Rightarrow> bool" where
  "outcome c db r = (case r of Inl e \<Rightarrow> expected_fault c db e | Inr (p, db') \<Rightarrow> grows db db')"

lemma outcome_holds: "holds r (\<lambda>(_, db'). grows db db') \<Longrightarrow> outcome c db r"
  by (cases r) (auto simp: outcome_def)

lemma outcome_weaken: "holds r Q \<Longrightarrow> (\<And>p db'. Q (p, db') \<Longrightarrow> grows db db') \<Longrightarrow> outcome c db r"
  by (cases r) (auto simp: outcome_def)

lemma module_instance:
  assumes inv: "db_inv db" and t: "heap db t = Some st" "obj_body st = Module tb" "\<not> mod_resource tb"
  shows "\<exists>d sd ib. mod_default_instance tb = Some d \<and> heap db d = Some sd \<and> obj_body sd = Instance ib"
proof -
  have "mod_skel db t = Some (False, mod_default_instance tb, mod_mod_instances tb)"
    using t by (simp add: mod_skel_Some)
  then obtain d p where "mod_default_instance tb = Some d" "inst_skel db d = Some (Some t, p)"
    using skel_default [of "mod_skel db" "inst_skel db"] db_invD(2) [OF inv] by (fastforce simp: hier_inv_def)
  then show ?thesis by (auto simp: inst_skel_Some)
qed

theorem exec_outcome:
  assumes inv: "db_inv db" and ok: "call_ok db c"
  shows "outcome c db (lib_exec c db)"
proof (cases c)
  case (Add_module nm ilm resource)
  show ?thesis
    unfolding Add_module lib_exec.simps
    by (rule outcome_weaken [OF add_module_result [OF inv]]) (auto simp: grows_refl [OF inv] split: if_splits)
next
  case (Add_port m dir nm)
  then show ?thesis using grows_add_port [OF inv] ok by (auto intro: outcome_holds)
next
  case (Add_pin i nm conn iv)
  then show ?thesis using grows_add_pin [OF inv] ok by (auto intro: outcome_holds)
next
  case (Add_codesection nm code m)
  then obtain s mb where "heap db m = Some s" "obj_body s = Module mb" using ok body_of_type(1) [of db m] by auto
  note r = add_codesection_result [OF inv this, of nm code]
  show ?thesis
    unfolding Add_codesection lib_exec.simps
    by (rule outcome_weaken [OF r]) (auto simp: grows_refl [OF inv] split: if_splits)
next
  case (Add_regfile nm m)
  then obtain s mb where s: "heap db m = Some s" "obj_body s = Module mb" using ok body_of_type(1) [of db m] by auto
  note r = add_regfile_result [OF inv s, of nm]
  show ?thesis
  proof (cases "(tables db Regfiles_by_name nm \<noteq> None \<or> mod_resource mb) \<or>
      tables db Objects_by_id (make_id IG_OBJ_REGFILE [s] nm) \<noteq> None")
    case True
    with r s Add_regfile show ?thesis
      by (auto simp: outcome_def expected_fault_def grows_refl [OF inv] split: if_splits)
  next
    case False
    with r have "holds (ig_lib_add_regfile (Some nm) (Some m) db) (\<lambda>(p, db').
        p = Some (next_addr db) \<and> grows db db' \<and>
        tables db' = registered Regfiles_by_name Regfiles_by_id (next_addr db) nm
                       (make_id IG_OBJ_REGFILE [s] nm) db \<and>
        type_at db' (next_addr db) = Some IG_OBJ_REGFILE)" by simp
    then show ?thesis unfolding Add_regfile lib_exec.simps by (rule outcome_weaken) auto
  qed
next
  case (Add_regfile_entry nm r)
  then show ?thesis using grows_add_entry [OF inv] ok by (auto intro: outcome_holds)
next
  case (Add_regfile_reg nm e)
  then show ?thesis using grows_add_reg [OF inv] ok by (auto intro: outcome_holds)
next
  case (Add_instance nm t p)
  then obtain st tb sp pb where t: "heap db t = Some st" "obj_body st = Module tb"
      and p: "heap db p = Some sp" "obj_body sp = Module pb"
    using ok Add_instance body_of_type(1) [of db t] body_of_type(1) [of db p] by auto
  show ?thesis
  proof (cases "mod_resource tb")
    case True
    note r = add_instance_resource_result [OF inv t True p, of nm]
    show ?thesis
      unfolding Add_instance lib_exec.simps
      by (rule outcome_weaken [OF r]) (auto simp: grows_refl [OF inv] split: if_splits)
  next
    case False
    obtain d sd ib where d: "mod_default_instance tb = Some d" "heap db d = Some sd" "obj_body sd = Instance ib"
      using module_instance [OF inv t False] by blast
    note r = add_instance_module_result [OF inv t False d p, of nm]
    show ?thesis
      unfolding Add_instance lib_exec.simps
      by (rule outcome_weaken [OF r]) (auto simp: grows_refl [OF inv] split: if_splits)
  qed
next
  case (Connection nm src targets)
  have "\<forall>c \<in> set (source_infos src). info_ok db c" "\<forall>c \<in> set targets. info_ok db c"
    using ok Connection endpoint_type by (auto simp: info_ok_def)
  from connection_result [OF inv this, of nm] show ?thesis
    by (auto simp: Connection outcome_def expected_fault_def holds_iff grows_refl [OF inv]
        split: if_splits option.splits reduce_result.splits sum.splits)
next
  case (Parameter nm dv targets)
  have "\<forall>c \<in> set targets. info_ok db c"
    using ok Parameter endpoint_type by (auto simp: info_ok_def)
  from parameter_result [OF inv this, of nm dv] show ?thesis
    by (auto simp: Parameter outcome_def expected_fault_def holds_iff grows_refl [OF inv]
        split: if_splits option.splits reduce_result.splits sum.splits)
qed

lemma reachable_inv: "reachable db \<Longrightarrow> db_inv db"
proof (induction rule: reachable.induct)
  case start
  then show ?case by (rule db_inv_new)
next
  case (step db c db')
  then obtain r where "call_ok db c" "lib_exec c db = Inr (r, db')" by (auto elim: lib_stepE)
  then show ?case using exec_outcome [OF step.IH, of c] by (simp add: outcome_def grows_def)
qed

end
