(* ===== verification/Ig_Example.thy ===== *)
theory Ig_Example
  imports Ig_Merge Ig_Api
begin

text \<open>
  Reachable databases the witnesses use: a module, a module with a resource next to it, a regfile
  with an entry, and a module inside another with a signal that connects the two.
\<close>

section \<open>Small databases\<close>

definition example_db :: "ig_lib_db" where
  "example_db = (case lib_exec (Add_module ''top'' False False) ig_lib_db_new of
                   Inr (_, db) \<Rightarrow> db | Inl _ \<Rightarrow> ig_lib_db_new)"

lemma example_exec:
  "\<exists>p. lib_exec (Add_module ''top'' False False) ig_lib_db_new = Inr (p, example_db) \<and>
     type_at example_db 0 = Some IG_OBJ_MODULE \<and> tables example_db Modules_by_name ''top'' = Some 0 \<and>
     tables example_db = registered Modules_by_name Modules_by_id 0 ''top'' (module_id ''top'') ig_lib_db_new \<and>
     mod_skel example_db 0 = Some (False, Some 1, [])"
proof -
  have "holds (ig_lib_add_module (Some ''top'') False False ig_lib_db_new) (\<lambda>(p, db').
     p = Some 0 \<and> grows ig_lib_db_new db' \<and>
     tables db' = registered Modules_by_name Modules_by_id 0 ''top'' (module_id ''top'') ig_lib_db_new \<and>
     type_at db' 0 = Some IG_OBJ_MODULE \<and> mod_skel db' 0 = Some (False, Some 1, []))"
  proof -
    have "tables ig_lib_db_new Modules_by_name ''top'' = None" "next_addr ig_lib_db_new = 0"
      by (simp_all add: ig_lib_db_new_def)
    then show ?thesis
      by (intro holds_mono [OF add_module_result [OF db_inv_new, of "''top''" False False]]) auto
  qed
  then show ?thesis by (auto simp: holds_iff example_db_def registered_def)
qed

lemma reachable_example: "reachable example_db"
proof -
  have "call_ok ig_lib_db_new (Add_module ''top'' False False)" by simp
  then have "lib_step ig_lib_db_new (Add_module ''top'' False False) example_db"
    using example_exec by (auto intro: lib_step.call)
  then show ?thesis by (rule reachable.step [OF reachable.start])
qed

lemma example_module: "\<exists>s mb. heap example_db 0 = Some s \<and> obj_body s = Module mb"
  using example_exec body_of_type(1) [of example_db 0] by auto

lemma example_tables:
  "tables example_db Modules_by_name ''pll'' = None" "tables example_db Instances_by_name ''u_pll'' = None"
  "tables example_db Regfiles_by_name ''rf'' = None" "tables example_db Nets_by_name ''n'' = None"
  "tables example_db Generics_by_name ''W'' = None" "tables example_db Objects_by_id (''regfile##'' @ x) = None"
  using example_exec by (auto simp: registered_def ig_lib_db_new_def module_id_def)

text \<open>A second database, with a resource next to the module.\<close>

lemma example_resource:
  "\<exists>db t st tb sp pb. reachable db \<and> heap db t = Some st \<and> obj_body st = Module tb \<and> mod_resource tb \<and>
     heap db 0 = Some sp \<and> obj_body sp = Module pb"
proof -
  note inv = reachable_inv [OF reachable_example]
  obtain p db where db: "lib_exec (Add_module ''pll'' False True) example_db = Inr (p, db)"
      "grows example_db db" "mod_skel db = (mod_skel example_db)(next_addr example_db \<mapsto> (True, None, []))"
    using add_module_result [OF inv, of "''pll''" False True] example_tables(1) by (auto simp: holds_iff)
  have "reachable db"
    by (rule reachable.step [OF reachable_example lib_step.call [OF _ db(1)]]) simp
  moreover have "\<exists>st tb. heap db (next_addr example_db) = Some st \<and> obj_body st = Module tb \<and> mod_resource tb"
    using fun_cong [OF db(3), of "next_addr example_db"] by (auto simp: mod_skel_Some)
  moreover have "\<exists>sp pb. heap db 0 = Some sp \<and> obj_body sp = Module pb"
    using body_of_type(1) [of db 0] grows_type_at [OF db(2)] example_exec by blast
  ultimately show ?thesis by blast
qed

text \<open>A third one, with a regfile that has an entry.\<close>

lemma example_regfile:
  "\<exists>db r sr rb e se eb. reachable db \<and> heap db r = Some sr \<and> obj_body sr = Regfile rb \<and>
     heap db e = Some se \<and> obj_body se = RfEntry eb \<and> entry_parent eb = Some r"
proof -
  note inv = reachable_inv [OF reachable_example]
  let ?r = "next_addr example_db"
  obtain sp mb where m: "heap example_db 0 = Some sp" "obj_body sp = Module mb" using example_module by blast
  have res: "\<not> mod_resource mb" using m example_exec by (auto simp: mod_skel_Some)
  have id: "make_id IG_OBJ_REGFILE [sp] ''rf'' = ''regfile##'' @ obj_name sp @ ''#'' @ ''rf''"
    using id_of_child [OF db_invD(4) [OF inv] m(1)] by simp
  obtain p db1 where 1: "lib_exec (Add_regfile ''rf'' 0) example_db = Inr (p, db1)" "grows example_db db1"
      "type_at db1 ?r = Some IG_OBJ_REGFILE"
      "tables db1 = registered Regfiles_by_name Regfiles_by_id ?r ''rf'' (make_id IG_OBJ_REGFILE [sp] ''rf'') example_db"
    using add_regfile_result [OF inv m, of "''rf''"] res example_tables(3)
    unfolding id example_tables(6) by (auto simp: holds_iff)
  have "call_ok example_db (Add_regfile ''rf'' 0)" using example_exec by simp
  then have r1: "reachable db1" using reachable.step [OF reachable_example] lib_step.call 1(1) by blast
  note inv1 = reachable_inv [OF r1]
  obtain sr rb where sr: "heap db1 ?r = Some sr" "obj_body sr = Regfile rb" using body_of_type(3) [OF 1(3)] by blast
  obtain mm sm where mm: "regfile_parent rb = Some mm" "heap db1 mm = Some sm"
    using regfile_parent_live [OF db_invD(4) [OF inv1] sr] by blast
  obtain q db2 where 2: "lib_exec (Add_regfile_entry ''ctl'' ?r) db1 = Inr (q, db2)"
      "attach_result ?r (with_entry (next_addr db1) rb) (entry_struct ''ctl'' ?r [sm, sr]) db1 = (q, db2)"
    using add_entry_eq [OF inv1 sr mm, of "''ctl''"] by (metis lib_exec.simps(6) surj_pair)
  have "reachable db2" using reachable.step [OF r1 lib_step.call [OF _ 2(1)]] 1(3) by simp
  moreover have "tables db1 Objects_by_id (make_id IG_OBJ_REGFILE_ENTRY [sm, sr] ''ctl'') = None"
    using example_exec unfolding 1(4) registered_def
    by (auto simp: make_id_def module_id_def ig_lib_db_new_def)
  ultimately have "\<exists>s. heap db2 ?r = Some s \<and> (\<exists>b. obj_body s = Regfile b)"
      "\<exists>s. heap db2 (next_addr db1) = Some s \<and> (\<exists>b. obj_body s = RfEntry b \<and> entry_parent b = Some ?r)"
    using 2(2) sr not_next_addr [OF db_invD(4) [OF inv1] sr(1)]
    by (auto simp: attach_result_def table_contains_def attached_heap with_entry_def entry_struct_def)
  with \<open>reachable db2\<close> show ?thesis by blast
qed

section \<open>A signal over two levels\<close>

text \<open>The module \<open>sub\<close> at \<open>n\<close>, instantiated in the module \<open>top\<close>.\<close>

definition two_levels :: "ig_lib_db \<Rightarrow> addr \<Rightarrow> addr \<Rightarrow> bool" where
  "two_levels db n d \<longleftrightarrow> reachable db \<and> module_up db n = Some 0 \<and> module_up db 0 = None \<and>
     (\<exists>q. mod_skel db n = Some (False, Some d, q)) \<and> nonres db 0 \<and>
     (\<forall>t. t \<noteq> Objects_by_id \<longrightarrow> t \<noteq> Modules_by_name \<longrightarrow> t \<noteq> Modules_by_id \<longrightarrow>
        t \<noteq> Instances_by_name \<longrightarrow> t \<noteq> Instances_by_id \<longrightarrow> tables db t = Map.empty) \<and>
     (\<forall>i. tables db Objects_by_id i \<noteq> None \<longrightarrow> hd i \<in> {CHR ''m'', CHR ''i''}) \<and>
     obj_name (the (heap db 0)) = ''top'' \<and> obj_name (the (heap db n)) = ''sub''"

lemma module_up_skel:
  assumes "hier_inv h" and "module_up h m = Some p"
  shows "\<exists>d q. mod_skel h m = Some (False, Some d, q) \<and> nonres h p"
proof -
  have ok: "skel_ok (mod_skel h) (inst_skel h)" using assms(1) by (simp add: hier_inv_def)
  obtain r d q mo where m: "mod_skel h m = Some (r, Some d, q)" "inst_skel h d = Some (mo, Some p)"
    using assms(2) by (auto simp: module_up_def up_of_def split: option.splits)
  have "\<not> r" using skel_resource [OF ok, of m] m(1) by (cases r) auto
  then show ?thesis using m skel_parent [OF ok] by (fastforce simp: nonres_def)
qed

lemma example_two_levels: "\<exists>db n d. two_levels db n d"
proof -
  note inv = reachable_inv [OF reachable_example]
  let ?n = "next_addr example_db" and ?d = "Suc (next_addr example_db)"
  obtain p db where db: "lib_exec (Add_module ''sub'' False False) example_db = Inr (p, db)"
      "grows example_db db" "mod_skel db = (mod_skel example_db)(?n \<mapsto> (False, Some ?d, []))"
      "tables db = registered Modules_by_name Modules_by_id ?n ''sub'' (module_id ''sub'') example_db"
    using add_module_result [OF inv, of "''sub''" False False] example_exec
    by (auto simp: holds_iff registered_def ig_lib_db_new_def)
  have r: "reachable db" by (rule reachable.step [OF reachable_example lib_step.call [OF _ db(1)]]) simp
  note inv2 = reachable_inv [OF r] and hi = db_invD(2) [OF reachable_inv [OF r]]
  have n0: "?n \<noteq> 0" using example_module not_next_addr [OF db_invD(4) [OF inv], of 0] by auto
  have mn: "mod_skel db ?n = Some (False, Some ?d, [])" and m0: "mod_skel db 0 = Some (False, Some 1, [])"
    using db(3) n0 example_exec by auto
  obtain st tb where t: "heap db ?n = Some st" "obj_body st = Module tb" "\<not> mod_resource tb"
      "mod_default_instance tb = Some ?d"
    using mn by (auto simp: mod_skel_Some)
  obtain sp pb where p: "heap db 0 = Some sp" "obj_body sp = Module pb" "\<not> mod_resource pb"
    using m0 by (auto simp: mod_skel_Some)
  have top: "module_up db m = None \<and> inst_skel db i = Some (Some m, None)" if "mod_skel db m = Some (False, Some i, [])" for m i
    using skel_default [where M = "mod_skel db" and I = "inst_skel db" and m = m] that hi
    by (fastforce simp: hier_inv_def module_up_def split: if_splits)
  then have "inst_skel db ?d = Some (Some ?n, None)" and up: "module_up db ?n = None" "module_up db 0 = None"
    using mn m0 by blast+
  then obtain sd ib where d: "heap db ?d = Some sd" "obj_body sd = Instance ib" "inst_parent ib = None"
    by (auto simp: inst_skel_Some)
  have id: "obj_id sd = default_id (obj_name st)"
    using db_invD(7) [OF inv2] mn t(1) d(1) unfolding default_named_def by blast
  have na: "\<not> ancestor db ?n 0" using ancestor_root [OF up_path.root [of "module_up db", OF up(2)] up(1)] n0 by simp
  have ti: "tables db Instances_by_name (obj_name sd) = None"
    using db(4) example_exec by (simp add: registered_def ig_lib_db_new_def)
  obtain r2 db2 where db2: "lib_exec (Add_instance (obj_name sd) ?n 0) db = Inr (r2, db2)" "grows db db2"
      "module_up db2 = (module_up db)(?n \<mapsto> 0)"
      "tables db2 = registered Instances_by_name Instances_by_id ?d (obj_name sd) (obj_id sd) db"
    using add_instance_module_result [OF inv2 t d(1,2) p(1,2), of "obj_name sd"] na ti d(3) p(3)
    by (auto simp: holds_iff)
  have "call_ok db (Add_instance (obj_name sd) ?n 0)" using t p by (simp add: type_at_def obj_type_def)
  from reachable.step [OF r lib_step.call [OF this db2(1)]] have r2: "reachable db2" .
  note inv3 = reachable_inv [OF r2] and hi2 = db_invD(2) [OF reachable_inv [OF r2]]
  have up2: "module_up db2 ?n = Some 0" "module_up db2 0 = None" using db2(3) up n0 by auto
  obtain d' q' where "mod_skel db2 ?n = Some (False, Some d', q')" "nonres db2 0"
    using module_up_skel [OF hi2 up2(1)] by blast
  moreover have "\<forall>i. tables db2 Objects_by_id i \<noteq> None \<longrightarrow> hd i \<in> {CHR ''m'', CHR ''i''}"
    using id db2(4) db(4) example_exec
    by (auto simp: registered_def ig_lib_db_new_def module_id_def default_id_def)
  moreover have "\<forall>t. t \<noteq> Objects_by_id \<longrightarrow> t \<noteq> Modules_by_name \<longrightarrow> t \<noteq> Modules_by_id \<longrightarrow>
        t \<noteq> Instances_by_name \<longrightarrow> t \<noteq> Instances_by_id \<longrightarrow> tables db2 t = Map.empty"
    using db2(4) db(4) example_exec by (auto simp: registered_def ig_lib_db_new_def)
  moreover have "tables db2 Modules_by_name ''top'' = Some 0" "tables db2 Modules_by_name ''sub'' = Some ?n"
    using db2(4) db(4) example_exec by (auto simp: registered_def)
  then have "obj_name (the (heap db2 0)) = ''top''" "obj_name (the (heap db2 ?n)) = ''sub''"
    using tables_okD [OF db_invD(5) [OF inv3]] by (fastforce simp: entry_ok_def)+
  ultimately show ?thesis using r2 up2 unfolding two_levels_def by blast
qed

lemma gen_hierarchy_start:
  assumes "mod_skel h (ci_obj c) = Some (False, x, q)"
  shows "ig_lib_gen_hierarchy h c =
    (case gen_hierarchy_loop h True False (Some c) [] of None \<Rightarrow> Inl NoReturn | Some r \<Rightarrow> r)"
  using assms by (auto simp: mod_skel_Some ig_lib_gen_hierarchy_def heap_get_def)

lemma two_level_hierarchies:
  assumes "two_levels db n d"
  obtains d0 where "inst_skel db d0 \<noteq> None" "inst_skel db d = Some (Some n, Some 0)" "d0 \<noteq> 0"
    "\<And>c. ci_obj c = 0 \<Longrightarrow> ig_lib_gen_hierarchy db c = Inr [next_inst True c d0, c]"
    "\<And>c. ci_obj c = n \<Longrightarrow> ig_lib_gen_hierarchy db c =
       Inr [next_inst False (next_mod False (next_inst True c d) 0) d0, next_mod False (next_inst True c d) 0,
            next_inst True c d, c]"
proof -
  have hi: "hier_inv db" and up: "module_up db n = Some 0" "module_up db 0 = None"
    using assms reachable_inv by (auto simp: two_levels_def dest: db_invD)
  obtain q where n: "mod_skel db n = Some (False, Some d, q)" using assms by (auto simp: two_levels_def)
  obtain x q0 where m0: "mod_skel db 0 = Some (False, x, q0)" using assms by (auto simp: two_levels_def nonres_def)
  let ?d0 = "default_at db 0"
  have d: "default_at db n = d" using n by (simp add: default_at_def)
  have i: "inst_skel db d = Some (Some n, Some 0)" "inst_skel db ?d0 = Some (Some 0, None)"
    using default_at_skel [OF hi n] default_at_skel [OF hi m0] d up by simp_all
  have top: "gen_hierarchy_loop db cf en (Some c) res = Some (Inr (next_inst cf c ?d0 # c # res))"
    if "ci_obj c = 0" for cf en c res
    using loop_module_step [OF hi, of c x q0] loop_instance_step [of db "next_inst cf c ?d0"] m0 i(2) that
    by (simp add: next_inst_def)
  have "ig_lib_gen_hierarchy db c = Inr [next_inst True c ?d0, c]" if "ci_obj c = 0" for c
    using top [OF that] gen_hierarchy_start [of db c x q0] m0 that by simp
  moreover have "ig_lib_gen_hierarchy db c =
       Inr [next_inst False (next_mod False (next_inst True c d) 0) ?d0, next_mod False (next_inst True c d) 0,
            next_inst True c d, c]" if c: "ci_obj c = n" for c
  proof -
    have "gen_hierarchy_loop db True False (Some c) [] =
        gen_hierarchy_loop db False False (Some (next_inst True c d)) [c]"
      using loop_module_step [OF hi, of c "Some d" q] n d c by simp
    also have "\<dots> = gen_hierarchy_loop db False False (Some (next_mod False (next_inst True c d) 0)) [next_inst True c d, c]"
      using loop_instance_step [of db "next_inst True c d"] i(1) by (simp add: next_inst_def)
    also have "\<dots> = Some (Inr [next_inst False (next_mod False (next_inst True c d) 0) ?d0,
        next_mod False (next_inst True c d) 0, next_inst True c d, c])"
      by (rule top) (simp add: next_mod_def)
    finally show ?thesis using gen_hierarchy_start [of db c "Some d" q] n c by simp
  qed
  moreover have "?d0 \<noteq> 0" using i(2) skel_exclusive [OF m0] by (metis option.distinct(1))
  ultimately show thesis using that [of ?d0] i by simp
qed

text \<open>The signal from \<open>sub\<close> to \<open>top\<close>: a declaration, a pin and a port.\<close>

lemma two_level_tree:
  assumes t: "two_levels db n d"
  obtains hs hs0 tree u where
    "gen_hierarchies db (source_infos (Some (example_info n IG_LCDIR_UP))) [] False = Inr (hs0, False)"
    "gen_hierarchies db [example_info 0 IG_LCDIR_DEFAULT] hs0 False = Inr (hs, False)"
    "ig_lib_merge_hierarchy_list hs ''sig'' = Some tree" "ig_lib_htree_reduce tree = Reduced u"
    "map_gnode ci_obj u = GNode 0 [GNode d [GNode n []]]"
    "ci_parent_name (gdata u) = None"
    "\<forall>c \<in> set_gnode u. ci_local_name c = Some ''sig'' \<and> \<not> ci_force_name c \<and> \<not> ci_invert c"
proof -
  from t show thesis
  proof (cases rule: two_level_hierarchies)
    case (1 d0)
    let ?s = "(example_info n IG_LCDIR_UP)\<lparr>ci_dir := IG_LCDIR_UP, ci_is_explicit := True\<rparr>"
    let ?t = "(example_info 0 IG_LCDIR_DEFAULT)\<lparr>ci_is_explicit := True\<rparr>"
    let ?i = "next_inst True ?s d" let ?m = "next_mod False ?i 0" let ?r = "next_inst False ?m d0"
    let ?h1 = "(?r, [?m, ?i, ?s])" and ?h2 = "(next_inst True ?t d0, [?t])"
    have g: "gen_hierarchies db (source_infos (Some (example_info n IG_LCDIR_UP))) [] False = Inr ([?h1], False)"
      "gen_hierarchies db [example_info 0 IG_LCDIR_DEFAULT] [?h1] False = Inr ([?h2, ?h1], False)"
      using 1(4) [of ?t] 1(5) [of ?s] by (simp_all add: source_infos_def example_info_def)
    have "\<exists>r m i s. ig_lib_merge_hierarchy_list [?h2, ?h1] ''sig'' = Some (GNode r [GNode m [GNode i [GNode s []]]]) \<and>
        ci_obj m = 0 \<and> ci_is_explicit m \<and> ci_obj i = d \<and> ci_obj s = n \<and> ci_parent_name m = None \<and>
        (\<forall>c \<in> {m, i, s}. ci_local_name c = Some ''sig'' \<and> \<not> ci_force_name c \<and> \<not> ci_invert c)"
      by (simp add: next_inst_def next_mod_def example_info_def merge_info_def merge_dir_def Let_def same_child_def
          node_name_def child_default_name_def)
    then obtain r m i s where tree: "ig_lib_merge_hierarchy_list [?h2, ?h1] ''sig'' = Some (GNode r [GNode m [GNode i [GNode s []]]])"
        "ci_obj m = 0" "ci_is_explicit m" "ci_obj i = d" "ci_obj s = n" "ci_parent_name m = None"
        "\<forall>c \<in> {m, i, s}. ci_local_name c = Some ''sig'' \<and> \<not> ci_force_name c \<and> \<not> ci_invert c"
      by blast
    then have "ig_lib_htree_reduce (GNode r [GNode m [GNode i [GNode s []]]]) = Reduced (GNode m [GNode i [GNode s []]])"
      by (simp add: ig_lib_htree_reduce_def)
    then show thesis using that [OF g tree(1)] tree by simp
  qed
qed

lemma map_gnode_eq:
  "map_gnode f t = GNode c ts \<longleftrightarrow> (\<exists>c' ts'. t = GNode c' ts' \<and> f c' = c \<and> map (map_gnode f) ts' = ts)"
  by (cases t) auto

lemma two_level_nodes:
  assumes "map_gnode ci_obj u = GNode 0 [GNode d [GNode n []]]"
    and "\<forall>c \<in> set_gnode u. ci_local_name c = Some ''sig'' \<and> \<not> ci_force_name c \<and> \<not> ci_invert c"
  obtains m i s where "u = GNode m [GNode i [GNode s []]]" "ci_obj m = 0" "ci_obj i = d" "ci_obj s = n"
    "ci_local_name m = Some ''sig''" "ci_local_name i = Some ''sig''" "ci_local_name s = Some ''sig''"
    "\<not> ci_force_name m" "\<not> ci_force_name i"
proof -
  obtain m i s where u: "u = GNode m [GNode i [GNode s []]]"
    using assms(1) by (auto simp: map_gnode_eq map_eq_Cons_conv)
  show thesis by (rule that [OF u]) (use assms u in auto)
qed

lemma two_level_types:
  assumes "two_levels db n d"
  shows "type_at db 0 = Some IG_OBJ_MODULE" "type_at db n = Some IG_OBJ_MODULE" "type_at db d = Some IG_OBJ_INSTANCE"
proof -
  show "type_at db 0 = Some IG_OBJ_MODULE" "type_at db n = Some IG_OBJ_MODULE"
    using assms by (auto simp: two_levels_def nonres_def mod_skel_Some type_at_def obj_type_def)
  obtain d0 where "inst_skel db d = Some (Some n, Some 0)" using assms by (rule two_level_hierarchies)
  then show "type_at db d = Some IG_OBJ_INSTANCE" by (auto simp: inst_skel_Some type_at_def obj_type_def)
qed

lemma two_level_signal:
  assumes t: "two_levels db n d"
  shows "call_ok db (Connection ''sig'' (Some (example_info n IG_LCDIR_UP)) [example_info 0 IG_LCDIR_DEFAULT])"
    and "\<exists>net db'. ig_lib_connection ''sig'' (Some (example_info n IG_LCDIR_UP)) [example_info 0 IG_LCDIR_DEFAULT] db =
           Inr (True, net, db')"
proof -
  note ty = two_level_types [OF t]
  show ok: "call_ok db (Connection ''sig'' (Some (example_info n IG_LCDIR_UP)) [example_info 0 IG_LCDIR_DEFAULT])"
    using ty by (simp add: source_infos_def example_info_def)
  note inv = reachable_inv [of db]
  have r: "reachable db" and free: "\<And>i. hd i \<notin> {CHR ''m'', CHR ''i''} \<Longrightarrow> tables db Objects_by_id i = None"
    and tn: "tables db Nets_by_name ''sig'' = None"
    using t by (auto simp: two_levels_def)
  have info: "\<forall>c \<in> set (source_infos (Some (example_info n IG_LCDIR_UP))). info_ok db c"
    "\<forall>c \<in> set [example_info 0 IG_LCDIR_DEFAULT]. info_ok db c"
    using ok endpoint_type by (auto simp: info_ok_def)
  from t show "\<exists>net db'. ig_lib_connection ''sig'' (Some (example_info n IG_LCDIR_UP)) [example_info 0 IG_LCDIR_DEFAULT] db =
           Inr (True, net, db')"
  proof (cases rule: two_level_tree)
    case (1 hs hs0 tree u)
    from 1(5,7) show ?thesis
    proof (cases rule: two_level_nodes)
      case (1 m i s)
      have "ids_free db (generated_ids signal_item db True None u)"
        using 1 ty by (auto simp: ids_free_def signal_item_def item_id_def Let_def intro!: free)
      then show ?thesis
        using connection_result [OF reachable_inv [OF r] info, of "''sig''"] tn
          \<open>gen_hierarchies db (source_infos (Some (example_info n IG_LCDIR_UP))) [] False = Inr (hs0, False)\<close>
          \<open>gen_hierarchies db [example_info 0 IG_LCDIR_DEFAULT] hs0 False = Inr (hs, False)\<close>
          \<open>ig_lib_merge_hierarchy_list hs ''sig'' = Some tree\<close> \<open>ig_lib_htree_reduce tree = Reduced u\<close>
          \<open>ci_parent_name (gdata u) = None\<close>
        by (auto simp: holds_iff)
    qed
  qed
qed

lemma two_level_parameter:
  assumes t: "two_levels db n d"
  shows "call_ok db (Parameter ''sig'' ''8'' [example_info n IG_LCDIR_UP, example_info 0 IG_LCDIR_DEFAULT])"
    and "\<exists>gen db'. ig_lib_parameter ''sig'' (Some ''8'') [example_info n IG_LCDIR_UP, example_info 0 IG_LCDIR_DEFAULT] db =
           Inr (True, gen, db')"
proof -
  note ty = two_level_types [OF t]
  show ok: "call_ok db (Parameter ''sig'' ''8'' [example_info n IG_LCDIR_UP, example_info 0 IG_LCDIR_DEFAULT])"
    using ty by (simp add: example_info_def)
  have r: "reachable db" and free: "\<And>i. hd i \<notin> {CHR ''m'', CHR ''i''} \<Longrightarrow> tables db Objects_by_id i = None"
    and tn: "tables db Generics_by_name ''sig'' = None"
    and nm: "obj_name (the (heap db 0)) = ''top''" "obj_name (the (heap db n)) = ''sub''"
    using t by (auto simp: two_levels_def)
  have info: "\<forall>c \<in> set [example_info n IG_LCDIR_UP, example_info 0 IG_LCDIR_DEFAULT]. info_ok db c"
    using ok endpoint_type by (auto simp: info_ok_def)
  from t show "\<exists>gen db'. ig_lib_parameter ''sig'' (Some ''8'') [example_info n IG_LCDIR_UP, example_info 0 IG_LCDIR_DEFAULT] db =
           Inr (True, gen, db')"
  proof (cases rule: two_level_tree)
    case (1 hs hs0 tree u)
    have g: "gen_hierarchies db [example_info n IG_LCDIR_UP, example_info 0 IG_LCDIR_DEFAULT] [] False = Inr (hs, False)"
      using 1(1,2) by (auto simp: source_infos_def example_info_def res_bind_eq_Inr split: list.splits)
    from 1(5,7) show ?thesis
    proof (cases rule: two_level_nodes)
      case (1 m i s)
      have "ids_free db (generated_ids parameter_item db True None u)"
        using 1 ty nm by (auto simp: ids_free_def parameter_item_def item_id_def Let_def or_empty_def intro!: free)
      then show ?thesis
        using parameter_result [OF reachable_inv [OF r] info, of "''sig''" "''8''"] tn g
          \<open>ig_lib_merge_hierarchy_list hs ''sig'' = Some tree\<close> \<open>ig_lib_htree_reduce tree = Reduced u\<close>
          \<open>ci_parent_name (gdata u) = None\<close>
        by (auto simp: holds_iff)
    qed
  qed
qed

end
