(* ===== verification/Ig_Wire.thy ===== *)
theory Ig_Wire
  imports Ig_Example
begin

text \<open>
  What a successful \<open>ig_lib_connection\<close> or \<open>ig_lib_parameter\<close> leaves in the design: a tree of objects
  that reaches every endpoint, whose neighbours are an instance and its module or a module and an
  instance inside it, and in which every name is the one the object above uses.
\<close>

section \<open>Neighbours in the tree\<close>

fun chained :: "(addr \<Rightarrow> addr \<Rightarrow> bool) \<Rightarrow> ig_lib_connection_info gnode \<Rightarrow> bool" where
  "chained R (GNode c ts) \<longleftrightarrow> (\<forall>t \<in> set ts. R (ci_obj c) (ci_obj (gdata t)) \<and> chained R t)"

lemma chainedI: "(\<And>u. u \<in> set (gchildren t) \<Longrightarrow> R (ci_obj (gdata t)) (ci_obj (gdata u)) \<and> chained R u) \<Longrightarrow> chained R t"
  by (cases t) simp

lemma merge_root:
  assumes "ig_lib_merge_hierarchy_list hs nm = Some t" and "h \<in> set hs"
  shows "ci_obj (gdata t) = ci_obj (fst h)"
proof (cases hs)
  case (Cons h0 hs')
  from assms(1) [unfolded Cons] show ?thesis
    by (cases rule: merge_node) (use assms(2) Cons in force)
qed (use assms in simp)

lemma merge_chained:
  "ig_lib_merge_hierarchy_list hs nm = Some t \<Longrightarrow> \<forall>h \<in> set hs. successively R (hier_path h) \<Longrightarrow> chained R t"
proof (induction hs nm arbitrary: t rule: ig_lib_merge_hierarchy_list.induct)
  case (2 h0 hs nm)
  from "2.prems"(1) show ?case
  proof (cases rule: merge_node)
    case (1 node s)
    have from_top: "\<exists>h \<in> set (h0 # hs). snd h = d # ds" if "(d, ds) \<in> set s" for d ds
      using merge_level_from [OF 1(1) that] by (cases "snd h0") force+
    have step: "R (ci_obj node) (ci_obj d) \<and> successively R (hier_path (d, ds))" if ds: "(d, ds) \<in> set s" for d ds
    proof -
      obtain h where h: "h \<in> set (h0 # hs)" "snd h = d # ds" using from_top [OF ds] by blast
      then have "successively R (ci_obj (fst h) # hier_path (d, ds))"
        using bspec [OF "2.prems"(2) h(1)] by (simp add: hier_path_def)
      then show ?thesis using bspec [OF 1(4) h(1)] by (simp add: successively_Cons hier_path_def)
    qed
    show ?thesis
    proof (rule chainedI)
      fix u assume "u \<in> set (gchildren t)"
      then obtain g where g: "g \<in> set (group_hiers s)" "ig_lib_merge_hierarchy_list g (child_default_name nm node) = Some u"
        using 1(3) by blast
      obtain d ds where d: "(d, ds) \<in> set g" using group_hiers_same [OF g(1)] by (cases g) auto
      have sub: "set g \<subseteq> set s" by (rule group_hiers_subset [OF g(1)])
      then have "R (ci_obj node) (ci_obj (gdata u))" using step merge_root [OF g(2) d] d by auto
      moreover have "chained R u"
        by (rule "2.IH" [OF 1(1) refl _ g(2)]) (use g(1) step sub in auto)
      ultimately show "R (ci_obj (gdata t)) (ci_obj (gdata u)) \<and> chained R u" using 1(2) by simp
    qed
  qed
qed simp

lemma only_child_chained: "only_child t u \<Longrightarrow> chained R t \<Longrightarrow> chained R u"
  by (induction rule: only_child.induct) auto

section \<open>Every endpoint is reached\<close>

lemma ends_in_last: "ends_in E xs t \<Longrightarrow> last xs \<in> ci_obj ` set_gnode t"
  by (induction E xs t rule: ends_in.induct) (force split: if_splits)+

lemma only_child_ends:
  "only_child t u \<Longrightarrow> ends_in ci_is_explicit (x # y # xs) t \<Longrightarrow> last (y # xs) \<in> ci_obj ` set_gnode u"
proof (induction arbitrary: x y xs rule: only_child.induct)
  case (direct c t)
  then have "ends_in ci_is_explicit (y # xs) t" by simp
  then show ?case by (rule ends_in_last)
next
  case (deeper t u c)
  then have e: "ends_in ci_is_explicit (y # xs) t" by simp
  then obtain z zs where "xs = z # zs" using deeper.hyps(1) by (cases xs; cases t) auto
  then show ?case using deeper.IH [of y z zs] e by simp
qed

lemma resource_not_above:
  assumes "hier_inv h" and "mod_skel h x = Some (True, d, q)"
  shows "\<not> below h x y"
  using assms skel_exclusive [OF assms(2)] skel_parent [of "mod_skel h" "inst_skel h" y _ x]
  by (fastforce simp: below_def hier_inv_def split: option.splits)

theorem reduced_reaches:
  assumes inv: "hier_inv h"
    and hs: "\<forall>x \<in> set hs. \<exists>c \<in> eps. hierarchy_of h (c\<lparr>ci_is_explicit := True\<rparr>) (fst x # snd x)"
    and eps: "\<forall>c \<in> eps. \<exists>x \<in> set hs. hierarchy_of h (c\<lparr>ci_is_explicit := True\<rparr>) (fst x # snd x)"
    and t: "ig_lib_merge_hierarchy_list hs nm = Some t" and r: "ig_lib_htree_reduce t = Reduced u"
  shows "chained (below h) u" and "\<forall>c \<in> eps. endpoint_node h (ci_obj c) \<in> ci_obj ` set_gnode u"
proof -
  have oc: "only_child t u" using r by (simp add: reduce_iff)
  have "\<forall>x \<in> set hs. successively (below h) (hier_path x)"
    using hs by (fastforce simp: hierarchy_of_def hier_path_def)
  then show "chained (below h) u" by (rule only_child_chained [OF oc merge_chained [OF t]])
  obtain y where y: "y \<in> set hs" "snd y \<noteq> []"
  proof -
    obtain h0 hs' where hs': "hs = h0 # hs'" using t by (cases hs) auto
    have ch: "gchildren t \<noteq> []" using oc by cases auto
    from t [unfolded hs'] show thesis
    proof (cases rule: merge_node)
      case (1 node s)
      have "s \<noteq> []" using ch 1(3) by auto
      from merge_level_grow [OF 1(1) this] show thesis
        using that [of h0] that hs' by (cases "snd h0") auto
    qed
  qed
  show "\<forall>c \<in> eps. endpoint_node h (ci_obj c) \<in> ci_obj ` set_gnode u"
  proof
    fix c assume "c \<in> eps"
    then obtain x where x: "x \<in> set hs" "hierarchy_of h (c\<lparr>ci_is_explicit := True\<rparr>) (fst x # snd x)" using eps by blast
    have "snd x \<noteq> []"
    proof
      assume "snd x = []"
      then obtain d q where m: "mod_skel h (ci_obj (fst x)) = Some (True, d, q)"
        using x(2) by (auto simp: hierarchy_of_def)
      have "below h (ci_obj (fst y)) (ci_obj (hd (snd y)))"
        using hs y by (fastforce simp: hierarchy_of_def neq_Nil_conv)
      then show False
        using resource_not_above [OF inv m] merge_root [OF t x(1)] merge_root [OF t y(1)] by simp
    qed
    then obtain z ds where "snd x = z # ds" by (cases "snd x") auto
    then have z: "hier_path x = ci_obj (fst x) # ci_obj z # map ci_obj ds" by (simp add: hier_path_def)
    have "ends_in ci_is_explicit (ci_obj (fst x) # ci_obj z # map ci_obj ds) t"
      unfolding z [symmetric]
      by (rule merge_ends [OF _ _ t x(1)]) (use x(2) in \<open>auto simp: hierarchy_of_def merge_info_def Let_def\<close>)
    then have "last (ci_obj z # map ci_obj ds) \<in> ci_obj ` set_gnode u" by (rule only_child_ends [OF oc])
    moreover have "last (hier_path x) = endpoint_node h (ci_obj c)"
      using x(2) by (cases "snd x = []") (auto simp: hierarchy_of_def hier_path_def last_map)
    ultimately show "endpoint_node h (ci_obj c) \<in> ci_obj ` set_gnode u" using z by simp
  qed
qed

section \<open>Signals and parameters\<close>

text \<open>
  The objects \<open>objs\<close> are a tree \<open>T\<close>, each node with its object. The tree has a node for every
  endpoint, its neighbours are neighbours in the module hierarchy, and names agree along its edges.
\<close>

definition wires_up ::
    "(bool \<Rightarrow> ig_lib_connection_info \<Rightarrow> content \<Rightarrow> bool) \<Rightarrow> ig_lib_db \<Rightarrow> ig_lib_db
       \<Rightarrow> ig_lib_connection_info set \<Rightarrow> addr list \<Rightarrow> bool" where
  "wires_up wire db db' endpoints objs \<longleftrightarrow> (\<exists>T. objs = rev (nodes T) \<and> distinct objs \<and>
     wired wire db' True (ci_parent_name (fst (gdata T))) T \<and>
     chained (below db) (map_gnode fst T) \<and>
     (\<forall>c \<in> endpoints. endpoint_node db (ci_obj c) \<in> ci_obj ` fst ` set_gnode T))"

lemma carries_wires_up:
  assumes c: "carries wire u db' objs" and ch: "chained (below db) u"
    and r: "\<forall>c \<in> eps. endpoint_node db (ci_obj c) \<in> ci_obj ` set_gnode u"
  shows "wires_up wire db db' eps objs"
proof -
  obtain T where T: "map_gnode fst T = u" "objs = rev (nodes T)" "distinct objs"
      "wired wire db' True (ci_parent_name (gdata u)) T"
    using c by (auto simp: carries_def)
  have "gdata u = fst (gdata T)" using T(1) by (cases T) auto
  then show ?thesis using T ch r unfolding wires_up_def T(1) [symmetric] gnode.set_map by auto
qed

lemma shape_sets:
  assumes "list_all2 (\<lambda>c x. P c x) eps hs"
  shows "\<forall>x \<in> set hs. \<exists>c \<in> set eps. P c x" and "\<forall>c \<in> set eps. \<exists>x \<in> set hs. P c x"
  using assms by (metis in_set_conv_nth list_all2_conv_all_nth)+

text \<open>C7. A signal that \<open>ig_lib_connection\<close> reports as made connects its endpoints: the objects of the net
  are a tree with a node for every endpoint, each node has an object of its own, neighbours in the
  tree are an instance and its module or a module and an instance inside it, pins are connected to
  the name of the port or declaration above them, and ports have the name of the pin above them.\<close>

theorem connect_wires:
  assumes "reachable db" and "call_ok db (Connection nm source targets)"
    and "ig_lib_connection nm source targets db = Inr (True, net, db')"
  shows "\<exists>n objs. net = Some n \<and> body_at db' n = Some (Net \<lparr>net_objects = objs\<rparr>) \<and>
     wires_up signal_wire db db' (set (source_infos source @ targets)) objs"
proof -
  note inv = reachable_inv [OF assms(1)] and hi = db_invD(2) [OF inv]
  have s: "\<forall>c \<in> set (source_infos source). endpoint_ok db (ci_obj c)" "\<forall>c \<in> set targets. endpoint_ok db (ci_obj c)"
    using assms(2) endpoint_type by auto
  let ?P = "\<lambda>c x. hierarchy_of db (c\<lparr>ci_is_explicit := True\<rparr>) (fst x # snd x)"
  obtain hs1 where 1: "gen_hierarchies db (source_infos source) [] False = Inr (rev hs1, False)"
      "list_all2 ?P (source_infos source) hs1"
    using gen_hierarchies_shape [OF hi s(1), of "[]" False] by auto
  obtain hs2 where 2: "gen_hierarchies db targets (rev hs1) False = Inr (rev hs2 @ rev hs1, False)"
      "list_all2 ?P targets hs2"
    using gen_hierarchies_shape [OF hi s(2), of "rev hs1" False] by auto
  let ?hs = "rev hs2 @ rev hs1"
  have all: "\<forall>x \<in> set ?hs. \<exists>c \<in> set (source_infos source @ targets). ?P c x"
      "\<forall>c \<in> set (source_infos source @ targets). \<exists>x \<in> set ?hs. ?P c x"
    using shape_sets [OF 1(2)] shape_sets [OF 2(2)] by fastforce+
  have "\<forall>c \<in> set (source_infos source). info_ok db c" "\<forall>c \<in> set targets. info_ok db c"
    using s by (auto simp: info_ok_def)
  from connection_result [OF inv this, of nm] obtain t u where
      t: "ig_lib_merge_hierarchy_list ?hs nm = Some t" "ig_lib_htree_reduce t = Reduced u"
      "\<exists>objs n. net = Some n \<and> body_at db' n = Some (Net \<lparr>net_objects = objs\<rparr>) \<and> carries signal_wire u db' objs"
    using assms(3) 1(1) 2(1) by (fastforce simp: holds_iff split: if_splits option.splits reduce_result.splits)
  show ?thesis using t(3) carries_wires_up reduced_reaches [OF hi all t(1,2)] by blast
qed

theorem connect_wires_witness:
  "\<exists>db n net db' objs. ig_lib_connection ''sig'' (Some (example_info n IG_LCDIR_UP)) [example_info 0 IG_LCDIR_DEFAULT] db =
       Inr (True, net, db') \<and>
     wires_up signal_wire db db' {example_info n IG_LCDIR_UP, example_info 0 IG_LCDIR_DEFAULT} objs"
proof -
  obtain db n d where t: "two_levels db n d" using example_two_levels by blast
  obtain net db' where c: "ig_lib_connection ''sig'' (Some (example_info n IG_LCDIR_UP)) [example_info 0 IG_LCDIR_DEFAULT] db =
      Inr (True, net, db')"
    using two_level_signal(2) [OF t] by blast
  have "set (source_infos (Some (example_info n IG_LCDIR_UP)) @ [example_info 0 IG_LCDIR_DEFAULT]) =
      {example_info n IG_LCDIR_UP, example_info 0 IG_LCDIR_DEFAULT}"
    by (simp add: source_infos_def example_info_def)
  moreover have "reachable db" using t by (simp add: two_levels_def)
  ultimately have "\<exists>objs. wires_up signal_wire db db' {example_info n IG_LCDIR_UP, example_info 0 IG_LCDIR_DEFAULT} objs"
    using connect_wires [OF _ two_level_signal(1) [OF t] c] by force
  with c show ?thesis by blast
qed

text \<open>C8. The same holds for \<open>ig_lib_parameter\<close>: adjustments set the parameter of the module below to the
  name of the parameter above, down to every endpoint.\<close>

theorem parameter_wires:
  assumes "reachable db" and "call_ok db (Parameter nm dv targets)"
    and "ig_lib_parameter nm (Some dv) targets db = Inr (True, gen, db')"
  shows "\<exists>n objs. gen = Some n \<and> body_at db' n = Some (Generic \<lparr>generic_objects = objs\<rparr>) \<and>
     wires_up (parameter_wire dv) db db' (set targets) objs"
proof -
  note inv = reachable_inv [OF assms(1)] and hi = db_invD(2) [OF inv]
  have s: "\<forall>c \<in> set targets. endpoint_ok db (ci_obj c)" using assms(2) endpoint_type by auto
  let ?P = "\<lambda>c x. hierarchy_of db (c\<lparr>ci_is_explicit := True\<rparr>) (fst x # snd x)"
  obtain hs where 1: "gen_hierarchies db targets [] False = Inr (rev hs, False)" "list_all2 ?P targets hs"
    using gen_hierarchies_shape [OF hi s, of "[]" False] by auto
  have all: "\<forall>x \<in> set (rev hs). \<exists>c \<in> set targets. ?P c x" "\<forall>c \<in> set targets. \<exists>x \<in> set (rev hs). ?P c x"
    using shape_sets [OF 1(2)] by simp_all
  have "\<forall>c \<in> set targets. info_ok db c" using s by (auto simp: info_ok_def)
  from parameter_result [OF inv this, of nm dv] obtain t u where
      t: "ig_lib_merge_hierarchy_list (rev hs) nm = Some t" "ig_lib_htree_reduce t = Reduced u"
      "\<exists>objs n. gen = Some n \<and> body_at db' n = Some (Generic \<lparr>generic_objects = objs\<rparr>) \<and>
         carries (parameter_wire dv) u db' objs"
    using assms(3) 1(1) by (fastforce simp: holds_iff split: if_splits option.splits reduce_result.splits)
  show ?thesis using t(3) carries_wires_up reduced_reaches [OF hi all t(1,2)] by blast
qed

theorem parameter_wires_witness:
  "\<exists>db n gen db' objs. ig_lib_parameter ''sig'' (Some ''8'') [example_info n IG_LCDIR_UP, example_info 0 IG_LCDIR_DEFAULT] db =
       Inr (True, gen, db') \<and>
     wires_up (parameter_wire ''8'') db db' {example_info n IG_LCDIR_UP, example_info 0 IG_LCDIR_DEFAULT} objs"
proof -
  obtain db n d where t: "two_levels db n d" using example_two_levels by blast
  obtain gen db' where c: "ig_lib_parameter ''sig'' (Some ''8'') [example_info n IG_LCDIR_UP, example_info 0 IG_LCDIR_DEFAULT] db =
      Inr (True, gen, db')"
    using two_level_parameter(2) [OF t] by blast
  have "reachable db" using t by (simp add: two_levels_def)
  then have "\<exists>objs. wires_up (parameter_wire ''8'') db db' {example_info n IG_LCDIR_UP, example_info 0 IG_LCDIR_DEFAULT} objs"
    using parameter_wires [OF _ two_level_parameter(1) [OF t] c] by force
  with c show ?thesis by blast
qed

end
