(* ===== verification/Ig_Print.thy ===== *)
theory Ig_Print
  imports Ig_Htree C_Strings
begin

text \<open>
  The debug print of a hierarchy tree, \<open>ig_lib_htree_print\<close> of \<open>src/lib/ig_lib.c\<close>. The loop keeps
  a stack of its own of the nodes between the root and the current node; it prints the same outline
  as a recursion over the tree. A node on the stack is modelled with the siblings after it, so that
  \<open>g_node_next_sibling\<close> is the head of that list and \<open>g_node_depth\<close> is the height of the stack: the
  trees that are printed have no parent and no siblings of their own.
\<close>

type_synonym htree = "ig_lib_connection_info gnode"
type_synonym print_stack = "(htree \<times> htree list) list"

text \<open>A message of \<open>log_debug\<close>: its identifier and its text.\<close>

type_synonym debug_msg = "string \<times> string"

definition dir_arrow :: "ig_lib_connection_dir \<Rightarrow> string" where
  "dir_arrow dir =
     (if dir = IG_LCDIR_UP then ''<-- ''
      else if dir = IG_LCDIR_BIDIR then ''<-> ''
      else if dir = IG_LCDIR_DOWN then ''--> ''
      else ''-?- '')"

text \<open>The line of a node. Appending a \<open>NULL\<close> string leaves a \<open>GString\<close> as it is.\<close>

definition htree_line ::
    "'a ig_heap_scheme \<Rightarrow> int \<Rightarrow> ig_lib_connection_info \<Rightarrow> debug_msg res" where
  "htree_line h pr_indent i_info =
     res_bind (heap_get h (Some (ci_obj i_info))) (\<lambda>s.
     Inr (''HTree'',
       concat (replicate (nat (pr_indent - 1)) '' | '') @
       (if pr_indent > 0 then '' +-'' else '''') @ ''-*-'' @ dir_arrow (ci_dir i_info) @
       obj_id s @ ''.'' @ (if ci_invert i_info then ''~'' else '''') @ or_empty (ci_local_name i_info) @
       (if ci_is_explicit i_info
        then (if ci_force_name i_info then ''(explicit, force)'' else ''(explicit)'') else '''')))"

definition node_msg :: "nat \<Rightarrow> nat \<Rightarrow> debug_msg" where
  "node_msg depth n_children =
     (''LPHTr'', ''current node: depth='' @ dec_string depth @ '', n_children='' @ dec_string n_children)"

text \<open>The inner loop, which goes on to the next sibling of the lowest node that has one.\<close>

fun print_next :: "print_stack \<Rightarrow> int \<Rightarrow> debug_msg list \<times> int \<times> print_stack" where
  "print_next [] pr_indent = ([], pr_indent, [])"
| "print_next ((i_node, sib # sibs) # pr_stack) pr_indent =
     ([(''LPHTr'', ''node has sibling...'')], pr_indent, (sib, sibs) # pr_stack)"
| "print_next ((i_node, []) # pr_stack) pr_indent =
     (case print_next pr_stack (pr_indent - 1) of
        (out, r) \<Rightarrow> ((''LPHTr'', ''node is last one in subhierarchy...'') # out, r))"

fun gnode_size :: "'a gnode \<Rightarrow> nat" where
  "gnode_size (GNode c cs) = Suc (\<Sum>t\<leftarrow>cs. gnode_size t)"

definition siblings_size :: "print_stack \<Rightarrow> nat" where
  "siblings_size pr_stack = (\<Sum>(t, ts)\<leftarrow>pr_stack. \<Sum>t\<leftarrow>ts. gnode_size t)"

text \<open>Nodes that are still to be printed.\<close>

definition stack_size :: "print_stack \<Rightarrow> nat" where
  "stack_size pr_stack =
     (case pr_stack of [] \<Rightarrow> 0 | (t, ts) # rest \<Rightarrow> gnode_size t + siblings_size pr_stack)"

lemma siblings_size_simps [simp]:
  "siblings_size [] = 0"
  "siblings_size ((t, ts) # rest) = (\<Sum>t\<leftarrow>ts. gnode_size t) + siblings_size rest"
  by (simp_all add: siblings_size_def)

lemma print_next_size:
  "print_next pr_stack pr_indent = (out, indent', pr_stack') \<Longrightarrow> stack_size pr_stack' = siblings_size pr_stack"
  by (induction pr_stack pr_indent arbitrary: out indent' pr_stack' rule: print_next.induct)
     (auto simp: stack_size_def split: prod.splits)

function htree_print_loop ::
    "'a ig_heap_scheme \<Rightarrow> print_stack \<Rightarrow> int \<Rightarrow> debug_msg list \<Rightarrow> debug_msg list res" where
  "htree_print_loop h [] pr_indent out = Inr out"
| "htree_print_loop h ((GNode c cs, sibs) # pr_stack) pr_indent out =
     res_bind (htree_line h pr_indent c) (\<lambda>line.
     let out = out @ [node_msg (Suc (length pr_stack)) (length cs), line] in
     case cs of
       child # rest \<Rightarrow>
         htree_print_loop h ((child, rest) # (GNode c cs, sibs) # pr_stack) (pr_indent + 1)
           (out @ [(''LPHTr'', ''node has child...'')])
     | [] \<Rightarrow>
         (case print_next ((GNode c cs, sibs) # pr_stack) pr_indent of
            (msgs, pr_indent, pr_stack) \<Rightarrow> htree_print_loop h pr_stack pr_indent (out @ msgs)))"
  by pat_completeness auto
termination
  by (relation "measure (\<lambda>(h, pr_stack, pr_indent, out). stack_size pr_stack)")
     (auto simp: stack_size_def dest!: print_next_size [OF sym])

declare htree_print_loop.simps [simp del]

definition ig_lib_htree_print :: "'a ig_heap_scheme \<Rightarrow> htree \<Rightarrow> debug_msg list res" where
  "ig_lib_htree_print h hier_tree = htree_print_loop h [(hier_tree, [])] 0 []"

section \<open>The outline of a tree\<close>

text \<open>What is said when a node and everything below it has been printed.\<close>

definition end_msg :: "bool \<Rightarrow> debug_msg" where
  "end_msg has_next = (''LPHTr'', if has_next then ''node has sibling...'' else ''node is last one in subhierarchy...'')"

fun htree_body :: "'a ig_heap_scheme \<Rightarrow> nat \<Rightarrow> htree \<Rightarrow> debug_msg list res"
  and htree_forest :: "'a ig_heap_scheme \<Rightarrow> nat \<Rightarrow> htree list \<Rightarrow> debug_msg list res" where
  "htree_body h depth (GNode c cs) =
     res_bind (htree_line h (int depth) c) (\<lambda>line.
     res_bind (htree_forest h (Suc depth) cs) (\<lambda>below.
     Inr ([node_msg (Suc depth) (length cs), line] @
          (if cs = [] then [] else [(''LPHTr'', ''node has child...'')]) @ below)))"
| "htree_forest h depth [] = Inr []"
| "htree_forest h depth (t # ts) =
     res_bind (htree_body h depth t) (\<lambda>this_tree.
     res_bind (htree_forest h depth ts) (\<lambda>others.
     Inr (this_tree @ end_msg (ts \<noteq> []) # others)))"

lemma print_next_cases:
  "print_next ((t, s # ts) # st) i = ([end_msg True], i, (s, ts) # st)"
  "print_next ((t, []) # st) i = (case print_next st (i - 1) of (m, r) \<Rightarrow> (end_msg False # m, r))"
  by (simp_all add: end_msg_def)

declare print_next.simps [simp del]

text \<open>The loop goes on where the inner loop left the stack.\<close>

definition go_on :: "'a ig_heap_scheme \<Rightarrow> print_stack \<Rightarrow> int \<Rightarrow> debug_msg list \<Rightarrow> debug_msg list res" where
  "go_on h st i out = (case print_next st i of (msgs, i, st) \<Rightarrow> htree_print_loop h st i (out @ msgs))"

lemma print_forest:
  assumes "\<And>t ts st out. t \<in> set (c # cs) \<Longrightarrow> length st = n \<Longrightarrow>
      htree_print_loop h ((t, ts) # st) (int n) out =
        res_bind (htree_body h n t) (\<lambda>b. go_on h ((t, ts) # st) (int n) (out @ b))"
    and "length st = n"
  shows "htree_print_loop h ((c, cs) # st) (int n) out =
     res_bind (htree_forest h n (c # cs)) (\<lambda>b. go_on h st (int n - 1) (out @ b))"
  using assms(1)
proof (induction cs arbitrary: c out)
  case Nil
  then show ?case
    by (simp add: assms(2) go_on_def print_next_cases res_bind_assoc split: prod.split cong: res_bind_cong)
next
  case (Cons d ds)
  have d: "htree_print_loop h ((d, ds) # st) (int n) out =
     res_bind (htree_forest h n (d # ds)) (\<lambda>b. go_on h st (int n - 1) (out @ b))" for out
    by (rule Cons.IH) (use Cons.prems in auto)
  have "htree_print_loop h ((c, d # ds) # st) (int n) out =
     res_bind (htree_body h n c) (\<lambda>b. go_on h ((c, d # ds) # st) (int n) (out @ b))"
    using Cons.prems assms(2) by simp
  then show ?case
    unfolding go_on_def [of h "(c, d # ds) # st"] print_next_cases prod.case d
    by (simp add: res_bind_assoc)
qed

lemma print_tree:
  "length st = n \<Longrightarrow> htree_print_loop h ((t, ts) # st) (int n) out =
     res_bind (htree_body h n t) (\<lambda>b. go_on h ((t, ts) # st) (int n) (out @ b))"
proof (induction t arbitrary: ts st n out)
  case (GNode c cs)
  show ?case
  proof (cases cs)
    case Nil
    then show ?thesis
      using GNode.prems by (simp add: htree_print_loop.simps res_bind_assoc go_on_def split: prod.split)
  next
    case (Cons d ds)
    have "htree_print_loop h ((d, ds) # (GNode c cs, ts) # st) (int (Suc n)) out =
       res_bind (htree_forest h (Suc n) (d # ds)) (\<lambda>b. go_on h ((GNode c cs, ts) # st) (int (Suc n) - 1) (out @ b))"
      for out
    proof (rule print_forest)
      show "htree_print_loop h ((t', ts') # st') (int (Suc n)) out' =
         res_bind (htree_body h (Suc n) t') (\<lambda>b. go_on h ((t', ts') # st') (int (Suc n)) (out' @ b))"
        if "t' \<in> set (d # ds)" "length st' = Suc n" for t' ts' st' out'
        by (rule GNode.IH) (use that Cons in auto)
    qed (use GNode.prems in simp)
    then show ?thesis
      using GNode.prems Cons by (simp add: htree_print_loop.simps res_bind_assoc algebra_simps)
  qed
qed

text \<open>C36. The loop of \<open>ig_lib_htree_print\<close> with its explicit stack and running indentation ends, and
  prints what a recursion over the tree prints: every node before its children, children in their
  order, each indented by its depth.\<close>

theorem htree_print_outline:
  "ig_lib_htree_print h t = htree_forest h 0 [t]"
  using print_tree [of "[]" 0 h t "[]" "[]"]
  by (simp add: ig_lib_htree_print_def go_on_def htree_print_loop.simps print_next.simps end_msg_def cong: res_bind_cong)

end
