(* ===== verification/Rf_Dev.thy ===== *)
theory Rf_Dev
  imports Prelude C_Strings
begin

unbundle bit_operations_syntax

text \<open>
  The register file access classes for host programs,
  \<open>src/templates/default/rf/static/host-cpp/regfile_contrib.cpp\<close>: devices that are read and
  written with bit masks, two devices that collect writes in front of another one, and the typed
  access to entries and bit fields. A device is a record of its virtual methods over a state \<open>'s\<close>;
  a class that implements a method for its subclasses is a definition that takes the pure virtual
  methods as arguments. The state of a caching device contains that of the device behind it.
\<close>

section \<open>Devices\<close>

type_synonym rf_data_t = "32 word"
type_synonym rf_addr_t = "32 word"

type_synonym 's rf_read = "rf_addr_t \<Rightarrow> 's \<Rightarrow> (rf_data_t \<times> 's) res"
type_synonym 's rf_write = "rf_addr_t \<Rightarrow> rf_data_t \<Rightarrow> rf_data_t \<Rightarrow> rf_data_t \<Rightarrow> 's \<Rightarrow> 's res"

record 's regfile_dev =
  rfdev_read :: "'s rf_read"
  rfdev_write :: "'s rf_write"
  rfdev_write_sequence ::
    "nat \<Rightarrow> rf_addr_t list \<Rightarrow> rf_data_t list \<Rightarrow> rf_data_t list \<Rightarrow> rf_data_t list \<Rightarrow> 's \<Rightarrow> 's res"

text \<open>\<open>regfile_dev::rfdev_write_sequence\<close>, with the bounds of the four arrays.\<close>

definition regfile_dev_write_sequence ::
    "'s rf_write \<Rightarrow> nat \<Rightarrow> rf_addr_t list \<Rightarrow> rf_data_t list \<Rightarrow> rf_data_t list \<Rightarrow> rf_data_t list
       \<Rightarrow> 's \<Rightarrow> 's res" where
  "regfile_dev_write_sequence wr len addr val msk unused_mask =
     res_fold (\<lambda>i s. if i < length addr \<and> i < length val \<and> i < length msk \<and> i < length unused_mask
                     then wr (addr ! i) (val ! i) (msk ! i) (unused_mask ! i) s
                     else Inl OutOfBounds) [0..<len]"

text \<open>A class that inherits the sequence from \<open>regfile_dev\<close>.\<close>

definition make_dev :: "'s rf_read \<Rightarrow> 's rf_write \<Rightarrow> 's regfile_dev" where
  "make_dev rd wr = \<lparr>rfdev_read = rd, rfdev_write = wr,
                     rfdev_write_sequence = regfile_dev_write_sequence wr\<rparr>"

section \<open>Whole words\<close>

definition regfile_dev_simple_write :: "'s rf_read \<Rightarrow> (rf_addr_t \<Rightarrow> rf_data_t \<Rightarrow> 's \<Rightarrow> 's res) \<Rightarrow> 's rf_write" where
  "regfile_dev_simple_write rd write_simple addr val msk unused_mask s =
     (let keep_mask = NOT (msk OR unused_mask) in
      if keep_mask = 0 then write_simple addr val s
      else
        res_bind (rd addr s) (\<lambda>(tdata, s).
        let tdata = tdata AND NOT msk;
            tdata = tdata OR (val AND msk)
        in write_simple addr tdata s))"

definition regfile_dev_simple ::
    "'s rf_read \<Rightarrow> (rf_addr_t \<Rightarrow> rf_data_t \<Rightarrow> 's \<Rightarrow> 's res) \<Rightarrow> 's regfile_dev" where
  "regfile_dev_simple rd write_simple = make_dev rd (regfile_dev_simple_write rd write_simple)"

section \<open>Parts of words\<close>

definition n_word_bytes :: nat where
  "n_word_bytes = 4"

text \<open>
  The two nested loops: sizes 4, 2, 1, and for each the positions from low to high. The result is
  the offset and the size of the first part that covers the bits to write and no bit to keep.
\<close>

definition i_word_mask :: "rf_data_t \<Rightarrow> nat \<Rightarrow> nat \<Rightarrow> rf_data_t" where
  "i_word_mask subword_mask n_subword_bytes i = push_bit (i * n_subword_bytes * 8) subword_mask"

fun subword_loop :: "rf_data_t \<Rightarrow> rf_data_t \<Rightarrow> nat \<Rightarrow> rf_data_t \<Rightarrow> (nat \<times> nat) option" where
  "subword_loop keep_mask msk n_subword_bytes subword_mask =
     (if n_subword_bytes = 0 then None
      else
        (case List.find (\<lambda>i. keep_mask AND i_word_mask subword_mask n_subword_bytes i = 0 \<and>
                             msk AND NOT (i_word_mask subword_mask n_subword_bytes i) = 0)
                [0..<n_word_bytes div n_subword_bytes] of
           Some i \<Rightarrow> Some (i * n_subword_bytes, n_subword_bytes)
         | None \<Rightarrow> subword_loop keep_mask msk (n_subword_bytes div 2)
                     (drop_bit (n_subword_bytes div 2 * 8) subword_mask)))"

declare subword_loop.simps [simp del]

text \<open>\<open>(2 << 31) - 1\<close>, computed modulo \<open>2 ^ 32\<close>.\<close>

definition full_word_mask :: "nat \<Rightarrow> rf_data_t" where
  "full_word_mask n_bytes = push_bit (n_bytes * 8 - 1) 2 - 1"

definition regfile_dev_subword_write ::
    "'s rf_read \<Rightarrow> (rf_addr_t \<Rightarrow> rf_data_t \<Rightarrow> nat \<Rightarrow> 's \<Rightarrow> 's res) \<Rightarrow> 's rf_write" where
  "regfile_dev_subword_write rd write_subword addr val msk unused_mask s =
     (let keep_mask = NOT (msk OR unused_mask) in
      case subword_loop keep_mask msk n_word_bytes (full_word_mask n_word_bytes) of
        Some (subword_offset, n_subword_bytes) \<Rightarrow>
          write_subword (addr + of_nat subword_offset) val n_subword_bytes s
      | None \<Rightarrow>
          res_bind (rd addr s) (\<lambda>(tdata, s).
          let tdata = tdata AND NOT msk;
              tdata = tdata OR (val AND msk)
          in write_subword addr tdata n_word_bytes s))"

definition regfile_dev_subword ::
    "'s rf_read \<Rightarrow> (rf_addr_t \<Rightarrow> rf_data_t \<Rightarrow> nat \<Rightarrow> 's \<Rightarrow> 's res) \<Rightarrow> 's regfile_dev" where
  "regfile_dev_subword rd write_subword = make_dev rd (regfile_dev_subword_write rd write_subword)"

text \<open>
  The subclass of the test bench, \<open>src/test/resources/apb_stim/apb_stim.h\<close>: the bus takes the
  address, one strobe bit for every byte of the word, and the word itself.
\<close>

definition apb_strb :: "rf_addr_t \<Rightarrow> nat \<Rightarrow> 8 word" where
  "apb_strb addr sz = ucast (push_bit (unat (addr AND 3)) (push_bit sz (1 :: 32 word) - 1))"

definition apb_stim_write_subword ::
    "(rf_addr_t \<Rightarrow> 8 word \<Rightarrow> rf_data_t \<Rightarrow> 's \<Rightarrow> 's res) \<Rightarrow> rf_addr_t \<Rightarrow> rf_data_t \<Rightarrow> nat \<Rightarrow> 's \<Rightarrow> 's res" where
  "apb_stim_write_subword bus_write addr val sz s = bus_write addr (apb_strb addr sz) val s"

section \<open>Collecting writes to one word\<close>

record bit_cache =
  bc_addr :: rf_addr_t
  bc_value :: rf_data_t
  bc_mask :: rf_data_t
  bc_unused_mask :: rf_data_t
  bc_valid :: bool

record 's bitcache =
  bc_main :: 's
  bc_cache :: bit_cache
  bc_enabled :: bool

definition regfile_dev_bitcache_init :: "'s \<Rightarrow> 's bitcache" where
  "regfile_dev_bitcache_init main =
     \<lparr>bc_main = main,
      bc_cache = \<lparr>bc_addr = 0, bc_value = 0, bc_mask = 0, bc_unused_mask = 0, bc_valid = False\<rparr>,
      bc_enabled = False\<rparr>"

definition bitcache_flush :: "'s regfile_dev \<Rightarrow> 's bitcache \<Rightarrow> 's bitcache res" where
  "bitcache_flush dev s =
     (if \<not> bc_enabled s then Inr s
      else if \<not> bc_valid (bc_cache s) then Inr s
      else
        let c = bc_cache s in
        res_bind (rfdev_write dev (bc_addr c) (bc_value c) (bc_mask c) (bc_unused_mask c) (bc_main s)) (\<lambda>main.
        Inr (s\<lparr>bc_main := main, bc_cache := c\<lparr>bc_valid := False\<rparr>\<rparr>)))"

definition bitcache_read :: "'s regfile_dev \<Rightarrow> 's bitcache rf_read" where
  "bitcache_read dev addr s =
     res_bind (bitcache_flush dev s) (\<lambda>s.
     res_bind (rfdev_read dev addr (bc_main s)) (\<lambda>(v, main). Inr (v, s\<lparr>bc_main := main\<rparr>)))"

definition bitcache_write :: "'s regfile_dev \<Rightarrow> 's bitcache rf_write" where
  "bitcache_write dev addr val msk unused_mask s =
     (if \<not> bc_enabled s
      then res_bind (rfdev_write dev addr val msk unused_mask (bc_main s)) (\<lambda>main. Inr (s\<lparr>bc_main := main\<rparr>))
      else
        let c = bc_cache s in
        res_bind
          (if bc_valid c then
             if bc_addr c = addr \<and> bc_unused_mask c = unused_mask \<and> bc_mask c AND msk = 0
             then Inr (s\<lparr>bc_cache := c\<lparr>bc_mask := bc_mask c OR msk,
                                       bc_value := (bc_value c AND NOT msk) OR (val AND msk)\<rparr>\<rparr>)
             else bitcache_flush dev s
           else Inr s) (\<lambda>s.
        if bc_valid (bc_cache s) then Inr s
        else Inr (s\<lparr>bc_cache := \<lparr>bc_addr = addr, bc_value = val, bc_mask = msk,
                                bc_unused_mask = unused_mask, bc_valid = True\<rparr>\<rparr>)))"

definition regfile_dev_bitcache :: "'s regfile_dev \<Rightarrow> 's bitcache regfile_dev" where
  "regfile_dev_bitcache dev = make_dev (bitcache_read dev) (bitcache_write dev)"

definition bitcache_enable :: "'s bitcache \<Rightarrow> 's bitcache" where
  "bitcache_enable s = s\<lparr>bc_enabled := True\<rparr>"

definition bitcache_disable :: "'s regfile_dev \<Rightarrow> 's bitcache \<Rightarrow> 's bitcache res" where
  "bitcache_disable dev s = res_bind (bitcache_flush dev s) (\<lambda>s. Inr (s\<lparr>bc_enabled := False\<rparr>))"

section \<open>Collecting sequences\<close>

record 's wordcache =
  wc_main :: 's
  wc_addr_list :: "rf_addr_t list"
  wc_value_list :: "rf_data_t list"
  wc_mask_list :: "rf_data_t list"
  wc_unused_mask_list :: "rf_data_t list"
  wc_seqlen :: nat
  wc_seqlen_max :: nat
  wc_enabled :: bool

text \<open>The arrays start with arbitrary contents.\<close>

definition regfile_dev_wordcache_init :: "(nat \<Rightarrow> 32 word) \<Rightarrow> nat \<Rightarrow> 's \<Rightarrow> 's wordcache" where
  "regfile_dev_wordcache_init garbage maxseq main =
     \<lparr>wc_main = main, wc_addr_list = map garbage [0..<maxseq], wc_value_list = map garbage [0..<maxseq],
      wc_mask_list = map garbage [0..<maxseq], wc_unused_mask_list = map garbage [0..<maxseq],
      wc_seqlen = 0, wc_seqlen_max = maxseq, wc_enabled = False\<rparr>"

definition wordcache_flush :: "'s regfile_dev \<Rightarrow> 's wordcache \<Rightarrow> 's wordcache res" where
  "wordcache_flush dev s =
     (if \<not> wc_enabled s then Inr s
      else if wc_seqlen s = 0 then Inr s
      else
        res_bind (rfdev_write_sequence dev (wc_seqlen s) (wc_addr_list s) (wc_value_list s)
                    (wc_mask_list s) (wc_unused_mask_list s) (wc_main s)) (\<lambda>main.
        Inr (s\<lparr>wc_main := main, wc_seqlen := 0\<rparr>)))"

definition wordcache_read :: "'s regfile_dev \<Rightarrow> 's wordcache rf_read" where
  "wordcache_read dev addr s =
     res_bind (wordcache_flush dev s) (\<lambda>s.
     res_bind (rfdev_read dev addr (wc_main s)) (\<lambda>(v, main). Inr (v, s\<lparr>wc_main := main\<rparr>)))"

text \<open>An assignment to an array element, with its bound.\<close>

definition array_set :: "'a list \<Rightarrow> nat \<Rightarrow> 'a \<Rightarrow> 'a list res" where
  "array_set xs i x = (if i < length xs then Inr (xs[i := x]) else Inl OutOfBounds)"

definition wordcache_write :: "'s regfile_dev \<Rightarrow> 's wordcache rf_write" where
  "wordcache_write dev addr val msk unused_mask s =
     (if \<not> wc_enabled s
      then res_bind (rfdev_write dev addr val msk unused_mask (wc_main s)) (\<lambda>main. Inr (s\<lparr>wc_main := main\<rparr>))
      else
        res_bind (array_set (wc_addr_list s) (wc_seqlen s) addr) (\<lambda>al.
        res_bind (array_set (wc_value_list s) (wc_seqlen s) val) (\<lambda>vl.
        res_bind (array_set (wc_mask_list s) (wc_seqlen s) msk) (\<lambda>ml.
        res_bind (array_set (wc_unused_mask_list s) (wc_seqlen s) unused_mask) (\<lambda>ul.
        let s = s\<lparr>wc_addr_list := al, wc_value_list := vl, wc_mask_list := ml, wc_unused_mask_list := ul,
                  wc_seqlen := wc_seqlen s + 1\<rparr>
        in if wc_seqlen s \<ge> wc_seqlen_max s then wordcache_flush dev s else Inr s)))))"

definition regfile_dev_wordcache :: "'s regfile_dev \<Rightarrow> 's wordcache regfile_dev" where
  "regfile_dev_wordcache dev = make_dev (wordcache_read dev) (wordcache_write dev)"

definition wordcache_enable :: "'s wordcache \<Rightarrow> 's wordcache" where
  "wordcache_enable s = s\<lparr>wc_enabled := True\<rparr>"

definition wordcache_disable :: "'s regfile_dev \<Rightarrow> 's wordcache \<Rightarrow> 's wordcache res" where
  "wordcache_disable dev s = res_bind (wordcache_flush dev s) (\<lambda>s. Inr (s\<lparr>wc_enabled := False\<rparr>))"

section \<open>The printing device\<close>

text \<open>Eight hexadecimal digits, as \<open>%08x\<close> prints a word; the state is what has been printed.\<close>

definition hex_digit :: "nat \<Rightarrow> char" where
  "hex_digit d = ''0123456789abcdef'' ! (d mod 16)"

definition hex8 :: "32 word \<Rightarrow> string" where
  "hex8 w = map (\<lambda>i. hex_digit (unat w div 16 ^ i)) (rev [0..<8])"

definition rfdev_debug_read :: "string rf_read" where
  "rfdev_debug_read addr out =
     (let result = 0x12345678 in
      Inr (result, out @ ''RFDEVDBG: read  from address 0x'' @ hex8 addr @ '' - returning 0x'' @ hex8 result @ [CHR 0x0A]))"

definition rfdev_debug_write_simple :: "rf_addr_t \<Rightarrow> rf_data_t \<Rightarrow> string \<Rightarrow> string res" where
  "rfdev_debug_write_simple addr val out =
     Inr (out @ ''RFDEVDBG: write from address 0x'' @ hex8 addr @ '' - value:    0x'' @ hex8 val @ [CHR 0x0A])"

definition regfile_dev_debug :: "string regfile_dev" where
  "regfile_dev_debug = regfile_dev_simple rfdev_debug_read rfdev_debug_write_simple"

section \<open>Entries and fields\<close>

text \<open>\<open>regfile_t\<close> adds a base address to the addresses it passes on.\<close>

definition regfile_read :: "'s regfile_dev \<Rightarrow> rf_addr_t \<Rightarrow> 's rf_read" where
  "regfile_read dev base_addr addr = rfdev_read dev (base_addr + addr)"

definition regfile_write :: "'s regfile_dev \<Rightarrow> rf_addr_t \<Rightarrow> 's rf_write" where
  "regfile_write dev base_addr addr = rfdev_write dev (base_addr + addr)"

record entry_t =
  m_base_addr :: rf_addr_t
  m_addr :: rf_addr_t
  m_unused_mask :: rf_data_t

definition entry_write :: "'s regfile_dev \<Rightarrow> entry_t \<Rightarrow> rf_data_t \<Rightarrow> 's \<Rightarrow> 's res" where
  "entry_write dev e val = regfile_write dev (m_base_addr e) (m_addr e) val 0xffffffff (m_unused_mask e)"

definition entry_read :: "'s regfile_dev \<Rightarrow> entry_t \<Rightarrow> 's \<Rightarrow> (rf_data_t \<times> 's) res" where
  "entry_read dev e = regfile_read dev (m_base_addr e) (m_addr e)"

definition entry_addr :: "entry_t \<Rightarrow> rf_addr_t" where
  "entry_addr e = m_base_addr e + m_addr e"

record reg_t =
  m_entry :: entry_t
  m_lsb :: nat
  m_mask :: rf_data_t

text \<open>The mask of the constructor, computed modulo \<open>2 ^ 32\<close>.\<close>

definition reg_mask :: "nat \<Rightarrow> nat \<Rightarrow> rf_data_t" where
  "reg_mask lsb msb = push_bit msb 2 - push_bit lsb 1"

definition reg_new :: "entry_t \<Rightarrow> nat \<Rightarrow> nat \<Rightarrow> reg_t" where
  "reg_new e lsb msb = \<lparr>m_entry = e, m_lsb = lsb, m_mask = reg_mask lsb msb\<rparr>"

text \<open>The flag of the result tells whether the warning about a truncated value is printed.\<close>

definition reg_write :: "'s regfile_dev \<Rightarrow> reg_t \<Rightarrow> rf_data_t \<Rightarrow> 's \<Rightarrow> (bool \<times> 's) res" where
  "reg_write dev r val s =
     (let wval = push_bit (m_lsb r) val;
          truncated = (wval AND NOT (m_mask r) \<noteq> 0);
          wval = wval AND m_mask r;
          e = m_entry r
      in res_bind (regfile_write dev (m_base_addr e) (m_addr e) wval (m_mask r) (m_unused_mask e) s)
           (\<lambda>s. Inr (truncated, s)))"

definition reg_read :: "'s regfile_dev \<Rightarrow> reg_t \<Rightarrow> 's \<Rightarrow> (rf_data_t \<times> 's) res" where
  "reg_read dev r s =
     res_bind (regfile_read dev (m_base_addr (m_entry r)) (m_addr (m_entry r)) s) (\<lambda>(v, s).
     let v = v AND m_mask r in Inr (drop_bit (m_lsb r) v, s))"

text \<open>The operators of the classes, which register descriptions in C++ use like variables.\<close>

definition entry_assign :: "'s regfile_dev \<Rightarrow> entry_t \<Rightarrow> rf_data_t \<Rightarrow> 's \<Rightarrow> (entry_t \<times> 's) res" where
  "entry_assign dev e val s = res_bind (entry_write dev e val s) (\<lambda>s. Inr (e, s))"

definition entry_value :: "'s regfile_dev \<Rightarrow> entry_t \<Rightarrow> 's \<Rightarrow> (rf_data_t \<times> 's) res" where
  "entry_value dev e s = entry_read dev e s"

definition entry_pointer :: "entry_t \<Rightarrow> 64 word" where
  "entry_pointer e = ucast (entry_addr e)"

definition reg_ro_value :: "'s regfile_dev \<Rightarrow> reg_t \<Rightarrow> 's \<Rightarrow> (rf_data_t \<times> 's) res" where
  "reg_ro_value dev r s = reg_read dev r s"

definition reg_rw_assign :: "'s regfile_dev \<Rightarrow> reg_t \<Rightarrow> rf_data_t \<Rightarrow> 's \<Rightarrow> ((bool \<times> reg_t) \<times> 's) res" where
  "reg_rw_assign dev r val s = res_bind (reg_write dev r val s) (\<lambda>(truncated, s). Inr ((truncated, r), s))"

definition reg_rw_value :: "'s regfile_dev \<Rightarrow> reg_t \<Rightarrow> 's \<Rightarrow> (rf_data_t \<times> 's) res" where
  "reg_rw_value dev r s = reg_read dev r s"

section \<open>Memories\<close>

text \<open>\<open>mem_access_t\<close>: addresses are computed with 64 bits and passed on as 32.\<close>

record mem_access_t =
  ma_base_addr :: rf_addr_t
  ma_bytes :: "32 word"

definition mem_access_new :: "rf_addr_t \<Rightarrow> mem_access_t" where
  "mem_access_new base_addr = \<lparr>ma_base_addr = base_addr, ma_bytes = 4\<rparr>"

text \<open>Assignment of accesses copies their parameters; devices have no data members to copy.\<close>

definition mem_access_assign :: "mem_access_t \<Rightarrow> mem_access_t \<Rightarrow> mem_access_t" where
  "mem_access_assign this_access other =
     this_access\<lparr>ma_base_addr := ma_base_addr other, ma_bytes := ma_bytes other\<rparr>"

definition mem_value_assign :: "mem_access_t \<times> 64 word \<Rightarrow> mem_access_t \<times> 64 word \<Rightarrow> mem_access_t \<times> 64 word" where
  "mem_value_assign this_value other = (mem_access_assign (fst this_value) (fst other), snd other)"

definition mem_access_index :: "mem_access_t \<Rightarrow> 64 word \<Rightarrow> 64 word" where
  "mem_access_index m idx = ucast (ma_base_addr m) + ucast (ma_bytes m) * idx"

definition mem_value_read :: "'s regfile_dev \<Rightarrow> 64 word \<Rightarrow> 's \<Rightarrow> (rf_data_t \<times> 's) res" where
  "mem_value_read dev address = rfdev_read dev (ucast address)"

definition mem_value_write :: "'s regfile_dev \<Rightarrow> mem_access_t \<Rightarrow> 64 word \<Rightarrow> rf_data_t \<Rightarrow> 's \<Rightarrow> 's res" where
  "mem_value_write dev m address newval =
     rfdev_write dev (ucast address) newval (full_word_mask (unat (ma_bytes m))) 0"

end
