(* ===== verification/Rf_Bits.thy ===== *)
theory Rf_Bits
  imports Rf_Dev
begin

text \<open>
  The bit arithmetic of the register file classes: masked words, the parts of a word that can be
  written alone, the strobes of the bus, and the masks of bit fields.
\<close>

section \<open>Masked words\<close>

definition masked :: "rf_data_t \<Rightarrow> rf_data_t \<Rightarrow> rf_data_t \<Rightarrow> rf_data_t" where
  "masked val msk old = (old AND NOT msk) OR (val AND msk)"

definition agree :: "rf_data_t \<Rightarrow> rf_data_t \<Rightarrow> rf_data_t \<Rightarrow> bool" where
  "agree unused v w \<longleftrightarrow> v AND NOT unused = w AND NOT unused"

lemma bit_bound: "bit (w :: 32 word) i \<Longrightarrow> i < 32"
  using bit_imp_le_length [of w i] by simp

lemma bit_not_32: "bit (NOT (w :: 32 word)) i \<longleftrightarrow> i < 32 \<and> \<not> bit w i"
  by (simp add: bit_not_iff)

lemma word32_eq_iff: "(v :: 32 word) = w \<longleftrightarrow> (\<forall>i < 32. bit v i = bit w i)"
  by (auto intro!: bit_word_eqI)

lemma zero_iff: "(w :: 32 word) = 0 \<longleftrightarrow> (\<forall>i < 32. \<not> bit w i)"
  by (simp add: word32_eq_iff)

lemma bit_masked: "bit (masked v m old) i = (if bit m i then bit v i else bit old i)"
  by (auto simp: masked_def bit_and_iff bit_or_iff bit_not_32 dest: bit_bound)

lemma agree_iff: "agree u v w \<longleftrightarrow> (\<forall>i. \<not> bit u i \<longrightarrow> bit v i = bit w i)"
  by (auto simp: agree_def word32_eq_iff bit_and_iff bit_not_32 dest: bit_bound)

lemma agree_refl [simp]: "agree u v v" by (simp add: agree_def)
lemma agree_sym: "agree u v w \<Longrightarrow> agree u w v" by (simp add: agree_def)
lemma agree_trans: "agree u v w \<Longrightarrow> agree u w x \<Longrightarrow> agree u v x" by (simp add: agree_def)

lemma agree_masked: "agree u v w \<Longrightarrow> agree u (masked x m v) (masked x m w)"
  by (simp add: agree_iff bit_masked)

lemma masked_masked:
  "masked (masked y n x) (m OR n) old = masked y n (masked x m old)"
  by (rule bit_eqI) (auto simp: bit_masked bit_or_iff)

lemma masked_full [simp]: "masked v (- 1) old = v"
  by (simp add: masked_def)

lemma subset_mask: "(u :: 32 word) AND NOT w = 0 \<longleftrightarrow> (\<forall>i. bit u i \<longrightarrow> bit w i)"
  by (auto simp: zero_iff bit_and_iff bit_not_32 dest: bit_bound)

lemma disjoint_mask: "(u :: 32 word) AND w = 0 \<longleftrightarrow> (\<forall>i. \<not> (bit u i \<and> bit w i))"
  by (auto simp: zero_iff bit_and_iff dest: bit_bound)

text \<open>Writing the bits outside of what must be kept.\<close>

lemma agree_keep:
  assumes "u AND NOT u' = 0" and "NOT (m OR u) AND p = 0" and "m AND NOT p = 0"
  shows "agree u' (masked v p old) (masked v m old)"
proof -
  have 1: "bit u i \<longrightarrow> bit u' i" "bit m i \<longrightarrow> bit p i" for i using assms(1,3) by (simp_all add: subset_mask)
  have 2: "bit p i \<longrightarrow> bit m i \<or> bit u i" for i
    using assms(2) by (auto simp: zero_iff bit_and_iff bit_or_iff bit_not_32 dest: bit_bound)
  show ?thesis using 1 2 by (auto simp: agree_iff bit_masked)
qed

section \<open>Parts of a word\<close>

definition lane_mask :: "nat \<Rightarrow> nat \<Rightarrow> rf_data_t" where
  "lane_mask off sz = push_bit (off * 8) (Bit_Operations.mask (sz * 8))"

definition parts :: "(nat \<times> nat) list" where
  "parts = [(0, 4), (0, 2), (2, 2), (0, 1), (1, 1), (2, 1), (3, 1)]"

definition covers :: "rf_data_t \<Rightarrow> rf_data_t \<Rightarrow> nat \<times> nat \<Rightarrow> bool" where
  "covers keep_mask msk = (\<lambda>(off, sz). keep_mask AND lane_mask off sz = 0 \<and> msk AND NOT (lane_mask off sz) = 0)"

lemma full_word_mask: "full_word_mask 4 = - 1" "full_word_mask n_word_bytes = Bit_Operations.mask (4 * 8)"
  by (simp_all add: full_word_mask_def n_word_bytes_def mask_eq_exp_minus_1)

lemma find_map: "List.find P (map f xs) = map_option f (List.find (\<lambda>x. P (f x)) xs)"
  by (induction xs) auto

lemma find_append: "List.find P (xs @ ys) = (case List.find P xs of None \<Rightarrow> List.find P ys | Some x \<Rightarrow> Some x)"
  by (induction xs) auto

lemma subword_loop_step:
  assumes "0 < n" and "n \<le> 4"
  shows "subword_loop k m n (Bit_Operations.mask (n * 8)) =
     (case List.find (covers k m) (map (\<lambda>i. (i * n, n)) [0..<4 div n]) of
        Some r \<Rightarrow> Some r
      | None \<Rightarrow> subword_loop k m (n div 2) (Bit_Operations.mask (n * 8 - n div 2 * 8)))"
proof -
  have d: "drop_bit (n div 2 * 8) (Bit_Operations.mask (n * 8) :: 32 word) = Bit_Operations.mask (n * 8 - n div 2 * 8)"
    by (rule bit_eqI) (use assms in \<open>auto simp: bit_simps\<close>)
  show ?thesis
    using assms
    by (subst subword_loop.simps)
       (simp add: find_map covers_def lane_mask_def i_word_mask_def n_word_bytes_def d split: option.split)
qed

lemma subword_loop_find:
  "subword_loop k m n_word_bytes (full_word_mask n_word_bytes) = List.find (covers k m) parts"
proof -
  have 4: "map (\<lambda>i. (i * 4, 4)) [0..<4 div 4] = [(0 :: nat, 4 :: nat)]" by simp
  have 2: "map (\<lambda>i. (i * 2, 2)) [0..<4 div 2] = [(0 :: nat, 2 :: nat), (2, 2)]" by (simp add: upt_rec)
  have 1: "map (\<lambda>i. (i * 1, 1)) [0..<4 div 1] = [(0 :: nat, 1 :: nat), (1, 1), (2, 1), (3, 1)]" by (simp add: upt_rec)
  have 0: "subword_loop k m 0 x = None" for x by (subst subword_loop.simps) simp
  have p: "parts = [(0, 4)] @ [(0, 2), (2, 2)] @ [(0, 1), (1, 1), (2, 1), (3, 1)]" by (simp add: parts_def)
  have l1: "subword_loop k m 1 (Bit_Operations.mask (1 * 8)) = List.find (covers k m) [(0, 1), (1, 1), (2, 1), (3, 1)]"
    unfolding subword_loop_step [OF zero_less_one one_le_numeral] 1 one_div_two_eq_zero 0
    by (simp split: option.split del: List.find.simps)
  have l2: "subword_loop k m 2 (Bit_Operations.mask (2 * 8)) =
      List.find (covers k m) ([(0, 2), (2, 2)] @ [(0, 1), (1, 1), (2, 1), (3, 1)])"
    unfolding find_append l1 [symmetric]
    using subword_loop_step [of 2 k m] unfolding 2 by (simp del: List.find.simps split: option.split)
  have l4: "subword_loop k m 4 (Bit_Operations.mask (4 * 8)) = List.find (covers k m) parts"
    unfolding p find_append [of _ "[(0, 4)]"] l2 [symmetric]
    using subword_loop_step [of 4 k m] unfolding 4 by (simp del: List.find.simps split: option.split)
  show ?thesis unfolding full_word_mask(2) using l4 by (simp add: n_word_bytes_def)
qed

section \<open>Byte strobes\<close>

definition strb_mask :: "8 word \<Rightarrow> rf_data_t" where
  "strb_mask strb = foldr (\<lambda>i acc. (if bit strb i then lane_mask i 1 else 0) OR acc) [0..<4] 0"

lemma part_cases:
  assumes "r \<in> set parts"
  obtains "r = (0, 4)" | "r = (0, 2)" | "r = (2, 2)" | "r = (0, 1)" | "r = (1, 1)" | "r = (2, 1)" | "r = (3, 1)"
  using assms by (auto simp: parts_def)

lemma aligned_add:
  assumes "(a :: 32 word) AND 3 = 0" and "n < 4"
  shows "(a + of_nat n) AND 3 = of_nat n" "(a + of_nat n) AND NOT 3 = a"
proof -
  have n: "of_nat n AND (3 :: 32 word) = of_nat n"
    using assms(2) by (auto simp: less_Suc_eq numeral_eq_Suc)
  have "a AND of_nat n = (a AND 3) AND of_nat n" by (subst n [symmetric]) (simp only: ac_simps)
  then have 1: "a + of_nat n = a OR of_nat n" using assms(1) by (intro disjunctive_add_eq_or) simp
  show "(a + of_nat n) AND 3 = of_nat n" by (simp add: 1 bit.conj_disj_distrib2 assms(1) n)
  have "(a AND 3) OR (a AND NOT 3) = a" by (simp flip: bit.conj_disj_distrib)
  then have "a AND NOT 3 = a" using assms(1) by simp
  moreover have "of_nat n AND (NOT 3 :: 32 word) = 0"
    by (subst n [symmetric]) (simp add: and.assoc)
  ultimately show "(a + of_nat n) AND NOT 3 = a" by (simp add: 1 bit.conj_disj_distrib2)
qed

lemma strb_lane:
  assumes "(a :: 32 word) AND 3 = 0" and "(off, sz) \<in> set parts"
  shows "strb_mask (apb_strb (a + of_nat off) sz) = lane_mask off sz" "(a + of_nat off) AND NOT 3 = a"
proof -
  have off: "off < 4" using assms(2) by (auto simp: parts_def)
  show "(a + of_nat off) AND NOT 3 = a" using assms(1) off by (rule aligned_add)
  have e: "apb_strb (a + of_nat off) sz = ucast (push_bit off (push_bit sz (1 :: 32 word) - 1))"
    using aligned_add(1) [OF assms(1) off] off by (simp add: apb_strb_def unat_of_nat take_bit_nat_eq_self)
  show "strb_mask (apb_strb (a + of_nat off) sz) = lane_mask off sz"
    unfolding e using assms(2) by (cases rule: part_cases; clarify; code_simp)
qed

section \<open>Bit fields\<close>

lemma reg_mask_eq:
  assumes "lsb \<le> msb" and "msb < 32"
  shows "reg_mask lsb msb = push_bit lsb (Bit_Operations.mask (Suc msb - lsb))"
proof -
  have "lsb + (Suc msb - lsb) = Suc msb" using assms(1) by simp
  then have "(2 :: 32 word) ^ lsb * 2 ^ (Suc msb - lsb) = 2 ^ Suc msb" by (metis power_add)
  moreover have "reg_mask lsb msb = 2 ^ Suc msb - 2 ^ lsb"
    unfolding reg_mask_def push_bit_eq_mult power_Suc mult_1 ..
  ultimately show ?thesis
    unfolding push_bit_eq_mult mask_eq_exp_minus_1 left_diff_distrib mult_1 by (simp only: mult.commute)
qed

lemma bit_reg_mask: "lsb \<le> msb \<Longrightarrow> msb < 32 \<Longrightarrow> bit (reg_mask lsb msb) i \<longleftrightarrow> lsb \<le> i \<and> i \<le> msb"
  unfolding reg_mask_eq bit_push_bit_iff bit_mask_iff possible_bit_word by simp linarith

end
