(* ===== verification/Rf_Refine.thy ===== *)
theory Rf_Refine
  imports Rf_Bits
begin

text \<open>
  What a register file device promises, and that the classes of \<open>regfile_contrib.cpp\<close> keep the
  promise. A device shows a memory of words; bits no register uses may change with any write. The
  contract \<open>rf_device\<close> speaks of the memory up to these bits, for the legal addresses and the
  states that satisfy the device's invariant. \<open>word_store\<close> and \<open>part_store\<close> are what the two
  implementing classes expect of the methods they leave to their subclasses, \<open>apb_bus\<close> is the
  bus of the test bench.
\<close>

section \<open>Memories up to unused bits\<close>

type_synonym memory = "rf_addr_t \<Rightarrow> rf_data_t"

definition agree_mem :: "(rf_addr_t \<Rightarrow> bool) \<Rightarrow> memory \<Rightarrow> memory \<Rightarrow> memory \<Rightarrow> bool" where
  "agree_mem legal unused m m' \<longleftrightarrow> (\<forall>a. legal a \<longrightarrow> agree (unused a) (m a) (m' a))"

definition mem_write :: "rf_addr_t \<Rightarrow> rf_data_t \<Rightarrow> rf_data_t \<Rightarrow> memory \<Rightarrow> memory" where
  "mem_write a v k m = m(a := masked v k (m a))"

definition mem_writes :: "(rf_addr_t \<times> rf_data_t \<times> rf_data_t) list \<Rightarrow> memory \<Rightarrow> memory" where
  "mem_writes ws m = foldl (\<lambda>m (a, v, k). mem_write a v k m) m ws"

text \<open>The first \<open>n\<close> elements of three arrays.\<close>

definition zip3 :: "nat \<Rightarrow> 'a list \<Rightarrow> 'b list \<Rightarrow> 'c list \<Rightarrow> ('a \<times> 'b \<times> 'c) list" where
  "zip3 n as bs cs = map (\<lambda>i. (as ! i, bs ! i, cs ! i)) [0..<n]"

lemma agree_mem_refl [simp]: "agree_mem legal u m m" by (simp add: agree_mem_def)

lemma agree_mem_sym: "agree_mem legal u m m' \<Longrightarrow> agree_mem legal u m' m"
  by (simp add: agree_mem_def agree_sym)

lemma agree_mem_trans: "agree_mem legal u m m' \<Longrightarrow> agree_mem legal u m' m'' \<Longrightarrow> agree_mem legal u m m''"
  unfolding agree_mem_def by (blast intro: agree_trans)

lemma agree_mem_at: "agree_mem legal u m m' \<Longrightarrow> legal a \<Longrightarrow> agree (u a) (m a) (m' a)"
  by (simp add: agree_mem_def)

lemma agree_mem_write:
  "agree_mem legal u m m' \<Longrightarrow> agree_mem legal u (mem_write a v k m) (mem_write a v k m')"
  by (auto simp: agree_mem_def mem_write_def agree_masked)

lemma mem_writes_Nil [simp]: "mem_writes [] m = m" by (simp add: mem_writes_def)

lemma mem_writes_snoc [simp]: "mem_writes (ws @ [(a, v, k)]) m = mem_write a v k (mem_writes ws m)"
  by (simp add: mem_writes_def)

lemma agree_mem_writes: "agree_mem legal u m m' \<Longrightarrow> agree_mem legal u (mem_writes ws m) (mem_writes ws m')"
proof (induction ws rule: rev_induct)
  case (snoc w ws)
  then show ?case by (cases w) (simp add: agree_mem_write)
qed simp

lemma mem_write_write: "mem_write a w n (mem_write a v k m) = mem_write a (masked w n v) (k OR n) m"
proof -
  have "masked w n (masked v k (m a)) = masked (masked w n v) (k OR n) (m a)"
    by (rule bit_word_eqI) (auto simp: bit_masked bit_or_iff)
  then show ?thesis by (simp add: mem_write_def fun_eq_iff)
qed

lemma zip3_0 [simp]: "zip3 0 as bs cs = []" by (simp add: zip3_def)

lemma zip3_Suc: "zip3 (Suc n) as bs cs = zip3 n as bs cs @ [(as ! n, bs ! n, cs ! n)]" by (simp add: zip3_def)

lemma zip3_update: "n \<le> i \<Longrightarrow> zip3 n (as[i := a]) (bs[i := b]) (cs[i := c]) = zip3 n as bs cs"
  by (simp add: zip3_def)

section \<open>The contract\<close>

locale rf_device =
  fixes legal :: "rf_addr_t \<Rightarrow> bool" and unused :: memory
    and ok :: "'s \<Rightarrow> bool" and mem :: "'s \<Rightarrow> memory" and dev :: "'s regfile_dev"
  assumes reads: "ok s \<Longrightarrow> legal a \<Longrightarrow>
      holds (rfdev_read dev a s) (\<lambda>(v, s'). ok s' \<and> agree (unused a) v (mem s a) \<and>
        agree_mem legal unused (mem s') (mem s))"
    and writes: "ok s \<Longrightarrow> legal a \<Longrightarrow> u AND NOT (unused a) = 0 \<Longrightarrow>
      holds (rfdev_write dev a v k u s) (\<lambda>s'. ok s' \<and>
        agree_mem legal unused (mem s') (mem_write a v k (mem s)))"
    and sequences: "ok s \<Longrightarrow> n \<le> length as \<Longrightarrow> n \<le> length vs \<Longrightarrow> n \<le> length ks \<Longrightarrow> n \<le> length us \<Longrightarrow>
      \<forall>i < n. legal (as ! i) \<and> us ! i AND NOT (unused (as ! i)) = 0 \<Longrightarrow>
      holds (rfdev_write_sequence dev n as vs ks us s) (\<lambda>s'. ok s' \<and>
        agree_mem legal unused (mem s') (mem_writes (zip3 n as vs ks) (mem s)))"

text \<open>The inherited sequence keeps the contract whenever the single write does.\<close>

lemma rf_device_make:
  assumes reads: "\<And>s a. ok s \<Longrightarrow> legal a \<Longrightarrow>
      holds (rd a s) (\<lambda>(v, s'). ok s' \<and> agree (unused a) v (mem s a) \<and> agree_mem legal unused (mem s') (mem s))"
    and writes: "\<And>s a u v k. ok s \<Longrightarrow> legal a \<Longrightarrow> u AND NOT (unused a) = 0 \<Longrightarrow>
      holds (wr a v k u s) (\<lambda>s'. ok s' \<and> agree_mem legal unused (mem s') (mem_write a v k (mem s)))"
  shows "rf_device legal unused ok mem (make_dev rd wr)"
proof unfold_locales
  fix s as vs ks us and n :: nat
  let ?f = "\<lambda>i s. if i < length as \<and> i < length vs \<and> i < length ks \<and> i < length us
                  then wr (as ! i) (vs ! i) (ks ! i) (us ! i) s else Inl OutOfBounds"
  assume "ok s" and len: "n \<le> length as" "n \<le> length vs" "n \<le> length ks" "n \<le> length us"
    and leg: "\<forall>i < n. legal (as ! i) \<and> us ! i AND NOT (unused (as ! i)) = 0"
  have step: "holds (res_fold ?f [0..<j] s) (\<lambda>s'. ok s' \<and>
      agree_mem legal unused (mem s') (mem_writes (zip3 j as vs ks) (mem s)))" if "j \<le> n" for j
    using that
  proof (induction j)
    case 0
    then show ?case using \<open>ok s\<close> by simp
  next
    case (Suc j)
    have "holds (wr (as ! j) (vs ! j) (ks ! j) (us ! j) s1) (\<lambda>s'. ok s' \<and>
        agree_mem legal unused (mem s') (mem_writes (zip3 (Suc j) as vs ks) (mem s)))"
      if "ok s1 \<and> agree_mem legal unused (mem s1) (mem_writes (zip3 j as vs ks) (mem s))" for s1
      by (rule holds_mono [OF writes])
         (use that leg Suc.prems in \<open>auto simp: zip3_Suc intro: agree_mem_trans agree_mem_write\<close>)
    then show ?case
      using Suc len by (auto simp: res_fold_append elim!: holds_mono)
  qed
  show "holds (rfdev_write_sequence (make_dev rd wr) n as vs ks us s) (\<lambda>s'. ok s' \<and>
      agree_mem legal unused (mem s') (mem_writes (zip3 n as vs ks) (mem s)))"
    using step [of n] by (simp add: make_dev_def regfile_dev_write_sequence_def)
qed (use assms in \<open>simp_all add: make_dev_def\<close>)

section \<open>The classes that implement masked writes\<close>

locale word_store =
  fixes legal :: "rf_addr_t \<Rightarrow> bool" and unused :: memory and ok :: "'s \<Rightarrow> bool" and mem :: "'s \<Rightarrow> memory"
    and rd :: "'s rf_read" and write_simple :: "rf_addr_t \<Rightarrow> rf_data_t \<Rightarrow> 's \<Rightarrow> 's res"
  assumes reads: "ok s \<Longrightarrow> legal a \<Longrightarrow>
      holds (rd a s) (\<lambda>(v, s'). ok s' \<and> agree (unused a) v (mem s a) \<and> agree_mem legal unused (mem s') (mem s))"
    and writes: "ok s \<Longrightarrow> legal a \<Longrightarrow>
      holds (write_simple a v s) (\<lambda>s'. ok s' \<and> agree_mem legal unused (mem s') ((mem s)(a := v)))"

locale part_store =
  fixes legal :: "rf_addr_t \<Rightarrow> bool" and unused :: memory and ok :: "'s \<Rightarrow> bool" and mem :: "'s \<Rightarrow> memory"
    and rd :: "'s rf_read" and write_subword :: "rf_addr_t \<Rightarrow> rf_data_t \<Rightarrow> nat \<Rightarrow> 's \<Rightarrow> 's res"
  assumes reads: "ok s \<Longrightarrow> legal a \<Longrightarrow>
      holds (rd a s) (\<lambda>(v, s'). ok s' \<and> agree (unused a) v (mem s a) \<and> agree_mem legal unused (mem s') (mem s))"
    and writes: "ok s \<Longrightarrow> legal a \<Longrightarrow> (off, sz) \<in> set parts \<Longrightarrow>
      holds (write_subword (a + of_nat off) v sz s) (\<lambda>s'. ok s' \<and>
        agree_mem legal unused (mem s') (mem_write a v (lane_mask off sz) (mem s)))"

text \<open>Read, modify, write.\<close>

lemma agree_modify:
  assumes "agree u t old"
  shows "agree u ((t AND NOT k) OR (v AND k)) (masked v k old)"
  using agree_masked [OF assms, of v k] by (simp add: masked_def)

lemma agree_mem_update:
  assumes "agree_mem legal u m' m" and "agree (u a) x (masked v k (m a))"
  shows "agree_mem legal u (m'(a := x)) (mem_write a v k m)"
  using assms by (auto simp: agree_mem_def mem_write_def)

context word_store
begin

lemma simple_device: "rf_device legal unused ok mem (regfile_dev_simple rd write_simple)"
  unfolding regfile_dev_simple_def
proof (rule rf_device_make)
  fix s a u v k
  assume s: "ok s" and a: "legal a" and u: "u AND NOT (unused a) = (0 :: 32 word)"
  show "holds (regfile_dev_simple_write rd write_simple a v k u s)
      (\<lambda>s'. ok s' \<and> agree_mem legal unused (mem s') (mem_write a v k (mem s)))"
  proof (cases "NOT (k OR u) = 0")
    case True
    then have "agree (unused a) v (masked v k (mem s a))"
      using agree_keep [OF u, of k "- 1" v] by simp
    then have "agree_mem legal unused ((mem s)(a := v)) (mem_write a v k (mem s))"
      by (intro agree_mem_update) simp_all
    then show ?thesis
      using True
      by (auto simp: regfile_dev_simple_write_def intro!: holds_mono [OF writes [OF s a, of v]] intro: agree_mem_trans)
  next
    case False
    have "holds (write_simple a ((t AND NOT k) OR (v AND k)) s1)
        (\<lambda>s'. ok s' \<and> agree_mem legal unused (mem s') (mem_write a v k (mem s)))"
      if "ok s1 \<and> agree (unused a) t (mem s a) \<and> agree_mem legal unused (mem s1) (mem s)" for t s1
      by (rule holds_mono [OF writes])
         (use that a agree_modify [of "unused a" t "mem s a" k v] in
           \<open>auto intro: agree_mem_trans agree_mem_update\<close>)
    then show ?thesis
      using False by (auto simp: regfile_dev_simple_write_def Let_def intro!: holds_mono [OF reads [OF s a]])
  qed
qed (rule reads)

end

context part_store
begin

lemma subword_device: "rf_device legal unused ok mem (regfile_dev_subword rd write_subword)"
  unfolding regfile_dev_subword_def
proof (rule rf_device_make)
  fix s a u v k
  assume s: "ok s" and a: "legal a" and u: "u AND NOT (unused a) = (0 :: 32 word)"
  show "holds (regfile_dev_subword_write rd write_subword a v k u s)
      (\<lambda>s'. ok s' \<and> agree_mem legal unused (mem s') (mem_write a v k (mem s)))"
  proof (cases "List.find (covers (NOT (k OR u)) k) parts")
    case (Some r)
    obtain off sz where r: "r = (off, sz)" by (cases r)
    have in_parts: "(off, sz) \<in> set parts" and c: "covers (NOT (k OR u)) k (off, sz)"
      using Some r by (auto simp: find_Some_iff)
    have "agree (unused a) (masked v (lane_mask off sz) (mem s a)) (masked v k (mem s a))"
      using c by (intro agree_keep [OF u]) (simp_all add: covers_def)
    then have "agree_mem legal unused (mem_write a v (lane_mask off sz) (mem s)) (mem_write a v k (mem s))"
      by (simp add: mem_write_def [of a v "lane_mask off sz"] agree_mem_update)
    then show ?thesis
      using Some r
      by (auto simp: regfile_dev_subword_write_def subword_loop_find
          intro!: holds_mono [OF writes [OF s a in_parts, of v]] intro: agree_mem_trans)
  next
    case None
    have full: "(0, n_word_bytes) \<in> set parts" by (simp add: parts_def n_word_bytes_def)
    have lm: "lane_mask 0 n_word_bytes = - 1" by (simp add: lane_mask_def n_word_bytes_def mask_eq_exp_minus_1)
    have "holds (write_subword a ((t AND NOT k) OR (v AND k)) n_word_bytes s1)
        (\<lambda>s'. ok s' \<and> agree_mem legal unused (mem s') (mem_write a v k (mem s)))"
      if "ok s1 \<and> agree (unused a) t (mem s a) \<and> agree_mem legal unused (mem s1) (mem s)" for t s1
    proof -
      have "agree_mem legal unused (mem_write a ((t AND NOT k) OR (v AND k)) (- 1) (mem s1)) (mem_write a v k (mem s))"
        using that agree_modify [of "unused a" t "mem s a" k v]
        by (simp add: mem_write_def [of a _ "- 1"] agree_mem_update)
      moreover have "holds (write_subword a ((t AND NOT k) OR (v AND k)) n_word_bytes s1) (\<lambda>s'. ok s' \<and>
          agree_mem legal unused (mem s') (mem_write a ((t AND NOT k) OR (v AND k)) (- 1) (mem s1)))"
        using writes [OF _ a full, of s1 "(t AND NOT k) OR (v AND k)"] that by (simp add: lm)
      ultimately show ?thesis by (elim holds_mono) (auto intro: agree_mem_trans)
    qed
    then show ?thesis
      using None
      by (auto simp: regfile_dev_subword_write_def subword_loop_find Let_def intro!: holds_mono [OF reads [OF s a]])
  qed
qed (rule reads)

end

section \<open>The bus of the test bench\<close>

text \<open>
  A bus on which a write replaces the bytes its strobes select in the word the address lies in.
\<close>

locale apb_bus =
  fixes unused :: memory and ok :: "'s \<Rightarrow> bool" and mem :: "'s \<Rightarrow> memory"
    and rd :: "'s rf_read" and bus_write :: "rf_addr_t \<Rightarrow> 8 word \<Rightarrow> rf_data_t \<Rightarrow> 's \<Rightarrow> 's res"
  assumes reads: "ok s \<Longrightarrow> a AND 3 = 0 \<Longrightarrow>
      holds (rd a s) (\<lambda>(v, s'). ok s' \<and> agree (unused a) v (mem s a) \<and>
        agree_mem (\<lambda>a. a AND 3 = 0) unused (mem s') (mem s))"
    and writes: "ok s \<Longrightarrow> holds (bus_write a strb v s) (\<lambda>s'. ok s' \<and>
        agree_mem (\<lambda>a. a AND 3 = 0) unused (mem s') (mem_write (a AND NOT 3) v (strb_mask strb) (mem s)))"

sublocale apb_bus \<subseteq> lanes: part_store "\<lambda>a. a AND 3 = 0" unused ok mem rd "apb_stim_write_subword bus_write"
proof unfold_locales
  fix s a off sz v
  assume "ok s" "a AND 3 = (0 :: 32 word)" "(off, sz) \<in> set parts"
  then show "holds (apb_stim_write_subword bus_write (a + of_nat off) v sz s) (\<lambda>s'. ok s' \<and>
        agree_mem (\<lambda>a. a AND 3 = 0) unused (mem s') (mem_write a v (lane_mask off sz) (mem s)))"
    using writes [of s "a + of_nat off" "apb_strb (a + of_nat off) sz" v] strb_lane [of a off sz]
    by (simp add: apb_stim_write_subword_def)
qed (rule reads)

context apb_bus
begin

lemma bus_device:
  "rf_device (\<lambda>a. a AND 3 = 0) unused ok mem (regfile_dev_subword rd (apb_stim_write_subword bus_write))"
  by (rule lanes.subword_device)

end

text \<open>A memory without unused bits behind the bus.\<close>

definition ram_read :: "memory rf_read" where
  "ram_read a m = Inr (m (a AND NOT 3), m)"

definition ram_bus_write :: "rf_addr_t \<Rightarrow> 8 word \<Rightarrow> rf_data_t \<Rightarrow> memory \<Rightarrow> memory res" where
  "ram_bus_write a strb v m = Inr (mem_write (a AND NOT 3) v (strb_mask strb) m)"

lemma aligned_word: "a AND 3 = (0 :: 32 word) \<Longrightarrow> a AND NOT 3 = a"
  using aligned_add(2) [of a 0] by simp

lemma ram_bus_laws: "apb_bus unused (\<lambda>_. True) (\<lambda>m. m) ram_read ram_bus_write"
  by unfold_locales (simp_all add: ram_read_def ram_bus_write_def aligned_word [simplified])

interpretation ram_bus: apb_bus "\<lambda>_. 0" "\<lambda>_. True" "\<lambda>m. m" ram_read ram_bus_write
  by (rule ram_bus_laws)

definition apb_ram :: "memory regfile_dev" where
  "apb_ram = regfile_dev_subword ram_read (apb_stim_write_subword ram_bus_write)"

lemma apb_ram_device: "rf_device (\<lambda>a. a AND 3 = 0) unused (\<lambda>_. True) (\<lambda>m. m) apb_ram"
  unfolding apb_ram_def by (rule apb_bus.bus_device [OF ram_bus_laws])

interpretation apb_ram: rf_device "\<lambda>a. a AND 3 = 0" "\<lambda>_. 0" "\<lambda>_. True" "\<lambda>m. m" apb_ram
  by (rule apb_ram_device)

text \<open>The printing device stores nothing: it is a word store all of whose bits are unused.\<close>

interpretation debug_store: word_store "\<lambda>_. True" "\<lambda>_. - 1" "\<lambda>_. True" "\<lambda>_ _. 0" rfdev_debug_read rfdev_debug_write_simple
  by unfold_locales (simp_all add: rfdev_debug_read_def rfdev_debug_write_simple_def Let_def agree_def agree_mem_def)

end
