(* ===== verification/Rf_Caches.thy ===== *)
theory Rf_Caches
  imports Rf_Refine
begin

text \<open>
  The two caches keep the contract of the device behind them: the memory a cache shows is the one
  of that device with the collected writes applied. Flushing and disabling bring the device to the
  memory shown, so that nothing is lost; the arrays of the word cache are never exceeded.
\<close>

section \<open>The bit cache\<close>

definition bitcache_mem :: "('s \<Rightarrow> memory) \<Rightarrow> 's bitcache \<Rightarrow> memory" where
  "bitcache_mem mem s =
     (if bc_valid (bc_cache s)
      then mem_write (bc_addr (bc_cache s)) (bc_value (bc_cache s)) (bc_mask (bc_cache s)) (mem (bc_main s))
      else mem (bc_main s))"

definition bitcache_ok ::
    "(rf_addr_t \<Rightarrow> bool) \<Rightarrow> memory \<Rightarrow> ('s \<Rightarrow> bool) \<Rightarrow> 's bitcache \<Rightarrow> bool" where
  "bitcache_ok legal unused ok s \<longleftrightarrow>
     ok (bc_main s) \<and>
     (bc_valid (bc_cache s) \<longrightarrow> bc_enabled s \<and> legal (bc_addr (bc_cache s)) \<and>
        bc_unused_mask (bc_cache s) AND NOT (unused (bc_addr (bc_cache s))) = 0)"

lemma bitcache_init:
  "ok main \<Longrightarrow> bitcache_ok legal unused ok (regfile_dev_bitcache_init main)"
  "bitcache_mem mem (regfile_dev_bitcache_init main) = mem main"
  by (simp_all add: bitcache_ok_def bitcache_mem_def regfile_dev_bitcache_init_def)

context rf_device
begin

lemma bitcache_flush_result:
  assumes "bitcache_ok legal unused ok s"
  shows "holds (bitcache_flush dev s) (\<lambda>s'. ok (bc_main s') \<and> \<not> bc_valid (bc_cache s') \<and>
    bc_enabled s' = bc_enabled s \<and> agree_mem legal unused (mem (bc_main s')) (bitcache_mem mem s))"
  using assms
  by (auto simp: bitcache_flush_def bitcache_ok_def bitcache_mem_def Let_def intro!: holds_mono [OF writes])

lemma bitcache_device:
  "rf_device legal unused (bitcache_ok legal unused ok) (bitcache_mem mem) (regfile_dev_bitcache dev)"
  unfolding regfile_dev_bitcache_def
proof (rule rf_device_make)
  fix s a
  assume s: "bitcache_ok legal unused ok s" and a: "legal a"
  show "holds (bitcache_read dev a s) (\<lambda>(v, s'). bitcache_ok legal unused ok s' \<and>
      agree (unused a) v (bitcache_mem mem s a) \<and> agree_mem legal unused (bitcache_mem mem s') (bitcache_mem mem s))"
  proof -
    have "holds (rfdev_read dev a (bc_main s1)) (\<lambda>(v, m).
        bitcache_ok legal unused ok (s1\<lparr>bc_main := m\<rparr>) \<and> agree (unused a) v (bitcache_mem mem s a) \<and>
        agree_mem legal unused (bitcache_mem mem (s1\<lparr>bc_main := m\<rparr>)) (bitcache_mem mem s))"
      if "ok (bc_main s1) \<and> \<not> bc_valid (bc_cache s1) \<and> bc_enabled s1 = bc_enabled s \<and>
          agree_mem legal unused (mem (bc_main s1)) (bitcache_mem mem s)" for s1
      by (rule holds_mono [OF reads [of "bc_main s1" a]])
         (use that a in \<open>auto simp: bitcache_ok_def bitcache_mem_def [of mem "s1\<lparr>bc_main := _\<rparr>"]
            intro: agree_trans agree_mem_trans agree_mem_at\<close>)
    then show ?thesis
      unfolding bitcache_read_def holds_bind holds_case_Inr case_prod_conv
      by (intro holds_mono [OF bitcache_flush_result [OF s]])
  qed
next
  fix s a u v k
  assume s: "bitcache_ok legal unused ok s" and a: "legal a" and u: "u AND NOT (unused a) = (0 :: 32 word)"
  let ?Q = "\<lambda>s'. bitcache_ok legal unused ok s' \<and>
      agree_mem legal unused (bitcache_mem mem s') (mem_write a v k (bitcache_mem mem s))"
  let ?new = "\<lambda>s1. s1\<lparr>bc_cache := \<lparr>bc_addr = a, bc_value = v, bc_mask = k, bc_unused_mask = u, bc_valid = True\<rparr>\<rparr>"
  have new: "?Q (?new s1)" if "ok (bc_main s1)" "bc_enabled s1" "agree_mem legal unused (mem (bc_main s1)) (bitcache_mem mem s)" for s1
    using that a u by (simp add: bitcache_ok_def bitcache_mem_def [of mem "?new s1"] agree_mem_write)
  consider (off) "\<not> bc_enabled s"
    | (empty) "bc_enabled s" "\<not> bc_valid (bc_cache s)"
    | (merge) "bc_enabled s" "bc_valid (bc_cache s)" "bc_addr (bc_cache s) = a"
        "bc_unused_mask (bc_cache s) = u" "bc_mask (bc_cache s) AND k = 0"
    | (flush) "bc_enabled s" "bc_valid (bc_cache s)" "\<not> (bc_addr (bc_cache s) = a \<and>
        bc_unused_mask (bc_cache s) = u \<and> bc_mask (bc_cache s) AND k = 0)"
    by blast
  then show "holds (bitcache_write dev a v k u s) ?Q"
  proof cases
    case off
    then show ?thesis
      using s by (auto simp: bitcache_write_def bitcache_ok_def bitcache_mem_def intro!: holds_mono [OF writes [OF _ a u]])
  next
    case empty
    have "?Q (?new s)" by (rule new) (use empty s in \<open>simp_all add: bitcache_ok_def bitcache_mem_def\<close>)
    with empty show ?thesis by (simp add: bitcache_write_def Let_def)
  next
    case merge
    then show ?thesis
      using s by (simp add: bitcache_write_def Let_def bitcache_ok_def bitcache_mem_def mem_write_write masked_def)
  next
    case flush
    have "holds (bitcache_flush dev s) (\<lambda>s1. ?Q (?new s1) \<and> \<not> bc_valid (bc_cache s1))"
      by (rule holds_mono [OF bitcache_flush_result [OF s]]) (use new flush in auto)
    then show ?thesis
      using flush by (auto simp: bitcache_write_def Let_def elim!: holds_mono)
  qed
qed

text \<open>Nothing is lost when the cache is switched off, and nothing changes when it is switched on.\<close>

lemma bitcache_disable_result:
  assumes "bitcache_ok legal unused ok s"
  shows "holds (bitcache_disable dev s) (\<lambda>s'. bitcache_ok legal unused ok s' \<and> \<not> bc_enabled s' \<and>
    bitcache_mem mem s' = mem (bc_main s') \<and> agree_mem legal unused (mem (bc_main s')) (bitcache_mem mem s))"
  unfolding bitcache_disable_def
  by (auto simp: bitcache_ok_def bitcache_mem_def [of mem "_\<lparr>bc_enabled := _\<rparr>"]
      intro!: holds_mono [OF bitcache_flush_result [OF assms]])

lemma bitcache_enable_result:
  assumes "bitcache_ok legal unused ok s"
  shows "bitcache_ok legal unused ok (bitcache_enable s)" "bitcache_mem mem (bitcache_enable s) = bitcache_mem mem s"
  using assms by (simp_all add: bitcache_ok_def bitcache_mem_def bitcache_enable_def)

end

section \<open>The word cache\<close>

definition wordcache_mem :: "('s \<Rightarrow> memory) \<Rightarrow> 's wordcache \<Rightarrow> memory" where
  "wordcache_mem mem s =
     mem_writes (zip3 (wc_seqlen s) (wc_addr_list s) (wc_value_list s) (wc_mask_list s)) (mem (wc_main s))"

definition wordcache_ok ::
    "(rf_addr_t \<Rightarrow> bool) \<Rightarrow> memory \<Rightarrow> ('s \<Rightarrow> bool) \<Rightarrow> 's wordcache \<Rightarrow> bool" where
  "wordcache_ok legal unused ok s \<longleftrightarrow>
     ok (wc_main s) \<and> wc_seqlen s < wc_seqlen_max s \<and>
     length (wc_addr_list s) = wc_seqlen_max s \<and> length (wc_value_list s) = wc_seqlen_max s \<and>
     length (wc_mask_list s) = wc_seqlen_max s \<and> length (wc_unused_mask_list s) = wc_seqlen_max s \<and>
     (wc_seqlen s \<noteq> 0 \<longrightarrow> wc_enabled s) \<and>
     (\<forall>i < wc_seqlen s. legal (wc_addr_list s ! i) \<and>
        wc_unused_mask_list s ! i AND NOT (unused (wc_addr_list s ! i)) = 0)"

lemma wordcache_init:
  "ok main \<Longrightarrow> 0 < n \<Longrightarrow> wordcache_ok legal unused ok (regfile_dev_wordcache_init garbage n main)"
  "wordcache_mem mem (regfile_dev_wordcache_init garbage n main) = mem main"
  by (simp_all add: wordcache_ok_def wordcache_mem_def regfile_dev_wordcache_init_def)

context rf_device
begin

text \<open>A flush also works for arrays that are full.\<close>

lemma wordcache_flush_result:
  assumes "ok (wc_main s)" and "wc_seqlen s \<noteq> 0 \<longrightarrow> wc_enabled s"
    and "wc_seqlen s \<le> length (wc_addr_list s)" "wc_seqlen s \<le> length (wc_value_list s)"
      "wc_seqlen s \<le> length (wc_mask_list s)" "wc_seqlen s \<le> length (wc_unused_mask_list s)"
    and "\<forall>i < wc_seqlen s. legal (wc_addr_list s ! i) \<and>
           wc_unused_mask_list s ! i AND NOT (unused (wc_addr_list s ! i)) = 0"
  shows "holds (wordcache_flush dev s) (\<lambda>s'. ok (wc_main s') \<and> agree_mem legal unused (mem (wc_main s')) (wordcache_mem mem s) \<and>
    s' = s\<lparr>wc_main := wc_main s', wc_seqlen := 0\<rparr>)"
  using assms
  by (auto simp: wordcache_flush_def wordcache_mem_def intro!: holds_mono [OF sequences])

lemma wordcache_device:
  "rf_device legal unused (wordcache_ok legal unused ok) (wordcache_mem mem) (regfile_dev_wordcache dev)"
  unfolding regfile_dev_wordcache_def
proof (rule rf_device_make)
  fix s a
  assume s: "wordcache_ok legal unused ok s" and a: "legal a"
  let ?Q = "\<lambda>(v, s'). wordcache_ok legal unused ok s' \<and> agree (unused a) v (wordcache_mem mem s a) \<and>
      agree_mem legal unused (wordcache_mem mem s') (wordcache_mem mem s)"
  have rd: "holds (rfdev_read dev a m1) (\<lambda>(v, m). ?Q (v, s\<lparr>wc_seqlen := 0, wc_main := m\<rparr>))"
    if "ok m1" "agree_mem legal unused (mem m1) (wordcache_mem mem s)" for m1
    by (rule holds_mono [OF reads [of m1 a]])
       (use that a s in \<open>auto simp: wordcache_ok_def wordcache_mem_def [of mem "s\<lparr>wc_seqlen := _, wc_main := _\<rparr>"]
          intro: agree_trans agree_mem_trans agree_mem_at\<close>)
  have "holds (wordcache_flush dev s) (\<lambda>s'. ok (wc_main s') \<and>
      agree_mem legal unused (mem (wc_main s')) (wordcache_mem mem s) \<and> s' = s\<lparr>wc_main := wc_main s', wc_seqlen := 0\<rparr>)"
    by (rule wordcache_flush_result) (use s in \<open>auto simp: wordcache_ok_def\<close>)
  then show "holds (wordcache_read dev a s) ?Q"
    unfolding wordcache_read_def holds_bind holds_case_Inr
  proof (rule holds_mono)
    fix s' assume "ok (wc_main s') \<and>
      agree_mem legal unused (mem (wc_main s')) (wordcache_mem mem s) \<and> s' = s\<lparr>wc_main := wc_main s', wc_seqlen := 0\<rparr>"
    then obtain m where "ok m" "agree_mem legal unused (mem m) (wordcache_mem mem s)" "s' = s\<lparr>wc_main := m, wc_seqlen := 0\<rparr>"
      by blast
    then show "holds (rfdev_read dev a (wc_main s')) (\<lambda>(v, main). ?Q (v, s'\<lparr>wc_main := main\<rparr>))"
      using rd by simp
  qed
next
  fix s a u v k
  assume s: "wordcache_ok legal unused ok s" and a: "legal a" and u: "u AND NOT (unused a) = (0 :: 32 word)"
  let ?n = "wc_seqlen s"
  let ?s1 = "s\<lparr>wc_addr_list := (wc_addr_list s)[?n := a], wc_value_list := (wc_value_list s)[?n := v],
      wc_mask_list := (wc_mask_list s)[?n := k], wc_unused_mask_list := (wc_unused_mask_list s)[?n := u],
      wc_seqlen := Suc ?n\<rparr>"
  let ?Q = "\<lambda>s'. wordcache_ok legal unused ok s' \<and>
      agree_mem legal unused (wordcache_mem mem s') (mem_write a v k (wordcache_mem mem s))"
  show "holds (wordcache_write dev a v k u s) ?Q"
  proof (cases "wc_enabled s")
    case False
    then show ?thesis
      using s by (auto simp: wordcache_write_def wordcache_ok_def wordcache_mem_def intro!: holds_mono [OF writes [OF _ a u]])
  next
    case True
    have bound: "?n < wc_seqlen_max s" using s by (simp add: wordcache_ok_def)
    have m1: "wordcache_mem mem ?s1 = mem_write a v k (wordcache_mem mem s)"
      using s by (simp add: wordcache_mem_def zip3_Suc zip3_update wordcache_ok_def)
    have run: "wordcache_write dev a v k u s = (if wc_seqlen_max s \<le> Suc ?n then wordcache_flush dev ?s1 else Inr ?s1)"
      using True s by (simp add: wordcache_write_def array_set_def wordcache_ok_def Let_def)
    have leg: "\<forall>i < Suc ?n. legal ((wc_addr_list s)[?n := a] ! i) \<and>
        (wc_unused_mask_list s)[?n := u] ! i AND NOT (unused ((wc_addr_list s)[?n := a] ! i)) = 0"
      using s a u by (auto simp: wordcache_ok_def nth_list_update less_Suc_eq)
    show ?thesis
    proof (cases "wc_seqlen_max s \<le> Suc ?n")
      case full: True
      have "holds (wordcache_flush dev ?s1) (\<lambda>s'. ok (wc_main s') \<and>
          agree_mem legal unused (mem (wc_main s')) (wordcache_mem mem ?s1) \<and> s' = ?s1\<lparr>wc_main := wc_main s', wc_seqlen := 0\<rparr>)"
        by (rule wordcache_flush_result) (use s True leg bound in \<open>simp_all add: wordcache_ok_def\<close>)
      then have "holds (wordcache_flush dev ?s1) ?Q"
      proof (rule holds_mono)
        fix s' assume s': "ok (wc_main s') \<and>
          agree_mem legal unused (mem (wc_main s')) (wordcache_mem mem ?s1) \<and> s' = ?s1\<lparr>wc_main := wc_main s', wc_seqlen := 0\<rparr>"
        then obtain m where "ok m" "agree_mem legal unused (mem m) (wordcache_mem mem ?s1)"
            "s' = ?s1\<lparr>wc_main := m, wc_seqlen := 0\<rparr>" by blast
        then show "?Q s'"
          using s bound unfolding m1 by (simp add: wordcache_ok_def wordcache_mem_def [of mem "_\<lparr>wc_seqlen := 0\<rparr>"])
      qed
      then show ?thesis using run full by simp
    next
      case False
      then show ?thesis
        using run m1 s True leg by (simp add: wordcache_ok_def)
    qed
  qed
qed

lemma wordcache_disable_result:
  assumes "wordcache_ok legal unused ok s"
  shows "holds (wordcache_disable dev s) (\<lambda>s'. wordcache_ok legal unused ok s' \<and> \<not> wc_enabled s' \<and>
    wordcache_mem mem s' = mem (wc_main s') \<and> agree_mem legal unused (mem (wc_main s')) (wordcache_mem mem s))"
proof -
  have "holds (wordcache_flush dev s) (\<lambda>s'. ok (wc_main s') \<and>
      agree_mem legal unused (mem (wc_main s')) (wordcache_mem mem s) \<and> s' = s\<lparr>wc_main := wc_main s', wc_seqlen := 0\<rparr>)"
    by (rule wordcache_flush_result) (use assms in \<open>auto simp: wordcache_ok_def\<close>)
  then show ?thesis
    unfolding wordcache_disable_def holds_bind holds_Inr
  proof (rule holds_mono)
    fix s' assume "ok (wc_main s') \<and>
      agree_mem legal unused (mem (wc_main s')) (wordcache_mem mem s) \<and> s' = s\<lparr>wc_main := wc_main s', wc_seqlen := 0\<rparr>"
    then obtain m where "ok m" "agree_mem legal unused (mem m) (wordcache_mem mem s)" "s' = s\<lparr>wc_main := m, wc_seqlen := 0\<rparr>"
      by blast
    then show "wordcache_ok legal unused ok (s'\<lparr>wc_enabled := False\<rparr>) \<and> \<not> wc_enabled (s'\<lparr>wc_enabled := False\<rparr>) \<and>
        wordcache_mem mem (s'\<lparr>wc_enabled := False\<rparr>) = mem (wc_main (s'\<lparr>wc_enabled := False\<rparr>)) \<and>
        agree_mem legal unused (mem (wc_main (s'\<lparr>wc_enabled := False\<rparr>))) (wordcache_mem mem s)"
      using assms by (auto simp: wordcache_ok_def wordcache_mem_def)
  qed
qed

end

section \<open>The stack of the test bench\<close>

interpretation bitcached_ram: rf_device "\<lambda>a. a AND 3 = 0" "\<lambda>_. 0" "bitcache_ok (\<lambda>a. a AND 3 = 0) (\<lambda>_. 0) (\<lambda>_. True)"
    "bitcache_mem (\<lambda>m. m)" "regfile_dev_bitcache apb_ram"
  by (rule apb_ram.bitcache_device)

interpretation wordcached_ram: rf_device "\<lambda>a. a AND 3 = 0" "\<lambda>_. 0" "wordcache_ok (\<lambda>a. a AND 3 = 0) (\<lambda>_. 0) (\<lambda>_. True)"
    "wordcache_mem (\<lambda>m. m)" "regfile_dev_wordcache apb_ram"
  by (rule apb_ram.wordcache_device)

end
