(* ===== verification/Rf_Fields.thy ===== *)
theory Rf_Fields
  imports Rf_Caches
begin

text \<open>
  Clients of a register file device: sequences of reads and writes, bit fields of entries, and
  memories. The properties of the register file classes are stated here.
\<close>

section \<open>Sequences of accesses\<close>

datatype rf_op = Rf_read rf_addr_t | Rf_write rf_addr_t rf_data_t rf_data_t rf_data_t

fun rf_run :: "'s regfile_dev \<Rightarrow> rf_op list \<Rightarrow> 's \<Rightarrow> ((rf_addr_t \<times> rf_data_t) list \<times> 's) res" where
  "rf_run dev [] s = Inr ([], s)"
| "rf_run dev (Rf_read a # ops) s =
     res_bind (rfdev_read dev a s) (\<lambda>(v, s). res_bind (rf_run dev ops s) (\<lambda>(out, s). Inr ((a, v) # out, s)))"
| "rf_run dev (Rf_write a v k u # ops) s = res_bind (rfdev_write dev a v k u s) (rf_run dev ops)"

text \<open>The same accesses on a plain memory.\<close>

fun mem_run :: "rf_op list \<Rightarrow> memory \<Rightarrow> (rf_addr_t \<times> rf_data_t) list" where
  "mem_run [] m = []"
| "mem_run (Rf_read a # ops) m = (a, m a) # mem_run ops m"
| "mem_run (Rf_write a v k u # ops) m = mem_run ops (mem_write a v k m)"

fun mem_after :: "rf_op list \<Rightarrow> memory \<Rightarrow> memory" where
  "mem_after [] m = m"
| "mem_after (Rf_read a # ops) m = mem_after ops m"
| "mem_after (Rf_write a v k u # ops) m = mem_after ops (mem_write a v k m)"

text \<open>What a caller may do: legal addresses, and \<open>unused_mask\<close> names only bits that are unused.\<close>

fun op_ok :: "(rf_addr_t \<Rightarrow> bool) \<Rightarrow> memory \<Rightarrow> rf_op \<Rightarrow> bool" where
  "op_ok legal unused (Rf_read a) = legal a"
| "op_ok legal unused (Rf_write a v k u) = (legal a \<and> u AND NOT (unused a) = 0)"

definition reads_agree :: "memory \<Rightarrow> (rf_addr_t \<times> rf_data_t) list \<Rightarrow> (rf_addr_t \<times> rf_data_t) list \<Rightarrow> bool" where
  "reads_agree unused = list_all2 (\<lambda>(a, v) (b, w). a = b \<and> agree (unused a) v w)"

lemma reads_agree_simps [simp]:
  "reads_agree unused [] []" 
  "reads_agree unused ((a, v) # xs) ((b, w) # ys) \<longleftrightarrow> a = b \<and> agree (unused a) v w \<and> reads_agree unused xs ys"
  by (simp_all add: reads_agree_def)

lemma list_all2_reads: "list_all (op_ok legal unused) ops \<Longrightarrow> agree_mem legal unused m m' \<Longrightarrow>
    reads_agree unused (mem_run ops m) (mem_run ops m')"
  by (induction ops m arbitrary: m' rule: mem_run.induct) (auto simp: agree_mem_write agree_mem_at)

lemma reads_agree_trans:
  assumes "reads_agree unused xs ys" and "reads_agree unused ys zs"
  shows "reads_agree unused xs zs"
proof -
  let ?P = "\<lambda>(a, v) (b, w). a = b \<and> agree (unused a) v w"
  have "list_all2 ?P xs zs"
    by (rule list_all2_trans [of ?P ?P ?P, OF _ assms [unfolded reads_agree_def]]) (auto intro: agree_trans)
  then show ?thesis by (simp add: reads_agree_def)
qed

context rf_device
begin

text \<open>Any sequence of accesses returns what the memory shown at its start would return.\<close>

lemma run:
  assumes "ok s" and "list_all (op_ok legal unused) ops" and "agree_mem legal unused (mem s) m"
  shows "holds (rf_run dev ops s) (\<lambda>(out, s'). ok s' \<and> reads_agree unused out (mem_run ops m) \<and>
    agree_mem legal unused (mem s') (mem_after ops m))"
  using assms
proof (induction ops arbitrary: s m)
  case Nil
  then show ?case by simp
next
  case (Cons x ops)
  show ?case
  proof (cases x)
    case (Rf_read a)
    have "holds (rf_run dev ops s1) (\<lambda>(out, s'). ok s' \<and> (agree (unused a) v (m a) \<and> reads_agree unused out (mem_run ops m)) \<and>
        agree_mem legal unused (mem s') (mem_after ops m))"
      if s1: "ok s1" "agree (unused a) v (mem s a)" "agree_mem legal unused (mem s1) (mem s)" for v s1
    proof (rule holds_mono [OF Cons.IH [of s1 m]])
      show "ok s1" "list_all (op_ok legal unused) ops" using s1 Cons.prems by simp_all
      show "agree_mem legal unused (mem s1) m" using s1 Cons.prems by (blast intro: agree_mem_trans)
      have "agree (unused a) v (m a)"
        using s1 Cons.prems Rf_read agree_mem_at [of legal unused "mem s" m a] by (auto intro: agree_trans)
      then show "case x of (out, s') \<Rightarrow> ok s' \<and> (agree (unused a) v (m a) \<and> reads_agree unused out (mem_run ops m)) \<and>
          agree_mem legal unused (mem s') (mem_after ops m)"
        if "case x of (out, s') \<Rightarrow> ok s' \<and> reads_agree unused out (mem_run ops m) \<and>
          agree_mem legal unused (mem s') (mem_after ops m)" for x
        using that by auto
    qed
    note step = this [unfolded split_beta]
    show ?thesis
      using Cons.prems Rf_read step by (auto intro!: holds_mono [OF reads] simp: split_beta)
  next
    case (Rf_write a v k u)
    have "holds (rf_run dev ops s1) (\<lambda>(out, s'). ok s' \<and> reads_agree unused out (mem_run ops (mem_write a v k m)) \<and>
        agree_mem legal unused (mem s') (mem_after ops (mem_write a v k m)))"
      if s1: "ok s1 \<and> agree_mem legal unused (mem s1) (mem_write a v k (mem s))" for s1
      by (rule Cons.IH) (use s1 Cons.prems in \<open>auto intro: agree_mem_trans agree_mem_write\<close>)
    then show ?thesis
      using Cons.prems Rf_write by (auto intro!: holds_mono [OF writes])
  qed
qed

text \<open>A write of a field changes exactly the bits of the field, up to those no register uses.\<close>

lemma reg_write_result:
  assumes "ok s" and "legal (entry_addr (m_entry r))"
    and "m_unused_mask (m_entry r) AND NOT (unused (entry_addr (m_entry r))) = 0"
  shows "holds (reg_write dev r v s) (\<lambda>(warn, s'). ok s' \<and>
    warn = (push_bit (m_lsb r) v AND NOT (m_mask r) \<noteq> 0) \<and>
    agree_mem legal unused (mem s') (mem_write (entry_addr (m_entry r)) (push_bit (m_lsb r) v) (m_mask r) (mem s)))"
proof -
  have "mem_write a (w AND k) k m = mem_write a w k m" for a w k m
    by (simp add: mem_write_def masked_def and.assoc)
  then show ?thesis
    using assms by (auto simp: reg_write_def Let_def regfile_write_def entry_addr_def intro!: holds_mono [OF writes])
qed

lemma reg_read_result:
  assumes "ok s" and "legal (entry_addr (m_entry r))" and "m_mask r AND unused (entry_addr (m_entry r)) = 0"
  shows "holds (reg_read dev r s) (\<lambda>(v, s'). ok s' \<and> agree_mem legal unused (mem s') (mem s) \<and>
    v = drop_bit (m_lsb r) (mem s (entry_addr (m_entry r)) AND m_mask r))"
proof -
  have "v AND m_mask r = w AND m_mask r" if "agree (unused (entry_addr (m_entry r))) v w" for v w
  proof (rule bit_word_eqI)
    fix i
    have "\<not> (bit (m_mask r) i \<and> bit (unused (entry_addr (m_entry r))) i)"
      using assms(3) unfolding disjoint_mask by blast
    then show "bit (v AND m_mask r) i = bit (w AND m_mask r) i"
      using that by (auto simp: agree_iff bit_and_iff)
  qed
  then have "drop_bit (m_lsb r) (v AND m_mask r) = drop_bit (m_lsb r) (w AND m_mask r)"
    if "agree (unused (entry_addr (m_entry r))) v w" for v w using that by simp
  then show ?thesis
    using assms by (auto simp: reg_read_def Let_def regfile_read_def entry_addr_def simp del: drop_bit_and intro!: holds_mono [OF reads])
qed

end

section \<open>The stack of caches\<close>

lemma wordcache_enable_result:
  assumes "wordcache_ok legal unused ok s"
  shows "wordcache_ok legal unused ok (wordcache_enable s)" "wordcache_mem mem (wordcache_enable s) = wordcache_mem mem s"
  using assms by (simp_all add: wordcache_ok_def wordcache_mem_def wordcache_enable_def)

definition cached_bus :: "'s rf_read \<Rightarrow> (rf_addr_t \<Rightarrow> 8 word \<Rightarrow> rf_data_t \<Rightarrow> 's \<Rightarrow> 's res) \<Rightarrow> 's wordcache bitcache regfile_dev" where
  "cached_bus rd bus_write =
     regfile_dev_bitcache (regfile_dev_wordcache (regfile_dev_subword rd (apb_stim_write_subword bus_write)))"

definition cached_bus_start :: "(nat \<Rightarrow> 32 word) \<Rightarrow> nat \<Rightarrow> 's \<Rightarrow> 's wordcache bitcache" where
  "cached_bus_start garbage n s =
     bitcache_enable (regfile_dev_bitcache_init (wordcache_enable (regfile_dev_wordcache_init garbage n s)))"

text \<open>Switching the caches off again, the outer one first.\<close>

definition cached_bus_stop ::
    "'s rf_read \<Rightarrow> (rf_addr_t \<Rightarrow> 8 word \<Rightarrow> rf_data_t \<Rightarrow> 's \<Rightarrow> 's res) \<Rightarrow> 's wordcache bitcache \<Rightarrow> 's res" where
  "cached_bus_stop rd bus_write s =
     res_bind (bitcache_disable (regfile_dev_wordcache (regfile_dev_subword rd (apb_stim_write_subword bus_write))) s) (\<lambda>s.
     res_bind (wordcache_disable (regfile_dev_subword rd (apb_stim_write_subword bus_write)) (bc_main s)) (\<lambda>s.
     Inr (wc_main s)))"

abbreviation aligned :: "rf_addr_t \<Rightarrow> bool" where
  "aligned a \<equiv> a AND 3 = 0"

text \<open>What the stack keeps of the bus: its invariant and its memory.\<close>

definition stack_ok :: "memory \<Rightarrow> ('s \<Rightarrow> bool) \<Rightarrow> 's wordcache bitcache \<Rightarrow> bool" where
  "stack_ok unused ok = bitcache_ok aligned unused (wordcache_ok aligned unused ok)"

definition stack_mem :: "('s \<Rightarrow> memory) \<Rightarrow> 's wordcache bitcache \<Rightarrow> memory" where
  "stack_mem mem = bitcache_mem (wordcache_mem mem)"

context apb_bus
begin

lemma stack: "rf_device aligned unused (stack_ok unused ok) (stack_mem mem) (cached_bus rd bus_write)"
  unfolding stack_ok_def stack_mem_def cached_bus_def
  by (intro rf_device.bitcache_device rf_device.wordcache_device bus_device)

lemma stack_start:
  fixes s :: 's and garbage :: "nat \<Rightarrow> 32 word" and n :: nat
  assumes "ok s" and "0 < n"
  shows "stack_ok unused ok (cached_bus_start garbage n s)" "stack_mem mem (cached_bus_start garbage n s) = mem s"
proof -
  have w: "wordcache_ok aligned unused ok (wordcache_enable (regfile_dev_wordcache_init garbage n s))"
    by (intro wordcache_enable_result wordcache_init assms)
  have "wordcache_mem mem (wordcache_enable (regfile_dev_wordcache_init garbage n s)) = mem s"
    by (simp add: wordcache_mem_def wordcache_enable_def regfile_dev_wordcache_init_def)
  then show "stack_mem mem (cached_bus_start garbage n s) = mem s"
    by (simp add: stack_mem_def cached_bus_start_def bitcache_mem_def bitcache_enable_def regfile_dev_bitcache_init_def)
  show "stack_ok unused ok (cached_bus_start garbage n s)"
    using w by (simp add: stack_ok_def cached_bus_start_def bitcache_ok_def bitcache_enable_def regfile_dev_bitcache_init_def)
qed

lemma stack_stop:
  assumes "stack_ok unused ok s"
  shows "holds (cached_bus_stop rd bus_write s) (\<lambda>s'. ok s' \<and> agree_mem aligned unused (mem s') (stack_mem mem s))"
  using assms unfolding stack_ok_def stack_mem_def cached_bus_stop_def
  by (auto intro!: holds_mono [OF rf_device.bitcache_disable_result [OF rf_device.wordcache_device [OF bus_device]]]
      holds_mono [OF rf_device.wordcache_disable_result [OF bus_device]] simp: bitcache_ok_def wordcache_ok_def
      intro: agree_mem_trans)

end

section \<open>Fields\<close>

lemma bit_push_32: "bit (push_bit n (v :: 32 word)) i \<longleftrightarrow> n \<le> i \<and> i < 32 \<and> bit v (i - n)"
  by (auto simp: bit_push_bit_iff)

lemma field_bits:
  assumes "lsb \<le> msb" and "msb < 32"
  shows "drop_bit lsb (masked (push_bit lsb v) (reg_mask lsb msb) old AND reg_mask lsb msb) =
           v AND Bit_Operations.mask (Suc msb - lsb)"
  by (rule bit_word_eqI)
     (use assms in \<open>auto simp: bit_drop_bit_eq bit_and_iff bit_masked bit_reg_mask bit_push_32 bit_mask_iff possible_bit_word\<close>)

lemma neighbour_bits:
  assumes "lsb \<le> msb" and "msb < 32" and "lsb' \<le> msb'" and "msb' < 32" and "msb < lsb' \<or> msb' < lsb"
  shows "masked v (reg_mask lsb msb) old AND reg_mask lsb' msb' = old AND reg_mask lsb' msb'"
  by (rule bit_word_eqI)
     (use assms in \<open>auto simp: bit_and_iff bit_masked bit_reg_mask\<close>)

text \<open>A write of field \<open>msb:lsb\<close>, then a read of field \<open>msb':lsb'\<close> of the same entry.\<close>

definition field_access ::
    "'s regfile_dev \<Rightarrow> entry_t \<Rightarrow> nat \<times> nat \<Rightarrow> rf_data_t \<Rightarrow> nat \<times> nat \<Rightarrow> 's \<Rightarrow> (rf_data_t \<times> 's) res" where
  "field_access dev e w v r s =
     res_bind (reg_write dev (reg_new e (fst w) (snd w)) v s)
       (\<lambda>(warn, s). reg_read dev (reg_new e (fst r) (snd r)) s)"

lemma agree_unused_zero: "agree u v w \<Longrightarrow> k AND u = 0 \<Longrightarrow> v AND k = w AND k"
proof (rule bit_word_eqI)
  fix i assume "agree u v w" "k AND u = 0"
  then show "bit (v AND k) i = bit (w AND k) i" unfolding disjoint_mask by (auto simp: agree_iff bit_and_iff)
qed

context rf_device
begin

lemma field_access_result:
  assumes "ok s" and "legal (entry_addr e)" and "m_unused_mask e = unused (entry_addr e)"
    and "reg_mask l' h' AND unused (entry_addr e) = 0"
  shows "holds (field_access dev e (l, h) v (l', h') s) (\<lambda>(w, s').
    w = drop_bit l' (masked (push_bit l v) (reg_mask l h) (mem s (entry_addr e)) AND reg_mask l' h'))"
proof -
  have "holds (reg_read dev (reg_new e l' h') s1) (\<lambda>(w, s').
      w = drop_bit l' (masked (push_bit l v) (reg_mask l h) (mem s (entry_addr e)) AND reg_mask l' h'))"
    if s1: "ok s1" "agree_mem legal unused (mem s1) (mem_write (entry_addr e) (push_bit l v) (reg_mask l h) (mem s))" for s1
  proof (rule holds_mono [OF reg_read_result [OF s1(1)]])
    have "agree (unused (entry_addr e)) (mem s1 (entry_addr e)) (masked (push_bit l v) (reg_mask l h) (mem s (entry_addr e)))"
      using agree_mem_at [OF s1(2) assms(2)] by (simp add: mem_write_def)
    then have "mem s1 (entry_addr e) AND reg_mask l' h' =
        masked (push_bit l v) (reg_mask l h) (mem s (entry_addr e)) AND reg_mask l' h'"
      using assms(4) by (rule agree_unused_zero)
    then show "case x of (w, s') \<Rightarrow> w = drop_bit l' (masked (push_bit l v) (reg_mask l h) (mem s (entry_addr e)) AND reg_mask l' h')"
      if "case x of (w, s') \<Rightarrow> ok s' \<and> agree_mem legal unused (mem s') (mem s1) \<and>
        w = drop_bit (m_lsb (reg_new e l' h')) (mem s1 (entry_addr (m_entry (reg_new e l' h'))) AND m_mask (reg_new e l' h'))" for x
      using that by (simp add: reg_new_def split_beta del: drop_bit_and)
  qed (use assms in \<open>simp_all add: reg_new_def\<close>)
  then show ?thesis
    using reg_write_result [of s "reg_new e l h" v] assms
    by (auto simp: field_access_def reg_new_def elim!: holds_mono)
qed

end

section \<open>Elements of memories\<close>

text \<open>The element addresses.\<close>

lemma take_bit_wide: "take_bit 32 (take_bit 64 x + take_bit 64 y) = take_bit 32 (x + y)"
  "take_bit 32 (take_bit 64 x * take_bit 64 y) = take_bit 32 (x * y)" for x y :: int
proof -
  have n: "take_bit 32 (take_bit 64 z) = take_bit 32 z" for z :: int by simp
  show "take_bit 32 (take_bit 64 x + take_bit 64 y) = take_bit 32 (x + y)"
    using take_bit_add [of 32 "take_bit 64 x" "take_bit 64 y"] take_bit_add [of 32 x y] unfolding n by simp
  show "take_bit 32 (take_bit 64 x * take_bit 64 y) = take_bit 32 (x * y)"
    using take_bit_mult [of 32 "take_bit 64 x" "take_bit 64 y"] take_bit_mult [of 32 x y] unfolding n by simp
qed

lemma ucast_down_add: "ucast (x + y :: 64 word) = (ucast x + ucast y :: 32 word)"
  by transfer (simp add: take_bit_wide)

lemma ucast_down_mult: "ucast (x * y :: 64 word) = (ucast x * ucast y :: 32 word)"
  by transfer (simp add: take_bit_wide)

lemma ucast_down_up: "ucast (ucast (x :: 32 word) :: 64 word) = (x :: 32 word)"
  by transfer simp

lemma index_addr: "ucast (mem_access_index (mem_access_new base) i) = base + 4 * (ucast i :: 32 word)"
  by (simp only: mem_access_index_def mem_access_new_def mem_access_t.simps ucast_down_add ucast_down_mult ucast_down_up)

lemma index_inj:
  assumes "i < 2 ^ 30" and "j < 2 ^ 30" and "base + 4 * (ucast i :: 32 word) = base + 4 * ucast (j :: 64 word)"
  shows "i = j"
proof -
  have b: "unat i < 2 ^ 30" "unat j < 2 ^ 30" using assms(1,2) by (simp_all add: word_less_nat_alt)
  have u: "unat (ucast x :: 32 word) = unat x" if "unat (x :: 64 word) < 2 ^ 30" for x
    using that by (simp add: unsigned_ucast_eq take_bit_nat_eq_self)
  have "4 * (ucast i :: 32 word) = 4 * ucast j" using assms(3) by simp
  then have "unat (4 * (ucast i :: 32 word)) = unat (4 * (ucast j :: 32 word))" by simp
  then have "4 * unat i = 4 * unat j"
    using b by (simp add: unat_word_ariths u)
  then show ?thesis by (simp add: word_unat_eq_iff)
qed

text \<open>An assignment to one element of a memory, then the value of another one.\<close>

definition element_access ::
    "'s regfile_dev \<Rightarrow> mem_access_t \<Rightarrow> 64 word \<Rightarrow> rf_data_t \<Rightarrow> 64 word \<Rightarrow> 's \<Rightarrow> (rf_data_t \<times> 's) res" where
  "element_access dev m i v j s =
     res_bind (mem_value_write dev m (mem_access_index m i) v s) (mem_value_read dev (mem_access_index m j))"

section \<open>Progress of the word cache\<close>

lemma wordcache_flush_shape:
  "wordcache_flush dev s = Inr s' \<Longrightarrow> wc_enabled s \<Longrightarrow>
     wc_seqlen s' = 0 \<and> wc_enabled s' \<and> wc_seqlen_max s' = wc_seqlen_max s"
  by (auto simp: wordcache_flush_def res_bind_eq_Inr split: if_splits)

lemma wordcache_write_shape:
  assumes "wordcache_write dev a v k u s = Inr s'" and "wc_enabled s"
  shows "wc_enabled s' \<and> wc_seqlen_max s' = wc_seqlen_max s \<and>
    wc_seqlen s' = (if wc_seqlen_max s \<le> Suc (wc_seqlen s) then 0 else Suc (wc_seqlen s))"
  using assms
  by (auto simp: wordcache_write_def array_set_def res_bind_eq_Inr Let_def dest!: wordcache_flush_shape split: if_splits)

definition write_op :: "rf_addr_t \<times> rf_data_t \<times> rf_data_t \<times> rf_data_t \<Rightarrow> rf_op" where
  "write_op w = (case w of (a, v, k, u) \<Rightarrow> Rf_write a v k u)"

lemma write_op_triple: "write_op (a, v, k, u) = Rf_write a v k u" by (simp add: write_op_def)

lemma wordcache_dev_write: "rfdev_write (regfile_dev_wordcache dev) = wordcache_write dev"
  by (simp add: regfile_dev_wordcache_def make_dev_def)

lemma wordcache_runs_full:
  assumes "rf_run (regfile_dev_wordcache dev) (map write_op ws) s = Inr (out, s')"
    and "wc_enabled s" and "wc_seqlen s < wc_seqlen_max s" and "length ws = wc_seqlen_max s - wc_seqlen s"
  shows "wc_seqlen s' = 0 \<and> wc_enabled s'"
  using assms
proof (induction ws arbitrary: s)
  case Nil
  then show ?case by simp
next
  case (Cons w ws)
  obtain a v k u where w: "w = (a, v, k, u)" by (cases w)
  obtain s1 where s1: "wordcache_write dev a v k u s = Inr s1"
      "rf_run (regfile_dev_wordcache dev) (map write_op ws) s1 = Inr (out, s')"
    using Cons.prems(1) by (auto simp: w write_op_triple res_bind_eq_Inr wordcache_dev_write)
  note shape = wordcache_write_shape [OF s1(1) Cons.prems(2)]
  show ?case
  proof (cases "ws = []")
    case True
    then show ?thesis using shape s1(2) Cons.prems(4) by simp
  next
    case False
    then have "\<not> wc_seqlen_max s \<le> Suc (wc_seqlen s)" using Cons.prems(4) by (cases ws) auto
    then show ?thesis using shape Cons.prems(4) by (intro Cons.IH [OF s1(2)]) auto
  qed
qed

context apb_bus
begin

lemma cached_runs:
  fixes s :: 's and garbage :: "nat \<Rightarrow> 32 word" and n :: nat
  assumes "ok s" and "0 < n" and "list_all (op_ok aligned unused) ops"
  shows "holds (rf_run (cached_bus rd bus_write) ops (cached_bus_start garbage n s))
    (\<lambda>(out, s'). reads_agree unused out (mem_run ops (mem s)) \<and>
       holds (cached_bus_stop rd bus_write s') (\<lambda>s''. ok s'' \<and> agree_mem aligned unused (mem s'') (mem_after ops (mem s))))"
proof -
  note start = stack_start [OF assms(1,2), of garbage]
  have "holds (rf_run (cached_bus rd bus_write) ops (cached_bus_start garbage n s)) (\<lambda>(out, s').
      stack_ok unused ok s' \<and> reads_agree unused out (mem_run ops (mem s)) \<and>
      agree_mem aligned unused (stack_mem mem s') (mem_after ops (mem s)))"
    by (rule rf_device.run [OF stack]) (use start assms in simp_all)
  then show ?thesis
    by (rule holds_mono) (auto intro!: holds_mono [OF stack_stop] intro: agree_mem_trans)
qed

end

section \<open>Properties\<close>

text \<open>C22. A bit cache over a word cache over the bus device of the test bench: for every sequence of legal
  reads and writes, with both caches switched on, no access fails, the reads return what a plain
  memory returns, and switching the caches off leaves the memory on the bus that the writes leave,
  all up to the bits that no register uses.\<close>

theorem cached_bus_refines:
  assumes "apb_bus unused ok mem rd bus_write" and "ok s" and "0 < n"
    and "list_all (op_ok aligned unused) ops"
  shows "holds (rf_run (cached_bus rd bus_write) ops (cached_bus_start garbage n s))
    (\<lambda>(out, s'). reads_agree unused out (mem_run ops (mem s)) \<and>
       holds (cached_bus_stop rd bus_write s') (\<lambda>s''. ok s'' \<and> agree_mem aligned unused (mem s'') (mem_after ops (mem s))))"
  by (rule apb_bus.cached_runs [OF assms])

theorem cached_bus_refines_witness:
  "holds (rf_run (cached_bus ram_read ram_bus_write) [Rf_write 8 0xab 0xff 0, Rf_write 8 0xcd00 0xff00 0, Rf_write 4 7 (- 1) 0, Rf_read 8]
      (cached_bus_start (\<lambda>_. 0) 2 (\<lambda>_. 0)))
    (\<lambda>(out, s'). reads_agree (\<lambda>_. 0) out [(8, 0xcdab)] \<and>
       holds (cached_bus_stop ram_read ram_bus_write s') (\<lambda>s''. agree_mem aligned (\<lambda>_. 0) s'' ((\<lambda>_. 0)(8 := 0xcdab, 4 := 7))))"
proof -
  let ?ops = "[Rf_write 8 0xab 0xff 0, Rf_write 8 0xcd00 0xff00 0, Rf_write 4 7 (- 1) 0, Rf_read 8]"
  have run: "mem_run ?ops (\<lambda>_. 0) = [(8, 0xcdab)]" by (simp add: mem_write_def masked_def)
  have aft: "mem_after ?ops (\<lambda>_. 0) = (\<lambda>_. 0)(8 := 0xcdab, 4 := 7)" by (simp add: mem_write_def masked_def fun_eq_iff)
  have "list_all (op_ok aligned (\<lambda>_. 0)) ?ops" by simp
  from cached_bus_refines [OF ram_bus.apb_bus_axioms _ _ this, of 2 "\<lambda>_. 0" "\<lambda>_. 0"]
  show ?thesis unfolding run aft by simp
qed

text \<open>A masked write is one write of the first of the seven aligned parts of a word that covers
  every bit to write and no bit to keep, the largest part first; when there is none, the word is
  read, modified and written.\<close>

theorem subword_write_spec:
  "rfdev_write (regfile_dev_subword rd write_subword) a v k u s =
     (case List.find (covers (NOT (k OR u)) k) parts of
        Some (off, sz) \<Rightarrow> write_subword (a + of_nat off) v sz s
      | None \<Rightarrow> res_bind (rd a s) (\<lambda>(old, s). write_subword a (masked v k old) 4 s))"
  by (simp add: regfile_dev_subword_def make_dev_def regfile_dev_subword_write_def Let_def
      subword_loop_find [unfolded n_word_bytes_def] masked_def n_word_bytes_def split: option.split)

text \<open>What is written to a bit field is what is read from it, reduced to the width of the field.\<close>

theorem field_roundtrip:
  assumes "rf_device legal unused ok mem dev" and "ok s"
    and "legal (entry_addr e)" and "m_unused_mask e = unused (entry_addr e)"
    and "lsb \<le> msb" and "msb < 32" and "reg_mask lsb msb AND unused (entry_addr e) = 0"
  shows "holds (field_access dev e (lsb, msb) v (lsb, msb) s) (\<lambda>(w, s'). w = v AND Bit_Operations.mask (Suc msb - lsb))"
  using rf_device.field_access_result [OF assms(1-4), of lsb msb lsb msb v] assms
  by (simp add: field_bits del: drop_bit_and)

theorem field_roundtrip_witness:
  "holds (field_access apb_ram \<lparr>m_base_addr = 0x100, m_addr = 4, m_unused_mask = 0\<rparr> (4, 7) 0x2b (4, 7) (\<lambda>_. - 1))
    (\<lambda>(w, s'). w = 0xb)"
  using field_roundtrip [OF apb_ram.rf_device_axioms,
    of "\<lparr>m_base_addr = 0x100, m_addr = 4, m_unused_mask = 0\<rparr>" 4 7 "0x2b" "\<lambda>_. - 1"]
  by (simp add: entry_addr_def mask_eq_exp_minus_1)

text \<open>A write of a bit field leaves the other fields of the entry as they were.\<close>

theorem field_neighbours:
  assumes "rf_device legal unused ok mem dev" and "ok s"
    and "legal (entry_addr e)" and "m_unused_mask e = unused (entry_addr e)"
    and "lsb \<le> msb" and "msb < 32" and "lsb' \<le> msb'" and "msb' < 32" and "msb < lsb' \<or> msb' < lsb"
    and "reg_mask lsb' msb' AND unused (entry_addr e) = 0"
  shows "holds (field_access dev e (lsb, msb) v (lsb', msb') s)
    (\<lambda>(w, s'). w = drop_bit lsb' (mem s (entry_addr e) AND reg_mask lsb' msb'))"
  using rf_device.field_access_result [OF assms(1-4), of lsb' msb' lsb msb v] assms
  by (simp add: neighbour_bits del: drop_bit_and)

theorem field_neighbours_witness:
  "holds (field_access apb_ram \<lparr>m_base_addr = 0x100, m_addr = 4, m_unused_mask = 0\<rparr> (4, 7) 0x2b (8, 15) (\<lambda>_. 0xabcd))
    (\<lambda>(w, s'). w = 0xab)"
  using field_neighbours [OF apb_ram.rf_device_axioms,
    of "\<lparr>m_base_addr = 0x100, m_addr = 4, m_unused_mask = 0\<rparr>" 4 7 8 15 "0x2b" "\<lambda>_. 0xabcd"]
  by (simp add: entry_addr_def reg_mask_def)

text \<open>C33. The warning about a truncated value is printed for the bits above the field that
  still lie in the word, and never for bits that the shift has lost.\<close>

theorem field_warning:
  assumes "rf_device legal unused ok mem dev" and "ok s"
    and "legal (entry_addr e)" and "m_unused_mask e = unused (entry_addr e)"
    and "lsb \<le> msb" and "msb < 32"
  shows "holds (reg_write dev (reg_new e lsb msb) v s) (\<lambda>(warn, s').
    warn \<longleftrightarrow> (\<exists>i < 32 - lsb. msb - lsb < i \<and> bit v i))"
proof -
  have "push_bit lsb v AND NOT (reg_mask lsb msb) \<noteq> 0 \<longleftrightarrow> (\<exists>j. bit (push_bit lsb v) j \<and> \<not> bit (reg_mask lsb msb) j)"
    unfolding subset_mask by auto
  also have "\<dots> \<longleftrightarrow> (\<exists>i < 32 - lsb. msb - lsb < i \<and> bit v i)"
  proof
    assume "\<exists>j. bit (push_bit lsb v) j \<and> \<not> bit (reg_mask lsb msb) j"
    then obtain j where "lsb \<le> j" "j < 32" "bit v (j - lsb)" "\<not> j \<le> msb"
      using assms by (auto simp: bit_push_32 bit_reg_mask)
    then have "j - lsb < 32 - lsb" "msb - lsb < j - lsb" "bit v (j - lsb)" using assms(5) by linarith+
    then show "\<exists>i < 32 - lsb. msb - lsb < i \<and> bit v i" by blast
  next
    assume "\<exists>i < 32 - lsb. msb - lsb < i \<and> bit v i"
    then obtain i where "i < 32 - lsb" "msb - lsb < i" "bit v i" by blast
    then show "\<exists>j. bit (push_bit lsb v) j \<and> \<not> bit (reg_mask lsb msb) j"
      using assms by (intro exI [of _ "i + lsb"]) (auto simp: bit_push_32 bit_reg_mask)
  qed
  finally have eq: "(push_bit lsb v AND NOT (reg_mask lsb msb) \<noteq> 0) = (\<exists>i < 32 - lsb. msb - lsb < i \<and> bit v i)" .
  show ?thesis
    using rf_device.reg_write_result [OF assms(1,2), of "reg_new e lsb msb" v] assms(3,4)
    by (auto simp: reg_new_def eq elim!: holds_mono)
qed

theorem field_warning_witness:
  "holds (reg_write apb_ram (reg_new \<lparr>m_base_addr = 0x100, m_addr = 4, m_unused_mask = 0\<rparr> 28 31) 0x10 (\<lambda>_. 0))
    (\<lambda>(warn, s'). \<not> warn)"
  using field_warning [OF apb_ram.rf_device_axioms,
    of "\<lparr>m_base_addr = 0x100, m_addr = 4, m_unused_mask = 0\<rparr>" 28 31 "0x10" "\<lambda>_. 0"]
  by (auto simp: entry_addr_def elim!: holds_mono)



text \<open>C35. No write stays in an enabled word cache for ever: as soon as so many writes as there are free
  places have followed, the cache is empty and the device behind it has all of them, in their order.\<close>

theorem wordcache_drains:
  assumes "rf_device legal unused ok mem dev" and "wordcache_ok legal unused ok s" and "wc_enabled s"
    and "list_all (op_ok legal unused) (map write_op ws)" and "length ws = wc_seqlen_max s - wc_seqlen s"
  shows "holds (rf_run (regfile_dev_wordcache dev) (map write_op ws) s) (\<lambda>(out, s').
    wc_seqlen s' = 0 \<and> agree_mem legal unused (mem (wc_main s')) (mem_after (map write_op ws) (wordcache_mem mem s)))"
proof -
  have "holds (rf_run (regfile_dev_wordcache dev) (map write_op ws) s) (\<lambda>(out, s').
      agree_mem legal unused (wordcache_mem mem s') (mem_after (map write_op ws) (wordcache_mem mem s)))"
    by (rule holds_mono [OF rf_device.run [OF rf_device.wordcache_device [OF assms(1)] assms(2,4)]])
       (auto intro: agree_mem_refl)
  then obtain out s' where r: "rf_run (regfile_dev_wordcache dev) (map write_op ws) s = Inr (out, s')"
      "agree_mem legal unused (wordcache_mem mem s') (mem_after (map write_op ws) (wordcache_mem mem s))"
    by (auto simp: holds_iff)
  have "wc_seqlen s' = 0"
    using wordcache_runs_full [OF r(1) assms(3) _ assms(5)] assms(2) by (simp add: wordcache_ok_def)
  with r show ?thesis by (simp add: wordcache_mem_def [of mem s'])
qed

theorem wordcache_drains_witness:
  "holds (rf_run (regfile_dev_wordcache apb_ram) [Rf_write 8 0xab 0xff 0, Rf_write 4 7 (- 1) 0]
      (wordcache_enable (regfile_dev_wordcache_init (\<lambda>_. 0) 2 (\<lambda>_. 0))))
    (\<lambda>(out, s'). agree_mem aligned (\<lambda>_. 0) (wc_main s') ((\<lambda>_. 0)(8 := 0xab, 4 := 7)))"
proof -
  let ?s = "wordcache_enable (regfile_dev_wordcache_init (\<lambda>_. 0) 2 (\<lambda>_. 0)) :: memory wordcache"
  let ?ws = "[(8, 0xab, 0xff, 0), (4, 7, - 1, 0)] :: (rf_addr_t \<times> rf_data_t \<times> rf_data_t \<times> rf_data_t) list"
  have ok: "wordcache_ok aligned (\<lambda>_. 0) (\<lambda>_. True) ?s"
    by (intro wordcache_enable_result wordcache_init) simp_all
  have aft: "mem_after (map write_op ?ws) (wordcache_mem (\<lambda>m. m) ?s) = (\<lambda>_. 0)(8 := 0xab, 4 := 7)"
    by (simp add: wordcache_mem_def wordcache_enable_def regfile_dev_wordcache_init_def write_op_def
        mem_write_def masked_def fun_eq_iff)
  have "holds (rf_run (regfile_dev_wordcache apb_ram) (map write_op ?ws) ?s) (\<lambda>(out, s').
      wc_seqlen s' = 0 \<and> agree_mem aligned (\<lambda>_. 0) (wc_main s') ((\<lambda>_. 0)(8 := 0xab, 4 := 7)))"
    using wordcache_drains [OF apb_ram.rf_device_axioms ok, of ?ws] unfolding aft
    by (simp add: write_op_def wordcache_enable_def regfile_dev_wordcache_init_def)
  then have "holds (rf_run (regfile_dev_wordcache apb_ram) (map write_op ?ws) ?s) (\<lambda>(out, s').
      agree_mem aligned (\<lambda>_. 0) (wc_main s') ((\<lambda>_. 0)(8 := 0xab, 4 := 7)))"
    by (rule holds_mono) auto
  then show ?thesis by (simp only: list.map write_op_triple)
qed

text \<open>Below the first 2 ^ 30 elements of a memory, an assignment to an element changes what
  is read from this element, and from no other one.\<close>

theorem element_access_result:
  assumes "rf_device legal unused ok mem dev" and "ok s"
    and "legal (base + 4 * ucast i)" and "legal (base + 4 * ucast j)" and "i < 2 ^ 30" and "j < 2 ^ 30"
  shows "holds (element_access dev (mem_access_new base) i v j s) (\<lambda>(w, s'). ok s' \<and>
    agree (unused (base + 4 * ucast j)) w (if i = j then v else mem s (base + 4 * ucast j)))"
proof -
  let ?i = "base + 4 * ucast i" and ?j = "base + 4 * ucast j"
  have full: "full_word_mask (unat (ma_bytes (mem_access_new base))) = - 1"
    by (simp add: mem_access_new_def full_word_mask)
  have step: "holds (rfdev_read dev ?j s1) (\<lambda>(w, s'). ok s' \<and> agree (unused ?j) w (if i = j then v else mem s ?j))"
    if s1: "ok s1" "agree_mem legal unused (mem s1) (mem_write ?i v (- 1) (mem s))" for s1
  proof (rule holds_mono [OF rf_device.reads [OF assms(1) s1(1) assms(4)]])
    have eq: "mem_write ?i v (- 1) (mem s) ?j = (if i = j then v else mem s ?j)"
      using index_inj [OF assms(5,6), of base] by (auto simp: mem_write_def)
    have "agree (unused ?j) (mem s1 ?j) (if i = j then v else mem s ?j)"
      using agree_mem_at [OF s1(2) assms(4)] unfolding eq .
    then show "case x of (w, s') \<Rightarrow> ok s' \<and> agree (unused ?j) w (if i = j then v else mem s ?j)"
      if "case x of (w, s') \<Rightarrow> ok s' \<and> agree (unused ?j) w (mem s1 ?j) \<and> agree_mem legal unused (mem s') (mem s1)" for x
      using that agree_trans [of "unused ?j" "fst x" "mem s1 ?j"] by (simp add: split_beta)
  qed
  show ?thesis
    unfolding element_access_def mem_value_write_def mem_value_read_def full index_addr holds_bind
  proof (rule holds_mono [OF rf_device.writes [OF assms(1,2,3), of 0]])
    show "0 AND NOT (unused ?i) = 0" by simp
  qed (use step in blast)
qed

theorem element_access_result_witness:
  "holds (element_access apb_ram (mem_access_new 0x1000) 3 42 3 (\<lambda>_. 0)) (\<lambda>(w, s'). w = 42)"
  using element_access_result [OF apb_ram.rf_device_axioms, of "0x1000" 3 3 42 "\<lambda>_. 0"]
  by (auto simp: agree_def elim!: holds_mono)

end
