(* ===== verification/Apb_Stim.thy ===== *)
theory Apb_Stim
  imports Rf_Fields
begin

text \<open>
  The bus master of the test bench, \<open>src/test/resources/apb_stim/apb_stim.cpp\<close>: how a read or a write
  drives the signals of the bus, edge by edge of the clock, until the slave is ready. The simulator
  and the slave are one parameter: what the inputs are at the next edge after the outputs have been
  driven, and the new state. Assigned outputs take effect before the next edge, so a new access may
  follow in the step in which the last one ended.
\<close>

section \<open>Signals\<close>

record apb_out =
  apb_clk_en :: bool
  apb_sel :: bool
  apb_enable :: bool
  apb_wr :: bool
  apb_addr :: rf_addr_t
  apb_wdata :: rf_data_t
  apb_strobe :: "8 word"

text \<open>An input that is not 1 counts as 0.\<close>

record apb_in =
  apb_ready :: bool
  apb_slverr :: bool
  apb_rdata :: rf_data_t

type_synonym 's apb_clock = "apb_out \<Rightarrow> 's \<Rightarrow> apb_in \<times> 's"

record 's apb_stim =
  stim_out :: apb_out
  stim_env :: 's

text \<open>The outputs that the constructor drives.\<close>

definition apb_idle :: apb_out where
  "apb_idle = \<lparr>apb_clk_en = False, apb_sel = False, apb_enable = False, apb_wr = False, apb_addr = 0, apb_wdata = 0, apb_strobe = 0\<rparr>"

definition apb_stim_new :: "'s \<Rightarrow> 's apb_stim" where
  "apb_stim_new s = \<lparr>stim_out = apb_idle, stim_env = s\<rparr>"

definition drive :: "(apb_out \<Rightarrow> apb_out) \<Rightarrow> 's apb_stim \<Rightarrow> 's apb_stim" where
  "drive f st = st\<lparr>stim_out := f (stim_out st)\<rparr>"

text \<open>\<open>wait (clk_event)\<close>\<close>

definition wait_clk :: "'s apb_clock \<Rightarrow> 's apb_stim \<Rightarrow> apb_in \<times> 's apb_stim" where
  "wait_clk clk st = (let (i, s) = clk (stim_out st) (stim_env st) in (i, st\<lparr>stim_env := s\<rparr>))"

section \<open>Accesses\<close>

text \<open>The loop both accesses have; it does not end when the slave is never ready.\<close>

partial_function (option) apb_wait :: "'s apb_clock \<Rightarrow> 's apb_stim \<Rightarrow> (bool \<times> apb_in \<times> 's apb_stim) option" where
  "apb_wait clk st =
     (let (i, st) = wait_clk clk st
      in if apb_ready i then Some (\<not> apb_slverr i, i, st) else apb_wait clk st)"

declare apb_wait.simps [code]

definition apb_write :: "'s apb_clock \<Rightarrow> rf_addr_t \<Rightarrow> 8 word \<Rightarrow> rf_data_t \<Rightarrow> 's apb_stim \<Rightarrow> (bool \<times> 's apb_stim) option" where
  "apb_write clk addr strb wdata st =
     (let st = drive (\<lambda>out. out\<lparr>apb_clk_en := True, apb_sel := True, apb_wr := True, apb_addr := addr, apb_wdata := wdata, apb_strobe := strb\<rparr>) st;
          (_, st) = wait_clk clk st;
          st = drive (\<lambda>out. out\<lparr>apb_enable := True\<rparr>) st
      in case apb_wait clk st of
           None \<Rightarrow> None
         | Some (result, _, st) \<Rightarrow>
             Some (result, drive (\<lambda>out. out\<lparr>apb_clk_en := False, apb_sel := False, apb_enable := False, apb_wr := False,
               apb_addr := 0, apb_wdata := 0, apb_strobe := 0\<rparr>) st))"

definition apb_read :: "'s apb_clock \<Rightarrow> rf_addr_t \<Rightarrow> 's apb_stim \<Rightarrow> (bool \<times> rf_data_t \<times> 's apb_stim) option" where
  "apb_read clk addr st =
     (let st = drive (\<lambda>out. out\<lparr>apb_clk_en := True, apb_sel := True, apb_wr := False, apb_addr := addr, apb_wdata := 0, apb_strobe := 0\<rparr>) st;
          (_, st) = wait_clk clk st;
          st = drive (\<lambda>out. out\<lparr>apb_enable := True\<rparr>) st
      in case apb_wait clk st of
           None \<Rightarrow> None
         | Some (result, i, st) \<Rightarrow>
             Some (result, apb_rdata i, drive (\<lambda>out. out\<lparr>apb_clk_en := False, apb_sel := False, apb_enable := False, apb_wr := False,
               apb_addr := 0, apb_strobe := 0\<rparr>) st))"

text \<open>The methods of \<open>apb_stim.h\<close> the register file classes call; they ignore errors.\<close>

definition stim_read :: "'s apb_clock \<Rightarrow> 's apb_stim rf_read" where
  "stim_read clk addr st =
     (case apb_read clk addr st of None \<Rightarrow> Inl NoReturn | Some (_, rdata, st) \<Rightarrow> Inr (rdata, st))"

definition stim_write :: "'s apb_clock \<Rightarrow> rf_addr_t \<Rightarrow> 8 word \<Rightarrow> rf_data_t \<Rightarrow> 's apb_stim \<Rightarrow> 's apb_stim res" where
  "stim_write clk addr strb wdata st =
     (case apb_write clk addr strb wdata st of None \<Rightarrow> Inl NoReturn | Some (_, st) \<Rightarrow> Inr st)"

section \<open>Slaves\<close>

text \<open>
  What a slave promises. It may rely on the order of the phases: \<open>armed out s\<close> says that the edge before
  was the setup phase of the access \<open>out\<close>, or the access phase with a slave that was not ready. It
  is ready after finitely many edges; then a read returns the word and a write has replaced the
  bytes that the strobes select.
\<close>

locale apb_slave =
  fixes unused :: memory and ok :: "'s \<Rightarrow> bool" and mem :: "'s \<Rightarrow> memory"
    and armed :: "apb_out \<Rightarrow> 's \<Rightarrow> bool" and waits :: "apb_out \<Rightarrow> 's \<Rightarrow> nat" and clk :: "'s apb_clock"
  assumes set_up: "ok s \<Longrightarrow> apb_sel out \<Longrightarrow> \<not> apb_enable out \<Longrightarrow> clk out s = (i, s') \<Longrightarrow>
      ok s' \<and> mem s' = mem s \<and> armed (out\<lparr>apb_enable := True\<rparr>) s'"
    and stall: "ok s \<Longrightarrow> apb_sel out \<Longrightarrow> apb_enable out \<Longrightarrow> armed out s \<Longrightarrow> clk out s = (i, s') \<Longrightarrow> \<not> apb_ready i \<Longrightarrow>
      ok s' \<and> mem s' = mem s \<and> armed out s' \<and> waits out s' < waits out s"
    and wrote: "ok s \<Longrightarrow> apb_sel out \<Longrightarrow> apb_enable out \<Longrightarrow> armed out s \<Longrightarrow> clk out s = (i, s') \<Longrightarrow> apb_ready i \<Longrightarrow> apb_wr out \<Longrightarrow>
      ok s' \<and> agree_mem aligned unused (mem s') (mem_write (apb_addr out AND NOT 3) (apb_wdata out) (strb_mask (apb_strobe out)) (mem s))"
    and did_read: "ok s \<Longrightarrow> apb_sel out \<Longrightarrow> apb_enable out \<Longrightarrow> armed out s \<Longrightarrow> clk out s = (i, s') \<Longrightarrow> apb_ready i \<Longrightarrow> \<not> apb_wr out \<Longrightarrow>
      ok s' \<and> agree_mem aligned unused (mem s') (mem s) \<and>
      (aligned (apb_addr out) \<longrightarrow> agree (unused (apb_addr out)) (apb_rdata i) (mem s (apb_addr out)))"

text \<open>A clock that also notes the outputs and whether the slave was ready.\<close>

definition recorded :: "'s apb_clock \<Rightarrow> ('s \<times> (apb_out \<times> bool) list) apb_clock" where
  "recorded clk out = (\<lambda>(s, tr). let (i, s') = clk out s in (i, (s', tr @ [(out, apb_ready i)])))"

text \<open>The outputs in the two phases of an access.\<close>

definition write_phase :: "rf_addr_t \<Rightarrow> 8 word \<Rightarrow> rf_data_t \<Rightarrow> bool \<Rightarrow> apb_out" where
  "write_phase a strb v en = \<lparr>apb_clk_en = True, apb_sel = True, apb_enable = en, apb_wr = True,
     apb_addr = a, apb_wdata = v, apb_strobe = strb\<rparr>"

definition read_phase :: "rf_addr_t \<Rightarrow> bool \<Rightarrow> apb_out" where
  "read_phase a en = \<lparr>apb_clk_en = True, apb_sel = True, apb_enable = en, apb_wr = False,
     apb_addr = a, apb_wdata = 0, apb_strobe = 0\<rparr>"

lemma phases [simp]:
  "apb_sel (write_phase a strb v en)" "apb_enable (write_phase a strb v en) = en" "apb_wr (write_phase a strb v en)"
  "apb_addr (write_phase a strb v en) = a" "apb_wdata (write_phase a strb v en) = v" "apb_strobe (write_phase a strb v en) = strb"
  "apb_sel (read_phase a en)" "apb_enable (read_phase a en) = en" "\<not> apb_wr (read_phase a en)" "apb_addr (read_phase a en) = a"
  "(write_phase a strb v False)\<lparr>apb_enable := True\<rparr> = write_phase a strb v True"
  "(read_phase a False)\<lparr>apb_enable := True\<rparr> = read_phase a True"
  by (simp_all add: write_phase_def read_phase_def)

context apb_slave
begin

lemma wait_ready:
  assumes "ok s" "apb_sel out" "apb_enable out" "armed out s"
  shows "\<exists>n i s'. apb_wait (recorded clk) \<lparr>stim_out = out, stim_env = (s, tr)\<rparr> =
      Some (\<not> apb_slverr i, i, \<lparr>stim_out = out, stim_env = (s', tr @ replicate n (out, False) @ [(out, True)])\<rparr>) \<and>
    apb_wait clk \<lparr>stim_out = out, stim_env = s\<rparr> = Some (\<not> apb_slverr i, i, \<lparr>stim_out = out, stim_env = s'\<rparr>) \<and>
    ok s' \<and> (apb_wr out \<longrightarrow> agree_mem aligned unused (mem s') (mem_write (apb_addr out AND NOT 3) (apb_wdata out) (strb_mask (apb_strobe out)) (mem s))) \<and>
    (\<not> apb_wr out \<longrightarrow> agree_mem aligned unused (mem s') (mem s) \<and>
      (aligned (apb_addr out) \<longrightarrow> agree (unused (apb_addr out)) (apb_rdata i) (mem s (apb_addr out))))"
  using assms
proof (induction "waits out s" arbitrary: s tr rule: less_induct)
  case less
  obtain i s1 where clk: "clk out s = (i, s1)" by force
  have step: "apb_wait (recorded clk) \<lparr>stim_out = out, stim_env = (s, tr)\<rparr> =
      (if apb_ready i then Some (\<not> apb_slverr i, i, \<lparr>stim_out = out, stim_env = (s1, tr @ [(out, True)])\<rparr>)
       else apb_wait (recorded clk) \<lparr>stim_out = out, stim_env = (s1, tr @ [(out, False)])\<rparr>)"
    by (subst apb_wait.simps) (simp add: wait_clk_def recorded_def clk)
  have plain: "apb_wait clk \<lparr>stim_out = out, stim_env = s\<rparr> =
      (if apb_ready i then Some (\<not> apb_slverr i, i, \<lparr>stim_out = out, stim_env = s1\<rparr>)
       else apb_wait clk \<lparr>stim_out = out, stim_env = s1\<rparr>)"
    by (subst apb_wait.simps) (simp add: wait_clk_def clk)
  show ?case
  proof (cases "apb_ready i")
    case True
    note wr = wrote [OF less.prems clk True] and rd = did_read [OF less.prems clk True]
    have "ok s1" using wr rd by blast
    then show ?thesis
      using True wr rd by (intro exI [of _ 0] exI [of _ i] exI [of _ s1]) (simp add: step plain)
  next
    case False
    note s1 = stall [OF less.prems clk False]
    obtain n j s' where IH: "apb_wait (recorded clk) \<lparr>stim_out = out, stim_env = (s1, tr @ [(out, False)])\<rparr> =
        Some (\<not> apb_slverr j, j, \<lparr>stim_out = out, stim_env = (s', (tr @ [(out, False)]) @ replicate n (out, False) @ [(out, True)])\<rparr>)"
      "apb_wait clk \<lparr>stim_out = out, stim_env = s1\<rparr> = Some (\<not> apb_slverr j, j, \<lparr>stim_out = out, stim_env = s'\<rparr>)"
      "ok s'" "apb_wr out \<longrightarrow> agree_mem aligned unused (mem s') (mem_write (apb_addr out AND NOT 3) (apb_wdata out) (strb_mask (apb_strobe out)) (mem s1))"
      "\<not> apb_wr out \<longrightarrow> agree_mem aligned unused (mem s') (mem s1) \<and>
        (aligned (apb_addr out) \<longrightarrow> agree (unused (apb_addr out)) (apb_rdata j) (mem s1 (apb_addr out)))"
      using less.hyps [of s1] less.prems s1 by blast
    then show ?thesis
      using s1 False by (intro exI [of _ "Suc n"] exI [of _ j] exI [of _ s']) (simp add: step plain)
  qed
qed

text \<open>Both accesses return, whatever outputs were left with the access phase off.\<close>

lemma write_returns:
  assumes "ok s" and "\<not> apb_enable out"
  shows "\<exists>n w r s'. apb_write (recorded clk) a strb v \<lparr>stim_out = out, stim_env = (s, [])\<rparr> =
      Some (r, \<lparr>stim_out = apb_idle, stim_env = (s', (write_phase a strb v False, w) #
        replicate n (write_phase a strb v True, False) @ [(write_phase a strb v True, True)])\<rparr>) \<and>
    apb_write clk a strb v \<lparr>stim_out = out, stim_env = s\<rparr> = Some (r, \<lparr>stim_out = apb_idle, stim_env = s'\<rparr>) \<and>
    ok s' \<and> agree_mem aligned unused (mem s') (mem_write (a AND NOT 3) v (strb_mask strb) (mem s))"
proof -
  have out: "out\<lparr>apb_clk_en := True, apb_sel := True, apb_wr := True, apb_addr := a, apb_wdata := v, apb_strobe := strb\<rparr>
      = write_phase a strb v False"
    using assms(2) by (simp add: write_phase_def)
  obtain i s1 where clk: "clk (write_phase a strb v False) s = (i, s1)" by force
  have s1: "ok s1" "mem s1 = mem s" "armed (write_phase a strb v True) s1"
    using set_up [OF assms(1) _ _ clk] by simp_all
  obtain n j s' where w:
    "apb_wait (recorded clk) \<lparr>stim_out = write_phase a strb v True, stim_env = (s1, [(write_phase a strb v False, apb_ready i)])\<rparr> =
      Some (\<not> apb_slverr j, j, \<lparr>stim_out = write_phase a strb v True, stim_env = (s', [(write_phase a strb v False, apb_ready i)]
        @ replicate n (write_phase a strb v True, False) @ [(write_phase a strb v True, True)])\<rparr>)"
    "apb_wait clk \<lparr>stim_out = write_phase a strb v True, stim_env = s1\<rparr> =
      Some (\<not> apb_slverr j, j, \<lparr>stim_out = write_phase a strb v True, stim_env = s'\<rparr>)"
    "ok s'" "agree_mem aligned unused (mem s') (mem_write (a AND NOT 3) v (strb_mask strb) (mem s1))"
    using wait_ready [of s1 "write_phase a strb v True" "[(write_phase a strb v False, apb_ready i)]"] s1 by auto
  have "(write_phase a strb v True)\<lparr>apb_clk_en := False, apb_sel := False, apb_enable := False, apb_wr := False,
      apb_addr := 0, apb_wdata := 0, apb_strobe := 0\<rparr> = apb_idle"
    by (simp add: write_phase_def apb_idle_def)
  with w s1(2) show ?thesis
    by (intro exI [of _ n] exI [of _ "apb_ready i"] exI [of _ "\<not> apb_slverr j"] exI [of _ s'])
       (simp add: apb_write_def drive_def wait_clk_def recorded_def clk out)
qed

lemma read_returns:
  assumes "ok s" and "\<not> apb_enable out"
  shows "\<exists>n w r v s'. apb_read (recorded clk) a \<lparr>stim_out = out, stim_env = (s, [])\<rparr> =
      Some (r, v, \<lparr>stim_out = apb_idle, stim_env = (s', (read_phase a False, w) #
        replicate n (read_phase a True, False) @ [(read_phase a True, True)])\<rparr>) \<and>
    apb_read clk a \<lparr>stim_out = out, stim_env = s\<rparr> = Some (r, v, \<lparr>stim_out = apb_idle, stim_env = s'\<rparr>) \<and>
    ok s' \<and> agree_mem aligned unused (mem s') (mem s) \<and> (aligned a \<longrightarrow> agree (unused a) v (mem s a))"
proof -
  have out: "out\<lparr>apb_clk_en := True, apb_sel := True, apb_wr := False, apb_addr := a, apb_wdata := 0, apb_strobe := 0\<rparr>
      = read_phase a False"
    using assms(2) by (simp add: read_phase_def)
  obtain i s1 where clk: "clk (read_phase a False) s = (i, s1)" by force
  have s1: "ok s1" "mem s1 = mem s" "armed (read_phase a True) s1"
    using set_up [OF assms(1) _ _ clk] by simp_all
  obtain n j s' where w:
    "apb_wait (recorded clk) \<lparr>stim_out = read_phase a True, stim_env = (s1, [(read_phase a False, apb_ready i)])\<rparr> =
      Some (\<not> apb_slverr j, j, \<lparr>stim_out = read_phase a True, stim_env = (s', [(read_phase a False, apb_ready i)]
        @ replicate n (read_phase a True, False) @ [(read_phase a True, True)])\<rparr>)"
    "apb_wait clk \<lparr>stim_out = read_phase a True, stim_env = s1\<rparr> =
      Some (\<not> apb_slverr j, j, \<lparr>stim_out = read_phase a True, stim_env = s'\<rparr>)"
    "ok s'" "agree_mem aligned unused (mem s') (mem s1)" "aligned a \<longrightarrow> agree (unused a) (apb_rdata j) (mem s1 a)"
    using wait_ready [of s1 "read_phase a True" "[(read_phase a False, apb_ready i)]"] s1 by auto
  have "(read_phase a True)\<lparr>apb_clk_en := False, apb_sel := False, apb_enable := False, apb_wr := False,
      apb_addr := 0, apb_strobe := 0\<rparr> = apb_idle"
    by (simp add: read_phase_def apb_idle_def)
  with w s1(2) show ?thesis
    by (intro exI [of _ n] exI [of _ "apb_ready i"] exI [of _ "\<not> apb_slverr j"] exI [of _ "apb_rdata j"] exI [of _ s'])
       (simp add: apb_read_def drive_def wait_clk_def recorded_def clk out)
qed

text \<open>So the master turns the slave into the bus that the register file classes expect.\<close>

lemma stim_bus:
  "apb_bus unused (\<lambda>st. ok (stim_env st) \<and> \<not> apb_enable (stim_out st)) (\<lambda>st. mem (stim_env st)) (stim_read clk) (stim_write clk)"
proof unfold_locales
  fix st :: "'s apb_stim" and a
  assume st: "ok (stim_env st) \<and> \<not> apb_enable (stim_out st)" and a: "aligned a"
  obtain r v s' where "apb_read clk a st = Some (r, v, \<lparr>stim_out = apb_idle, stim_env = s'\<rparr>)"
      "ok s'" "agree_mem aligned unused (mem s') (mem (stim_env st))" "agree (unused a) v (mem (stim_env st) a)"
    using read_returns [of "stim_env st" "stim_out st" a] st a by (cases st) auto
  then show "holds (stim_read clk a st) (\<lambda>(v, st'). (ok (stim_env st') \<and> \<not> apb_enable (stim_out st')) \<and>
      agree (unused a) v (mem (stim_env st) a) \<and> agree_mem aligned unused (mem (stim_env st')) (mem (stim_env st)))"
    by (simp add: stim_read_def apb_idle_def)
next
  fix st :: "'s apb_stim" and a strb v
  assume st: "ok (stim_env st) \<and> \<not> apb_enable (stim_out st)"
  obtain r s' where "apb_write clk a strb v st = Some (r, \<lparr>stim_out = apb_idle, stim_env = s'\<rparr>)"
      "ok s'" "agree_mem aligned unused (mem s') (mem_write (a AND NOT 3) v (strb_mask strb) (mem (stim_env st)))"
    using write_returns [of "stim_env st" "stim_out st" a strb v] st by (cases st) auto
  then show "holds (stim_write clk a strb v st) (\<lambda>st'. (ok (stim_env st') \<and> \<not> apb_enable (stim_out st')) \<and>
      agree_mem aligned unused (mem (stim_env st')) (mem_write (a AND NOT 3) v (strb_mask strb) (mem (stim_env st))))"
    by (simp add: stim_write_def apb_idle_def)
qed

text \<open>And so the caches in front of it behave like a memory.\<close>

lemma cached_stim:
  assumes "ok s" and "0 < n" and "list_all (op_ok aligned unused) ops"
  shows "holds (rf_run (cached_bus (stim_read clk) (stim_write clk)) ops (cached_bus_start garbage n (apb_stim_new s)))
    (\<lambda>(out, s'). reads_agree unused out (mem_run ops (mem s)) \<and>
       holds (cached_bus_stop (stim_read clk) (stim_write clk) s') (\<lambda>st. ok (stim_env st) \<and>
         agree_mem aligned unused (mem (stim_env st)) (mem_after ops (mem s))))"
proof -
  have new: "ok (stim_env (apb_stim_new s)) \<and> \<not> apb_enable (stim_out (apb_stim_new s))" "stim_env (apb_stim_new s) = s"
    using assms(1) by (simp_all add: apb_stim_new_def apb_idle_def)
  show ?thesis
    using apb_bus.cached_runs [OF stim_bus new(1) assms(2,3), of garbage]
    by (rule holds_mono) (auto simp: new(2) intro: holds_mono)
qed

end

section \<open>A slave with wait states\<close>

text \<open>
  It stores the outputs of the setup phase, and takes the access from there; \<open>k\<close> gives the number of
  edges it is not ready for an address. Without a setup phase it is never ready.
\<close>

record ram_slave =
  rs_access :: "apb_out option"
  rs_left :: nat
  rs_mem :: memory

definition ram_slave_clk :: "(rf_addr_t \<Rightarrow> nat) \<Rightarrow> ram_slave apb_clock" where
  "ram_slave_clk k out s =
     (let busy = \<lparr>apb_ready = False, apb_slverr = False, apb_rdata = 0\<rparr> in
      if \<not> apb_sel out then (busy, s\<lparr>rs_access := None\<rparr>)
      else if \<not> apb_enable out then (busy, s\<lparr>rs_access := Some out, rs_left := k (apb_addr out)\<rparr>)
      else case rs_access s of
          None \<Rightarrow> (busy, s)
        | Some acc \<Rightarrow>
            if 0 < rs_left s then (busy, s\<lparr>rs_left := rs_left s - 1\<rparr>)
            else if apb_wr acc then
              (\<lparr>apb_ready = True, apb_slverr = False, apb_rdata = 0\<rparr>,
               s\<lparr>rs_access := None, rs_mem := mem_write (apb_addr acc AND NOT 3) (apb_wdata acc) (strb_mask (apb_strobe acc)) (rs_mem s)\<rparr>)
            else (\<lparr>apb_ready = True, apb_slverr = False, apb_rdata = rs_mem s (apb_addr acc AND NOT 3)\<rparr>, s\<lparr>rs_access := None\<rparr>))"

lemma ram_slave_laws:
  "apb_slave unused (\<lambda>_. True) rs_mem (\<lambda>out s. rs_access s = Some (out\<lparr>apb_enable := False\<rparr>)) (\<lambda>out. rs_left) (ram_slave_clk k)"
  by unfold_locales (auto simp: ram_slave_clk_def Let_def aligned_word [simplified] split: if_splits)

interpretation ram_slave: apb_slave "\<lambda>_. 0" "\<lambda>_. True" rs_mem "\<lambda>out s. rs_access s = Some (out\<lparr>apb_enable := False\<rparr>)"
  "\<lambda>out. rs_left" "ram_slave_clk k" for k
  by (rule ram_slave_laws)

section \<open>Properties\<close>

text \<open>C24. With a slave that keeps its promises, a write and a read of the bus master return, from any
  outputs with the access phase off. On the bus there is one edge with the address, the data and the
  strobes in the setup phase, then the same outputs in the access phase until the first edge at
  which the slave is ready, and then the bus is idle. The write has replaced the bytes its strobes
  select in the word of its address, the read returns the word at an aligned address and changes
  nothing, up to the bits that no register uses.\<close>

theorem apb_accesses:
  assumes "apb_slave unused ok mem armed waits clk" and "ok s" and "\<not> apb_enable out"
  shows "(\<exists>n w r s'. apb_write (recorded clk) a strb v \<lparr>stim_out = out, stim_env = (s, [])\<rparr> =
      Some (r, \<lparr>stim_out = apb_idle, stim_env = (s', (write_phase a strb v False, w) #
        replicate n (write_phase a strb v True, False) @ [(write_phase a strb v True, True)])\<rparr>) \<and>
      ok s' \<and> agree_mem aligned unused (mem s') (mem_write (a AND NOT 3) v (strb_mask strb) (mem s))) \<and>
    (\<exists>n w r x s'. apb_read (recorded clk) a \<lparr>stim_out = out, stim_env = (s, [])\<rparr> =
      Some (r, x, \<lparr>stim_out = apb_idle, stim_env = (s', (read_phase a False, w) #
        replicate n (read_phase a True, False) @ [(read_phase a True, True)])\<rparr>) \<and>
      ok s' \<and> agree_mem aligned unused (mem s') (mem s) \<and> (aligned a \<longrightarrow> agree (unused a) x (mem s a)))"
  using apb_slave.write_returns [OF assms, of a strb v] apb_slave.read_returns [OF assms, of a] by blast

text \<open>A read of a slave that waits twice returns the word.\<close>

theorem apb_accesses_witness:
  "\<exists>r x st. apb_read (recorded (ram_slave_clk (\<lambda>_. 2))) 8
      \<lparr>stim_out = apb_idle, stim_env = (\<lparr>rs_access = None, rs_left = 0, rs_mem = (\<lambda>_. 0)(8 := 5)\<rparr>, [])\<rparr> = Some (r, x, st) \<and> x = 5"
proof -
  let ?s = "\<lparr>rs_access = None, rs_left = 0, rs_mem = (\<lambda>_. 0)(8 := 5)\<rparr>"
  have "\<not> apb_enable apb_idle" by (simp add: apb_idle_def)
  from apb_accesses [OF ram_slave_laws [of "\<lambda>_. 0" "\<lambda>_. 2"] TrueI this, of 8 0 0 ?s]
  show ?thesis by (auto simp: agree_def)
qed

text \<open>C23. From the caches down to the signals: with a slave that keeps its promises behind the bus
  master, every sequence of legal accesses through the bit cache, the word cache and the subword
  device ends, its reads return what a plain memory returns, and switching the caches off leaves in
  the slave the memory that the writes leave, up to the bits that no register uses.\<close>

theorem cached_signals:
  assumes "apb_slave unused ok mem armed waits clk" and "ok s" and "0 < n" and "list_all (op_ok aligned unused) ops"
  shows "holds (rf_run (cached_bus (stim_read clk) (stim_write clk)) ops (cached_bus_start garbage n (apb_stim_new s)))
    (\<lambda>(out, s'). reads_agree unused out (mem_run ops (mem s)) \<and>
       holds (cached_bus_stop (stim_read clk) (stim_write clk) s') (\<lambda>st. ok (stim_env st) \<and>
         agree_mem aligned unused (mem (stim_env st)) (mem_after ops (mem s))))"
  by (rule apb_slave.cached_stim [OF assms])

theorem cached_signals_witness:
  "holds (rf_run (cached_bus (stim_read (ram_slave_clk (\<lambda>a. unat a))) (stim_write (ram_slave_clk (\<lambda>a. unat a))))
      [Rf_write 8 0xab 0xff 0, Rf_write 8 0xcd00 0xff00 0, Rf_read 8]
      (cached_bus_start (\<lambda>_. 0) 2 (apb_stim_new \<lparr>rs_access = None, rs_left = 0, rs_mem = \<lambda>_. 0\<rparr>)))
    (\<lambda>(out, s'). reads_agree (\<lambda>_. 0) out [(8, 0xcdab)] \<and>
       holds (cached_bus_stop (stim_read (ram_slave_clk (\<lambda>a. unat a))) (stim_write (ram_slave_clk (\<lambda>a. unat a))) s')
         (\<lambda>st. agree_mem aligned (\<lambda>_. 0) (rs_mem (stim_env st)) ((\<lambda>_. 0)(8 := 0xcdab))))"
proof -
  let ?ops = "[Rf_write 8 0xab 0xff 0, Rf_write 8 0xcd00 0xff00 0, Rf_read 8]"
  have run: "mem_run ?ops (\<lambda>_. 0) = [(8, 0xcdab)]" by (simp add: mem_write_def masked_def)
  have aft: "mem_after ?ops (\<lambda>_. 0) = (\<lambda>_. 0)(8 := 0xcdab)" by (simp add: mem_write_def masked_def fun_eq_iff)
  have ops: "list_all (op_ok aligned (\<lambda>_. 0)) ?ops" by simp
  have "0 < (2 :: nat)" by simp
  from cached_signals [OF ram_slave_laws [of "\<lambda>_. 0" "\<lambda>a. unat a"] TrueI this ops, where garbage = "\<lambda>_. 0"
      and s = "\<lparr>rs_access = None, rs_left = 0, rs_mem = \<lambda>_. 0\<rparr>"]
  show ?thesis unfolding ram_slave.simps run aft by simp
qed

end
