(* ===== verification/Tb_Check.thy ===== *)
theory Tb_Check
  imports Prelude "HOL-Library.Word"
begin

text \<open>
  \<open>src/templates-prep/project/stimc/tb_selfcheck.c\<close>, the verdict a self-checking test bench prints at
  the end of a simulation: the lines it writes, and the call that ends the simulation
  (\<open>stimc_finish\<close>, which belongs to the simulator).
\<close>

datatype tb_event = Line string | Stimc_finish

text \<open>A banner the flag \<open>offensive\<close> asks for comes before the one of the verdict.\<close>

definition tb_final_check :: "32 word \<Rightarrow> 32 word \<Rightarrow> bool \<Rightarrow> tb_event list" where
  "tb_final_check checks_done errors offensive =
     map Line
       (''''
        # (if checks_done \<le> 0 then
             (if offensive then
                ['' #####   ####  ### ### ##  ## ##### #####   '',
                 '' ##  ## ##  ## ####### ### ## ##    ##  ##  '',
                 '' ##  ## ###### ## # ## ###### ####  ##  ##  '',
                 '' ##  ## ##  ## ## # ## ## ### ##    ##  ##  '',
                 '' #####  ##  ## ##   ## ##  ## ##### #####   '',
                 '''']
              else [])
             @ ['' ##  ## ##  ## ## ## ##  ##  ####  ##   ## ##  ##  '',
                '' ##  ## ### ## ####  ### ## ##  ## ## # ## ### ##  '',
                '' ##  ## ###### ###   ###### ##  ## ## # ## ######  '',
                '' ##  ## ## ### ####  ## ### ##  ## ####### ## ###  '',
                ''  ####  ##  ## ## ## ##  ##  ####   ## ##  ##  ##  '',
                '''',
                ''TBCHECK: UNWNOWN'']
           else if errors = 0 then
             (if offensive then
                ['' #####  ##    ####   ####  #####  ##  ##         ##   ## ##### ##    ##      '',
                 '' ##  ## ##   ##  ## ##  ## ##  ## ##  ##         ## # ## ##    ##    ##      '',
                 '' #####  ##   ##  ## ##  ## ##  ##  ####          ## # ## ####  ##    ##      '',
                 '' ##  ## ##   ##  ## ##  ## ##  ##   ##           ####### ##    ##    ##      '',
                 '' #####  ##### ####   ####  #####    ##            ## ##  ##### ##### #####   '',
                 '''']
              else [])
             @ ['' #####   ####   ##### ##### ##### #####   '',
                '' ##  ## ##  ## ##    ##     ##    ##  ##  '',
                '' #####  ######  ####  ####  ####  ##  ##  '',
                '' ##     ##  ##     ##    ## ##    ##  ##  '',
                '' ##     ##  ## ##### #####  ##### #####   '',
                '''',
                ''TBCHECK: PASSED'']
           else
             (if offensive then
                ['' ##### ##  ##  ####  ## ## #### ##  ##  #####  '',
                 '' ##    ##  ## ##  ## ####   ##  ### ## ##      '',
                 '' ####  ##  ## ##     ###    ##  ###### ## ###  '',
                 '' ##    ##  ## ##  ## ####   ##  ## ### ##  ##  '',
                 '' ##     ####   ####  ## ## #### ##  ##  ####   '',
                 '''']
              else [])
             @ ['' ##### ####  #### ##    ##### #####   '',
                '' ##   ##  ##  ##  ##    ##    ##  ##  '',
                '' #### ######  ##  ##    ####  ##  ##  '',
                '' ##   ##  ##  ##  ##    ##    ##  ##  '',
                '' ##   ##  ## #### ##### ##### #####   '',
                '''',
                ''TBCHECK: FAILED'']))
     @ [Stimc_finish]"

text \<open>
  The last line before the end names the verdict: unknown without any check, else passed exactly
  without errors. The banners do not change it.
\<close>

theorem final_verdict:
  "last (butlast (tb_final_check checks_done errors offensive)) =
     Line (''TBCHECK: '' @ (if checks_done = 0 then ''UNWNOWN'' else if errors = 0 then ''PASSED'' else ''FAILED''))"
  "last (tb_final_check checks_done errors offensive) = Stimc_finish"
  "filter (\<lambda>e. e = Stimc_finish) (tb_final_check checks_done errors offensive) = [Stimc_finish]"
  by (simp_all add: tb_final_check_def)

end
