(* ===== verification/Ig_Release.thy ===== *)
theory Ig_Release
  imports Ig_Api
begin

text \<open>
  Dropping references. When \<open>ig_obj_unref\<close> drops the last reference to an object, the object is
  released together with the references it owns, which may release further objects. \<open>rel\<close> is the
  invariant in the middle of all this: \<open>P\<close> counts the references that have been taken out of a table
  or queue and are still to be dropped, \<open>S\<close> holds the objects that are being released, and \<open>L\<close> counts
  the references that nobody will drop any more. The result is \<open>unref_drops\<close>: dropping a reference to
  an object of any type returns and keeps the invariant.
\<close>

section \<open>The invariant\<close>

text \<open>The typing of what a struct owns.\<close>

fun own_ok :: "(addr \<Rightarrow> ig_object_type option) \<Rightarrow> ig_body \<Rightarrow> bool" where
  "own_ok T (Module m) \<longleftrightarrow>
     queue_ok T {IG_OBJ_PARAMETER} (mod_params m) \<and> queue_ok T {IG_OBJ_PORT} (mod_ports m) \<and>
     queue_ok T {IG_OBJ_DECLARATION} (opt_queue (mod_decls m)) \<and>
     queue_ok T {IG_OBJ_CODESECTION} (opt_queue (mod_code m)) \<and>
     queue_ok T {IG_OBJ_REGFILE} (opt_queue (mod_regfiles m)) \<and>
     queue_ok T {IG_OBJ_INSTANCE} (opt_queue (mod_child_instances m)) \<and>
     queue_ok T {IG_OBJ_INSTANCE} (mod_mod_instances m) \<and>
     (\<forall>d. mod_default_instance m = Some d \<longrightarrow> T d = Some IG_OBJ_INSTANCE \<and>
        (mod_mod_instances m = [] \<or> d \<in> set (mod_mod_instances m)))"
| "own_ok T (Instance i) \<longleftrightarrow>
     queue_ok T {IG_OBJ_ADJUSTMENT} (inst_adjustments i) \<and> queue_ok T {IG_OBJ_PIN} (inst_pins i)"
| "own_ok T (RfEntry e) \<longleftrightarrow> queue_ok T {IG_OBJ_REGFILE_REG} (entry_regs e)"
| "own_ok T (Regfile r) \<longleftrightarrow> queue_ok T {IG_OBJ_REGFILE_ENTRY} (regfile_entries r)"
| "own_ok T (Net n) \<longleftrightarrow> queue_ok T net_types (net_objects n)"
| "own_ok T (Generic g) \<longleftrightarrow> queue_ok T generic_types (generic_objects g)"
| "own_ok T _ \<longleftrightarrow> True"

lemma queue_ok_cong: "(\<And>a. a \<in> set q \<Longrightarrow> T a = T' a) \<Longrightarrow> queue_ok T ts q = queue_ok T' ts q"
  by (simp add: queue_ok_def)

lemma own_ok_cong:
  assumes same: "\<And>a. a \<in> set (owned b) \<Longrightarrow> T' a = T a" and ok: "own_ok T b"
  shows "own_ok T' b"
proof -
  have q: "queue_ok T' ts q" if "queue_ok T ts q" "set q \<subseteq> set (owned b)" for ts q
    using that same by (auto simp: queue_ok_def)
  show ?thesis
  proof (cases b)
    case (Module m)
    have "T' d = Some IG_OBJ_INSTANCE" if d: "mod_default_instance m = Some d" for d
    proof -
      have "mod_mod_instances m = [] \<or> d \<in> set (mod_mod_instances m)" using d ok Module by simp
      then have "d \<in> set (owned (Module m))" using d by (cases "mod_mod_instances m = []") simp_all
      then have "T' d = T d" unfolding Module [symmetric] by (rule same)
      also have "T d = Some IG_OBJ_INSTANCE" using d ok unfolding Module own_ok.simps by blast
      finally show ?thesis .
    qed
    note default = this
    note m = ok [unfolded Module own_ok.simps]
    have sub: "set q \<subseteq> set (owned b)"
      if "q \<in> {mod_params m, mod_ports m, opt_queue (mod_decls m), opt_queue (mod_code m), opt_queue (mod_regfiles m),
          opt_queue (mod_child_instances m), mod_mod_instances m}" for q
      using that unfolding Module owned.simps set_append by blast
    show ?thesis
      unfolding Module own_ok.simps
      by (intro conjI allI impI q sub) (use m default in \<open>(blast | simp)+\<close>)
  qed (use ok q in simp_all)
qed

lemma own_ok_queue: "own_ok T b \<Longrightarrow> queue_ok T UNIV (owned b)"
  by (cases b) (auto intro: queue_ok_any split: option.split)

lemma own_ok_live: "own_ok T b \<Longrightarrow> a \<in> set (owned b) \<Longrightarrow> T a \<noteq> None"
  using queue_okD [OF own_ok_queue, of T b a] by auto

text \<open>Types of what is live and not being released, and the references to it.\<close>

definition ltype :: "addr set \<Rightarrow> ig_lib_db \<Rightarrow> addr \<Rightarrow> ig_object_type option" where
  "ltype S db a = (if a \<in> S then None else type_at db a)"

definition live_refs :: "addr set \<Rightarrow> ig_lib_db \<Rightarrow> addr \<Rightarrow> nat" where
  "live_refs S db x = (\<Sum>b \<in> dom (heap db) - S. count_list (owned_at db b) x) + table_refs db x"

text \<open>What happens to structs on the way: they vanish or keep their type, and modules their content.\<close>

definition shrinks :: "ig_lib_db \<Rightarrow> ig_lib_db \<Rightarrow> bool" where
  "shrinks db db' \<longleftrightarrow>
     (\<forall>y s'. heap db' y = Some s' \<longrightarrow> (\<exists>s. heap db y = Some s \<and> obj_type s' = obj_type s \<and>
        as_module (obj_body s') = as_module (obj_body s)))"

text \<open>The default instances that wait for their parent: the module holds a reference to them that it does
  not drop.\<close>

definition waits :: "ig_lib_db \<Rightarrow> addr \<Rightarrow> addr \<Rightarrow> bool" where
  "waits db m d \<longleftrightarrow> (\<exists>s mb. heap db m = Some s \<and> as_module (obj_body s) = Some mb \<and>
     mod_default_instance mb = Some d \<and> mod_mod_instances mb = [])"

definition struct_rel ::
    "bool \<Rightarrow> (addr \<Rightarrow> nat) \<Rightarrow> addr set \<Rightarrow> (addr \<Rightarrow> nat) \<Rightarrow> ig_lib_db \<Rightarrow> addr \<Rightarrow> ig_struct \<Rightarrow> bool" where
  "struct_rel ng P S L db x s \<longleftrightarrow>
     own_ok (ltype S db) (obj_body s) \<and> obj_refcount s = int (live_refs S db x + P x + L x) \<and>
     (ng \<longrightarrow> 1 \<le> obj_refcount s)"

definition rel :: "bool \<Rightarrow> ig_lib_db \<Rightarrow> (addr \<Rightarrow> nat) \<Rightarrow> addr set \<Rightarrow> (addr \<Rightarrow> nat) \<Rightarrow> ig_lib_db \<Rightarrow> bool" where
  "rel ng db0 P S L db \<longleftrightarrow>
     finite (dom (heap db)) \<and> (\<forall>t. finite (dom (tables db t))) \<and> shrinks db0 db \<and>
     (\<forall>x s. heap db x = Some s \<longrightarrow> x \<notin> S \<longrightarrow> struct_rel ng P S L db x s) \<and>
     (\<forall>x. 0 < P x \<longrightarrow> ltype S db x \<noteq> None) \<and>
     (\<forall>x. 0 < L x \<longrightarrow> ltype S db x = Some IG_OBJ_INSTANCE \<and> (\<exists>m. waits db0 m x)) \<and>
     (\<forall>m d. waits db0 m d \<longrightarrow> ltype S db m \<noteq> None \<or> 0 < L d) \<and>
     (\<forall>t k x. tables db t k = Some x \<longrightarrow> ltype S db x \<noteq> None)"

lemma shrinks_refl: "shrinks db db"
  by (simp add: shrinks_def)

lemma shrinks_trans: "shrinks a b \<Longrightarrow> shrinks b c \<Longrightarrow> shrinks a c"
  unfolding shrinks_def by metis

lemma shrinks_upd:
  assumes "heap db a = Some s" and "obj_type s1 = obj_type s" and "as_module (obj_body s1) = as_module (obj_body s)"
    and "heap h = (heap db)(a \<mapsto> s1)"
  shows "shrinks db h"
  using assms by (auto simp: shrinks_def)

lemma shrinks_type: "shrinks db h \<Longrightarrow> type_at h x = Some t \<Longrightarrow> type_at db x = Some t"
  by (fastforce simp: shrinks_def type_at_def)

lemma ltype_Some: "ltype S db x = Some t \<longleftrightarrow> x \<notin> S \<and> (\<exists>s. heap db x = Some s \<and> obj_type s = t)"
  by (auto simp: ltype_def type_at_def)

lemma ltype_not_None: "ltype S db x \<noteq> None \<longleftrightarrow> x \<notin> S \<and> (\<exists>s. heap db x = Some s)"
  by (auto simp: ltype_def type_at_def)

lemma relD:
  assumes "rel ng db0 P S L db"
  shows "finite (dom (heap db))" "\<And>t. finite (dom (tables db t))" "shrinks db0 db"
    "\<And>x s. heap db x = Some s \<Longrightarrow> x \<notin> S \<Longrightarrow> struct_rel ng P S L db x s"
    "\<And>x. 0 < P x \<Longrightarrow> ltype S db x \<noteq> None"
    "\<And>x. 0 < L x \<Longrightarrow> ltype S db x = Some IG_OBJ_INSTANCE \<and> (\<exists>m. waits db0 m x)"
    "\<And>m d. waits db0 m d \<Longrightarrow> ltype S db m \<noteq> None \<or> 0 < L d"
    "\<And>t k x. tables db t k = Some x \<Longrightarrow> ltype S db x \<noteq> None"
  using assms by (simp_all only: rel_def, blast+)

lemma relI:
  assumes "finite (dom (heap db))" "\<And>t. finite (dom (tables db t))" "shrinks db0 db"
    "\<And>x s. heap db x = Some s \<Longrightarrow> x \<notin> S \<Longrightarrow> struct_rel ng P S L db x s"
    "\<And>x. 0 < P x \<Longrightarrow> ltype S db x \<noteq> None"
    "\<And>x. 0 < L x \<Longrightarrow> ltype S db x = Some IG_OBJ_INSTANCE \<and> (\<exists>m. waits db0 m x)"
    "\<And>m d. waits db0 m d \<Longrightarrow> ltype S db m \<noteq> None \<or> 0 < L d"
    "\<And>t k x. tables db t k = Some x \<Longrightarrow> ltype S db x \<noteq> None"
  shows "rel ng db0 P S L db"
  unfolding rel_def using assms by blast

lemma struct_relD:
  assumes "struct_rel ng P S L db x s"
  shows "own_ok (ltype S db) (obj_body s)" "obj_refcount s = int (live_refs S db x + P x + L x)"
    "ng \<Longrightarrow> 1 \<le> obj_refcount s"
  using assms unfolding struct_rel_def by blast+

lemma owned_counts:
  assumes "finite (dom (heap db))" and "heap db b = Some s" and "b \<notin> S"
  shows "live_refs S db x = (\<Sum>c \<in> dom (heap db) - insert b S. count_list (owned_at db c) x) + table_refs db x
    + count_list (owned (obj_body s)) x"
proof -
  let ?f = "\<lambda>c. count_list (owned_at db c) x"
  have "b \<in> dom (heap db) - S" "finite (dom (heap db) - S)" using assms by auto
  then have "sum ?f (dom (heap db) - S) = ?f b + sum ?f (dom (heap db) - S - {b})" by (metis sum.remove)
  moreover have "dom (heap db) - S - {b} = dom (heap db) - insert b S" by auto
  moreover have "?f b = count_list (owned (obj_body s)) x" using assms(2) by (simp add: owned_at_def)
  ultimately show ?thesis by (simp only: live_refs_def)
qed

lemma owner_refs:
  assumes "finite (dom (heap db))" and "heap db b = Some s" and "b \<notin> S" and "x \<in> set (owned (obj_body s))"
  shows "0 < live_refs S db x"
  using owned_counts [OF assms(1-3), of x] assms(4) count_list_0_iff [of "owned (obj_body s)" x] by auto

text \<open>A struct is rewritten in place, and \<open>e\<close> of the references still to be dropped are.\<close>

lemma rel_put:
  assumes r: "rel ng db0 P S L db" and a: "heap db a = Some s" "a \<notin> S"
    and same: "obj_type s1 = obj_type s" "as_module (obj_body s1) = as_module (obj_body s)"
      "owned (obj_body s1) = owned (obj_body s)" "\<And>T. own_ok T (obj_body s) \<Longrightarrow> own_ok T (obj_body s1)"
    and rc: "obj_refcount s1 = obj_refcount s - int e" "ng \<Longrightarrow> 1 \<le> obj_refcount s1"
    and P: "\<And>x. P x = P' x + (if x = a then e else 0)"
    and h: "heap h = (heap db)(a \<mapsto> s1)" "tables h = tables db"
  shows "rel ng db0 P' S L h"
proof -
  have ty: "ltype S h = ltype S db" using a same(1) h by (auto simp: ltype_def type_at_def fun_eq_iff)
  have ow: "owned_at h = owned_at db" using a same(3) h by (auto simp: owned_at_def fun_eq_iff)
  have d: "dom (heap h) = dom (heap db)" using a h by auto
  have refs: "live_refs S h = live_refs S db" by (rule ext) (simp only: live_refs_def table_refs_def ow h(2) d)
  show ?thesis
  proof (rule relI)
    show "shrinks db0 h" using relD(3) [OF r] shrinks_upd [OF a(1) same(1,2) h(1)] by (rule shrinks_trans)
    show "struct_rel ng P' S L h x t" if t: "heap h x = Some t" "x \<notin> S" for x t
    proof (cases "x = a")
      case True
      then show ?thesis
        using t h struct_relD [OF relD(4) [OF r a]] same(4) rc P [of a] ty refs by (simp add: struct_rel_def)
    next
      case False
      then have "struct_rel ng P S L db x t" using relD(4) [OF r] t h by simp
      then show ?thesis unfolding struct_rel_def ty refs using False P [of x] by auto
    qed
    show "ltype S h x \<noteq> None" if "0 < P' x" for x using relD(5) [OF r, of x] P [of x] ty that by simp
  qed (use relD(1,2,6-8) [OF r] h ty d in simp_all)
qed

text \<open>The last reference is gone: the references the object owns are still to be dropped, but for those
  it keeps.\<close>

lemma rel_enter:
  assumes r: "rel ng db0 P S L db" and a: "heap db a = Some s" "a \<notin> S"
    and last: "obj_refcount s = 1" and P: "\<And>x. P x = P' x + (if x = a then 1 else 0)"
    and split: "\<And>x. count_list (owned (obj_body s)) x = Q x + E x"
    and E: "\<And>x. 0 < E x \<Longrightarrow> ltype S db x = Some IG_OBJ_INSTANCE"
    and E_waits: "\<And>x. 0 < E x \<longleftrightarrow> waits db0 a x"
    and h: "heap h = (heap db)(a \<mapsto> s1)" "tables h = tables db"
    and same: "obj_type s1 = obj_type s" "obj_body s1 = obj_body s"
  shows "rel ng db0 (\<lambda>x. P' x + Q x) (insert a S) (\<lambda>x. L x + E x) h"
proof -
  note fin = relD(1) [OF r]
  have zero: "live_refs S db a = 0" "P' a = 0" "L a = 0"
    using struct_relD(2) [OF relD(4) [OF r a]] last P [of a] by auto
  have own: "a \<notin> set (owned (obj_body t))" if "heap db x = Some t" "x \<notin> S" for x t
    using owner_refs [OF fin that, of a] zero(1) by auto
  have ty: "ltype (insert a S) h x = (if x = a then None else ltype S db x)" for x
    using a h by (simp add: ltype_def type_at_def)
  have ow: "owned_at h = owned_at db" using a same(2) h by (auto simp: owned_at_def fun_eq_iff)
  have d: "dom (heap h) = dom (heap db)" using a h by auto
  have refs: "live_refs S db x = live_refs (insert a S) h x + Q x + E x" for x
    using owned_counts [OF fin a, of x] split [of x] ow h d by (simp add: live_refs_def table_refs_def)
  have in_owned: "x \<in> set (owned (obj_body s))" if "0 < Q x + E x" for x
    using that split [of x] count_list_0_iff [of "owned (obj_body s)" x] by auto
  show ?thesis
  proof (rule relI)
    show "shrinks db0 h"
      using relD(3) [OF r] shrinks_upd [OF a(1) same(1) _ h(1)] same(2) by (auto intro: shrinks_trans)
    show "ltype (insert a S) h x \<noteq> None" if "tables h t k = Some x" for t k x
    proof -
      have "finite {(t, k). tables db t k = Some a}"
        by (rule finite_subset [of _ "SIGMA t:UNIV. dom (tables db t)"])
           (use relD(2) [OF r] finite_tables in \<open>auto intro!: finite_SigmaI\<close>)
      then have "{(t, k). tables db t k = Some a} = {}"
        using zero(1) by (simp add: live_refs_def table_refs_def)
      then have "x \<noteq> a" using that h by auto
      then show ?thesis using that h relD(8) [OF r, of t k x] ty by simp
    qed
    show "struct_rel ng (\<lambda>x. P' x + Q x) (insert a S) (\<lambda>x. L x + E x) h x t"
      if t: "heap h x = Some t" "x \<notin> insert a S" for x t
    proof -
      have x: "heap db x = Some t" "x \<notin> S" "x \<noteq> a" using t h by auto
      note sr = struct_relD [OF relD(4) [OF r x(1,2)]]
      have "own_ok (ltype (insert a S) h) (obj_body t)"
        by (rule own_ok_cong [OF _ sr(1)]) (use own [OF x(1,2)] ty in auto)
      then show ?thesis using sr(2,3) refs [of x] P [of x] x(3) by (simp add: struct_rel_def)
    qed
    show "ltype (insert a S) h x \<noteq> None" if "0 < P' x + Q x" for x
    proof (cases "0 < P' x")
      case True
      then show ?thesis using relD(5) [OF r, of x] P [of x] zero(2) ty by auto
    next
      case False
      then have x: "x \<in> set (owned (obj_body s))" using that in_owned by simp
      then have "ltype S db x \<noteq> None" by (rule own_ok_live [OF struct_relD(1) [OF relD(4) [OF r a]]])
      then show ?thesis using own [OF a] x ty by auto
    qed
    show "ltype (insert a S) h x = Some IG_OBJ_INSTANCE \<and> (\<exists>m. waits db0 m x)" if "0 < L x + E x" for x
    proof -
      have "x \<noteq> a" using that in_owned [of x] own [OF a] zero(3) by auto
      then show ?thesis using that relD(6) [OF r, of x] E [of x] E_waits [of x] ty by (cases "0 < L x") auto
    qed
    show "ltype (insert a S) h m \<noteq> None \<or> 0 < L x + E x" if "waits db0 m x" for m x
      using relD(7) [OF r that] E_waits [of x] that ty by (cases "m = a") auto
  qed (use fin relD(2) [OF r] d h in simp_all)
qed

text \<open>The struct itself goes.\<close>

lemma rel_exit:
  assumes r: "rel ng db0 P (insert a S) L h" and "a \<notin> S"
  shows "rel ng db0 P S L (slice_free a h)"
proof -
  let ?h = "slice_free a h"
  have hp: "heap ?h = (heap h)(a := None)" "tables ?h = tables h" by (simp_all add: slice_free_def)
  have ty: "ltype S ?h = ltype (insert a S) h" using hp by (auto simp: ltype_def type_at_def fun_eq_iff)
  have d: "dom (heap ?h) - S = dom (heap h) - insert a S" using hp by auto
  have refs: "live_refs S ?h = live_refs (insert a S) h"
    unfolding live_refs_def d table_refs_def hp(2)
    by (rule ext) (use hp in \<open>auto simp: owned_at_def intro!: sum.cong\<close>)
  have "shrinks h ?h" using hp by (auto simp: shrinks_def)
  then have sh: "shrinks db0 ?h" using relD(3) [OF r] shrinks_trans by blast
  have sr: "struct_rel ng P S L ?h x t" if "heap ?h x = Some t" "x \<notin> S" for x t
  proof -
    have "heap h x = Some t" "x \<notin> insert a S" using that hp by (auto split: if_splits)
    then have "struct_rel ng P (insert a S) L h x t" by (rule relD(4) [OF r])
    then show ?thesis unfolding struct_rel_def ty refs .
  qed
  have fin: "finite (dom (heap ?h))" using relD(1) [OF r] hp by simp
  show ?thesis
    by (rule relI [OF fin _ sh sr]) (use relD(2,5-8) [OF r] ty hp in simp_all)
qed

section \<open>Cutting the pointers of a child\<close>

text \<open>What a detach function may do to the child: everything but its owned references and its count.\<close>

definition quiet :: "addr \<Rightarrow> ig_lib_db \<Rightarrow> ig_lib_db \<Rightarrow> bool" where
  "quiet c h h1 \<longleftrightarrow> (\<exists>s s1. heap h c = Some s \<and> heap h1 = (heap h)(c \<mapsto> s1) \<and> tables h1 = tables h \<and>
     obj_refcount s1 = obj_refcount s \<and> obj_type s1 = obj_type s \<and>
     as_module (obj_body s1) = as_module (obj_body s) \<and> owned (obj_body s1) = owned (obj_body s) \<and>
     (\<forall>T. own_ok T (obj_body s) \<longrightarrow> own_ok T (obj_body s1)))"

definition det_ok :: "ig_object_type set \<Rightarrow> (addr \<Rightarrow> ig_lib_db \<Rightarrow> ig_lib_db res) \<Rightarrow> bool" where
  "det_ok ts f \<longleftrightarrow> (\<forall>c h s. heap h c = Some s \<longrightarrow> obj_type s \<in> ts \<longrightarrow> holds (f c h) (quiet c h))"

lemma quiet_refl: "heap h c = Some s \<Longrightarrow> quiet c h h"
  unfolding quiet_def by (intro exI [of _ s]) auto

lemma quiet_set_body:
  assumes "heap h c = Some s" and "obj_type (s\<lparr>obj_body := b\<rparr>) = obj_type s"
    and "as_module b = as_module (obj_body s)" "owned b = owned (obj_body s)"
    and "\<And>T. own_ok T (obj_body s) \<Longrightarrow> own_ok T b"
  shows "quiet c h (set_body c b h)"
  unfolding quiet_def
  by (intro exI [of _ s] exI [of _ "s\<lparr>obj_body := b\<rparr>"]) (use assms in \<open>auto simp: set_body_def\<close>)

lemmas detach_defs = detach_port_def detach_param_def detach_decl_def detach_code_def detach_regfile_def
  detach_entry_def detach_reg_def detach_pin_def detach_adjustment_def detach_mod_instance_def
  detach_child_instance_def detach_net_def detach_generic_def

lemma detach_ok:
  "det_ok {IG_OBJ_PORT} (detach_port p)" "det_ok {IG_OBJ_PARAMETER} (detach_param p)"
  "det_ok {IG_OBJ_DECLARATION} (detach_decl p)" "det_ok {IG_OBJ_CODESECTION} (detach_code p)"
  "det_ok {IG_OBJ_REGFILE} (detach_regfile p)" "det_ok {IG_OBJ_REGFILE_ENTRY} (detach_entry p)"
  "det_ok {IG_OBJ_REGFILE_REG} (detach_reg p)" "det_ok {IG_OBJ_PIN} (detach_pin p)"
  "det_ok {IG_OBJ_ADJUSTMENT} (detach_adjustment p)" "det_ok {IG_OBJ_INSTANCE} (detach_mod_instance p)"
  "det_ok {IG_OBJ_INSTANCE} (detach_child_instance p)" "det_ok net_types (detach_net p)"
  "det_ok generic_types (detach_generic p)"
  unfolding det_ok_def net_types_def generic_types_def
  by (intro allI impI; case_tac "obj_body s";
      auto simp: detach_defs fetch_def heap_get_def obj_type_def quiet_refl intro!: quiet_set_body)+

lemma quiet_type: "quiet c h h1 \<Longrightarrow> ltype S h1 = ltype S h"
  by (auto simp: quiet_def ltype_def type_at_def fun_eq_iff)

text \<open>Objects go, tables stay.\<close>

definition evolves :: "ig_lib_db \<Rightarrow> ig_lib_db \<Rightarrow> bool" where
  "evolves h h' \<longleftrightarrow> shrinks h h' \<and> tables h' = tables h"

lemma evolves_refl: "evolves h h"
  by (simp add: evolves_def shrinks_refl)

lemma evolves_trans: "evolves h h' \<Longrightarrow> evolves h' h'' \<Longrightarrow> evolves h h''"
  by (auto simp: evolves_def intro: shrinks_trans)

lemma evolves_put:
  assumes "heap h a = Some s" and "obj_type s1 = obj_type s" and "obj_body s1 = obj_body s"
  shows "evolves h (put a s1 h)"
  using shrinks_upd [OF assms(1,2), of "put a s1 h"] assms(3) by (simp add: evolves_def)

lemma evolves_free: "evolves h (slice_free a h)"
  by (auto simp: evolves_def shrinks_def slice_free_def)

lemma quiet_evolves: "quiet c h h1 \<Longrightarrow> evolves h h1"
  unfolding evolves_def by (auto simp: quiet_def intro: shrinks_upd)

lemma rel_quiet:
  assumes r: "rel ng db0 P S L h" and q: "quiet c h h1" and "c \<notin> S"
  shows "rel ng db0 P S L h1"
proof -
  obtain s s1 where s: "heap h c = Some s" "heap h1 = (heap h)(c \<mapsto> s1)" "tables h1 = tables h"
      "obj_refcount s1 = obj_refcount s" "obj_type s1 = obj_type s"
      "as_module (obj_body s1) = as_module (obj_body s)" "owned (obj_body s1) = owned (obj_body s)"
      "\<And>T. own_ok T (obj_body s) \<Longrightarrow> own_ok T (obj_body s1)"
    using q by (auto simp: quiet_def)
  show ?thesis
    by (rule rel_put [OF r s(1) assms(3) s(5-8) _ _ _ s(2,3), where e = 0])
       (use s(4) struct_relD(3) [OF relD(4) [OF r s(1) assms(3)]] in simp_all)
qed

section \<open>Dropping references\<close>

fun rank :: "ig_object_type \<Rightarrow> nat" where
  "rank IG_OBJ_MODULE = 4"
| "rank IG_OBJ_REGFILE = 3"
| "rank IG_OBJ_REGFILE_ENTRY = 2"
| "rank IG_OBJ_INSTANCE = 2"
| "rank IG_OBJ_NET = 2"
| "rank IG_OBJ_GENERIC = 2"
| "rank _ = 1"

text \<open>A function that drops references to objects up to rank \<open>n\<close>.\<close>

definition released :: "bool \<Rightarrow> ig_lib_db \<Rightarrow> (addr \<Rightarrow> nat) \<Rightarrow> addr set \<Rightarrow> ig_lib_db \<Rightarrow> ig_lib_db \<Rightarrow> bool" where
  "released ng db0 P S h h' \<longleftrightarrow> evolves h h' \<and> (\<exists>L. rel ng db0 P S L h')"

definition drops :: "bool \<Rightarrow> ig_lib_db \<Rightarrow> nat \<Rightarrow> ig_lib_db unref \<Rightarrow> bool" where
  "drops ng db0 n u \<longleftrightarrow> (\<forall>P S L h a t. rel ng db0 (\<lambda>x. P x + (if x = a then 1 else 0)) S L h \<longrightarrow>
     ltype S h a = Some t \<longrightarrow> rank t \<le> n \<longrightarrow> holds (u (Some a) h) (released ng db0 P S h))"

definition ready :: "ig_object_type set \<Rightarrow> addr list \<Rightarrow> addr set \<Rightarrow> ig_lib_db \<Rightarrow> bool" where
  "ready ts q S h \<longleftrightarrow> queue_ok (ltype S h) ts q"

lemma ready_shrinks:
  assumes "ready ts q S h" and "evolves h h'" and "\<And>x. x \<in> set q \<Longrightarrow> ltype S h' x \<noteq> None"
  shows "ready ts q S h'"
  unfolding ready_def queue_ok_def
proof
  fix x assume x: "x \<in> set q"
  then obtain t where t: "t \<in> ts" "ltype S h x = Some t" using assms(1) by (auto simp: ready_def queue_ok_def)
  obtain t' where t': "ltype S h' x = Some t'" using assms(3) [OF x] by auto
  then have "ltype S h x = Some t'" using assms(2) by (auto simp: evolves_def ltype_def split: if_splits intro: shrinks_type)
  then show "\<exists>t \<in> ts. ltype S h' x = Some t" using t t' by auto
qed

lemma drop_queue:
  assumes u: "drops ng db0 n u" and d: "det_ok ts f" and n: "\<And>t. t \<in> ts \<Longrightarrow> rank t \<le> n"
    and r: "rel ng db0 (\<lambda>x. P x + count_list q x) S L h" and q: "ready ts q S h"
  shows "holds (child_queue_unref u f (Some q) h) (released ng db0 P S h)"
  using r q
proof (induction q arbitrary: h L)
  case Nil
  then show ?case by (auto simp: child_queue_unref_def released_def evolves_refl)
next
  case (Cons c q)
  obtain t where t: "t \<in> ts" "ltype S h c = Some t" using Cons.prems(2) by (auto simp: ready_def)
  obtain s where s: "heap h c = Some s" "obj_type s = t" "c \<notin> S" using t(2) by (auto simp: ltype_Some)
  have "holds (f c h) (quiet c h)" using d s(1,2) t(1) unfolding det_ok_def by blast
  then obtain h1 where h1: "f c h = Inr h1" "quiet c h h1" by (auto simp: holds_iff)
  have r1: "rel ng db0 (\<lambda>x. (P x + count_list q x) + (if x = c then 1 else 0)) S L h1"
    using rel_quiet [OF Cons.prems(1) h1(2) s(3)] by (rule back_subst [of "\<lambda>P. rel ng db0 P S L h1"]) (simp add: fun_eq_iff)
  have "holds (u (Some c) h1) (released ng db0 (\<lambda>x. P x + count_list q x) S h1)"
    using u r1 t(2) n [OF t(1)] quiet_type [OF h1(2), of S] unfolding drops_def by metis
  then obtain h2 L2 where h2: "u (Some c) h1 = Inr h2" "evolves h1 h2" "rel ng db0 (\<lambda>x. P x + count_list q x) S L2 h2"
    by (auto simp: holds_iff released_def)
  have sh: "evolves h h2" using quiet_evolves [OF h1(2)] h2(2) by (rule evolves_trans)
  have live: "ltype S h2 x \<noteq> None" if "x \<in> set q" for x
    using relD(5) [OF h2(3), of x] that count_list_0_iff [of q x] by auto
  have "ready ts q S h" using Cons.prems(2) by (simp add: ready_def)
  then have "holds (child_queue_unref u f (Some q) h2) (released ng db0 P S h2)"
    by (intro Cons.IH [OF h2(3)] ready_shrinks [OF _ sh live])
  then show ?case
    using h1(1) h2(1) evolves_trans [OF sh]
    by (auto simp: child_queue_unref_def released_def elim!: holds_mono)
qed

text \<open>The queues of a struct one after the other.\<close>

type_synonym queue_job = "ig_object_type set \<times> (addr \<Rightarrow> ig_lib_db \<Rightarrow> ig_lib_db res) \<times> addr list option"

definition run_jobs :: "ig_lib_db unref \<Rightarrow> queue_job list \<Rightarrow> ig_lib_db \<Rightarrow> ig_lib_db res" where
  "run_jobs u = res_fold (\<lambda>(ts, f, q). child_queue_unref u f q)"

definition job_refs :: "queue_job list \<Rightarrow> addr list" where
  "job_refs jobs = concat (map (\<lambda>(ts, f, q). opt_queue q) jobs)"

definition job_ok :: "nat \<Rightarrow> queue_job \<Rightarrow> bool" where
  "job_ok n j \<longleftrightarrow> (case j of (ts, f, q) \<Rightarrow> det_ok ts f \<and> (\<forall>t \<in> ts. rank t \<le> n))"

definition job_ready :: "addr set \<Rightarrow> ig_lib_db \<Rightarrow> queue_job \<Rightarrow> bool" where
  "job_ready S h j \<longleftrightarrow> (case j of (ts, f, q) \<Rightarrow> ready ts (opt_queue q) S h)"

lemma drop_jobs:
  assumes u: "drops ng db0 n u" and "list_all (job_ok n) jobs" and "list_all (job_ready S h) jobs"
    and "rel ng db0 (\<lambda>x. P x + count_list (job_refs jobs) x) S L h"
  shows "holds (run_jobs u jobs h) (released ng db0 P S h)"
  using assms(2-)
proof (induction jobs arbitrary: h L)
  case Nil
  then show ?case by (auto simp: run_jobs_def job_refs_def released_def evolves_refl)
next
  case (Cons j jobs)
  obtain ts f q where j: "j = (ts, f, q)" by (cases j) auto
  have r: "rel ng db0 (\<lambda>x. (P x + count_list (job_refs jobs) x) + count_list (opt_queue q) x) S L h"
    using Cons.prems(3) by (rule back_subst [of "\<lambda>P. rel ng db0 P S L h"]) (simp add: job_refs_def j fun_eq_iff)
  have "holds (child_queue_unref u f q h) (released ng db0 (\<lambda>x. P x + count_list (job_refs jobs) x) S h)"
  proof (cases q)
    case None
    then show ?thesis using r by (auto simp: child_queue_unref_def released_def evolves_refl)
  next
    case (Some q')
    then show ?thesis
      using drop_queue [OF u _ _ r [unfolded Some opt_queue_simps]] Cons.prems(1,2) j by (auto simp: job_ok_def job_ready_def)
  qed
  then obtain h1 L1 where h1: "child_queue_unref u f q h = Inr h1" "evolves h h1"
      "rel ng db0 (\<lambda>x. P x + count_list (job_refs jobs) x) S L1 h1"
    by (auto simp: holds_iff released_def)
  have "job_ready S h1 k" if k: "k \<in> set jobs" for k
  proof -
    obtain ts' f' q' where k': "k = (ts', f', q')" by (cases k) auto
    have "ltype S h1 x \<noteq> None" if "x \<in> set (opt_queue q')" for x
    proof -
      have "x \<in> set (job_refs jobs)" using that k k' by (force simp: job_refs_def)
      then show ?thesis using relD(5) [OF h1(3), of x] count_list_0_iff [of "job_refs jobs" x] by auto
    qed
    moreover have "ready ts' (opt_queue q') S h" using Cons.prems(2) k k' by (auto simp: list_all_iff job_ready_def)
    ultimately show ?thesis using ready_shrinks [OF _ h1(2)] k' by (simp add: job_ready_def)
  qed
  then have "holds (run_jobs u jobs h1) (released ng db0 P S h1)"
    using Cons.prems(1) by (intro Cons.IH [OF _ _ h1(3)]) (auto simp: list_all_iff)
  then show ?case
    using h1(1) evolves_trans [OF h1(2)] by (auto simp: run_jobs_def j released_def elim!: holds_mono)
qed

text \<open>Inside a release function the struct itself may change, as long as its type and body stay.\<close>

lemma rel_inside:
  assumes r: "rel ng db0 P S L h" and a: "a \<in> S" "heap h a = Some s"
    and same: "obj_body s1 = obj_body s" "obj_type s1 = obj_type s"
  shows "rel ng db0 P S L (put a s1 h)"
proof -
  have ty: "ltype S (put a s1 h) = ltype S h" using a by (auto simp: ltype_def type_at_def fun_eq_iff)
  have d: "dom (heap (put a s1 h)) = dom (heap h)" using a by auto
  have refs: "live_refs S (put a s1 h) = live_refs S h"
    using same(1) a by (auto simp: live_refs_def d fun_eq_iff owned_at_def table_refs_def intro!: sum.cong)
  have "shrinks h (put a s1 h)" by (rule shrinks_upd [OF a(2) same(2)]) (simp_all add: same(1))
  then have sh: "shrinks db0 (put a s1 h)" using relD(3) [OF r] shrinks_trans by blast
  have sr: "struct_rel ng P S L (put a s1 h) x t" if "heap (put a s1 h) x = Some t" "x \<notin> S" for x t
  proof -
    have "heap h x = Some t" using that a by (auto split: if_splits)
    then have "struct_rel ng P S L h x t" using that(2) by (rule relD(4) [OF r])
    then show ?thesis unfolding struct_rel_def ty refs .
  qed
  show ?thesis
    by (rule relI [OF _ _ sh sr]) (use relD(1,2,5-8) [OF r] ty d in simp_all)
qed

definition finish_free :: "ig_lib_db unref \<Rightarrow> addr \<Rightarrow> queue_job list \<Rightarrow> ig_lib_db \<Rightarrow> ig_lib_db res" where
  "finish_free u a jobs h =
     res_bind (ig_obj_free a h) (\<lambda>h. res_bind (run_jobs u jobs h) (\<lambda>h. Inr (slice_free a h)))"

lemma finish_free_drops:
  assumes u: "drops ng db0 n u" and jobs: "list_all (job_ok n) jobs" "list_all (job_ready (insert a S) h) jobs"
    and r: "rel ng db0 (\<lambda>x. P x + count_list (job_refs jobs) x) (insert a S) L h"
    and a: "heap h a = Some s" "a \<notin> S"
  shows "holds (finish_free u a jobs h) (released ng db0 P S h)"
proof -
  let ?h = "put a (s\<lparr>obj_attributes := Map.empty\<rparr>) h"
  have ty: "obj_type (s\<lparr>obj_attributes := Map.empty\<rparr>) = obj_type s" by (simp add: obj_type_def)
  have r1: "rel ng db0 (\<lambda>x. P x + count_list (job_refs jobs) x) (insert a S) L ?h"
    by (rule rel_inside [OF r _ a(1)]) (simp_all add: ty)
  have sh1: "evolves h ?h" by (rule evolves_put [OF a(1) ty]) simp
  have "ltype (insert a S) ?h = ltype (insert a S) h" by (auto simp: ltype_def type_at_def fun_eq_iff)
  then have "list_all (job_ready (insert a S) ?h) jobs"
    using jobs(2) by (simp add: list_all_iff job_ready_def ready_def)
  then obtain h2 L2 where h2: "run_jobs u jobs ?h = Inr h2" "evolves ?h h2" "rel ng db0 P (insert a S) L2 h2"
    using drop_jobs [OF u jobs(1) _ r1] by (auto simp: holds_iff released_def)
  have "evolves h (slice_free a h2)" using sh1 h2(2) evolves_free evolves_trans by blast
  then show ?thesis
    using rel_exit [OF h2(3) a(2)] a(1) h2(1)
    by (auto simp: finish_free_def ig_obj_free_def heap_get_def released_def)
qed

section \<open>The release functions\<close>

text \<open>The queues each struct type empties, and the default instance a module never lets go.\<close>

fun jobs_of :: "addr \<Rightarrow> ig_body \<Rightarrow> queue_job list" where
  "jobs_of a (Module m) =
     [({IG_OBJ_PARAMETER}, detach_param a, Some (mod_params m)), ({IG_OBJ_PORT}, detach_port a, Some (mod_ports m)),
      ({IG_OBJ_INSTANCE}, detach_mod_instance a, Some (mod_mod_instances m)),
      ({IG_OBJ_DECLARATION}, detach_decl a, mod_decls m), ({IG_OBJ_CODESECTION}, detach_code a, mod_code m),
      ({IG_OBJ_INSTANCE}, detach_child_instance a, mod_child_instances m),
      ({IG_OBJ_REGFILE}, detach_regfile a, mod_regfiles m)]"
| "jobs_of a (Instance i) =
     [({IG_OBJ_ADJUSTMENT}, detach_adjustment a, Some (inst_adjustments i)), ({IG_OBJ_PIN}, detach_pin a, Some (inst_pins i))]"
| "jobs_of a (RfEntry e) = [({IG_OBJ_REGFILE_REG}, detach_reg a, Some (entry_regs e))]"
| "jobs_of a (Regfile r) = [({IG_OBJ_REGFILE_ENTRY}, detach_entry a, Some (regfile_entries r))]"
| "jobs_of a (Net n) = [(net_types, detach_net a, Some (net_objects n))]"
| "jobs_of a (Generic g) = [(generic_types, detach_generic a, Some (generic_objects g))]"
| "jobs_of a _ = []"

definition leaks :: "ig_body \<Rightarrow> addr list" where
  "leaks b = (case as_module b of
       Some m \<Rightarrow> if mod_mod_instances m = [] then (case mod_default_instance m of None \<Rightarrow> [] | Some d \<Rightarrow> [d]) else []
     | None \<Rightarrow> [])"

lemma leaks_Module:
  "mod_mod_instances m \<noteq> [] \<Longrightarrow> leaks (Module m) = []"
  "mod_default_instance m = None \<Longrightarrow> leaks (Module m) = []"
  "mod_mod_instances m = [] \<Longrightarrow> mod_default_instance m = Some d \<Longrightarrow> leaks (Module m) = [d]"
  by (simp_all add: leaks_def)

lemma leaks_other: "as_module b = None \<Longrightarrow> leaks b = []"
  by (simp add: leaks_def)

lemma owned_split: "count_list (owned b) x = count_list (job_refs (jobs_of a b)) x + count_list (leaks b) x"
proof (cases b)
  case (Module m)
  consider "mod_mod_instances m \<noteq> []" | "mod_mod_instances m = []" "mod_default_instance m = None"
    | d where "mod_mod_instances m = []" "mod_default_instance m = Some d" by blast
  then show ?thesis
  proof cases
    case 1
    then show ?thesis unfolding Module by (simp add: leaks_Module(1) job_refs_def)
  next
    case 2
    then show ?thesis unfolding Module by (simp add: leaks_Module(2) job_refs_def)
  next
    case 3
    then show ?thesis unfolding Module by (simp add: leaks_Module(3) job_refs_def)
  qed
qed (simp_all add: job_refs_def leaks_other)

lemma owned_set: "x \<in> set (owned b) \<longleftrightarrow> x \<in> set (job_refs (jobs_of a b)) \<or> x \<in> set (leaks b)"
  using owned_split [of b x a] by (metis add_is_0 count_list_0_iff)

lemma leaks_iff:
  "x \<in> set (leaks b) \<longleftrightarrow> (\<exists>m. as_module b = Some m \<and> mod_default_instance m = Some x \<and> mod_mod_instances m = [])"
proof (cases b)
  case (Module m)
  consider "mod_mod_instances m \<noteq> []" | "mod_mod_instances m = []" "mod_default_instance m = None"
    | d where "mod_mod_instances m = []" "mod_default_instance m = Some d" by blast
  then show ?thesis
    unfolding Module by cases (auto simp: leaks_Module)
qed (simp_all add: leaks_other)

lemma leaks_instance: "own_ok T b \<Longrightarrow> x \<in> set (leaks b) \<Longrightarrow> T x = Some IG_OBJ_INSTANCE"
  unfolding leaks_iff by (cases b) simp_all

lemma jobs_ready: "own_ok (ltype S h) b \<Longrightarrow> list_all (job_ready S h) (jobs_of a b)"
  by (cases b) (simp_all add: job_ready_def ready_def)

lemma jobs_ok: "obj_body s = b \<Longrightarrow> rank (obj_type s) \<le> Suc n \<Longrightarrow> list_all (job_ok n) (jobs_of a b)"
  by (cases b) (auto simp: job_ok_def detach_ok obj_type_def net_types_def [symmetric] generic_types_def [symmetric],
    auto simp: net_types_def generic_types_def)

lemmas free_defs = ig_leaf_free_def ig_rf_entry_free_def ig_rf_regfile_free_def ig_instance_free_def
  ig_module_free_def ig_net_free_def ig_generic_free_def

lemma free_full_eq:
  assumes s: "heap h a = Some s" and own: "own_ok (ltype S h) (obj_body s)"
  shows "ig_obj_free_full u (Some a) h = finish_free u a (jobs_of a (obj_body s)) h"
proof (cases "obj_body s")
  case (Module m)
  have "fetch as_instance h (Some d) = Inr i \<or> True" for d i by simp
  have d: "\<exists>i. fetch as_instance h (Some d) = Inr i" if "mod_default_instance m = Some d" for d
  proof -
    have "ltype S h d = Some IG_OBJ_INSTANCE" using own that unfolding Module own_ok.simps by blast
    then have "type_at h d = Some IG_OBJ_INSTANCE" by (auto simp: ltype_def split: if_splits)
    then show ?thesis using body_of_type(2) by (fastforce simp: fetch_def heap_get_def)
  qed
  then show ?thesis
    using s Module
    by (cases "mod_default_instance m")
       (auto simp: ig_obj_free_full_def ig_module_free_def heap_get_def obj_type_def finish_free_def run_jobs_def
         fetch_def [of as_module] res_bind_assoc)
qed (use s in \<open>simp_all add: ig_obj_free_full_def free_defs heap_get_def fetch_def obj_type_def
       finish_free_def run_jobs_def res_bind_assoc\<close>)

lemma unref_drops: "drops ng db0 n (unref_depth n)"
proof (induction n)
  case 0
  have "0 < rank t" for t by (cases t) simp_all
  then show ?case unfolding drops_def by (metis not_le)
next
  case (Suc n)
  show ?case
    unfolding drops_def
  proof (intro allI impI)
    fix P S L h a t
    assume r: "rel ng db0 (\<lambda>x. P x + (if x = a then 1 else 0)) S L h" and a: "ltype S h a = Some t" and n: "rank t \<le> Suc n"
    obtain s where s: "heap h a = Some s" "obj_type s = t" "a \<notin> S" using a by (auto simp: ltype_Some)
    let ?s = "s\<lparr>obj_refcount := obj_refcount s - 1\<rparr>" and ?h = "put a (s\<lparr>obj_refcount := obj_refcount s - 1\<rparr>) h"
    note sr = struct_relD [OF relD(4) [OF r s(1,3)]]
    have ty: "obj_type ?s = obj_type s" by (simp add: obj_type_def)
    show "holds (unref_depth (Suc n) (Some a) h) (released ng db0 P S h)"
    proof (cases "obj_refcount s - 1 \<le> 0")
      case False
      have "rel ng db0 P S L ?h"
        by (rule rel_put [OF r s(1,3) ty, where e = 1]) (use False in simp_all)
      moreover have "evolves h ?h" by (rule evolves_put [OF s(1) ty]) simp
      ultimately show ?thesis using s(1) False by (auto simp: heap_get_def Let_def released_def)
    next
      case True
      then have one: "obj_refcount s = 1" using sr(2) by simp
      let ?jobs = "jobs_of a (obj_body s)"
      let ?E = "\<lambda>x. count_list (leaks (obj_body s)) x"
      have E: "0 < ?E x \<longleftrightarrow> x \<in> set (leaks (obj_body s))" for x
        using count_list_0_iff [of "leaks (obj_body s)" x] by auto
      have waits: "0 < ?E x \<longleftrightarrow> waits db0 a x" for x
      proof -
        obtain s0 where "heap db0 a = Some s0" "as_module (obj_body s) = as_module (obj_body s0)"
          using relD(3) [OF r] s(1) by (auto simp: shrinks_def)
        then show ?thesis unfolding E leaks_iff waits_def by auto
      qed
      have enter: "rel ng db0 (\<lambda>x. P x + count_list (job_refs ?jobs) x) (insert a S) (\<lambda>x. L x + ?E x) ?h"
        by (rule rel_enter [where ?s1.0 = ?s, OF r s(1,3) one _ owned_split _ waits])
           (use leaks_instance [OF sr(1)] E ty in simp_all)
      have "own_ok (ltype (insert a S) ?h) (obj_body s)"
      proof (rule own_ok_cong [OF _ sr(1)])
        fix x assume "x \<in> set (owned (obj_body s))"
        then have "0 < count_list (job_refs ?jobs) x + ?E x"
          using owned_split [of "obj_body s" x a] count_list_0_iff [of "owned (obj_body s)" x] by auto
        then have "ltype (insert a S) ?h x \<noteq> None"
          using relD(5) [OF enter, of x] relD(6) [OF enter, of x] by auto
        then show "ltype (insert a S) ?h x = ltype S h x" by (auto simp: ltype_def type_at_def)
      qed
      note own = this
      have "holds (finish_free (unref_depth n) a ?jobs ?h) (released ng db0 P S ?h)"
        by (rule finish_free_drops [OF Suc.IH jobs_ok jobs_ready [OF own] enter _ s(3), of s]) (use s n in simp_all)
      moreover have "ig_obj_free_full (unref_depth n) (Some a) ?h = finish_free (unref_depth n) a ?jobs ?h"
        using free_full_eq [of ?h a ?s "insert a S" "unref_depth n"] own by simp
      moreover have "evolves h ?h" by (rule evolves_put [OF s(1) ty]) simp
      ultimately show ?thesis
        using s(1) True evolves_trans by (auto simp: heap_get_def Let_def released_def elim!: holds_mono)
    qed
  qed
qed

end
