(* ===== verification/Ig_Reset.thy ===== *)
theory Ig_Reset
  imports Ig_Release
begin

text \<open>
  Emptying the database. \<open>ig_lib_db_clear\<close> removes all entries of one table after the other; it never
  faults, and what it leaves on the heap is known exactly.
\<close>

section \<open>Emptying the tables\<close>

lemma count_list_map_distinct:
  "distinct ks \<Longrightarrow> count_list (map f ks) x = card {k \<in> set ks. f k = x}"
proof (induction ks)
  case (Cons k ks)
  have "{k' \<in> set (k # ks). f k' = x} = (if f k = x then insert k {k' \<in> set ks. f k' = x} else {k' \<in> set ks. f k' = x})"
    by auto
  then show ?case using Cons by simp
qed simp

text \<open>An emptied table: its references are still to be dropped, one for every key.\<close>

lemma rel_take_table:
  assumes r: "rel ng db0 (\<lambda>_. 0) {} L db" and ks: "set ks = dom (tables db t)" "distinct ks"
  shows "rel ng db0 (\<lambda>x. 0 + count_list (map (the \<circ> tables db t) ks) x) {} L (set_table t Map.empty db)"
proof -
  let ?h = "set_table t Map.empty db" and ?P = "\<lambda>x. 0 + count_list (map (the \<circ> tables db t) ks) x"
  have ty: "ltype {} ?h = ltype {} db" by (simp add: ltype_def fun_eq_iff)
  have cnt: "?P x = card {k. tables db t k = Some x}" for x
  proof -
    have "{k \<in> set ks. (the \<circ> tables db t) k = x} = {k. tables db t k = Some x}" using ks(1) by auto
    then show ?thesis using count_list_map_distinct [OF ks(2), of "the \<circ> tables db t" x] by simp
  qed
  have refs: "live_refs {} db x = live_refs {} ?h x + ?P x" for x
  proof -
    let ?A = "{(t', k). tables db t' k = Some x}" and ?B = "{(t', k). tables ?h t' k = Some x}"
    have fin: "finite ?A"
      by (rule finite_subset [of _ "SIGMA t:UNIV. dom (tables db t)"])
         (use relD(2) [OF r] finite_tables in \<open>auto intro!: finite_SigmaI\<close>)
    have split: "?A = ?B \<union> Pair t ` {k. tables db t k = Some x}" "?B \<inter> Pair t ` {k. tables db t k = Some x} = {}"
      by (auto simp: fun_upd_def split: if_splits)
    then have "finite ?B" "finite (Pair t ` {k. tables db t k = Some x})" using fin by (metis finite_Un)+
    then have "card ?A = card ?B + card (Pair t ` {k. tables db t k = Some x})" using split card_Un_disjoint by metis
    also have "card (Pair t ` {k. tables db t k = Some x}) = ?P x"
      unfolding cnt by (rule card_image) (simp add: inj_on_def)
    finally have "card ?A = card ?B + ?P x" .
    then show ?thesis by (simp add: live_refs_def table_refs_def)
  qed
  have sh: "shrinks db0 ?h" using relD(3) [OF r] by (simp add: shrinks_def)
  have sr: "struct_rel ng ?P {} L ?h x s" if "heap ?h x = Some s" "x \<notin> {}" for x s
    using struct_relD [OF relD(4) [OF r, of x s]] that refs [of x] ty by (auto simp: struct_rel_def)
  have pos: "ltype {} ?h x \<noteq> None" if "0 < ?P x" for x
  proof -
    have "\<exists>k. tables db t k = Some x" using that unfolding cnt by (auto simp: card_gt_0_iff)
    then show ?thesis using relD(8) [OF r] ty by auto
  qed
  show ?thesis
    by (rule relI [OF _ _ sh sr]) (use relD(1,2,6-8) [OF r] ty pos in \<open>auto split: if_splits\<close>)
qed

lemma drop_list:
  assumes "rel ng db0 (\<lambda>x. P x + count_list xs x) {} L h" and "\<And>k. k \<in> set ks \<Longrightarrow> m k = Some (f k)" and "xs = map f ks"
  shows "holds (res_fold (\<lambda>k. ig_obj_unref (m k)) ks h) (released ng db0 P {} h)"
  using assms
proof (induction ks arbitrary: h L xs)
  case Nil
  then show ?case by (auto simp: released_def evolves_refl)
next
  case (Cons k ks)
  let ?xs = "map f ks"
  have r: "rel ng db0 (\<lambda>x. (P x + count_list ?xs x) + (if x = f k then 1 else 0)) {} L h"
    using Cons.prems(1) by (rule back_subst [of "\<lambda>P. rel ng db0 P {} L h"]) (simp add: Cons.prems(3) fun_eq_iff)
  obtain t where t: "ltype {} h (f k) = Some t" using relD(5) [OF r, of "f k"] by auto
  have "rank t \<le> 4" by (cases t) simp_all
  then have "holds (ig_obj_unref (m k) h) (released ng db0 (\<lambda>x. P x + count_list ?xs x) {} h)"
    using unref_drops [of ng db0 4] r t Cons.prems(2) [of k] unfolding drops_def ig_obj_unref_def by simp
  then obtain h1 L1 where h1: "ig_obj_unref (m k) h = Inr h1" "evolves h h1" "rel ng db0 (\<lambda>x. P x + count_list ?xs x) {} L1 h1"
    by (auto simp: holds_iff released_def)
  have "holds (res_fold (\<lambda>k. ig_obj_unref (m k)) ks h1) (released ng db0 P {} h1)"
    by (rule Cons.IH [OF h1(3)]) (use Cons.prems(2) in auto)
  then show ?case using h1(1) evolves_trans [OF h1(2)] by (auto simp: released_def elim!: holds_mono)
qed

lemma remove_all_result:
  assumes r: "rel ng db0 (\<lambda>_. 0) {} L db"
    and order: "\<And>m. finite (dom m) \<Longrightarrow> set (order m) = dom m \<and> distinct (order m)"
  shows "holds (table_remove_all order t db) (\<lambda>db'. shrinks db db' \<and> tables db' = (tables db)(t := Map.empty) \<and>
     (\<exists>L. rel ng db0 (\<lambda>_. 0) {} L db'))"
proof -
  have ks: "set (order (tables db t)) = dom (tables db t)" "distinct (order (tables db t))"
    using order [OF relD(2) [OF r]] by simp_all
  have "holds (res_fold (\<lambda>k. ig_obj_unref (tables db t k)) (order (tables db t)) (set_table t Map.empty db))
      (released ng db0 (\<lambda>_. 0) {} (set_table t Map.empty db))"
    by (rule drop_list [OF rel_take_table [OF r ks], of _ _ "the \<circ> tables db t"]) (use ks in auto)
  then show ?thesis
    unfolding table_remove_all_def Let_def
    by (rule holds_mono) (auto simp: released_def evolves_def shrinks_def)
qed

lemma clear_result:
  assumes r: "rel ng db0 (\<lambda>_. 0) {} L db"
    and order: "\<And>m. finite (dom m) \<Longrightarrow> set (order m) = dom m \<and> distinct (order m)"
  shows "holds (ig_lib_db_clear order db) (\<lambda>db'. (\<forall>t. tables db' t = Map.empty) \<and> shrinks db db' \<and>
     (\<exists>L. rel ng db0 (\<lambda>_. 0) {} L db'))"
proof -
  have "holds (res_fold (table_remove_all order) ts db) (\<lambda>db'. shrinks db db' \<and>
      (\<forall>t. tables db' t = (if t \<in> set ts then Map.empty else tables db t)) \<and> (\<exists>L. rel ng db0 (\<lambda>_. 0) {} L db'))" for ts
    using r
  proof (induction ts arbitrary: db L)
    case Nil
    then show ?case by (auto simp: shrinks_refl)
  next
    case (Cons t ts)
    obtain db1 L1 where 1: "table_remove_all order t db = Inr db1" "shrinks db db1"
        "tables db1 = (tables db)(t := Map.empty)" "rel ng db0 (\<lambda>_. 0) {} L1 db1"
      using remove_all_result [OF Cons.prems order, of t] by (auto simp: holds_iff)
    show ?case
      using 1 Cons.IH [OF 1(4)] by (auto intro: shrinks_trans elim!: holds_mono)
  qed
  from this [of clear_sequence] show ?thesis
    unfolding ig_lib_db_clear_def
  proof (rule holds_mono)
    have "t \<in> set clear_sequence" for t by (cases t) (simp_all add: clear_sequence_def)
    then show "(\<forall>t. tables db' t = Map.empty) \<and> shrinks db db' \<and> (\<exists>L. rel ng db0 (\<lambda>_. 0) {} L db')"
      if "shrinks db db' \<and> (\<forall>t. tables db' t = (if t \<in> set clear_sequence then Map.empty else tables db t)) \<and>
        (\<exists>L. rel ng db0 (\<lambda>_. 0) {} L db')" for db'
      using that by simp
  qed
qed

section \<open>From the invariant of the database\<close>

lemma own_ok_start:
  assumes inv: "db_inv db" and s: "heap db x = Some s"
  shows "own_ok (type_at db) (obj_body s)"
proof -
  have ok: "body_ok (type_at db) (obj_body s)" using heap_okD [OF db_invD(4) [OF inv] s] by simp
  show ?thesis
  proof (cases "obj_body s")
    case (Module m)
    have sk: "skel_ok (mod_skel db) (inst_skel db)" using db_invD(2) [OF inv] by (simp add: hier_inv_def)
    have m: "mod_skel db x = Some (mod_resource m, mod_default_instance m, mod_mod_instances m)"
      using s Module by (simp add: mod_skel_Some)
    have "mod_mod_instances m = [] \<or> d \<in> set (mod_mod_instances m)" if d: "mod_default_instance m = Some d" for d
    proof (cases "mod_resource m")
      case True
      then show ?thesis using skel_resource [OF sk] m d by fastforce
    next
      case False
      then show ?thesis using skel_default [OF sk] m d by (fastforce split: if_splits)
    qed
    then show ?thesis using ok Module by (simp add: module_ok_def ptr_ok_def)
  qed (use ok in auto)
qed

lemma rel_start:
  assumes inv: "db_inv db" and ng: "ng \<Longrightarrow> waste db = {}"
  shows "rel ng db (\<lambda>_. 0) {} (\<lambda>_. 0) db"
proof (rule relI)
  have ty: "ltype {} db = type_at db" by (simp add: ltype_def fun_eq_iff)
  have refs: "int (live_refs {} db x) = refs db x" for x by (simp add: live_refs_def refs_def heap_refs_def)
  show "finite (dom (heap db))" using heap_ok_finite [OF db_invD(4) [OF inv]] .
  show "finite (dom (tables db t))" for t using db_invD(5) [OF inv] by (simp add: tables_ok_def)
  show "shrinks db db" by (rule shrinks_refl)
  show "struct_rel ng (\<lambda>_. 0) {} (\<lambda>_. 0) db x s" if s: "heap db x = Some s" "x \<notin> {}" for x s
  proof -
    have "obj_refcount s = refs db x"
      using db_invD(1) [OF inv] s(1) by (simp add: base_inv_def counts_ok_def)
    moreover have "1 \<le> refs db x" if ng
    proof -
      have "x \<notin> waste db" using ng [OF that] by simp
      then have "anchored db x" using s(1) by (simp add: waste_def)
      then show ?thesis using anchored_refs db_invD(4,5) [OF inv] by blast
    qed
    ultimately show ?thesis using own_ok_start [OF inv s(1)] refs [of x] ty by (simp add: struct_rel_def)
  qed
  show "ltype {} db m \<noteq> None \<or> 0 < (\<lambda>_. 0) d" if "waits db m d" for m d
    using that by (auto simp: waits_def ltype_def type_at_def)
  show "ltype {} db x \<noteq> None" if "tables db t k = Some x" for t k x
    using tables_okD [OF db_invD(5) [OF inv] that] by (auto simp: ty type_at_def)
qed simp_all

section \<open>What is left\<close>

text \<open>Who can own an object of a type.\<close>

fun owner_types :: "ig_object_type \<Rightarrow> ig_object_type set" where
  "owner_types IG_OBJ_PORT = {IG_OBJ_MODULE, IG_OBJ_NET}"
| "owner_types IG_OBJ_PIN = {IG_OBJ_INSTANCE, IG_OBJ_NET}"
| "owner_types IG_OBJ_PARAMETER = {IG_OBJ_MODULE, IG_OBJ_GENERIC}"
| "owner_types IG_OBJ_ADJUSTMENT = {IG_OBJ_INSTANCE, IG_OBJ_GENERIC}"
| "owner_types IG_OBJ_DECLARATION = {IG_OBJ_MODULE, IG_OBJ_NET}"
| "owner_types IG_OBJ_CODESECTION = {IG_OBJ_MODULE}"
| "owner_types IG_OBJ_INSTANCE = {IG_OBJ_MODULE}"
| "owner_types IG_OBJ_REGFILE = {IG_OBJ_MODULE}"
| "owner_types IG_OBJ_REGFILE_ENTRY = {IG_OBJ_REGFILE}"
| "owner_types IG_OBJ_REGFILE_REG = {IG_OBJ_REGFILE_ENTRY}"
| "owner_types _ = {}"

lemma owner_type:
  assumes "own_ok T b" and "x \<in> set (owned b)" and "T x = Some t"
  shows "body_type b \<in> owner_types t"
proof (cases b)
  case (Module m)
  have q: "x \<in> set q \<Longrightarrow> queue_ok T {t'} q \<Longrightarrow> t = t'" for q t' using assms(3) by (auto simp: queue_ok_def)
  have "x \<in> set (job_refs (jobs_of 0 b)) \<or> x \<in> set (leaks b)" using assms(2) owned_set by blast
  then have "x \<in> set (mod_params m) \<union> set (mod_ports m) \<union> set (opt_queue (mod_decls m)) \<union> set (opt_queue (mod_code m)) \<union>
      set (opt_queue (mod_regfiles m)) \<union> set (opt_queue (mod_child_instances m)) \<union> set (mod_mod_instances m) \<union>
      set (leaks b)"
    unfolding Module by (auto simp: job_refs_def)
  moreover have "x \<in> set (leaks b) \<Longrightarrow> t = IG_OBJ_INSTANCE"
    using leaks_instance [OF assms(1)] assms(3) by simp
  ultimately show ?thesis
    using assms(1) q unfolding Module own_ok.simps by (elim UnE; fastforce)
qed (use assms in \<open>auto simp: queue_ok_def net_types_def generic_types_def\<close>)

lemma rel_owner:
  assumes r: "rel True db0 (\<lambda>_. 0) {} L db" and empty: "\<And>t. tables db t = Map.empty" and x: "type_at db x = Some t"
  shows "0 < L x \<or> (\<exists>b u. type_at db b = Some u \<and> u \<in> owner_types t \<and> x \<in> set (owned_at db b))"
proof -
  obtain s where s: "heap db x = Some s" using x by (auto simp: type_at_Some)
  have ty: "ltype {} db = type_at db" by (simp add: ltype_def fun_eq_iff)
  have "1 \<le> obj_refcount s" "obj_refcount s = int (live_refs {} db x + L x)"
    using struct_relD [OF relD(4) [OF r s]] by auto
  then have "0 < live_refs {} db x \<or> 0 < L x" by linarith
  moreover have "\<exists>b u. type_at db b = Some u \<and> u \<in> owner_types t \<and> x \<in> set (owned_at db b)" if "0 < live_refs {} db x"
  proof -
    have "table_refs db x = 0" using empty by (simp add: table_refs_def)
    then have "(\<Sum>b \<in> dom (heap db). count_list (owned_at db b) x) \<noteq> 0" using that by (simp add: live_refs_def)
    then obtain b where b: "b \<in> dom (heap db)" "count_list (owned_at db b) x \<noteq> 0" by (meson sum.neutral)
    then obtain sb where sb: "heap db b = Some sb" by blast
    have "x \<in> set (owned (obj_body sb))" using b(2) count_pos_mem sb by (simp add: owned_at_def)
    moreover have "own_ok (type_at db) (obj_body sb)" using struct_relD(1) [OF relD(4) [OF r sb]] ty by simp
    ultimately have "body_type (obj_body sb) \<in> owner_types t" using owner_type x by blast
    then show ?thesis
      using sb \<open>x \<in> set (owned (obj_body sb))\<close>
      by (intro exI [of _ b] exI [of _ "obj_type sb"]) (simp add: type_at_def owned_at_def obj_type_def)
  qed
  ultimately show ?thesis by blast
qed

lemma rel_left:
  assumes r: "rel True db0 (\<lambda>_. 0) {} L db" and empty: "\<And>t. tables db t = Map.empty" and x: "type_at db x = Some t"
  shows "(\<exists>m. waits db0 m x) \<and> t = IG_OBJ_INSTANCE \<or>
    (\<exists>m d. waits db0 m d \<and> x \<in> set (owned_at db d)) \<and> t \<in> {IG_OBJ_PIN, IG_OBJ_ADJUSTMENT}"
proof -
  have lost: "L y \<noteq> 0 \<Longrightarrow> type_at db y = Some IG_OBJ_INSTANCE \<and> (\<exists>m. waits db0 m y)" for y
    using relD(6) [OF r, of y] by (simp add: ltype_def)
  note owner = rel_owner [OF r empty]
  have no_module: "type_at db y \<noteq> Some IG_OBJ_MODULE" "type_at db y \<noteq> Some IG_OBJ_NET" "type_at db y \<noteq> Some IG_OBJ_GENERIC" for y
    using owner [of y] lost [of y] by fastforce+
  have no_regfile: "type_at db y \<noteq> Some IG_OBJ_REGFILE" for y
    using owner [of y IG_OBJ_REGFILE] lost [of y] no_module by fastforce
  have no_entry: "type_at db y \<noteq> Some IG_OBJ_REGFILE_ENTRY" for y
    using owner [of y IG_OBJ_REGFILE_ENTRY] lost [of y] no_regfile by fastforce
  have inst: "\<exists>m. waits db0 m y" if "type_at db y = Some IG_OBJ_INSTANCE" for y
    using owner [OF that] lost [of y] no_module by fastforce
  have own: "\<exists>b. type_at db b = Some IG_OBJ_INSTANCE \<and> t \<in> {IG_OBJ_PIN, IG_OBJ_ADJUSTMENT} \<and> x \<in> set (owned_at db b)"
    if "t \<noteq> IG_OBJ_INSTANCE"
  proof -
    have "L x = 0" using lost [of x] x that by auto
    then obtain b u where "type_at db b = Some u" "u \<in> owner_types t" "x \<in> set (owned_at db b)"
      using owner [OF x] by auto
    then show ?thesis
      using that no_module [of b] no_regfile [of b] no_entry [of b] by (cases t) auto
  qed
  show ?thesis
  proof (cases "t = IG_OBJ_INSTANCE")
    case True
    then show ?thesis using inst x by blast
  next
    case False
    then show ?thesis using own inst by blast
  qed
qed

end
