(* ===== verification/Ig_Tcl.thy ===== *)
theory Ig_Tcl
  imports Ig_Connect Logger
begin

text \<open>
  The Tcl commands of \<open>src/lib/ig_tcl.c\<close> that change the database. Each command is modelled from
  the point where \<open>Tcl_ParseArgsObjv\<close> has filled the option variables: an option that was not
  given is \<open>None\<close>, a flag is a \<open>bool\<close>, and a list option a list, empty when it was not given (an
  empty list and a missing one are both the \<open>GList\<close> \<open>NULL\<close>). The option parser of the Tcl library
  and the interpreter are not part of the repository: \<open>tcl_interp\<close> has the answer the interpreter
  gives when an error message asks for the name of the running command.

  A command returns the Tcl result, the messages it has logged itself, and the database.
\<close>

section \<open>Results\<close>

datatype tcl_value = Tcl_string string | Tcl_int int | Tcl_boolean bool | Tcl_list "tcl_value list"

datatype tcl_result = Tcl_ok tcl_value | Tcl_error string

type_synonym log_msg = "log_level \<times> string \<times> string"

type_synonym tcl_out = "tcl_result \<times> log_msg list \<times> ig_lib_db"

text \<open>\<open>%s\<close> of the C library prints a \<open>NULL\<close> pointer as \<open>(null)\<close>.\<close>

definition show_str :: "string option \<Rightarrow> string" where
  "show_str s = (case s of None \<Rightarrow> ''(null)'' | Some x \<Rightarrow> x)"

definition quoted :: "string \<Rightarrow> string" where
  "quoted s = CHR 0x22 # s @ [CHR 0x22]"

text \<open>
  \<open>ti_script\<close> is the result of \<open>lindex [dict get [info frame -1] cmd] 0\<close>, and \<open>ti_bytes\<close> what \<open>%s\<close>
  makes of the bytes of a struct: one message prints a struct as if it were a string.
\<close>

record tcl_interp =
  ti_script :: "string option"
  ti_bytes :: "addr \<Rightarrow> string"

definition tcl_error_msg :: "tcl_interp \<Rightarrow> string \<Rightarrow> tcl_result" where
  "tcl_error_msg ti user_msg = Tcl_error (''ERROR('' @ show_str (ti_script ti) @ ''): '' @ user_msg)"

definition tcl_fail :: "tcl_interp \<Rightarrow> string \<Rightarrow> log_msg list \<Rightarrow> ig_lib_db \<Rightarrow> tcl_out res" where
  "tcl_fail ti user_msg logs db = Inr (tcl_error_msg ti user_msg, logs, db)"

text \<open>A command that returns the id of the object it has made.\<close>

definition tcl_id_result :: "ptr \<Rightarrow> log_msg list \<Rightarrow> ig_lib_db \<Rightarrow> tcl_out res" where
  "tcl_id_result obj logs db =
     res_bind (heap_get db obj) (\<lambda>s. Inr (Tcl_ok (Tcl_string (obj_id s)), logs, db))"

section \<open>Helpers\<close>

text \<open>
  \<open>ig_tclc_tcl_string_list_parse\<close>: \<open>elements\<close> is what \<open>Tcl_ListObjLength\<close> and \<open>Tcl_ListObjIndex\<close>
  make of the object, \<open>None\<close> when it is no list and an element \<open>None\<close> when the index has none. The
  result is the return value and the list stored, if any.
\<close>

fun list_elements :: "string option list \<Rightarrow> string list \<Rightarrow> string list option" where
  "list_elements [] result = Some (rev result)"
| "list_elements (lit # lits) result =
     (case lit of None \<Rightarrow> None | Some lit_str \<Rightarrow> list_elements lits (lit_str # result))"

definition ig_tclc_tcl_string_list_parse ::
    "string option list option \<Rightarrow> int \<times> string list option" where
  "ig_tclc_tcl_string_list_parse elements =
     (case elements of None \<Rightarrow> (-1, None)
      | Some lits \<Rightarrow> (case list_elements lits [] of None \<Rightarrow> (-1, None) | Some result \<Rightarrow> (1, Some result)))"

definition unwanted :: string where
  "unwanted = [CHR 0x22, CHR 0x27, CHR ''!'', CHR '':'', CHR ''$'', CHR '' '', CHR ''{'', CHR ''}'',
               CHR ''['', CHR '']'', CHR ''<'', CHR ''>'', CHR ''('', CHR '')'']"

definition ig_tclc_check_name_and_warn :: "string option \<Rightarrow> log_msg list" where
  "ig_tclc_check_name_and_warn name =
     (case name of None \<Rightarrow> []
      | Some nm \<Rightarrow>
          map (\<lambda>c. (LOGLEVEL_WARNING, ''TChkN'',
                    ''Got identifier '' @ quoted nm @ '' containing probably unwanted character ''
                      @ quoted [c] @ ''.''))
            (filter (\<lambda>c. strchr nm c) unwanted))"

text \<open>An endpoint: object id, local name (empty when there is none), whether the name is adapted and
  whether the signal is inverted, and the messages logged.\<close>

record tcl_endpoint =
  ep_id :: string
  ep_net :: string
  ep_adapt :: bool
  ep_inv :: bool

definition ig_tclc_connection_parse :: "string \<Rightarrow> tcl_endpoint \<times> log_msg list" where
  "ig_tclc_connection_parse input =
     (let inv = (length input \<ge> 2 \<and> hd input = CHR ''~'');
          input = (if inv then tl input else input)
      in case strstr input '':'' of
           None \<Rightarrow> (\<lparr>ep_id = input, ep_net = '''', ep_adapt = True, ep_inv = inv\<rparr>, [])
         | Some split_net \<Rightarrow>
             let ident = take split_net input; net = drop (split_net + 1) input
             in if net = '''' then (\<lparr>ep_id = ident, ep_net = net, ep_adapt = True, ep_inv = inv\<rparr>, [])
                else
                  let adapt = (last net = CHR ''!'');
                      net = (if adapt then butlast net else net)
                  in (\<lparr>ep_id = ident, ep_net = net, ep_adapt = adapt, ep_inv = inv\<rparr>,
                      ig_tclc_check_name_and_warn (Some ident) @ ig_tclc_check_name_and_warn (Some net)))"

text \<open>The two lookups of a module, by id and then by name, with the checked cast.\<close>

definition lookup_module :: "ig_lib_db \<Rightarrow> string \<Rightarrow> ptr res" where
  "lookup_module db key =
     res_bind (ig_cast IG_OBJ_MODULE db (tables db Modules_by_id key)) (\<lambda>modul.
     if modul \<noteq> None then Inr modul
     else ig_cast IG_OBJ_MODULE db (tables db Modules_by_name key))"

section \<open>Creating objects\<close>

definition ig_tclc_create_module ::
    "tcl_interp \<Rightarrow> string option \<Rightarrow> bool \<Rightarrow> bool \<Rightarrow> ig_lib_db \<Rightarrow> tcl_out res" where
  "ig_tclc_create_module ti name ilm resource db =
     (case name of None \<Rightarrow> tcl_fail ti ''No module name specified'' [] db
      | Some nm \<Rightarrow>
          let logs = ig_tclc_check_name_and_warn name in
          res_bind (ig_lib_add_module name ilm resource db) (\<lambda>(module, db).
          if module = None then tcl_fail ti (''Unable to create module '' @ quoted nm) logs db
          else tcl_id_result module logs db))"

text \<open>
  The two checks after the lookups test the argument strings, which are not \<open>NULL\<close> any more, and
  not the modules found.
\<close>

definition ig_tclc_create_instance ::
    "tcl_interp \<Rightarrow> string option \<Rightarrow> string option \<Rightarrow> string option \<Rightarrow> ig_lib_db \<Rightarrow> tcl_out res" where
  "ig_tclc_create_instance ti name of_module parent_module db =
     (case name of None \<Rightarrow> tcl_fail ti ''No name specified for instance'' [] db
      | Some nm \<Rightarrow>
     (let logs = ig_tclc_check_name_and_warn name in
      case of_module of None \<Rightarrow> tcl_fail ti (''No module specified for instance '' @ quoted nm) logs db
      | Some om \<Rightarrow>
     (case parent_module of None \<Rightarrow> tcl_fail ti ('' No parent module specified for instance '' @ quoted nm) logs db
      | Some pm \<Rightarrow>
          res_bind (lookup_module db om) (\<lambda>of_mod.
          res_bind (lookup_module db pm) (\<lambda>pa_mod.
          res_bind (ig_lib_add_instance name of_mod pa_mod db) (\<lambda>(inst, db).
          if inst = None then tcl_fail ti (''Unable to create instance '' @ quoted nm) logs db
          else tcl_id_result inst logs db))))))"

definition ig_tclc_add_codesection ::
    "tcl_interp \<Rightarrow> string option \<Rightarrow> string option \<Rightarrow> string option \<Rightarrow> ig_lib_db \<Rightarrow> tcl_out res" where
  "ig_tclc_add_codesection ti name code parent_module db =
     (if code = None then tcl_fail ti ''No code specified for codesection'' [] db else
      case parent_module of None \<Rightarrow> tcl_fail ti ''No parent module specified for codesection'' [] db
      | Some pm \<Rightarrow>
          res_bind (lookup_module db pm) (\<lambda>pa_mod.
          if pa_mod = None
          then tcl_fail ti (''Unable to find parent module '' @ quoted pm @ '' in database'') [] db
          else
            res_bind (ig_lib_add_codesection name code pa_mod db) (\<lambda>(cs, db).
            if cs = None
            then res_bind (heap_get db pa_mod) (\<lambda>s.
                 tcl_fail ti (''Unable to create codesection for module '' @ quoted (obj_name s)) [] db)
            else tcl_id_result cs [] db)))"

text \<open>The condition under which the \<open>-to\<close> object is refused; the cast is checked as everywhere.\<close>

definition invalid_to ::
    "ig_lib_db \<Rightarrow> ptr \<Rightarrow> string option \<Rightarrow> string option \<Rightarrow> string option \<Rightarrow> bool res" where
  "invalid_to db to_obj regfile_name entry_name reg_name =
     (if to_obj = None then Inr True else
      res_bind (heap_get db to_obj) (\<lambda>s.
      res_bind
        (if regfile_name \<noteq> None then
           if obj_type s \<noteq> IG_OBJ_MODULE then Inr True
           else res_bind (fetch as_module db to_obj) (\<lambda>m. Inr (mod_resource m))
         else Inr False) (\<lambda>bad_module.
      Inr (bad_module
           \<or> (entry_name \<noteq> None \<and> obj_type s \<noteq> IG_OBJ_REGFILE)
           \<or> (reg_name \<noteq> None \<and> obj_type s \<noteq> IG_OBJ_REGFILE_ENTRY)))))"

definition ig_tclc_add_regfile ::
    "tcl_interp \<Rightarrow> string option \<Rightarrow> string option \<Rightarrow> string option \<Rightarrow> string option
       \<Rightarrow> ig_lib_db \<Rightarrow> tcl_out res" where
  "ig_tclc_add_regfile ti regfile_name entry_name reg_name to_id db =
     (case to_id of None \<Rightarrow> tcl_fail ti ''Error: no -to object specified'' [] db
      | Some to_name \<Rightarrow>
      if (if regfile_name \<noteq> None then 1 else 0) + (if entry_name \<noteq> None then 1 else 0)
           + (if reg_name \<noteq> None then 1 else 0) \<noteq> (1 :: nat)
      then tcl_fail ti ''Need exactly one flag of {-regfile -entry -reg}'' [] db
      else
        let logs = ig_tclc_check_name_and_warn regfile_name @ ig_tclc_check_name_and_warn entry_name
                     @ ig_tclc_check_name_and_warn reg_name;
            to_obj = tables db Objects_by_id to_name
        in
        res_bind (invalid_to db to_obj regfile_name entry_name reg_name) (\<lambda>invalid.
        if invalid then tcl_fail ti (''Error: invalid -to object ('' @ to_name @ '') specified'') logs db
        else if regfile_name \<noteq> None then
          res_bind (ig_lib_add_regfile regfile_name to_obj db) (\<lambda>(regfile, db).
          if regfile = None then tcl_fail ti (''Unable to create regfile '' @ quoted (show_str regfile_name)) logs db
          else tcl_id_result regfile logs db)
        else if entry_name \<noteq> None then
          res_bind (ig_lib_add_regfile_entry entry_name to_obj db) (\<lambda>(entry, db).
          if entry = None
          then tcl_fail ti (''Unable to create entry '' @ quoted (show_str entry_name) @ '' in regfile ''
                                @ quoted (show_str regfile_name)) logs db
          else tcl_id_result entry logs db)
        else
          res_bind (ig_lib_add_regfile_reg reg_name to_obj db) (\<lambda>(reg, db).
          if reg = None
          then tcl_fail ti (''Unable to create register '' @ quoted (show_str reg_name) @ '' in regfile ''
                                @ quoted (show_str regfile_name)) logs db
          else tcl_id_result reg logs db)))"

text \<open>
  The results of the first two checks are overwritten: a missing name is hashed, and the lookup
  dereferences it.
\<close>

definition ig_tclc_create_pin ::
    "tcl_interp \<Rightarrow> string option \<Rightarrow> string option \<Rightarrow> string option \<Rightarrow> string option \<Rightarrow> ig_port_dir
       \<Rightarrow> ig_lib_db \<Rightarrow> tcl_out res" where
  "ig_tclc_create_pin ti instname pinname value sig_size dir db =
     (let sz = (case sig_size of None \<Rightarrow> ''1'' | Some s \<Rightarrow> s) in
      case instname of None \<Rightarrow> Inl NullDeref
      | Some iname \<Rightarrow>
          (case tables db Instances_by_name iname of
             None \<Rightarrow> tcl_fail ti (''Could not find instance '' @ quoted iname @ [CHR 0x0A]) [] db
           | Some i \<Rightarrow>
               res_bind (ig_cast IG_OBJ_INSTANCE db (Some i)) (\<lambda>inst.
               res_bind (ig_lib_add_pin inst pinname value (Some ''false'') db) (\<lambda>(pin, db).
               if pin = None
               then tcl_fail ti (''Unable to add pin '' @ quoted (show_str None) @ '' for instance ''
                                     @ quoted iname @ '').'') [] db
               else
                 res_bind (fetch as_instance db inst) (\<lambda>ib.
                 res_bind (fetch as_module db (inst_module ib)) (\<lambda>m.
                 res_bind (if mod_resource m then Inr (None, db)
                           else ig_lib_add_port (inst_module ib) dir pinname db) (\<lambda>(port, db).
                 if \<not> mod_resource m \<and> port = None
                 then tcl_fail ti (''Unable to add port '' @ quoted (ti_bytes ti (the pin))
                                   @ '' for module of instance '' @ quoted iname @ '').'') [] db
                 else
                   res_bind (heap_get db pin) (\<lambda>ps.
                   res_bind (ig_obj_attr_set pin (Some ''size'') (Some sz) False db) (\<lambda>(_, db).
                   if port = None then Inr (Tcl_ok (Tcl_list [Tcl_string (obj_id ps)]), [], db)
                   else
                     res_bind (heap_get db port) (\<lambda>qs.
                     res_bind (ig_obj_attr_set port (Some ''size'') (Some sz) False db) (\<lambda>(_, db).
                     Inr (Tcl_ok (Tcl_list [Tcl_string (obj_id ps), Tcl_string (obj_id qs)]), [], db))))))))))))"

section \<open>Attributes\<close>

text \<open>
  When the attribute list cannot be set, the message is formatted with the list itself, which has
  just been freed.
\<close>

definition ig_tclc_set_attribute ::
    "tcl_interp \<Rightarrow> string option \<Rightarrow> string option \<Rightarrow> string option \<Rightarrow> string list
       \<Rightarrow> ig_lib_db \<Rightarrow> tcl_out res" where
  "ig_tclc_set_attribute ti object_name attr_name attr_val attr_list db =
     (case object_name of None \<Rightarrow> tcl_fail ti ''No object specified'' [] db
      | Some on \<Rightarrow>
      if attr_list = [] \<and> attr_name = None then tcl_fail ti ''No attribute specified'' [] db
      else if attr_list \<noteq> [] \<and> attr_name \<noteq> None
      then tcl_fail ti ''Invalid to specify single attribute and attribute list'' [] db
      else if attr_name \<noteq> None \<and> attr_val = None
      then tcl_fail ti ''Single attribute without value'' [] db
      else
        let obj = tables db Objects_by_id on in
        if obj = None then tcl_fail ti (''Unknown object '' @ quoted on) [] db
        else if attr_name \<noteq> None then
          res_bind (ig_obj_attr_set obj attr_name attr_val False db) (\<lambda>(ok, db).
          if \<not> ok
          then tcl_fail ti (''Unable to set attribute '' @ quoted (show_str attr_name) @ ''(=''
                            @ quoted (show_str attr_val) @ '') for object '' @ quoted on) [] db
          else Inr (Tcl_ok (Tcl_string (show_str attr_val)), [], db))
        else
          res_bind (ig_obj_attr_set_from_gslist obj attr_list db) (\<lambda>(ok, db).
          if \<not> ok then Inl UseAfterFree else Inr (Tcl_ok (Tcl_string ''''), [], db)))"

text \<open>\<open>keys\<close> is the order in which the attribute table lists its keys.\<close>

fun check_attributes :: "ig_lib_db \<Rightarrow> ptr \<Rightarrow> string list \<Rightarrow> string option res" where
  "check_attributes db obj [] = Inr None"
| "check_attributes db obj (attr # li) =
     res_bind (ig_obj_attr_get obj (Some attr) db) (\<lambda>val.
     if val = None then Inr (Some attr) else check_attributes db obj li)"

fun attribute_values ::
    "ig_lib_db \<Rightarrow> ptr \<Rightarrow> bool \<Rightarrow> bool \<Rightarrow> string list \<Rightarrow> tcl_value list \<Rightarrow> tcl_value list res" where
  "attribute_values db obj check_exists print_attr_name [] retval = Inr retval"
| "attribute_values db obj check_exists print_attr_name (attr # li) retval =
     res_bind (ig_obj_attr_get obj (Some attr) db) (\<lambda>val.
     let val_obj = (if check_exists then Tcl_boolean (val \<noteq> None)
                    else Tcl_string (case val of None \<Rightarrow> '''' | Some v \<Rightarrow> v));
         retval = (if print_attr_name then retval @ [Tcl_string attr] else retval)
     in attribute_values db obj check_exists print_attr_name li (retval @ [val_obj]))"

definition ig_tclc_get_attribute ::
    "tcl_interp \<Rightarrow> ((string \<rightharpoonup> ig_attribute) \<Rightarrow> string list) \<Rightarrow> string option \<Rightarrow> string option
       \<Rightarrow> string option \<Rightarrow> string list \<Rightarrow> bool \<Rightarrow> ig_lib_db \<Rightarrow> tcl_out res" where
  "ig_tclc_get_attribute ti keys object_name attr_name defaultval attr_list check_exists db =
     (case object_name of None \<Rightarrow> tcl_fail ti ''No object specified'' [] db
      | Some on \<Rightarrow>
      if attr_list \<noteq> [] \<and> attr_name \<noteq> None
      then tcl_fail ti ''Specifying single attribute and attribute list is not supported'' [] db
      else
        let obj = tables db Objects_by_id on in
        if obj = None then tcl_fail ti (''Unknown object '' @ quoted on) [] db
        else
          let print_attr_name = (attr_list = [] \<and> attr_name = None) in
          res_bind (if print_attr_name then ig_obj_attr_get_keys keys obj db else Inr attr_list) (\<lambda>attr_list.
          case attr_name of
            Some an \<Rightarrow>
              res_bind (ig_obj_attr_get obj attr_name db) (\<lambda>val.
              if check_exists then Inr (Tcl_ok (Tcl_boolean (val \<noteq> None)), [], db)
              else
                case (val, defaultval) of
                  (Some v, _) \<Rightarrow> Inr (Tcl_ok (Tcl_string v), [], db)
                | (None, Some v) \<Rightarrow> Inr (Tcl_ok (Tcl_string v), [], db)
                | (None, None) \<Rightarrow>
                    tcl_fail ti (''Could not get attribute '' @ quoted an @ '' of object '' @ quoted on) [] db)
          | None \<Rightarrow>
              res_bind (if check_exists then Inr None else check_attributes db obj attr_list) (\<lambda>missing.
              case missing of
                Some attr \<Rightarrow>
                  tcl_fail ti (''Could not get attribute '' @ quoted attr @ '' of object '' @ quoted on) [] db
              | None \<Rightarrow>
                  res_bind (attribute_values db obj check_exists print_attr_name attr_list []) (\<lambda>retval.
                  Inr (Tcl_ok (Tcl_list retval), [], db)))))"

section \<open>Signals and parameters\<close>

text \<open>An endpoint as a connection info; the name is only forced when there is one.\<close>

definition endpoint_info :: "ptr \<Rightarrow> tcl_endpoint \<Rightarrow> ig_lib_connection_dir \<Rightarrow> ig_lib_connection_info option" where
  "endpoint_info obj ep dir =
     (if ep_net ep \<noteq> ''''
      then map_option (\<lambda>c. c\<lparr>ci_force_name := \<not> ep_adapt ep\<rparr>)
             (ig_lib_connection_info_new obj (Some (ep_net ep)) dir)
      else ig_lib_connection_info_new obj None dir)"

text \<open>
  The loop over the endpoints: \<open>Inl\<close> is the id of the first endpoint whose object is not found. For
  a parameter the inversion of an endpoint is not asked for.
\<close>

fun endpoint_infos ::
    "ig_lib_db \<Rightarrow> bool \<Rightarrow> ig_lib_connection_dir \<Rightarrow> string list \<Rightarrow> ig_lib_connection_info list
       \<Rightarrow> log_msg list \<Rightarrow> (string + ig_lib_connection_info list) \<times> log_msg list" where
  "endpoint_infos db with_inv dir [] trg_list logs = (Inr (rev trg_list), logs)"
| "endpoint_infos db with_inv dir (ept # li) trg_list logs =
     (let (ep, msgs) = ig_tclc_connection_parse ept; logs = logs @ msgs in
      case endpoint_info (tables db Objects_by_id (ep_id ep)) ep dir of
        None \<Rightarrow> (Inl (ep_id ep), logs)
      | Some c \<Rightarrow>
          endpoint_infos db with_inv dir li
            ((if with_inv then c\<lparr>ci_invert := ep_inv ep\<rparr> else c) # trg_list) logs)"

text \<open>The checks of the options; each failing check replaces the message of the one before.\<close>

definition connect_option_error :: "string option \<Rightarrow> string option \<Rightarrow> string list \<Rightarrow> string list \<Rightarrow> string option" where
  "connect_option_error from name to_list bd_list =
     (let err = (if name = None then Some ''Signal name is required'' else None);
          err = (if from = None \<and> bd_list = []
                 then Some (''Signal '' @ quoted (show_str name) @ '': -from is required for unidirectional signals'')
                 else err)
      in if bd_list \<noteq> [] \<and> (from \<noteq> None \<or> to_list \<noteq> [])
         then Some (''Signal '' @ quoted (show_str name)
                    @ '': combining bidirectional and unidirectional is invalid.'')
         else err)"

definition not_found_log :: "string \<Rightarrow> string \<Rightarrow> log_msg" where
  "not_found_log name ident =
     (LOGLEVEL_ERROR, ''TCCon'', ''Signal '' @ quoted name @ '': could not find object for id '' @ quoted ident)"

text \<open>The size is set on the net and on each of its objects.\<close>

definition set_sizes :: "addr \<Rightarrow> string \<Rightarrow> ig_lib_db \<Rightarrow> ig_lib_db res" where
  "set_sizes net sz db =
     res_bind (ig_obj_attr_set (Some net) (Some ''size'') (Some sz) False db) (\<lambda>(_, db).
     res_bind (fetch as_net db (Some net)) (\<lambda>n.
     res_fold (\<lambda>obj db. res_bind (ig_obj_attr_set (Some obj) (Some ''size'') (Some sz) False db)
                          (\<lambda>(_, db). Inr db)) (net_objects n) db))"

text \<open>A connection that fails frees the net it has got back, if any.\<close>

definition ig_tclc_connect ::
    "tcl_interp \<Rightarrow> string option \<Rightarrow> string option \<Rightarrow> string option \<Rightarrow> string list \<Rightarrow> string list
       \<Rightarrow> ig_lib_db \<Rightarrow> tcl_out res" where
  "ig_tclc_connect ti name sig_size from to_list bd_list db =
     (case connect_option_error from name to_list bd_list of
        Some err \<Rightarrow> tcl_fail ti err [] db
      | None \<Rightarrow>
      let nm = the name; sz = (case sig_size of None \<Rightarrow> ''1'' | Some s \<Rightarrow> s);
          (source, logs) = (case from of None \<Rightarrow> (Inr [], [])
                            | Some f \<Rightarrow> endpoint_infos db True IG_LCDIR_UP [f] [] [])
      in case source of
           Inl ident \<Rightarrow> tcl_fail ti ''Error: could not find object'' (logs @ [not_found_log nm ident]) db
         | Inr src \<Rightarrow>
             let (targets, logs) =
               (if to_list \<noteq> [] then endpoint_infos db True IG_LCDIR_DEFAULT to_list [] logs
                else endpoint_infos db True IG_LCDIR_BIDIR bd_list [] logs)
             in case targets of
                  Inl ident \<Rightarrow> tcl_fail ti ''Error: could not find object'' (logs @ [not_found_log nm ident]) db
                | Inr trg_list \<Rightarrow>
                    res_bind (ig_lib_connection nm (case src of [] \<Rightarrow> None | c # _ \<Rightarrow> Some c) trg_list db)
                      (\<lambda>(ok, gen_net, db).
                    if \<not> ok then
                      res_bind (ig_net_free ig_obj_unref gen_net db) (\<lambda>db.
                      tcl_fail ti (''Signal '' @ quoted nm @ '', error while trying to create connection'') logs db)
                    else
                      res_bind (set_sizes (the gen_net) sz db) (\<lambda>db. tcl_id_result gen_net logs db)))"

definition parameter_option_error :: "string option \<Rightarrow> string option \<Rightarrow> string list \<Rightarrow> string option" where
  "parameter_option_error name value ept_list =
     (let err = (if name = None then Some ''No parameter name specified'' else None);
          err = (if value = None
                 then Some (''Parameter '' @ quoted (show_str name) @ '': parameter needs a value'') else err)
      in if ept_list = []
         then Some (''Parameter '' @ quoted (show_str name) @ '': parameter needs a list of endpoints'') else err)"

definition ig_tclc_parameter ::
    "tcl_interp \<Rightarrow> string option \<Rightarrow> string option \<Rightarrow> string list \<Rightarrow> ig_lib_db \<Rightarrow> tcl_out res" where
  "ig_tclc_parameter ti name value ept_list db =
     (let logs = ig_tclc_check_name_and_warn name in
      case parameter_option_error name value ept_list of
        Some err \<Rightarrow> tcl_fail ti err logs db
      | None \<Rightarrow>
      let nm = the name;
          (targets, logs) = endpoint_infos db False IG_LCDIR_DEFAULT ept_list [] logs
      in case targets of
           Inl ident \<Rightarrow>
             tcl_fail ti (''Parameter '' @ quoted nm @ '': could not find object for id '' @ quoted ident) logs db
         | Inr trg_list \<Rightarrow>
             res_bind (ig_lib_parameter nm value trg_list db) (\<lambda>(ok, gen_generic, db).
             if \<not> ok then
               res_bind (ig_generic_free ig_obj_unref gen_generic db) (\<lambda>db.
               tcl_fail ti (''Parameter '' @ quoted nm @ '', error while trying to create parameter'') logs db)
             else tcl_id_result gen_generic logs db))"

section \<open>Reset\<close>

definition ig_tclc_reset ::
    "((string \<rightharpoonup> addr) \<Rightarrow> string list) \<Rightarrow> ig_lib_db \<Rightarrow> tcl_out res" where
  "ig_tclc_reset order db = res_bind (ig_lib_db_clear order db) (\<lambda>db. Inr (Tcl_ok (Tcl_string ''''), [], db))"

end
