(* ===== verification/Ig_Tcl_Query.thy ===== *)
theory Ig_Tcl_Query
  imports Ig_Tcl
begin

text \<open>
  The Tcl commands of \<open>src/lib/ig_tcl.c\<close> that only read the database: fourteen commands that list
  or find objects share one function and are told apart by the name they are called by, two list
  the members of a net or a generic. \<open>values\<close> is the order in which \<open>g_hash_table_get_values\<close> lists
  the values of a table. The internal error message carries the name and line of the source file,
  which here is \<open>ig_tcl.c\<close>.
\<close>

section \<open>Command names\<close>

text \<open>The loop that drops everything up to the last \<open>::\<close>.\<close>

function cmd_chomp :: "string \<Rightarrow> string" where
  "cmd_chomp cmdname =
     (case strstr cmdname ''::'' of None \<Rightarrow> cmdname | Some k \<Rightarrow> cmd_chomp (drop (k + 2) cmdname))"
  by pat_completeness auto
termination
  by (relation "measure length") (auto dest!: strstr_bound)

declare cmd_chomp.simps [simp del]

datatype ig_tclc_get_objs_of_obj_version =
    IG_TOOOV_INVALID | IG_TOOOV_PINS | IG_TOOOV_PORTS | IG_TOOOV_DECLS | IG_TOOOV_ADJ | IG_TOOOV_PARAMS
  | IG_TOOOV_CODE | IG_TOOOV_MODULES | IG_TOOOV_INSTANCES | IG_TOOOV_INSTANTIATION | IG_TOOOV_REGFILES
  | IG_TOOOV_RF_ENTRIES | IG_TOOOV_RF_REGS | IG_TOOOV_NETS | IG_TOOOV_GENERICS

definition ig_tclc_get_objs_of_obj_version_from_cmd :: "string \<Rightarrow> ig_tclc_get_objs_of_obj_version" where
  "ig_tclc_get_objs_of_obj_version_from_cmd cmdname =
     (let cmdname = cmd_chomp cmdname in
      if cmdname = ''get_ports'' then IG_TOOOV_PORTS
      else if cmdname = ''get_declarations'' then IG_TOOOV_DECLS
      else if cmdname = ''get_parameters'' then IG_TOOOV_PARAMS
      else if cmdname = ''get_codesections'' then IG_TOOOV_CODE
      else if cmdname = ''get_pins'' then IG_TOOOV_PINS
      else if cmdname = ''get_adjustments'' then IG_TOOOV_ADJ
      else if cmdname = ''get_modules'' then IG_TOOOV_MODULES
      else if cmdname = ''get_instances'' then IG_TOOOV_INSTANCES
      else if cmdname = ''get_instantiation'' then IG_TOOOV_INSTANTIATION
      else if cmdname = ''get_regfiles'' then IG_TOOOV_REGFILES
      else if cmdname = ''get_regfile_entries'' then IG_TOOOV_RF_ENTRIES
      else if cmdname = ''get_regfile_regs'' then IG_TOOOV_RF_REGS
      else if cmdname = ''get_nets'' then IG_TOOOV_NETS
      else if cmdname = ''get_generics'' then IG_TOOOV_GENERICS
      else IG_TOOOV_INVALID)"

section \<open>The children of an object\<close>

type_synonym child_source = "(string + ptr list) res"

text \<open>What a command without \<open>-of\<close> lists: a table, or the one entry of a name table.\<close>

definition table_children ::
    "((string \<rightharpoonup> addr) \<Rightarrow> addr list) \<Rightarrow> ig_table \<Rightarrow> ig_table \<Rightarrow> bool \<Rightarrow> string option \<Rightarrow> ig_lib_db
       \<Rightarrow> child_source" where
  "table_children values by_id by_name all child_name db =
     Inr (Inr (if all then map Some (values (tables db by_id))
               else case child_name of None \<Rightarrow> []
                    | Some cn \<Rightarrow> if table_contains db by_name cn then [tables db by_name cn] else []))"

definition queue_children :: "addr list option \<Rightarrow> child_source" where
  "queue_children q = (case q of None \<Rightarrow> Inl NullDeref | Some xs \<Rightarrow> Inr (Inr (map Some xs)))"

definition module_children :: "ig_tclc_get_objs_of_obj_version \<Rightarrow> string \<Rightarrow> ig_lib_db \<Rightarrow> child_source" where
  "module_children version parent_name db =
     res_bind (ig_cast IG_OBJ_MODULE db (tables db Modules_by_id parent_name)) (\<lambda>modul.
     if modul = None then Inr (Inl (''Unable to find '' @ quoted parent_name @ '' in database''))
     else
       res_bind (fetch as_module db modul) (\<lambda>m.
       if mod_resource m \<and> version \<in> {IG_TOOOV_DECLS, IG_TOOOV_CODE, IG_TOOOV_INSTANCES, IG_TOOOV_REGFILES}
       then Inr (Inl (''Command is not applicable to a resource ('' @ quoted parent_name @ '')''))
       else
         (case version of
            IG_TOOOV_DECLS \<Rightarrow> queue_children (mod_decls m)
          | IG_TOOOV_PORTS \<Rightarrow> queue_children (Some (mod_ports m))
          | IG_TOOOV_PARAMS \<Rightarrow> queue_children (Some (mod_params m))
          | IG_TOOOV_CODE \<Rightarrow> queue_children (mod_code m)
          | IG_TOOOV_INSTANCES \<Rightarrow> queue_children (mod_child_instances m)
          | IG_TOOOV_INSTANTIATION \<Rightarrow> queue_children (Some (mod_mod_instances m))
          | IG_TOOOV_REGFILES \<Rightarrow> queue_children (mod_regfiles m)
          | _ \<Rightarrow> Inr (Inr []))))"

definition instance_children :: "ig_tclc_get_objs_of_obj_version \<Rightarrow> string \<Rightarrow> ig_lib_db \<Rightarrow> child_source" where
  "instance_children version parent_name db =
     res_bind (ig_cast IG_OBJ_INSTANCE db (tables db Instances_by_id parent_name)) (\<lambda>inst.
     if inst = None then Inr (Inl (''Unable to find instance-id '' @ quoted parent_name))
     else
       res_bind (fetch as_instance db inst) (\<lambda>i.
       case version of
         IG_TOOOV_PINS \<Rightarrow> queue_children (Some (inst_pins i))
       | IG_TOOOV_ADJ \<Rightarrow> queue_children (Some (inst_adjustments i))
       | IG_TOOOV_MODULES \<Rightarrow> Inr (Inr [inst_module i])
       | _ \<Rightarrow> Inr (Inr [])))"

definition regfile_children :: "ig_tclc_get_objs_of_obj_version \<Rightarrow> string \<Rightarrow> ig_lib_db \<Rightarrow> child_source" where
  "regfile_children version parent_name db =
     (let obj = tables db Objects_by_id parent_name in
      if version = IG_TOOOV_RF_ENTRIES then
        (if obj = None then Inr (Inl (''Unable to get regfile '' @ quoted parent_name @ '' from database''))
         else
           res_bind (heap_get db obj) (\<lambda>s.
           if obj_type s \<noteq> IG_OBJ_REGFILE
           then Inr (Inl (''Unable to get regfile '' @ quoted parent_name @ '' from database''))
           else res_bind (fetch as_regfile db obj) (\<lambda>r. queue_children (Some (regfile_entries r)))))
      else
        (if obj = None then Inr (Inl (''Unable to get regfile-entry '' @ quoted parent_name @ '' from database''))
         else
           res_bind (heap_get db obj) (\<lambda>s.
           if obj_type s \<noteq> IG_OBJ_REGFILE_ENTRY
           then Inr (Inl (''Unable to get regfile-entry '' @ quoted parent_name @ '' from database''))
           else res_bind (fetch as_rf_entry db obj) (\<lambda>e. queue_children (Some (entry_regs e))))))"

definition opt_child :: "ptr \<Rightarrow> ptr list" where
  "opt_child p = (if p \<noteq> None then [p] else [])"

definition net_children :: "string \<Rightarrow> ig_lib_db \<Rightarrow> child_source" where
  "net_children parent_name db =
     (let obj = tables db Objects_by_id parent_name in
      if obj = None
      then Inr (Inl (''Unable to get object '' @ quoted parent_name @ '' from database for net lookup''))
      else
        res_bind (heap_get db obj) (\<lambda>s.
        case obj_body s of
          Port x \<Rightarrow> Inr (Inr (opt_child (port_net x)))
        | Pin x \<Rightarrow> Inr (Inr (opt_child (pin_net x)))
        | Decl x \<Rightarrow> Inr (Inr (opt_child (decl_net x)))
        | _ \<Rightarrow> Inr (Inl (''Object '' @ quoted parent_name @ '' does not have a net''))))"

definition generic_children :: "string \<Rightarrow> ig_lib_db \<Rightarrow> child_source" where
  "generic_children parent_name db =
     (let obj = tables db Objects_by_id parent_name in
      if obj = None
      then Inr (Inl (''Unable to get object '' @ quoted parent_name @ '' from database for generic lookup''))
      else
        res_bind (heap_get db obj) (\<lambda>s.
        case obj_body s of
          Param x \<Rightarrow> Inr (Inr (opt_child (param_generic x)))
        | Adjustment x \<Rightarrow> Inr (Inr (opt_child (adj_generic x)))
        | _ \<Rightarrow> Inr (Inl (''Object '' @ quoted parent_name @ '' does not belong to a generic''))))"

text \<open>The chain of cases that finds the list of children.\<close>

definition child_list ::
    "((string \<rightharpoonup> addr) \<Rightarrow> addr list) \<Rightarrow> ig_tclc_get_objs_of_obj_version \<Rightarrow> bool \<Rightarrow> string option
       \<Rightarrow> string option \<Rightarrow> ig_lib_db \<Rightarrow> child_source" where
  "child_list values version all child_name parent_name db =
     (case parent_name of
        None \<Rightarrow>
          (case version of
             IG_TOOOV_INSTANCES \<Rightarrow> table_children values Instances_by_id Instances_by_name all child_name db
           | IG_TOOOV_INSTANTIATION \<Rightarrow> table_children values Instances_by_id Instances_by_name all child_name db
           | IG_TOOOV_MODULES \<Rightarrow> table_children values Modules_by_id Modules_by_name all child_name db
           | IG_TOOOV_REGFILES \<Rightarrow> table_children values Regfiles_by_id Regfiles_by_name all child_name db
           | IG_TOOOV_NETS \<Rightarrow> table_children values Nets_by_id Nets_by_name all child_name db
           | IG_TOOOV_GENERICS \<Rightarrow> table_children values Generics_by_id Generics_by_name all child_name db
           | _ \<Rightarrow> Inl NullDeref)
      | Some pn \<Rightarrow>
          (if version \<in> {IG_TOOOV_DECLS, IG_TOOOV_PORTS, IG_TOOOV_PARAMS, IG_TOOOV_CODE, IG_TOOOV_INSTANCES,
                         IG_TOOOV_INSTANTIATION, IG_TOOOV_REGFILES}
           then module_children version pn db
           else if version \<in> {IG_TOOOV_PINS, IG_TOOOV_ADJ, IG_TOOOV_MODULES}
           then instance_children version pn db
           else if version \<in> {IG_TOOOV_RF_ENTRIES, IG_TOOOV_RF_REGS} then regfile_children version pn db
           else if version = IG_TOOOV_NETS then net_children pn db
           else if version = IG_TOOOV_GENERICS then generic_children pn db
           else Inr (Inr [])))"

section \<open>The commands\<close>

text \<open>The checks of the options.\<close>

definition missing_parent :: "ig_tclc_get_objs_of_obj_version \<Rightarrow> string option" where
  "missing_parent version =
     (if version \<in> {IG_TOOOV_DECLS, IG_TOOOV_PORTS, IG_TOOOV_PARAMS, IG_TOOOV_CODE}
      then Some ''Flag -of <module> needs to be specified''
      else if version \<in> {IG_TOOOV_PINS, IG_TOOOV_ADJ} then Some ''Flag -of <instance> needs to be specified''
      else if version = IG_TOOOV_RF_ENTRIES then Some ''Flag -of <regfile> needs to be specified''
      else if version = IG_TOOOV_RF_REGS then Some ''Flag -of <regfile-entry> needs to be specified''
      else None)"

definition get_objs_option_error ::
    "ig_tclc_get_objs_of_obj_version \<Rightarrow> bool \<Rightarrow> string option \<Rightarrow> string option \<Rightarrow> string option" where
  "get_objs_option_error version all child_name parent_name =
     (if parent_name = None \<and> missing_parent version \<noteq> None then missing_parent version
      else if version = IG_TOOOV_CODE \<and> child_name \<noteq> None
      then Some ''Invalid to specify name for code sections''
      else if version \<in> {IG_TOOOV_NETS, IG_TOOOV_GENERICS} \<and> child_name \<noteq> None \<and> parent_name \<noteq> None
      then Some ''Invalid to specify -name and -of''
      else if all \<and> child_name \<noteq> None then Some ''Invalid to specify name and -all''
      else None)"

text \<open>The loops over the children: all ids, or the id of the first one with the name.\<close>

fun child_ids :: "ig_lib_db \<Rightarrow> ptr list \<Rightarrow> tcl_value list \<Rightarrow> tcl_value list res" where
  "child_ids db [] retval = Inr retval"
| "child_ids db (i_obj # li) retval =
     res_bind (heap_get db i_obj) (\<lambda>s. child_ids db li (retval @ [Tcl_string (obj_id s)]))"

fun child_find :: "ig_lib_db \<Rightarrow> string \<Rightarrow> ptr list \<Rightarrow> string option res" where
  "child_find db child_name [] = Inr None"
| "child_find db child_name (i_obj # li) =
     res_bind (heap_get db i_obj) (\<lambda>s.
     if obj_name s = child_name then Inr (Some (obj_id s)) else child_find db child_name li)"

definition ig_tclc_get_objs_of_obj ::
    "tcl_interp \<Rightarrow> ((string \<rightharpoonup> addr) \<Rightarrow> addr list) \<Rightarrow> string \<Rightarrow> bool \<Rightarrow> string option \<Rightarrow> string option
       \<Rightarrow> ig_lib_db \<Rightarrow> tcl_out res" where
  "ig_tclc_get_objs_of_obj ti values cmdname all child_name parent_name db =
     (let version = ig_tclc_get_objs_of_obj_version_from_cmd cmdname in
      if version = IG_TOOOV_INVALID
      then tcl_fail ti ''Internal Error - Invalid command version generated (ig_tcl.c:695)'' [] db
      else
      case get_objs_option_error version all child_name parent_name of
        Some err \<Rightarrow> tcl_fail ti err [] db
      | None \<Rightarrow>
          res_bind (child_list values version (all \<or> child_name = None) child_name parent_name db) (\<lambda>children.
          case children of
            Inl err \<Rightarrow> tcl_fail ti err [] db
          | Inr li \<Rightarrow>
              (case child_name of
                 None \<Rightarrow> res_bind (child_ids db li []) (\<lambda>retval. Inr (Tcl_ok (Tcl_list retval), [], db))
               | Some cn \<Rightarrow>
                   res_bind (child_find db cn li) (\<lambda>found.
                   case found of
                     Some ident \<Rightarrow> Inr (Tcl_ok (Tcl_string ident), [], db)
                   | None \<Rightarrow> tcl_fail ti (''Nothing found for '' @ quoted cn) [] db))))"

section \<open>Nets and generics\<close>

datatype ig_tclc_get_netgen_objects_version = IG_TNGOV_INVALID | IG_TNGOV_NET | IG_TNGOV_GENERIC

definition ig_tclc_get_netgen_objects_version_from_cmd :: "string \<Rightarrow> ig_tclc_get_netgen_objects_version" where
  "ig_tclc_get_netgen_objects_version_from_cmd cmdname =
     (let cmdname = cmd_chomp cmdname in
      if cmdname = ''get_net_objects'' then IG_TNGOV_NET
      else if cmdname = ''get_generic_objects'' then IG_TNGOV_GENERIC
      else IG_TNGOV_INVALID)"

definition ig_tclc_get_netgen_objects ::
    "tcl_interp \<Rightarrow> string \<Rightarrow> string option \<Rightarrow> ig_lib_db \<Rightarrow> tcl_out res" where
  "ig_tclc_get_netgen_objects ti cmdname parent_name db =
     (let version = ig_tclc_get_netgen_objects_version_from_cmd cmdname in
      if version = IG_TNGOV_INVALID
      then tcl_fail ti ''Internal Error - Invalid command version generated (ig_tcl.c:983)'' [] db
      else
      case parent_name of None \<Rightarrow> tcl_fail ti ''Flag -of <parent> needs to be specified'' [] db
      | Some pn \<Rightarrow>
          let obj = tables db (if version = IG_TNGOV_NET then Nets_by_id else Generics_by_id) pn in
          if obj = None then tcl_fail ti (''Unable to get object '' @ quoted pn @ '' from database'') [] db
          else
            res_bind (if version = IG_TNGOV_NET
                      then res_bind (ig_cast IG_OBJ_NET db obj) (\<lambda>obj.
                           res_bind (fetch as_net db obj) (\<lambda>n. Inr (net_objects n)))
                      else res_bind (ig_cast IG_OBJ_GENERIC db obj) (\<lambda>obj.
                           res_bind (fetch as_generic db obj) (\<lambda>g. Inr (generic_objects g)))) (\<lambda>children.
            res_bind (child_ids db (map Some children) []) (\<lambda>retval. Inr (Tcl_ok (Tcl_list retval), [], db))))"

end
