(* ===== verification/Ig_Tcl_Log.thy ===== *)
theory Ig_Tcl_Log
  imports Ig_Tcl_Query
begin

text \<open>
  The Tcl commands of \<open>src/lib/ig_tcl.c\<close> around the logger, the table of all commands, and the
  entry of the package, \<open>src/lib/icglue.c\<close>. What the interpreter answers to \<open>info frame -1\<close> is an
  argument, as is the order in which the table of identifiers is listed.
\<close>

section \<open>Levels by label\<close>

definition all_levels :: "log_level list" where
  "all_levels = [LOGLEVEL_DEBUG, LOGLEVEL_INFO, LOGLEVEL_WARNING, LOGLEVEL_ERROR, LOGLEVEL_ERRORINT]"

text \<open>The search loop over \<open>loglevel_label\<close>.\<close>

definition find_level :: "string \<Rightarrow> log_level option" where
  "find_level loglevel = map_option fst (List.find (\<lambda>(l, lab). loglevel = lab) (zip all_levels loglevel_label))"

definition level_error :: "tcl_interp \<Rightarrow> string \<Rightarrow> tcl_result" where
  "level_error ti loglevel =
     tcl_error_msg ti (''Loglevel '' @ loglevel @
       '' does not exist - try `-help` for a list of available loglevels'')"

section \<open>Settings\<close>

text \<open>\<open>linenumber\<close> and \<open>color\<close> are 0 when no flag was given, 1 to switch on and -1 to switch off.\<close>

definition level_list_msg :: string where
  "level_list_msg =
     foldl (\<lambda>msg lab. msg @ [CHR 0x09] @ ''- '' @ lab @ [CHR 0x0A])
       (''The following loglevels are available:'' @ [CHR 0x0A]) loglevel_label"

definition ig_tclc_logger ::
    "tcl_interp \<Rightarrow> ((string \<rightharpoonup> log_level) \<Rightarrow> string list) \<Rightarrow> string option \<Rightarrow> string option \<Rightarrow> bool
       \<Rightarrow> int \<Rightarrow> int \<Rightarrow> logger \<Rightarrow> (tcl_result \<times> string list \<times> logger) res" where
  "ig_tclc_logger ti order loglevel log_id list_levels linenumber color lg =
     (if list_levels then Inr (Tcl_ok (Tcl_string level_list_msg), [], lg)
      else
        let lg = (if linenumber \<noteq> 0 then set_loglinenumbers (linenumber > 0) lg else lg);
            lg = (if color > 0 then lg\<lparr>lg_colors := colors_on (lg_colors lg)\<rparr>
                  else if color < 0 then lg\<lparr>lg_colors := colors_off (lg_colors lg)\<rparr> else lg)
        in case loglevel of
             None \<Rightarrow>
               if log_id = None \<and> linenumber = 0 \<and> color = 0
               then res_bind (log_dump_settings order lg) (\<lambda>out. Inr (Tcl_ok (Tcl_string ''''), out, lg))
               else Inr (Tcl_ok (Tcl_string ''''), [], lg)
           | Some ll \<Rightarrow>
               (case find_level ll of
                  None \<Rightarrow> Inr (level_error ti ll, [], lg)
                | Some i \<Rightarrow>
                    (case log_id of
                       Some ident \<Rightarrow>
                         Inr (Tcl_ok (Tcl_string (''Set logID '' @ ident @ '' loglevel to '' @ ll)), [],
                              log_particular_level ident i lg)
                     | None \<Rightarrow>
                         Inr (Tcl_ok (Tcl_string (''Set default loglevel to '' @ ll)), [],
                              set_default_log_level i lg))))"

section \<open>Messages from Tcl\<close>

text \<open>
  The answer to \<open>info frame -1\<close>: the dictionary, if the command succeeds, with \<open>Tcl_GetIntFromObj\<close>
  of its values, and what is left as the result of the interpreter afterwards.
\<close>

record tcl_frame =
  tf_dict :: "(string \<rightharpoonup> string) option"
  tf_int :: "string \<Rightarrow> int option"
  tf_result :: string

text \<open>The two helpers return a status and store the value.\<close>

definition tcl_dict_get_str :: "(string \<rightharpoonup> string) \<Rightarrow> string \<Rightarrow> bool \<times> string option" where
  "tcl_dict_get_str tcl_dict key =
     (case tcl_dict key of None \<Rightarrow> (False, None) | Some v \<Rightarrow> (True, Some v))"

definition tcl_dict_get_int ::
    "(string \<Rightarrow> int option) \<Rightarrow> (string \<rightharpoonup> string) \<Rightarrow> string \<Rightarrow> int \<Rightarrow> int \<times> int" where
  "tcl_dict_get_int get_int tcl_dict key old =
     (case tcl_dict key of None \<Rightarrow> (0, old)
      | Some v \<Rightarrow> (case get_int v of None \<Rightarrow> (1, old) | Some i \<Rightarrow> (0, i)))"

text \<open>\<open>basename\<close> of the C library.\<close>

definition c_basename :: "string \<Rightarrow> string" where
  "c_basename path =
     (let p = rev (dropWhile (\<lambda>c. c = CHR ''/'') (rev path)) in
      if path = '''' then ''.''
      else if p = '''' then ''/''
      else rev (takeWhile (\<lambda>c. c \<noteq> CHR ''/'') (rev p)))"

definition frame_file :: "(string \<rightharpoonup> string) \<Rightarrow> string" where
  "frame_file dict =
     (case tcl_dict_get_str dict ''file'' of
        (True, Some file) \<Rightarrow> file
      | _ \<Rightarrow>
          (case tcl_dict_get_str dict ''cmd'' of
             (True, Some cmd) \<Rightarrow> ''TCL-CMD('' @ cmd @ '')''
           | _ \<Rightarrow>
               (case tcl_dict_get_str dict ''proc'' of
                  (True, Some p) \<Rightarrow> ''TCL-PROC('' @ p @ '')''
                | _ \<Rightarrow> ''TCL-Unknown'')))"

text \<open>One message: file and line are only looked up for messages that will be printed.\<close>

definition tcl_log_one ::
    "tcl_frame \<Rightarrow> log_level \<Rightarrow> string \<Rightarrow> string \<Rightarrow> logger \<times> string list \<times> string
       \<Rightarrow> (logger \<times> string list \<times> string) res" where
  "tcl_log_one fr loglevel log_id msg = (\<lambda>(lg, out, left).
     let (file, linenumber, left) =
       (if log_suppress lg loglevel log_id then (''TCL-Unknown'', 0, left)
        else case tf_dict fr of
               None \<Rightarrow> (''TCL-Unknown'', 0, tf_result fr)
             | Some dict \<Rightarrow>
                 (frame_file dict,
                  (if get_loglinenumbers lg then snd (tcl_dict_get_int (tf_int fr) dict ''line'' 0) else 0),
                  tf_result fr))
     in res_bind (log_basev loglevel log_id (c_basename file) linenumber msg lg) (\<lambda>(lg, text, ex).
        Inr (lg, (case text of None \<Rightarrow> out | Some x \<Rightarrow> out @ [x]), left)))"

text \<open>
  \<open>rem_objv\<close> are the arguments left over after the options, without the command name. What
  \<open>info frame\<close> has left in the interpreter becomes the result of the command.
\<close>

definition ig_tclc_log ::
    "tcl_frame \<Rightarrow> string \<Rightarrow> log_level \<Rightarrow> bool \<Rightarrow> string list \<Rightarrow> logger
       \<Rightarrow> (tcl_result \<times> string list \<times> logger) res" where
  "ig_tclc_log fr log_id loglevel abort rem_objv lg =
     res_bind (res_fold (tcl_log_one fr loglevel log_id) rem_objv (lg, [], '''')) (\<lambda>(lg, out, left).
     let msg = (if rem_objv = [] then '''' else last rem_objv) in
     Inr (if abort then Tcl_error msg else Tcl_ok (Tcl_string left), out, lg))"

section \<open>Statistics\<close>

definition level_count :: "bool \<Rightarrow> logger \<Rightarrow> log_level \<Rightarrow> int" where
  "level_count suppress lg i =
     sint (if suppress then get_log_count_suppressed lg i else get_log_count_print lg i)"

definition ig_tclc_log_stat :: "tcl_interp \<Rightarrow> string option \<Rightarrow> bool \<Rightarrow> logger \<Rightarrow> tcl_result" where
  "ig_tclc_log_stat ti loglevel suppress lg =
     (case loglevel of
        None \<Rightarrow>
          Tcl_ok (Tcl_list (concat (map (\<lambda>(i, lab). [Tcl_string lab, Tcl_int (level_count suppress lg i)])
                                      (zip all_levels loglevel_label))))
      | Some ll \<Rightarrow>
          (case find_level ll of None \<Rightarrow> level_error ti ll
           | Some i \<Rightarrow> Tcl_ok (Tcl_int (level_count suppress lg i))))"

section \<open>All commands\<close>

datatype tcl_handler =
    H_create_module | H_create_instance | H_add_codesection | H_add_regfile | H_set_attribute
  | H_get_attribute | H_get_objs_of_obj | H_get_netgen_objects | H_connect | H_parameter
  | H_create_pin | H_reset | H_logger | H_log | H_log_stat | H_print_logo

definition lib_namespace :: string where
  "lib_namespace = ''ig::db::''"

definition log_namespace :: string where
  "log_namespace = ''ig::''"

text \<open>The commands with the functions they are bound to, in the order of their creation.\<close>

definition ig_add_tcl_commands :: "(string \<times> tcl_handler) list" where
  "ig_add_tcl_commands =
     map (\<lambda>(n, f). (lib_namespace @ n, f))
       [(''create_module'', H_create_module), (''create_instance'', H_create_instance),
        (''add_codesection'', H_add_codesection), (''add_regfile'', H_add_regfile),
        (''set_attribute'', H_set_attribute), (''get_attribute'', H_get_attribute),
        (''get_modules'', H_get_objs_of_obj), (''get_instances'', H_get_objs_of_obj),
        (''get_instantiation'', H_get_objs_of_obj), (''get_ports'', H_get_objs_of_obj),
        (''get_parameters'', H_get_objs_of_obj), (''get_declarations'', H_get_objs_of_obj),
        (''get_codesections'', H_get_objs_of_obj), (''get_pins'', H_get_objs_of_obj),
        (''get_adjustments'', H_get_objs_of_obj), (''get_regfiles'', H_get_objs_of_obj),
        (''get_regfile_entries'', H_get_objs_of_obj), (''get_regfile_regs'', H_get_objs_of_obj),
        (''get_nets'', H_get_objs_of_obj), (''get_generics'', H_get_objs_of_obj),
        (''get_net_objects'', H_get_netgen_objects), (''get_generic_objects'', H_get_netgen_objects),
        (''connect'', H_connect), (''parameter'', H_parameter), (''create_pin'', H_create_pin),
        (''reset'', H_reset)]
     @ map (\<lambda>(n, f). (log_namespace @ n, f))
       [(''logger'', H_logger), (''log'', H_log), (''log_stat'', H_log_stat), (''print_logo'', H_print_logo)]"

section \<open>The logo\<close>

definition ig_logo_lines :: "string list" where
  "ig_logo_lines =
     [''                        ,'.'',
      ''                       /-. `.'',
      ''                     ,'   `. '' @ [CHR 0x5C],
      '',----,--.--,--.--,--/       '' @ [CHR 0x5C] @ ''.`.'',
      ''|    |  |  |  |  |,'        ,,'' @ [CHR 0x27],
      ''|    `__'  `__'  /      _.-'' @ [CHR 0x27],
      ''/----.----------/.  .,-'-|   ___ ____ ____ _'',
      [CHR 0x5C] @ ''____'|    |  ,',,`-_____|  |_ _/ ___/ ___| |_   _  ___'',
      ''|     |    | .-'   |     |   | | |  | |  _| | | | |/ _ '' @ [CHR 0x5C],
      ''/----.| ,XXXX.     |,----|   | | |__| |_| | | |_| |  __/'',
      [CHR 0x5C] @ ''____.|-XXXXXX-----|`____|  |___'' @ [CHR 0x5C] @ ''____'' @ [CHR 0x5C] @ ''____|_|'' @ [CHR 0x5C] @ ''__,_|'' @ [CHR 0x5C] @ ''___|'',
      ''|     | `XXXX'     |     |'',
      ''/----.|   `|'      |,----|  ICGlue v5.0a1'',
      [CHR 0x5C] @ ''____.`____|_______'`____|  a Tcl-Library for scripted HDL generation'',
      ''|    ,--.  ,--.  ,--.    |  Copyright (C) Andreas Dixius, Felix Neum'' @ [CHR 0xC3] @ [CHR 0xA4] @ ''rker'',
      ''|    |  |  |  |  |  |    |  Use and redistribute under the terms of the'',
      ''`----`--'--`--'--`--'----'  GNU General Public License version 3'']"

text \<open>What is written to the file: every line behind eleven blanks, and an empty line.\<close>

definition ig_print_logo :: "string list" where
  "ig_print_logo = map (\<lambda>l. replicate 11 (CHR '' '') @ l @ [CHR 0x0A]) ig_logo_lines @ [[CHR 0x0A]]"

definition ig_tclc_print_logo :: "tcl_result \<times> string list" where
  "ig_tclc_print_logo = (Tcl_ok (Tcl_string []), ig_print_logo)"

section \<open>Loading the package\<close>

text \<open>
  \<open>tty\<close> is the answer of \<open>isatty\<close>, \<open>silent\<close> the value of the Tcl variable,
  and \<open>sfile\<close> the name of the source file. The commands are registered on a new
  database.
\<close>

definition Icglue_Init ::
    "bool \<Rightarrow> string option \<Rightarrow> string \<Rightarrow> logger
       \<Rightarrow> (string list \<times> (string \<times> tcl_handler) list \<times> ig_lib_db \<times> logger) res" where
  "Icglue_Init tty silent sfile lg =
     (let lg = (if tty then lg\<lparr>lg_colors := colors_on (lg_colors lg)\<rparr> else lg);
          quiet = (silent \<in> {Some ''1'', Some ''true'', Some ''yes''})
      in res_bind
           (if quiet then Inr ([], lg)
            else res_bind (log_basev LOGLEVEL_INFO ''PLoad'' sfile 44 ''ICGlue v5.0a1 loaded'' lg)
                   (\<lambda>(lg, text, _). Inr (ig_print_logo @ (case text of None \<Rightarrow> [] | Some x \<Rightarrow> [x]), lg)))
           (\<lambda>(out, lg). Inr (out, ig_add_tcl_commands, ig_lib_db_new, lg)))"

definition Icglue_SafeInit :: "string \<Rightarrow> logger \<Rightarrow> (bool \<times> string list \<times> logger) res" where
  "Icglue_SafeInit sfile lg =
     res_bind (log_basev LOGLEVEL_ERROR ''PLoad'' sfile 59 ''safe interpreters not supported!'' lg)
       (\<lambda>(lg, text, _). Inr (False, (case text of None \<Rightarrow> [] | Some x \<Rightarrow> [x]), lg))"

end
