(* ===== verification/Ig_Tcl_Safe.thy ===== *)
theory Ig_Tcl_Safe
  imports Ig_Api Ig_Attr Ig_Tcl_Log
begin

text \<open>
  The Tcl commands as a state machine on the database. Every command keeps the invariant of the
  database, whatever strings it is given; the commands that do not return and the one way to leave a
  dangling entry in the tables are named.
\<close>

section \<open>Results that are live\<close>

text \<open>What an operation that may create an object guarantees to the command that calls it.\<close>

definition makes :: "ig_lib_db \<Rightarrow> ptr \<times> ig_lib_db \<Rightarrow> bool" where
  "makes db r \<longleftrightarrow> (case r of (p, db') \<Rightarrow> grows db db' \<and> (\<forall>a. p = Some a \<longrightarrow> heap db' a \<noteq> None))"

lemma makes_refl: "db_inv db \<Longrightarrow> makes db (None, db)"
  by (simp add: makes_def grows_refl)

lemma grows_inv: "grows db db' \<Longrightarrow> db_inv db'"
  by (simp add: grows_def)

lemma makesI: "grows db db' \<Longrightarrow> (\<And>a. p = Some a \<Longrightarrow> \<exists>t k. tables db' t k = Some a) \<Longrightarrow> makes db (p, db')"
  using tables_okD [OF db_invD(5) [OF grows_inv]] by (fastforce simp: makes_def)

lemma registered_self: "\<exists>k. registered nt it a nm i db nt k = Some a"
  by (auto simp: registered_def)

lemma attach_makes:
  assumes "holds r (\<lambda>(_, db'). grows db db')" and "r = Inr (attach_result b bp s db)"
    and "heap_ok db" and "heap db b = Some sp"
  shows "holds r (makes db)"
  using assms not_next_addr [OF assms(3,4)]
  by (auto simp: makes_def attach_result_def attached_heap)

lemma makes_add_port:
  assumes "db_inv db" and "type_at db m = Some IG_OBJ_MODULE"
  shows "holds (ig_lib_add_port (Some m) dir (Some nm) db) (makes db)"
proof -
  obtain sp mb where m: "heap db m = Some sp" "obj_body sp = Module mb" using body_of_type(1) [OF assms(2)] by blast
  show ?thesis
    by (rule attach_makes [OF grows_add_port [OF assms] add_port_eq [OF assms(1) m] db_invD(4) [OF assms(1)] m(1)])
qed

lemma makes_add_pin:
  assumes "db_inv db" and "type_at db i = Some IG_OBJ_INSTANCE"
  shows "holds (ig_lib_add_pin (Some i) (Some nm) (Some conn) iv db) (makes db)"
proof -
  obtain sp ib where i: "heap db i = Some sp" "obj_body sp = Instance ib" using body_of_type(2) [OF assms(2)] by blast
  show ?thesis
    by (rule attach_makes [OF grows_add_pin [OF assms] add_pin_eq [OF assms(1) i] db_invD(4) [OF assms(1)] i(1)])
qed

lemma makes_add_entry:
  assumes inv: "db_inv db" and "type_at db r = Some IG_OBJ_REGFILE"
  shows "holds (ig_lib_add_regfile_entry (Some nm) (Some r) db) (makes db)"
proof -
  obtain sr rb where r: "heap db r = Some sr" "obj_body sr = Regfile rb" using body_of_type(3) [OF assms(2)] by blast
  obtain m sm where m: "regfile_parent rb = Some m" "heap db m = Some sm"
    using regfile_parent_live [OF db_invD(4) [OF inv] r] by blast
  show ?thesis
    by (rule attach_makes [OF grows_add_entry [OF assms] add_entry_eq [OF inv r m] db_invD(4) [OF inv] r(1)])
qed

lemma makes_add_reg:
  assumes inv: "db_inv db" and "type_at db e = Some IG_OBJ_REGFILE_ENTRY"
  shows "holds (ig_lib_add_regfile_reg (Some nm) (Some e) db) (makes db)"
proof -
  note h = db_invD(4) [OF inv]
  obtain se eb where e: "heap db e = Some se" "obj_body se = RfEntry eb" using body_of_type(4) [OF assms(2)] by blast
  obtain r sr rb where r: "entry_parent eb = Some r" "heap db r = Some sr" "obj_body sr = Regfile rb"
    using entry_parent_live [OF h e] by blast
  obtain m sm where m: "regfile_parent rb = Some m" "heap db m = Some sm"
    using regfile_parent_live [OF h r(2,3)] by blast
  show ?thesis
    by (rule attach_makes [OF grows_add_reg [OF assms] add_reg_eq [OF inv e r m] h e(1)])
qed

lemma makes_add_module:
  assumes "db_inv db"
  shows "holds (ig_lib_add_module (Some nm) ilm resource db) (makes db)"
  by (rule holds_mono [OF add_module_result [OF assms]])
     (use assms in \<open>auto simp: grows_refl intro!: makesI registered_self exI [of _ Modules_by_name] split: if_splits\<close>)

lemma makes_add_codesection:
  assumes "db_inv db" and "type_at db m = Some IG_OBJ_MODULE"
  shows "holds (ig_lib_add_codesection nm (Some code) (Some m) db) (makes db)"
proof -
  obtain sp mb where m: "heap db m = Some sp" "obj_body sp = Module mb" using body_of_type(1) [OF assms(2)] by blast
  show ?thesis
    by (rule holds_mono [OF add_codesection_result [OF assms(1) m]])
       (use assms(1) in \<open>auto simp: grows_refl intro!: makesI exI [of _ Objects_by_id] split: if_splits\<close>)
qed

lemma makes_add_regfile:
  assumes "db_inv db" and "type_at db m = Some IG_OBJ_MODULE"
  shows "ig_lib_add_regfile (Some nm) (Some m) db = Inl InternalError \<or>
    holds (ig_lib_add_regfile (Some nm) (Some m) db) (makes db)"
proof -
  obtain sp mb where m: "heap db m = Some sp" "obj_body sp = Module mb" using body_of_type(1) [OF assms(2)] by blast
  show ?thesis
  proof (cases "(tables db Regfiles_by_name nm \<noteq> None \<or> mod_resource mb) \<or>
      tables db Objects_by_id (make_id IG_OBJ_REGFILE [sp] nm) \<noteq> None")
    case True
    then show ?thesis using add_regfile_result [OF assms(1) m, of nm] by (auto simp: makes_refl [OF assms(1)] split: if_splits)
  next
    case False
    then have "holds (ig_lib_add_regfile (Some nm) (Some m) db) (\<lambda>(p, db').
        p = Some (next_addr db) \<and> grows db db' \<and>
        tables db' = registered Regfiles_by_name Regfiles_by_id (next_addr db) nm
                       (make_id IG_OBJ_REGFILE [sp] nm) db \<and>
        type_at db' (next_addr db) = Some IG_OBJ_REGFILE)"
      using add_regfile_result [OF assms(1) m, of nm] by simp
    then have "holds (ig_lib_add_regfile (Some nm) (Some m) db) (makes db)"
      by (rule holds_mono) (auto intro!: makesI registered_self exI [of _ Regfiles_by_name])
    then show ?thesis ..
  qed
qed

lemma makes_add_instance:
  assumes inv: "db_inv db" and "type_at db t = Some IG_OBJ_MODULE" and "type_at db p = Some IG_OBJ_MODULE"
  shows "holds (ig_lib_add_instance (Some nm) (Some t) (Some p) db) (makes db)"
proof -
  obtain st tb where t: "heap db t = Some st" "obj_body st = Module tb" using body_of_type(1) [OF assms(2)] by blast
  obtain sp pb where p: "heap db p = Some sp" "obj_body sp = Module pb" using body_of_type(1) [OF assms(3)] by blast
  show ?thesis
  proof (cases "mod_resource tb")
    case True
    show ?thesis
      by (rule holds_mono [OF add_instance_resource_result [OF inv t True p]])
         (auto simp: grows_refl [OF inv] intro!: makesI registered_self exI [of _ Instances_by_name] split: if_splits)
  next
    case False
    obtain d sd ib where d: "mod_default_instance tb = Some d" "heap db d = Some sd" "obj_body sd = Instance ib"
      using module_instance [OF inv t False] by blast
    show ?thesis
      by (rule holds_mono [OF add_instance_module_result [OF inv t False d p]])
         (auto simp: grows_refl [OF inv] intro!: makesI registered_self exI [of _ Instances_by_name] split: if_splits)
  qed
qed

section \<open>Attributes\<close>

lemma grows_put_attrs:
  assumes inv: "db_inv db" and x: "heap db x = Some s"
    and s': "obj_id s' = obj_id s" "obj_name s' = obj_name s" "obj_refcount s' = obj_refcount s"
      "obj_body s' = obj_body s" "header_ok s'"
  shows "grows db (put x s' db)"
proof -
  have ty: "obj_type s' = obj_type s" by (simp add: obj_type_def s')
  have base: "base_inv 0 0 (put x s' db)"
    by (rule base_inv_put [OF db_invD(1) [OF inv] x, where k = 0 and d = 0])
       (use s' ty heap_okD [OF db_invD(4) [OF inv] x] in simp_all)
  have sk: "mod_skel (put x s' db) = mod_skel db" "inst_skel (put x s' db) = inst_skel db"
    using x s'(4) by (auto simp: mod_skel_def inst_skel_def fun_eq_iff)
  have k: "keeps db (put x s' db)" using x s' ty by (auto simp: keeps_def)
  have "db_inv (put x s' db)"
  proof (rule db_inv_update [OF inv base _ sk k])
    show "set (owned_at db b) \<subseteq> set (owned_at (put x s' db) b)" for b
      using x s'(4) by (cases "b = x") (simp_all add: owned_at_def)
    show "heap db y \<noteq> None" if "heap (put x s' db) y = Some sy" "obj_type sy = IG_OBJ_MODULE" for y sy
      using that x by (simp split: if_splits)
  qed simp
  moreover have "waste (put x s' db) \<subseteq> waste db"
  proof (rule waste_mono)
    show "set (owned_at db b) \<subseteq> set (owned_at (put x s' db) b)" for b
      using x s'(4) by (cases "b = x") (simp_all add: owned_at_def)
  qed (use x in \<open>auto split: if_splits\<close>)
  ultimately show ?thesis using k by (simp add: grows_def)
qed

lemma grows_attr_set:
  assumes inv: "db_inv db" and x: "heap db x = Some s"
  shows "grows db (put x (snd (attr_set s n v c)) db)"
  by (rule grows_put_attrs [OF assms])
     (use heap_okD [OF db_invD(4) [OF inv] x] in
       \<open>simp_all add: attr_set_same attr_set_body header_ok_hdr hdr_ok_attr_set obj_type_def\<close>)

lemma set_pairs_same: "obj_id (set_pairs kvs s) = obj_id s" "obj_name (set_pairs kvs s) = obj_name s"
  "obj_refcount (set_pairs kvs s) = obj_refcount s"
  by (induction kvs arbitrary: s) (auto simp: set_pairs_def attr_set_same split: prod.split)

lemma set_pairs_body: "obj_body (set_pairs kvs s) = obj_body s"
  by (induction kvs arbitrary: s) (auto simp: set_pairs_def attr_set_body split: prod.split)

lemma hdr_ok_set_pairs: "hdr_ok t s \<Longrightarrow> hdr_ok t (set_pairs kvs s)"
  by (induction kvs arbitrary: s) (auto simp: set_pairs_def hdr_ok_attr_set split: prod.split)

lemma grows_set_pairs:
  assumes inv: "db_inv db" and x: "heap db x = Some s"
  shows "grows db (put x (set_pairs kvs s) db)"
  by (rule grows_put_attrs [OF assms])
     (use heap_okD [OF db_invD(4) [OF inv] x] in
       \<open>simp_all add: set_pairs_same set_pairs_body header_ok_hdr hdr_ok_set_pairs obj_type_def\<close>)

section \<open>Commands\<close>

text \<open>The orders in which GLib lists its hash tables.\<close>

record glib_orders =
  go_keys :: "(string \<rightharpoonup> ig_attribute) \<Rightarrow> string list"
  go_values :: "(string \<rightharpoonup> addr) \<Rightarrow> addr list"
  go_table :: "(string \<rightharpoonup> addr) \<Rightarrow> string list"

text \<open>They list what is there and nothing else.\<close>

definition orders_ok :: "glib_orders \<Rightarrow> bool" where
  "orders_ok go \<longleftrightarrow> (\<forall>m. finite (dom m) \<longrightarrow> set (go_keys go m) = dom m) \<and>
     (\<forall>m. finite (dom m) \<longrightarrow> set (go_values go m) = ran m) \<and>
     (\<forall>m. finite (dom m) \<longrightarrow> set (go_table go m) = dom m \<and> distinct (go_table go m))"

text \<open>The commands with their parsed options.\<close>

datatype tcl_command =
    T_create_module "string option" bool bool
  | T_create_instance "string option" "string option" "string option"
  | T_add_codesection "string option" "string option" "string option"
  | T_add_regfile "string option" "string option" "string option" "string option"
  | T_set_attribute "string option" "string option" "string option" "string list"
  | T_get_attribute "string option" "string option" "string option" "string list" bool
  | T_get_objs string bool "string option" "string option"
  | T_get_netgen_objects string "string option"
  | T_connect "string option" "string option" "string option" "string list" "string list"
  | T_parameter "string option" "string option" "string list"
  | T_create_pin "string option" "string option" "string option" "string option" ig_port_dir
  | T_reset

fun tcl_exec :: "tcl_interp \<Rightarrow> glib_orders \<Rightarrow> tcl_command \<Rightarrow> ig_lib_db \<Rightarrow> tcl_out res" where
  "tcl_exec ti go (T_create_module nm ilm resource) db = ig_tclc_create_module ti nm ilm resource db"
| "tcl_exec ti go (T_create_instance nm om pm) db = ig_tclc_create_instance ti nm om pm db"
| "tcl_exec ti go (T_add_codesection nm code pm) db = ig_tclc_add_codesection ti nm code pm db"
| "tcl_exec ti go (T_add_regfile rf en re to) db = ig_tclc_add_regfile ti rf en re to db"
| "tcl_exec ti go (T_set_attribute on an av al) db = ig_tclc_set_attribute ti on an av al db"
| "tcl_exec ti go (T_get_attribute on an dv al ex) db = ig_tclc_get_attribute ti (go_keys go) on an dv al ex db"
| "tcl_exec ti go (T_get_objs cmd all cn pn) db = ig_tclc_get_objs_of_obj ti (go_values go) cmd all cn pn db"
| "tcl_exec ti go (T_get_netgen_objects cmd pn) db = ig_tclc_get_netgen_objects ti cmd pn db"
| "tcl_exec ti go (T_connect nm sz from to bd) db = ig_tclc_connect ti nm sz from to bd db"
| "tcl_exec ti go (T_parameter nm v eps) db = ig_tclc_parameter ti nm v eps db"
| "tcl_exec ti go (T_create_pin iname pname v sz dir) db = ig_tclc_create_pin ti iname pname v sz dir db"
| "tcl_exec ti go T_reset db = ig_tclc_reset (go_table go) db"

text \<open>The object an endpoint names, and endpoints that are neither modules nor instances.\<close>

definition endpoint_obj :: "ig_lib_db \<Rightarrow> string \<Rightarrow> ptr" where
  "endpoint_obj db ept = tables db Objects_by_id (ep_id (fst (ig_tclc_connection_parse ept)))"

definition bad_endpoint :: "ig_lib_db \<Rightarrow> string \<Rightarrow> bool" where
  "bad_endpoint db ept \<longleftrightarrow> (\<exists>a. endpoint_obj db ept = Some a \<and>
     type_at db a \<noteq> Some IG_OBJ_MODULE \<and> type_at db a \<noteq> Some IG_OBJ_INSTANCE)"

text \<open>The ways a command may fail to return.\<close>

fun tcl_fault :: "tcl_command \<Rightarrow> ig_lib_db \<Rightarrow> fault \<Rightarrow> bool" where
  "tcl_fault (T_add_regfile rf en re to) db e =
     (\<exists>nm m. rf = Some nm \<and> tables db Objects_by_id (the to) = Some m \<and> expected_fault (Add_regfile nm m) db e)"
| "tcl_fault (T_set_attribute on an av al) db e =
     (e = UseAfterFree \<and> an = None \<and> (\<exists>a s. tables db Objects_by_id (the on) = Some a \<and> heap db a = Some s \<and>
        (odd (length al) \<or> (\<exists>(k, v) \<in> set (pairs_of al). is_const s k))))"
| "tcl_fault (T_connect nm sz from to bd) db e =
     (e = InternalError \<and> (\<exists>ept \<in> set_option from \<union> set to \<union> set bd. bad_endpoint db ept) \<or>
      e = UseAfterFree \<and> tables db Nets_by_name (the nm) = None)"
| "tcl_fault (T_parameter nm v eps) db e =
     (e = InternalError \<and> (\<exists>ept \<in> set eps. bad_endpoint db ept) \<or>
      e = UseAfterFree \<and> tables db Generics_by_name (the nm) = None)"
| "tcl_fault (T_create_pin iname pname v sz dir) db e =
     (e = NullDeref \<and> (iname = None \<or>
        tables db Instances_by_name (the iname) \<noteq> None \<and> (pname = None \<or> v = None)))"
| "tcl_fault _ db e = False"

definition dangling :: "ig_lib_db \<Rightarrow> bool" where
  "dangling db \<longleftrightarrow> (\<exists>t k a. tables db t k = Some a \<and> heap db a = None)"

text \<open>A failing signal or parameter can leave a table entry that leads to freed memory.\<close>

fun signal_command :: "tcl_command \<Rightarrow> bool" where
  "signal_command (T_connect nm sz from to bd) = True"
| "signal_command (T_parameter nm v eps) = True"
| "signal_command _ = False"

definition tcl_outcome :: "tcl_command \<Rightarrow> ig_lib_db \<Rightarrow> tcl_out res \<Rightarrow> bool" where
  "tcl_outcome c db r \<longleftrightarrow>
     (case r of Inl e \<Rightarrow> tcl_fault c db e
      | Inr (result, logs, db') \<Rightarrow>
          grows db db' \<or> signal_command c \<and> dangling db' \<and> (\<exists>msg. result = Tcl_error msg))"

lemma outcome_fail: "grows db db' \<Longrightarrow> tcl_outcome c db (tcl_fail ti msg logs db')"
  by (simp add: tcl_outcome_def tcl_fail_def)

lemma outcome_grows: "holds r (\<lambda>(_, _, db'). grows db db') \<Longrightarrow> tcl_outcome c db r"
  by (cases r) (auto simp: tcl_outcome_def)

lemma id_result_grows:
  "makes db (Some a, db') \<Longrightarrow> holds (tcl_id_result (Some a) logs db') (\<lambda>(_, _, db'). grows db db')"
  by (auto simp: tcl_id_result_def makes_def heap_get_def)

text \<open>An operation whose \<open>NULL\<close> is reported and whose object is named in the result.\<close>

lemma make_or_fail:
  assumes "holds r (makes db)"
  shows "holds (res_bind r (\<lambda>(p, db'). if p = None then tcl_fail ti msg logs db' else tcl_id_result p logs db'))
    (\<lambda>(_, _, db'). grows db db')"
  using assms by (auto elim!: holds_mono simp: makes_def tcl_fail_def intro!: id_result_grows [unfolded makes_def])

lemma lookup_module_result:
  assumes "db_inv db"
  shows "holds (lookup_module db key) (\<lambda>p. \<forall>a. p = Some a \<longrightarrow> type_at db a = Some IG_OBJ_MODULE)"
proof -
  have mod: "holds (ig_cast IG_OBJ_MODULE db (tables db t key)) (\<lambda>p. p = tables db t key \<and> (\<forall>a. p = Some a \<longrightarrow> type_at db a = Some IG_OBJ_MODULE))"
    if "table_type t = Some IG_OBJ_MODULE" for t
    using that tables_okD [OF db_invD(5) [OF assms], of t key]
    by (cases "tables db t key") (auto simp: ig_cast_def heap_get_def entry_ok_def type_at_def)
  show ?thesis
    unfolding lookup_module_def holds_bind
    by (rule holds_mono [OF mod]) (use mod [of Modules_by_name] in \<open>auto elim!: holds_mono\<close>)
qed

section \<open>Creating objects\<close>

lemma outcome_create_module:
  assumes "db_inv db"
  shows "holds (ig_tclc_create_module ti nm ilm resource db) (\<lambda>(_, _, db'). grows db db')"
proof (cases nm)
  case None
  then show ?thesis using grows_refl [OF assms] by (simp add: ig_tclc_create_module_def tcl_fail_def)
next
  case (Some n)
  show ?thesis
    unfolding Some ig_tclc_create_module_def option.case Let_def
    by (rule make_or_fail) (rule makes_add_module [OF assms])
qed

lemma outcome_create_instance:
  assumes inv: "db_inv db"
  shows "holds (ig_tclc_create_instance ti nm om pm db) (\<lambda>(_, _, db'). grows db db')"
proof (cases "nm = None \<or> om = None \<or> pm = None")
  case True
  then show ?thesis
    using grows_refl [OF inv] by (auto simp: ig_tclc_create_instance_def tcl_fail_def Let_def split: option.split)
next
  case False
  then obtain n o' p' where s: "nm = Some n" "om = Some o'" "pm = Some p'" by auto
  have "holds (res_bind (ig_lib_add_instance (Some n) a b db) (\<lambda>(p, db'). if p = None then tcl_fail ti msg logs db'
      else tcl_id_result p logs db')) (\<lambda>(_, _, db'). grows db db')"
    if "\<forall>x. a = Some x \<longrightarrow> type_at db x = Some IG_OBJ_MODULE" "\<forall>x. b = Some x \<longrightarrow> type_at db x = Some IG_OBJ_MODULE"
    for a b msg logs
  proof (rule make_or_fail)
    show "holds (ig_lib_add_instance (Some n) a b db) (makes db)"
      using that makes_add_instance [OF inv] makes_refl [OF inv]
      by (cases a; cases b) (auto simp: ig_lib_add_instance_def)
  qed
  then show ?thesis
    unfolding s ig_tclc_create_instance_def option.case Let_def holds_bind
    by (intro holds_mono [OF lookup_module_result [OF inv]]) simp
qed

lemma outcome_add_codesection:
  assumes inv: "db_inv db"
  shows "holds (ig_tclc_add_codesection ti nm code pm db) (\<lambda>(_, _, db'). grows db db')"
proof (cases "code = None \<or> pm = None")
  case True
  then show ?thesis
    using grows_refl [OF inv] by (auto simp: ig_tclc_add_codesection_def tcl_fail_def split: option.split)
next
  case False
  then obtain c p where s: "code = Some c" "pm = Some p" by auto
  have "holds (res_bind (ig_lib_add_codesection nm (Some c) (Some a) db) (\<lambda>(cs, db).
      if cs = None
      then res_bind (heap_get db (Some a)) (\<lambda>s. tcl_fail ti (''Unable to create codesection for module '' @ quoted (obj_name s)) [] db)
      else tcl_id_result cs [] db)) (\<lambda>(_, _, db'). grows db db')"
    if a: "type_at db a = Some IG_OBJ_MODULE" for a
    unfolding holds_bind
  proof (rule holds_mono [OF makes_add_codesection [OF inv a]])
    fix r :: "ptr \<times> ig_lib_db"
    assume r: "makes db r"
    obtain cs db' where cs: "r = (cs, db')" by (cases r)
    have "heap db' a \<noteq> None" using grows_type_at [OF _ a] r cs by (fastforce simp: makes_def type_at_Some)
    then show "holds (case r of (cs, db) \<Rightarrow> if cs = None
        then res_bind (heap_get db (Some a)) (\<lambda>s. tcl_fail ti (''Unable to create codesection for module '' @ quoted (obj_name s)) [] db)
        else tcl_id_result cs [] db) (\<lambda>(_, _, db'). grows db db')"
      using r cs by (auto simp: makes_def heap_get_def tcl_fail_def tcl_id_result_def)
  qed
  then show ?thesis
    unfolding s ig_tclc_add_codesection_def option.case holds_bind
    using grows_refl [OF inv]
    by (auto simp: tcl_fail_def intro!: holds_mono [OF lookup_module_result [OF inv]])
qed

lemma object_lookup:
  assumes "db_inv db" and "tables db t k = Some a"
  obtains s where "heap db a = Some s" "entry_ok t k s" "type_at db a = Some (obj_type s)"
  using tables_okD [OF db_invD(5) [OF assms(1)] assms(2)] by (auto simp: type_at_def)

text \<open>The condition on the parent, evaluated.\<close>

definition parent_type :: "string option \<Rightarrow> string option \<Rightarrow> ig_object_type" where
  "parent_type rf en =
     (if rf \<noteq> None then IG_OBJ_MODULE else if en \<noteq> None then IG_OBJ_REGFILE else IG_OBJ_REGFILE_ENTRY)"

lemma invalid_to_result:
  assumes inv: "db_inv db"
    and one: "(if rf \<noteq> None then 1 else 0) + (if en \<noteq> None then 1 else 0) + (if rg \<noteq> None then 1 else 0) = (1 :: nat)"
  shows "holds (invalid_to db (tables db Objects_by_id k) rf en rg) (\<lambda>bad. \<not> bad \<longrightarrow>
    (\<exists>a. tables db Objects_by_id k = Some a \<and> type_at db a = Some (parent_type rf en)))"
proof (cases "tables db Objects_by_id k")
  case (Some a)
  obtain s where s: "heap db a = Some s" "type_at db a = Some (obj_type s)"
    using object_lookup [OF inv Some] by blast
  have "\<exists>m. obj_body s = Module m" if "obj_type s = IG_OBJ_MODULE"
    using that by (cases "obj_body s") (simp_all add: obj_type_def)
  then show ?thesis
    using Some s one by (auto simp: invalid_to_def heap_get_def fetch_def parent_type_def split: if_splits)
qed (simp add: invalid_to_def)

lemma outcome_add_regfile:
  assumes inv: "db_inv db"
  shows "tcl_outcome (T_add_regfile rf en rg to) db (ig_tclc_add_regfile ti rf en rg to db)"
proof -
  let ?n = "(if rf \<noteq> None then 1 else 0) + (if en \<noteq> None then 1 else 0) + (if rg \<noteq> None then 1 else 0) :: nat"
  consider "to = None" | tn where "to = Some tn" "?n \<noteq> 1" | tn where "to = Some tn" "?n = 1" by blast
  then show ?thesis
  proof cases
    case 1
    then show ?thesis by (simp add: ig_tclc_add_regfile_def outcome_fail grows_refl [OF inv])
  next
    case 2
    then show ?thesis by (simp only: ig_tclc_add_regfile_def outcome_fail grows_refl [OF inv] option.case if_True if_False not_not simp_thms)
  next
    case (3 tn)
    obtain bad where bad: "invalid_to db (tables db Objects_by_id tn) rf en rg = Inr bad"
      "\<not> bad \<longrightarrow> (\<exists>a. tables db Objects_by_id tn = Some a \<and> type_at db a = Some (parent_type rf en))"
      using invalid_to_result [OF inv 3(2), of tn] by (auto simp: holds_iff)
    let ?logs = "ig_tclc_check_name_and_warn rf @ ig_tclc_check_name_and_warn en @ ig_tclc_check_name_and_warn rg"
    have nb: "\<not> ?n \<noteq> 1" using 3(2) by simp
    note open_cmd = ig_tclc_add_regfile_def 3(1) option.case if_not_P [OF nb] Let_def bad(1) res_bind.simps
    show ?thesis
    proof (cases bad)
      case True
      show ?thesis unfolding open_cmd if_P [OF True] by (rule outcome_fail) (rule grows_refl [OF inv])
    next
      case False
      then obtain a where a: "tables db Objects_by_id tn = Some a" "type_at db a = Some (parent_type rf en)"
        using bad(2) by blast
      note open_cmd = open_cmd if_not_P [OF False]
      consider (regfile) nm where "rf = Some nm" "en = None" "rg = None" | (entry) nm where "rf = None" "en = Some nm"
        | (reg) nm where "rf = None" "en = None" "rg = Some nm"
        using 3(2) by (cases rf; cases en; cases rg) auto
      then show ?thesis
      proof cases
        case entry
        have t: "type_at db a = Some IG_OBJ_REGFILE" using a(2) entry by (simp add: parent_type_def)
        have "rf = None" "en \<noteq> None" using entry by auto
        then show ?thesis
          unfolding open_cmd
          by (simp only: simp_thms if_True if_False option.distinct)
             (use makes_add_entry [OF inv t] in \<open>auto intro!: outcome_grows make_or_fail simp only: a entry\<close>)
      next
        case reg
        have t: "type_at db a = Some IG_OBJ_REGFILE_ENTRY" using a(2) reg by (simp add: parent_type_def)
        then show ?thesis
          unfolding open_cmd
          by (simp only: simp_thms if_True if_False option.distinct reg a)
             (use makes_add_reg [OF inv t] in \<open>auto intro!: outcome_grows make_or_fail\<close>)
      next
        case regfile
        have t: "type_at db a = Some IG_OBJ_MODULE" using a(2) regfile by (simp add: parent_type_def)
        have ex: "expected_fault (Add_regfile nm a) db e" if "ig_lib_add_regfile (Some nm) (Some a) db = Inl e" for e
          using exec_outcome [OF inv, of "Add_regfile nm a"] t that by (simp add: outcome_def)
        show ?thesis
        proof (cases "ig_lib_add_regfile (Some nm) (Some a) db")
          case (Inl e)
          then show ?thesis
            unfolding open_cmd using ex [OF Inl] regfile a by (simp add: tcl_outcome_def)
        next
          case (Inr r)
          then have "holds (ig_lib_add_regfile (Some nm) (Some a) db) (makes db)"
            using makes_add_regfile [OF inv t, of nm] by simp
          then show ?thesis
            unfolding open_cmd
            by (simp only: simp_thms if_True if_False option.distinct regfile a)
               (auto intro!: outcome_grows make_or_fail)
        qed
      qed
    qed
  qed
qed

section \<open>Attributes and lists of objects\<close>

lemma outcome_set_attribute:
  assumes inv: "db_inv db"
  shows "tcl_outcome (T_set_attribute on an av al) db (ig_tclc_set_attribute ti on an av al db)"
proof -
  note ref = grows_refl [OF inv]
  note open_cmd = ig_tclc_set_attribute_def Let_def
  consider (fail) msg where "ig_tclc_set_attribute ti on an av al db = tcl_fail ti msg [] db"
    | (one) onm n v a where "on = Some onm" "an = Some n" "av = Some v" "al = []" "tables db Objects_by_id onm = Some a"
    | (many) onm a where "on = Some onm" "an = None" "al \<noteq> []" "tables db Objects_by_id onm = Some a"
    by (cases on; cases an; cases av; cases "tables db Objects_by_id (the on)"; cases "al = []")
       (auto simp: ig_tclc_set_attribute_def)
  then show ?thesis
  proof cases
    case fail
    then show ?thesis by (simp add: outcome_fail ref)
  next
    case one
    obtain s where s: "heap db a = Some s" using object_lookup [OF inv one(5)] by blast
    have "grows db (put a (snd (attr_set s n v False)) db)" by (rule grows_attr_set [OF inv s])
    then show ?thesis
      using one s
      by (auto simp: open_cmd ig_obj_attr_set_def heap_get_def split_beta tcl_outcome_def tcl_fail_def)
  next
    case many
    obtain s where s: "heap db a = Some s" using object_lookup [OF inv many(4)] by blast
    have g: "grows db (put a (set_pairs (pairs_of al) s) db)" by (rule grows_set_pairs [OF inv s])
    show ?thesis
    proof (cases "odd (length al)")
      case True
      then show ?thesis
        using many s by (auto simp: open_cmd ig_obj_attr_set_from_gslist_def odd_iff_mod_2_eq_one tcl_outcome_def)
    next
      case False
      then have "ig_tclc_set_attribute ti on an av al db =
          (if \<forall>(k, v) \<in> set (pairs_of al). \<not> is_const s k
           then Inr (Tcl_ok (Tcl_string ''''), [], put a (set_pairs (pairs_of al) s) db) else Inl UseAfterFree)"
        using many attr_set_pairs_eq [OF s, of al True]
        by (auto simp: open_cmd ig_obj_attr_set_from_gslist_def odd_iff_mod_2_eq_one)
      then show ?thesis using g many s by (fastforce simp: tcl_outcome_def)
    qed
  qed
qed

text \<open>Commands that only read.\<close>

definition reads :: "ig_lib_db \<Rightarrow> tcl_out res \<Rightarrow> bool" where
  "reads db r \<longleftrightarrow> holds r (\<lambda>(_, _, db'). db' = db)"

lemma reads_fail [simp]: "reads db (tcl_fail ti msg logs db)"
  by (simp add: reads_def tcl_fail_def)

lemma reads_result [simp]: "reads db (Inr (result, logs, db))"
  by (simp add: reads_def)

lemma reads_bind: "holds r P \<Longrightarrow> (\<And>x. P x \<Longrightarrow> reads db (f x)) \<Longrightarrow> reads db (res_bind r f)"
  by (auto simp: reads_def elim!: holds_mono)

lemma reads_grows: "db_inv db \<Longrightarrow> reads db r \<Longrightarrow> holds r (\<lambda>(_, _, db'). grows db db')"
  by (auto simp: reads_def grows_refl elim!: holds_mono)

abbreviation any :: "'a \<Rightarrow> bool" where
  "any \<equiv> \<lambda>_. True"

lemma attr_get_live: "heap db a \<noteq> None \<Longrightarrow> holds (ig_obj_attr_get (Some a) n db) any"
  by (cases n) (auto simp: ig_obj_attr_get_def heap_get_def)

lemma check_attributes_live: "heap db a \<noteq> None \<Longrightarrow> holds (check_attributes db (Some a) li) any"
proof (induction li)
  case (Cons attr li)
  then show ?case using attr_get_live [OF Cons.prems, of "Some attr"] by (auto elim!: holds_mono)
qed simp

lemma attribute_values_live: "heap db a \<noteq> None \<Longrightarrow> holds (attribute_values db (Some a) ce pn li retval) any"
proof (induction li arbitrary: retval)
  case (Cons attr li)
  then show ?case using attr_get_live [OF Cons.prems, of "Some attr"] by (auto simp: Let_def elim!: holds_mono)
qed simp

lemma reads_get_attribute:
  assumes inv: "db_inv db"
  shows "reads db (ig_tclc_get_attribute ti keys on an dv al ce db)"
proof (cases "\<exists>onm a. on = Some onm \<and> tables db Objects_by_id onm = Some a \<and> \<not> (al \<noteq> [] \<and> an \<noteq> None)")
  case True
  then obtain onm a where s: "on = Some onm" "tables db Objects_by_id onm = Some a" "\<not> (al \<noteq> [] \<and> an \<noteq> None)"
    by blast
  have live: "heap db a \<noteq> None" using object_lookup [OF inv s(2)] by fastforce
  have keys: "holds (if al = [] \<and> an = None then ig_obj_attr_get_keys keys (Some a) db else Inr al) any"
    using live by (auto simp: ig_obj_attr_get_keys_def heap_get_def)
  show ?thesis
    unfolding ig_tclc_get_attribute_def s(1,2) option.case Let_def if_not_P [OF s(3)]
  proof (simp only: option.distinct if_False, rule reads_bind [OF keys])
    fix li
    show "reads db (case an of
        Some n \<Rightarrow> res_bind (ig_obj_attr_get (Some a) an db) (\<lambda>val.
          if ce then Inr (Tcl_ok (Tcl_boolean (val \<noteq> None)), [], db)
          else case (val, dv) of
              (Some v, _) \<Rightarrow> Inr (Tcl_ok (Tcl_string v), [], db)
            | (None, Some v) \<Rightarrow> Inr (Tcl_ok (Tcl_string v), [], db)
            | (None, None) \<Rightarrow> tcl_fail ti (''Could not get attribute '' @ quoted n @ '' of object '' @ quoted onm) [] db)
      | None \<Rightarrow> res_bind (if ce then Inr None else check_attributes db (Some a) li) (\<lambda>missing.
          case missing of
            Some attr \<Rightarrow> tcl_fail ti (''Could not get attribute '' @ quoted attr @ '' of object '' @ quoted onm) [] db
          | None \<Rightarrow> res_bind (attribute_values db (Some a) ce (al = [] \<and> an = None) li []) (\<lambda>retval.
              Inr (Tcl_ok (Tcl_list retval), [], db))))"
      by (auto split: option.split intro!: reads_bind [OF attr_get_live [OF live]]
            reads_bind [OF attribute_values_live [OF live]] reads_bind [OF check_attributes_live [OF live]])
  qed
next
  case False
  then show ?thesis by (auto simp: ig_tclc_get_attribute_def Let_def split: option.split)
qed

end
