(* ===== verification/Ig_Tcl_Run.thy ===== *)
theory Ig_Tcl_Run
  imports Ig_Tcl_Safe
begin

text \<open>
  The Tcl commands that list objects, connect endpoints and set parameters, on a database that
  satisfies the invariant, and the theorem over all commands.
\<close>

section \<open>Lists of objects\<close>

definition live_list :: "ig_lib_db \<Rightarrow> ptr list \<Rightarrow> bool" where
  "live_list db li \<longleftrightarrow> (\<forall>p \<in> set li. \<exists>a. p = Some a \<and> heap db a \<noteq> None)"

definition live_children :: "ig_lib_db \<Rightarrow> child_source \<Rightarrow> bool" where
  "live_children db r \<longleftrightarrow> holds r (\<lambda>c. case c of Inl _ \<Rightarrow> True | Inr li \<Rightarrow> live_list db li)"

lemma live_children_simps [simp]:
  "live_children db (Inr (Inl msg))" "live_children db (Inr (Inr li)) = live_list db li"
  "\<not> live_children db (Inl e)" "live_list db []"
  by (simp_all add: live_children_def live_list_def)

lemma live_queue: "queue_ok (type_at db) ts q \<Longrightarrow> live_list db (map Some q)"
  by (fastforce simp: live_list_def queue_ok_def type_at_def)

lemma live_queue_children:
  "queue_ok (type_at db) ts (opt_queue q) \<Longrightarrow> q \<noteq> None \<Longrightarrow> live_children db (queue_children q)"
  by (auto simp: queue_children_def dest: live_queue)

lemma live_opt_child: "ptr_ok (type_at db) t p \<Longrightarrow> live_list db (opt_child p)"
  by (auto simp: opt_child_def live_list_def ptr_ok_def type_at_def)

lemma live_bind: "holds r P \<Longrightarrow> (\<And>x. P x \<Longrightarrow> live_children db (f x)) \<Longrightarrow> live_children db (res_bind r f)"
  by (auto simp: live_children_def elim!: holds_mono)

lemma cast_lookup:
  assumes "db_inv db" and "table_type t = Some ty"
  shows "holds (ig_cast ty db (tables db t k)) (\<lambda>p. p = tables db t k \<and> (\<forall>a. p = Some a \<longrightarrow> type_at db a = Some ty))"
  using assms tables_okD [OF db_invD(5) [OF assms(1)], of t k]
  by (cases "tables db t k") (auto simp: ig_cast_def heap_get_def entry_ok_def type_at_def)

lemma fetch_live:
  assumes "heap db a = Some s" "sel (obj_body s) = Some x"
  shows "fetch sel db (Some a) = Inr x"
  using assms by (simp add: fetch_def heap_get_def)

lemma body_live: "db_inv db \<Longrightarrow> heap db a = Some s \<Longrightarrow> body_ok (type_at db) (obj_body s)"
  using heap_okD [OF db_invD(4)] by blast

lemma live_table_children:
  assumes inv: "db_inv db" and v: "\<And>m. finite (dom m) \<Longrightarrow> set (values m) = ran m"
  shows "live_children db (table_children values bid bname all cn db)"
proof -
  have "heap db a \<noteq> None" if "tables db t k = Some a" for t k a using object_lookup [OF inv that] by fastforce
  moreover have "set (values (tables db bid)) = ran (tables db bid)"
    using v db_invD(5) [OF inv] by (simp add: tables_ok_def)
  ultimately show ?thesis
    by (fastforce simp: table_children_def live_list_def ran_def table_contains_def split: option.split)
qed

lemma live_module_children:
  assumes inv: "db_inv db"
  shows "live_children db (module_children version pn db)"
proof -
  have "live_children db (if p = None then Inr (Inl (''Unable to find '' @ quoted pn @ '' in database''))
     else
       res_bind (fetch as_module db p) (\<lambda>m.
       if mod_resource m \<and> version \<in> {IG_TOOOV_DECLS, IG_TOOOV_CODE, IG_TOOOV_INSTANCES, IG_TOOOV_REGFILES}
       then Inr (Inl (''Command is not applicable to a resource ('' @ quoted pn @ '')''))
       else
         (case version of
            IG_TOOOV_DECLS \<Rightarrow> queue_children (mod_decls m)
          | IG_TOOOV_PORTS \<Rightarrow> queue_children (Some (mod_ports m))
          | IG_TOOOV_PARAMS \<Rightarrow> queue_children (Some (mod_params m))
          | IG_TOOOV_CODE \<Rightarrow> queue_children (mod_code m)
          | IG_TOOOV_INSTANCES \<Rightarrow> queue_children (mod_child_instances m)
          | IG_TOOOV_INSTANTIATION \<Rightarrow> queue_children (Some (mod_mod_instances m))
          | IG_TOOOV_REGFILES \<Rightarrow> queue_children (mod_regfiles m)
          | _ \<Rightarrow> Inr (Inr []))))"
    if p: "\<forall>a. p = Some a \<longrightarrow> type_at db a = Some IG_OBJ_MODULE" for p
  proof (cases p)
    case (Some a)
    then obtain s m where s: "heap db a = Some s" "obj_body s = Module m" using p body_of_type(1) by blast
    have ok: "module_ok (type_at db) m" using body_live [OF inv s(1)] s(2) by simp
    show ?thesis
      unfolding Some fetch_live [OF s(1), of as_module, unfolded s(2) as_module.simps, OF refl]
      using ok by (cases version) (auto simp: module_ok_def intro!: live_queue_children)
  qed simp
  then show ?thesis
    unfolding module_children_def by (intro live_bind [OF cast_lookup [OF inv]]) simp_all
qed

lemma live_instance_children:
  assumes inv: "db_inv db"
  shows "live_children db (instance_children version pn db)"
  unfolding instance_children_def
proof (rule live_bind [OF cast_lookup [OF inv]])
  fix p assume p: "p = tables db Instances_by_id pn \<and> (\<forall>a. p = Some a \<longrightarrow> type_at db a = Some IG_OBJ_INSTANCE)"
  show "live_children db (if p = None then Inr (Inl (''Unable to find instance-id '' @ quoted pn))
     else
       res_bind (fetch as_instance db p) (\<lambda>i.
       case version of
         IG_TOOOV_PINS \<Rightarrow> queue_children (Some (inst_pins i))
       | IG_TOOOV_ADJ \<Rightarrow> queue_children (Some (inst_adjustments i))
       | IG_TOOOV_MODULES \<Rightarrow> Inr (Inr [inst_module i])
       | _ \<Rightarrow> Inr (Inr [])))"
  proof (cases p)
    case (Some a)
    then obtain s i where s: "heap db a = Some s" "obj_body s = Instance i" using p body_of_type(2) by blast
    have ok: "body_ok (type_at db) (Instance i)" using body_live [OF inv s(1)] s(2) by simp
    then obtain m where "inst_module i = Some m" "heap db m \<noteq> None" by (auto simp: type_at_def)
    then show ?thesis
      unfolding Some fetch_live [OF s(1), of as_instance, unfolded s(2) as_instance.simps, OF refl]
      using ok by (cases version) (auto simp: live_list_def intro!: live_queue_children)
  qed simp
qed simp

lemma live_regfile_children:
  assumes inv: "db_inv db"
  shows "live_children db (regfile_children version pn db)"
proof (cases "tables db Objects_by_id pn")
  case (Some a)
  obtain s where s: "heap db a = Some s" using object_lookup [OF inv Some] by blast
  have ok: "body_ok (type_at db) (obj_body s)" by (rule body_live [OF inv s])
  show ?thesis
    using ok
    by (cases "obj_body s")
       (auto simp: regfile_children_def Let_def Some heap_get_def s fetch_def obj_type_def intro!: live_queue_children)
qed (simp add: regfile_children_def Let_def)

lemma live_net_children:
  assumes inv: "db_inv db"
  shows "live_children db (net_children pn db)" "live_children db (generic_children pn db)"
proof -
  have "live_children db (net_children pn db) \<and> live_children db (generic_children pn db)"
  proof (cases "tables db Objects_by_id pn")
    case (Some a)
    obtain s where s: "heap db a = Some s" using object_lookup [OF inv Some] by blast
    have ok: "body_ok (type_at db) (obj_body s)" by (rule body_live [OF inv s])
    show ?thesis
      using ok
      by (cases "obj_body s")
         (auto simp: net_children_def generic_children_def Let_def Some heap_get_def s intro!: live_opt_child)
  qed (simp add: net_children_def generic_children_def Let_def)
  then show "live_children db (net_children pn db)" "live_children db (generic_children pn db)" by auto
qed

lemma live_child_list:
  assumes inv: "db_inv db" and v: "\<And>m. finite (dom m) \<Longrightarrow> set (values m) = ran m"
    and "version \<noteq> IG_TOOOV_INVALID" and "pn = None \<Longrightarrow> missing_parent version = None"
  shows "live_children db (child_list values version all cn pn db)"
proof (cases pn)
  case None
  then show ?thesis
    using assms(3,4) live_table_children [OF inv v]
    by (cases version) (auto simp: child_list_def missing_parent_def)
next
  case (Some p)
  then show ?thesis
    using live_module_children [OF inv] live_instance_children [OF inv] live_regfile_children [OF inv]
      live_net_children [OF inv]
    by (auto simp: child_list_def)
qed

lemma child_ids_live: "live_list db li \<Longrightarrow> holds (child_ids db li retval) any"
  by (induction li arbitrary: retval) (auto simp: live_list_def heap_get_def)

lemma child_find_live: "live_list db li \<Longrightarrow> holds (child_find db cn li) any"
  by (induction li) (auto simp: live_list_def heap_get_def)

lemma reads_get_objs:
  assumes inv: "db_inv db" and v: "\<And>m. finite (dom m) \<Longrightarrow> set (values m) = ran m"
  shows "reads db (ig_tclc_get_objs_of_obj ti values cmd all cn pn db)"
proof -
  let ?v = "ig_tclc_get_objs_of_obj_version_from_cmd cmd"
  show ?thesis
  proof (cases "?v = IG_TOOOV_INVALID \<or> get_objs_option_error ?v all cn pn \<noteq> None")
    case True
    then show ?thesis by (auto simp: ig_tclc_get_objs_of_obj_def Let_def)
  next
    case False
    then have n: "?v \<noteq> IG_TOOOV_INVALID" "get_objs_option_error ?v all cn pn = None" by auto
    have "pn = None \<Longrightarrow> missing_parent ?v = None"
      using n(2) by (auto simp: get_objs_option_error_def split: if_splits)
    then have live: "live_children db (child_list values ?v (all \<or> cn = None) cn pn db)"
      using live_child_list [OF inv v n(1)] by blast
    show ?thesis
      unfolding ig_tclc_get_objs_of_obj_def Let_def if_not_P [OF n(1)] n(2) option.case
    proof (rule reads_bind [OF live [unfolded live_children_def]])
      fix c :: "string + ptr list" assume c: "case c of Inl _ \<Rightarrow> True | Inr li \<Rightarrow> live_list db li"
      show "reads db (case c of
            Inl err \<Rightarrow> tcl_fail ti err [] db
          | Inr li \<Rightarrow>
              (case cn of
                 None \<Rightarrow> res_bind (child_ids db li []) (\<lambda>retval. Inr (Tcl_ok (Tcl_list retval), [], db))
               | Some cn \<Rightarrow>
                   res_bind (child_find db cn li) (\<lambda>found.
                   case found of
                     Some ident \<Rightarrow> Inr (Tcl_ok (Tcl_string ident), [], db)
                   | None \<Rightarrow> tcl_fail ti (''Nothing found for '' @ quoted cn) [] db)))"
        using c by (auto split: sum.split option.split intro!: reads_bind [OF child_ids_live] reads_bind [OF child_find_live])
    qed
  qed
qed

lemma reads_get_netgen:
  assumes inv: "db_inv db"
  shows "reads db (ig_tclc_get_netgen_objects ti cmd pn db)"
proof -
  let ?v = "ig_tclc_get_netgen_objects_version_from_cmd cmd"
  let ?t = "if ?v = IG_TNGOV_NET then Nets_by_id else Generics_by_id"
  consider (fail) msg where "ig_tclc_get_netgen_objects ti cmd pn db = tcl_fail ti msg [] db"
    | (obj) p a where "?v \<noteq> IG_TNGOV_INVALID" "pn = Some p" "tables db ?t p = Some a"
    by (cases pn; cases "tables db ?t (the pn)"; cases "?v = IG_TNGOV_INVALID")
       (auto simp: ig_tclc_get_netgen_objects_def Let_def)
  then show ?thesis
  proof cases
    case obj
    obtain s where s: "heap db a = Some s" "entry_ok ?t p s" using object_lookup [OF inv obj(3)] by blast
    have ok: "body_ok (type_at db) (obj_body s)" by (rule body_live [OF inv s(1)])
    have q: "live_list db (map Some li) \<Longrightarrow>
        reads db (res_bind (child_ids db (map Some li) []) (\<lambda>retval. Inr (Tcl_ok (Tcl_list retval), [], db)))" for li
      by (auto intro!: reads_bind [OF child_ids_live])
    show ?thesis
    proof (cases "?v = IG_TNGOV_NET")
      case True
      then obtain n where n: "obj_body s = Net n"
        using s(2) by (cases "obj_body s") (auto simp: entry_ok_def obj_type_def)
      have "live_list db (map Some (net_objects n))" using ok n live_queue by auto
      from q [OF this] show ?thesis
        using obj True n s(1)
        by (simp add: ig_tclc_get_netgen_objects_def Let_def ig_cast_def heap_get_def obj_type_def fetch_def)
    next
      case False
      then obtain g where g: "obj_body s = Generic g"
        using s(2) by (cases "obj_body s") (auto simp: entry_ok_def obj_type_def)
      have "live_list db (map Some (generic_objects g))" using ok g live_queue by auto
      from q [OF this] show ?thesis
        using obj False g s(1)
        by (simp add: ig_tclc_get_netgen_objects_def Let_def ig_cast_def heap_get_def obj_type_def fetch_def)
    qed
  qed simp
qed

section \<open>Pins\<close>

lemma grows_live: "grows db db' \<Longrightarrow> heap db a \<noteq> None \<Longrightarrow> heap db' a \<noteq> None"
  using grows_type_at [of db db' a] by (fastforce simp: type_at_def)

lemma attr_set_live:
  assumes "db_inv db" and "heap db a \<noteq> None"
  shows "holds (ig_obj_attr_set (Some a) (Some n) (Some v) c db) (\<lambda>(_, db'). grows db db')"
proof -
  obtain s where s: "heap db a = Some s" using assms(2) by blast
  then show ?thesis
    using grows_attr_set [OF assms(1) s, of n v c] by (simp add: ig_obj_attr_set_def heap_get_def split_beta)
qed

lemma attr_set_then:
  assumes "grows db0 db" and "heap db a \<noteq> None" and "\<And>db'. grows db0 db' \<Longrightarrow> grows db db' \<Longrightarrow> holds (f db') Q"
  shows "holds (res_bind (ig_obj_attr_set (Some a) (Some n) (Some v) c db) (\<lambda>(_, db'). f db')) Q"
  using attr_set_live [OF grows_inv [OF assms(1)] assms(2), of n v c] assms(3) grows_trans [OF assms(1)]
  by (auto elim!: holds_mono)

text \<open>The end of the command: the size of the pin, and of the port when there is one.\<close>

lemma pin_sizes:
  assumes g: "grows db0 db" and pin: "heap db pn \<noteq> None" and port: "\<And>q. port = Some q \<Longrightarrow> heap db q \<noteq> None"
  shows "holds (res_bind (heap_get db (Some pn)) (\<lambda>ps.
      res_bind (ig_obj_attr_set (Some pn) (Some ''size'') (Some sz) False db) (\<lambda>(_, db).
      if port = None then Inr (Tcl_ok (Tcl_list [Tcl_string (obj_id ps)]), [] :: log_msg list, db)
      else
        res_bind (heap_get db port) (\<lambda>qs.
        res_bind (ig_obj_attr_set port (Some ''size'') (Some sz) False db) (\<lambda>(_, db).
        Inr (Tcl_ok (Tcl_list [Tcl_string (obj_id ps), Tcl_string (obj_id qs)]), [], db))))))
     (\<lambda>(_, _, db'). grows db0 db')"
proof -
  obtain s where s: "heap db pn = Some s" using pin by blast
  have "holds (if port = None then Inr (Tcl_ok (Tcl_list [Tcl_string (obj_id s)]), [] :: log_msg list, db')
      else
        res_bind (heap_get db' port) (\<lambda>qs.
        res_bind (ig_obj_attr_set port (Some ''size'') (Some sz) False db') (\<lambda>(_, db).
        Inr (Tcl_ok (Tcl_list [Tcl_string (obj_id s), Tcl_string (obj_id qs)]), [], db))))
     (\<lambda>(_, _, db'). grows db0 db')"
    if g0: "grows db0 db'" and g1: "grows db db'" for db'
  proof (cases port)
    case (Some q)
    have q: "heap db' q \<noteq> None" using grows_live [OF g1 port [OF Some]] .
    then obtain t where t: "heap db' q = Some t" by blast
    have "holds (res_bind (ig_obj_attr_set (Some q) (Some ''size'') (Some sz) False db') (\<lambda>(_, db).
        Inr (Tcl_ok (Tcl_list [Tcl_string (obj_id s), Tcl_string (obj_id t)]), [] :: log_msg list, db)))
        (\<lambda>(_, _, db'). grows db0 db')"
      by (rule attr_set_then [OF g0 q]) simp
    then show ?thesis using Some t by (simp add: heap_get_def)
  qed (use g0 in simp)
  note this = attr_set_then [OF g pin, where f = "\<lambda>db'. if port = None
      then Inr (Tcl_ok (Tcl_list [Tcl_string (obj_id s)]), [] :: log_msg list, db')
      else
        res_bind (heap_get db' port) (\<lambda>qs.
        res_bind (ig_obj_attr_set port (Some ''size'') (Some sz) False db') (\<lambda>(_, db).
        Inr (Tcl_ok (Tcl_list [Tcl_string (obj_id s), Tcl_string (obj_id qs)]), [], db)))", OF this]
  then show ?thesis using s by (simp add: heap_get_def)
qed

lemma add_pin_null:
  assumes "pname = None \<or> v = None"
  shows "ig_lib_add_pin i pname v iv db = Inl NullDeref"
  using assms
  by (auto simp: ig_lib_add_pin_def ig_pin_new_def ig_obj_attr_set_def heap_get_def split: option.split)

lemma outcome_create_pin:
  assumes inv: "db_inv db"
  shows "tcl_outcome (T_create_pin iname pname v sz dir) db (ig_tclc_create_pin ti iname pname v sz dir db)"
proof -
  let ?sz = "case sz of None \<Rightarrow> ''1'' | Some s \<Rightarrow> s"
  consider (null) "iname = None" | (fail) nm where "iname = Some nm" "tables db Instances_by_name nm = None"
    | (inst) nm i where "iname = Some nm" "tables db Instances_by_name nm = Some i"
    by (cases iname; cases "tables db Instances_by_name (the iname)") auto
  then show ?thesis
  proof cases
    case null
    then show ?thesis by (simp add: ig_tclc_create_pin_def tcl_outcome_def)
  next
    case fail
    then show ?thesis by (simp add: ig_tclc_create_pin_def outcome_fail grows_refl [OF inv])
  next
    case inst
    have i: "type_at db i = Some IG_OBJ_INSTANCE"
      using object_lookup [OF inv inst(2)] by (metis entry_ok_def option.distinct(1) table_type.simps(4))
    then have cast: "ig_cast IG_OBJ_INSTANCE db (Some i) = Inr (Some i)"
      by (auto simp: type_at_Some ig_cast_def heap_get_def)
    note open_cmd = ig_tclc_create_pin_def Let_def inst option.case cast res_bind.simps
    show ?thesis
    proof (cases "pname = None \<or> v = None")
      case True
      then show ?thesis
        unfolding open_cmd using inst by (simp add: add_pin_null tcl_outcome_def)
    next
      case False
      then obtain pn vl where s: "pname = Some pn" "v = Some vl" by auto
      obtain pin db1 where p: "ig_lib_add_pin (Some i) (Some pn) (Some vl) (Some ''false'') db = Inr (pin, db1)"
        "grows db db1" "\<And>a. pin = Some a \<Longrightarrow> heap db1 a \<noteq> None"
        using makes_add_pin [OF inv i, of pn vl "Some ''false''"] by (auto simp: holds_iff makes_def)
      have inv1: "db_inv db1" by (rule grows_inv [OF p(2)])
      note open_cmd = open_cmd s p(1) prod.case
      show ?thesis
      proof (cases pin)
        case None
        then show ?thesis unfolding open_cmd by (simp add: outcome_fail p(2))
      next
        case (Some a)
        obtain si ib where si: "heap db1 i = Some si" "obj_body si = Instance ib"
          using grows_type_at [OF p(2) i] body_of_type(2) by blast
        obtain m where m: "inst_module ib = Some m" "type_at db1 m = Some IG_OBJ_MODULE"
          using body_live [OF inv1 si(1)] si(2) by auto
        obtain sm mb where sm: "heap db1 m = Some sm" "obj_body sm = Module mb" using body_of_type(1) [OF m(2)] by blast
        have f: "fetch as_instance db1 (Some i) = Inr ib" "fetch as_module db1 (Some m) = Inr mb"
          by (simp_all add: fetch_def heap_get_def si sm)
        obtain port db2 where q: "(if mod_resource mb then Inr (None, db1)
            else ig_lib_add_port (Some m) dir (Some pn) db1) = Inr (port, db2)" "makes db1 (port, db2)"
          using makes_add_port [OF inv1 m(2), of dir pn] makes_refl [OF inv1]
          by (cases "mod_resource mb") (auto simp: holds_iff)
        have g2: "grows db db2" using p(2) q(2) grows_trans by (auto simp: makes_def)
        have live: "heap db2 a \<noteq> None" using p(3) [OF Some] q(2) grows_live by (auto simp: makes_def)
        have "holds (res_bind (heap_get db2 (Some a)) (\<lambda>ps.
            res_bind (ig_obj_attr_set (Some a) (Some ''size'') (Some ?sz) False db2) (\<lambda>(_, db).
            if port = None then Inr (Tcl_ok (Tcl_list [Tcl_string (obj_id ps)]), [] :: log_msg list, db)
            else
              res_bind (heap_get db port) (\<lambda>qs.
              res_bind (ig_obj_attr_set port (Some ''size'') (Some ?sz) False db) (\<lambda>(_, db).
              Inr (Tcl_ok (Tcl_list [Tcl_string (obj_id ps), Tcl_string (obj_id qs)]), [], db))))))
           (\<lambda>(_, _, db'). grows db db')"
          by (rule pin_sizes [OF g2 live]) (use q(2) in \<open>auto simp: makes_def\<close>)
        note done_ = outcome_grows [OF this]
        show ?thesis
          unfolding open_cmd Some f m(1) res_bind.simps q(1) prod.case
          by (simp only: option.distinct if_False) (simp add: done_ outcome_fail g2)
      qed
    qed
  qed
qed

end
