(* ===== verification/Ig_Tcl_Wire.thy ===== *)
theory Ig_Tcl_Wire
  imports Ig_Tcl_Run
begin

text \<open>
  The commands \<open>connect\<close> and \<open>parameter\<close>: their endpoints, what becomes of the net or generic when
  the library reports a failure, and the theorem over all commands.
\<close>

section \<open>Endpoints\<close>

lemma endpoint_info_obj: "endpoint_info p ep dir = Some c \<Longrightarrow> p = Some (ci_obj c)"
  by (auto simp: endpoint_info_def ig_lib_connection_info_new_def split: if_splits option.splits)

lemma endpoint_infos_objs:
  "endpoint_infos db wi dir eps acc logs = (Inr li, logs') \<Longrightarrow>
     \<forall>c \<in> set li. c \<in> set acc \<or> (\<exists>ept \<in> set eps. endpoint_obj db ept = Some (ci_obj c))"
proof (induction eps arbitrary: acc logs)
  case (Cons ept eps)
  obtain ep msgs where ep: "ig_tclc_connection_parse ept = (ep, msgs)" by (cases "ig_tclc_connection_parse ept")
  obtain c where c: "endpoint_info (tables db Objects_by_id (ep_id ep)) ep dir = Some c"
    using Cons.prems by (auto simp: ep Let_def split: option.splits)
  let ?c = "if wi then c\<lparr>ci_invert := ep_inv ep\<rparr> else c"
  have "endpoint_infos db wi dir eps (?c # acc) (logs @ msgs) = (Inr li, logs')"
    using Cons.prems c by (simp add: ep Let_def)
  from Cons.IH [OF this] have IH: "\<forall>x \<in> set li. x = ?c \<or> x \<in> set acc \<or> (\<exists>ept \<in> set eps. endpoint_obj db ept = Some (ci_obj x))"
    by auto
  have "endpoint_obj db ept = Some (ci_obj ?c)"
    using endpoint_info_obj [OF c] by (simp add: endpoint_obj_def ep)
  with IH show ?case by auto
qed auto

lemma endpoint_live:
  assumes "db_inv db" and "endpoint_obj db ept = Some a"
  shows "heap db a \<noteq> None"
  using object_lookup [OF assms(1) assms(2) [unfolded endpoint_obj_def]] by fastforce

text \<open>An endpoint of another type ends in the internal error of the hierarchy walk.\<close>

lemma gen_hierarchy_bad:
  assumes live: "heap db (ci_obj c) \<noteq> None" and bad: "\<not> endpoint_ok db (ci_obj c)"
  shows "ig_lib_gen_hierarchy db c = Inl InternalError"
proof -
  obtain s where s: "heap db (ci_obj c) = Some s" using live by blast
  have "as_instance (obj_body s) = None" "as_module (obj_body s) = None"
    using bad s by (cases "obj_body s"; auto simp: endpoint_ok_def mod_skel_def inst_skel_def)+
  then show ?thesis
    using s by (simp add: ig_lib_gen_hierarchy_def heap_get_def gen_hierarchy_loop.simps)
qed

lemma gen_hierarchies_bad:
  assumes inv: "hier_inv db"
  shows "\<forall>c \<in> set li. heap db (ci_obj c) \<noteq> None \<Longrightarrow> \<exists>c \<in> set li. \<not> endpoint_ok db (ci_obj c) \<Longrightarrow>
    gen_hierarchies db li acc e = Inl InternalError"
proof (induction li arbitrary: acc e)
  case (Cons c li)
  let ?c = "c\<lparr>ci_is_explicit := True\<rparr>"
  show ?case
  proof (cases "endpoint_ok db (ci_obj c)")
    case True
    then obtain a l where "ig_lib_gen_hierarchy db ?c = Inr (a # l)"
      using gen_hierarchy_ok [OF inv, of ?c] by auto
    moreover have "gen_hierarchies db li ((a, l) # acc) e = Inl InternalError"
      using Cons True by auto
    ultimately show ?thesis by simp
  next
    case False
    then show ?thesis using gen_hierarchy_bad [of db ?c] Cons.prems(1) by simp
  qed
qed simp

lemma connection_bad:
  assumes inv: "db_inv db" and live: "\<forall>c \<in> set (source_infos src @ li). heap db (ci_obj c) \<noteq> None"
    and bad: "\<exists>c \<in> set (source_infos src @ li). \<not> endpoint_ok db (ci_obj c)"
  shows "ig_lib_connection nm src li db = Inl InternalError"
proof (cases "\<exists>c \<in> set (source_infos src). \<not> endpoint_ok db (ci_obj c)")
  case True
  then show ?thesis
    using gen_hierarchies_bad [OF db_invD(2) [OF inv], of "source_infos src"] live
    by (simp add: ig_lib_connection_def source_infos_def)
next
  case False
  have "top_all (node_ok db) []" by (simp add: top_all_def)
  then obtain hs where "gen_hierarchies db (source_infos src) [] False = Inr (hs, False)"
    using gen_hierarchies_ok [OF db_invD(2) [OF inv], of "source_infos src" "[]" False] False
    by (auto simp: holds_iff)
  moreover have "gen_hierarchies db li hs False = Inl InternalError"
    using gen_hierarchies_bad [OF db_invD(2) [OF inv], of li] live bad False by auto
  ultimately show ?thesis by (simp add: ig_lib_connection_def source_infos_def)
qed

lemma parameter_bad:
  assumes inv: "db_inv db" and live: "\<forall>c \<in> set li. heap db (ci_obj c) \<noteq> None"
    and bad: "\<exists>c \<in> set li. \<not> endpoint_ok db (ci_obj c)"
  shows "ig_lib_parameter nm dv li db = Inl InternalError"
  using gen_hierarchies_bad [OF db_invD(2) [OF inv] live bad] by (simp add: ig_lib_parameter_def)

lemma not_endpoint_ok:
  assumes "endpoint_obj db ept = Some (ci_obj c)" and "\<not> endpoint_ok db (ci_obj c)"
  shows "bad_endpoint db ept"
  using assms endpoint_type by (auto simp: bad_endpoint_def)

section \<open>What the library gives back\<close>

text \<open>
  The outcome of the library call: refused without a net, the freed tree, or a net or generic,
  whose success is whether it has members.
\<close>

definition group_result ::
    "(ig_body \<Rightarrow> addr list option) \<Rightarrow> ig_table \<Rightarrow> string \<Rightarrow> ig_lib_db \<Rightarrow> (bool \<times> ptr \<times> ig_lib_db) res \<Rightarrow> bool" where
  "group_result members t nm db r \<longleftrightarrow>
     r = Inr (False, None, db) \<or> r = Inl UseAfterFree \<and> tables db t nm = None \<or>
     holds r (\<lambda>(ok, p, db'). grows db db' \<and>
       (\<exists>n s objs. p = Some n \<and> heap db' n = Some s \<and> members (obj_body s) = Some objs \<and>
          (ok \<longleftrightarrow> objs \<noteq> []) \<and> tables db' t nm = Some n))"

fun members_of_net :: "ig_body \<Rightarrow> addr list option" where
  "members_of_net (Net n) = Some (net_objects n)"
| "members_of_net _ = None"

fun members_of_generic :: "ig_body \<Rightarrow> addr list option" where
  "members_of_generic (Generic g) = Some (generic_objects g)"
| "members_of_generic _ = None"

lemma members_of_Some:
  "members_of_net b = Some objs \<longleftrightarrow> (\<exists>n. b = Net n \<and> net_objects n = objs)"
  "members_of_generic b = Some objs \<longleftrightarrow> (\<exists>g. b = Generic g \<and> generic_objects g = objs)"
  by (cases b; auto)+

lemma connection_group:
  assumes inv: "db_inv db" and ok: "\<forall>c \<in> set (source_infos src @ li). endpoint_ok db (ci_obj c)"
  shows "group_result members_of_net Nets_by_name nm db (ig_lib_connection nm src li db)"
proof -
  have "\<forall>c \<in> set (source_infos src). info_ok db c" "\<forall>c \<in> set li. info_ok db c"
    using ok by (auto simp: info_ok_def)
  from connection_result [OF inv this, of nm] show ?thesis
    by (fastforce simp: group_result_def holds_iff body_at_def
        split: if_splits option.splits reduce_result.splits sum.splits)
qed

lemma parameter_group:
  assumes inv: "db_inv db" and ok: "\<forall>c \<in> set li. endpoint_ok db (ci_obj c)"
  shows "group_result members_of_generic Generics_by_name nm db (ig_lib_parameter nm (Some v) li db)"
proof -
  have "\<forall>c \<in> set li. info_ok db c" using ok by (auto simp: info_ok_def)
  from parameter_result [OF inv this, of nm v] show ?thesis
    by (fastforce simp: group_result_def holds_iff body_at_def
        split: if_splits option.splits reduce_result.splits sum.splits)
qed

text \<open>Freeing an empty net or generic leaves the table entries behind.\<close>

lemma net_free_empty:
  assumes "heap db n = Some s" and "members_of_net (obj_body s) = Some []"
  shows "\<exists>db'. ig_net_free u (Some n) db = Inr db' \<and> heap db' n = None \<and> tables db' = tables db"
  using assms
  by (auto simp: ig_net_free_def fetch_def heap_get_def members_of_Some ig_obj_free_def child_queue_unref_def
      slice_free_def put_def)

lemma generic_free_empty:
  assumes "heap db n = Some s" and "members_of_generic (obj_body s) = Some []"
  shows "\<exists>db'. ig_generic_free u (Some n) db = Inr db' \<and> heap db' n = None \<and> tables db' = tables db"
  using assms
  by (auto simp: ig_generic_free_def fetch_def heap_get_def members_of_Some ig_obj_free_def child_queue_unref_def
      slice_free_def put_def)

lemma set_sizes_grows:
  assumes g: "grows db0 db" and n: "heap db n = Some s" "obj_body s = Net nb"
  shows "holds (set_sizes n sz db) (\<lambda>db'. grows db0 db' \<and> heap db' n \<noteq> None)"
  unfolding set_sizes_def
proof (rule attr_set_then [OF g])
  show "heap db n \<noteq> None" using n(1) by simp
next
  fix db1 assume g1: "grows db0 db1" and g': "grows db db1"
  have "type_at db1 n = Some IG_OBJ_NET" using grows_type_at [OF g', of n IG_OBJ_NET] n by (simp add: type_at_def obj_type_def)
  then obtain s1 nb1 where s1: "heap db1 n = Some s1" "obj_body s1 = Net nb1"
    by (auto simp: type_at_def obj_type_def elim: body_type.elims)
  have q: "queue_ok (type_at db1) net_types (net_objects nb1)"
    using body_live [OF grows_inv [OF g1] s1(1)] s1(2) by simp
  have "holds (res_fold (\<lambda>obj db. res_bind (ig_obj_attr_set (Some obj) (Some ''size'') (Some sz) False db)
           (\<lambda>(_, db). Inr db)) (net_objects nb1) db1) (\<lambda>db'. grows db0 db' \<and> grows db1 db')"
  proof (rule holds_res_fold)
    show "grows db0 db1 \<and> grows db1 db1" using g1 grows_refl [OF grows_inv [OF g1]] by simp
  next
    fix x db2 assume x: "x \<in> set (net_objects nb1)" and g2: "grows db0 db2 \<and> grows db1 db2"
    have "heap db1 x \<noteq> None" using q x by (auto simp: queue_ok_def type_at_def)
    then have live: "heap db2 x \<noteq> None" using g2 grows_live by blast
    show "holds (res_bind (ig_obj_attr_set (Some x) (Some ''size'') (Some sz) False db2) (\<lambda>(_, db). Inr db))
        (\<lambda>db'. grows db0 db' \<and> grows db1 db')"
      by (rule attr_set_then [OF conjunct1 [OF g2] live]) (use g2 grows_trans in auto)
  qed
  then show "holds (res_bind (fetch as_net db1 (Some n)) (\<lambda>n.
      res_fold (\<lambda>obj db. res_bind (ig_obj_attr_set (Some obj) (Some ''size'') (Some sz) False db)
                          (\<lambda>(_, db). Inr db)) (net_objects n) db1)) (\<lambda>db'. grows db0 db' \<and> heap db' n \<noteq> None)"
    using s1 by (auto simp: fetch_def heap_get_def elim!: holds_mono dest: grows_live)
qed

section \<open>The commands\<close>

lemma outcome_ends:
  assumes "heap db' n = None" and "tables db' t k = Some n" and "signal_command c"
  shows "tcl_outcome c db (tcl_fail ti msg logs db')"
  using assms by (auto simp: tcl_outcome_def tcl_fail_def tcl_error_msg_def dangling_def)

lemma outcome_connect_end:
  assumes inv: "db_inv db" and r: "group_result members_of_net Nets_by_name nm db r"
  shows "tcl_outcome (T_connect (Some nm) sz from to bd) db
    (res_bind r (\<lambda>(ok, gen_net, db).
       if \<not> ok then res_bind (ig_net_free u gen_net db) (\<lambda>db. tcl_fail ti msg logs db)
       else res_bind (set_sizes (the gen_net) v db) (\<lambda>db. tcl_id_result gen_net logs db)))"
proof -
  consider (refused) "r = Inr (False, None, db)" | (freed) "r = Inl UseAfterFree" "tables db Nets_by_name nm = None"
    | (net) db' n s objs where "r = Inr (objs \<noteq> [], Some n, db')" "grows db db'" "heap db' n = Some s"
        "members_of_net (obj_body s) = Some objs" "tables db' Nets_by_name nm = Some n"
    using r by (auto simp: group_result_def holds_iff)
  then show ?thesis
  proof cases
    case refused
    then show ?thesis by (simp add: ig_net_free_def outcome_fail grows_refl [OF inv])
  next
    case freed
    then show ?thesis by (simp add: tcl_outcome_def)
  next
    case net
    show ?thesis
    proof (cases "objs = []")
      case True
      then obtain db2 where "ig_net_free u (Some n) db' = Inr db2" "heap db2 n = None" "tables db2 = tables db'"
        using net_free_empty [OF net(3)] net(4) by blast
      then show ?thesis using net True by (simp add: outcome_ends [of db2 n Nets_by_name nm])
    next
      case False
      obtain nb where "obj_body s = Net nb" using net(4) by (auto simp: members_of_Some)
      from set_sizes_grows [OF net(2,3) this, of v]
      have "holds (res_bind (set_sizes n v db') (\<lambda>db. tcl_id_result (Some n) logs db)) (\<lambda>(_, _, db'). grows db db')"
        by (auto simp: tcl_id_result_def heap_get_def elim!: holds_mono)
      then show ?thesis using net(1) False by (simp add: outcome_grows)
    qed
  qed
qed

lemma outcome_parameter_end:
  assumes inv: "db_inv db" and r: "group_result members_of_generic Generics_by_name nm db r"
  shows "tcl_outcome (T_parameter (Some nm) v eps) db
    (res_bind r (\<lambda>(ok, gen_generic, db).
       if \<not> ok then res_bind (ig_generic_free u gen_generic db) (\<lambda>db. tcl_fail ti msg logs db)
       else tcl_id_result gen_generic logs db))"
proof -
  consider (refused) "r = Inr (False, None, db)" | (freed) "r = Inl UseAfterFree" "tables db Generics_by_name nm = None"
    | (gen) db' n s objs where "r = Inr (objs \<noteq> [], Some n, db')" "grows db db'" "heap db' n = Some s"
        "members_of_generic (obj_body s) = Some objs" "tables db' Generics_by_name nm = Some n"
    using r by (auto simp: group_result_def holds_iff)
  then show ?thesis
  proof cases
    case refused
    then show ?thesis by (simp add: ig_generic_free_def outcome_fail grows_refl [OF inv])
  next
    case freed
    then show ?thesis by (simp add: tcl_outcome_def)
  next
    case gen
    show ?thesis
    proof (cases "objs = []")
      case True
      then obtain db2 where "ig_generic_free u (Some n) db' = Inr db2" "heap db2 n = None" "tables db2 = tables db'"
        using generic_free_empty [OF gen(3)] gen(4) by blast
      then show ?thesis using gen True by (simp add: outcome_ends [of db2 n Generics_by_name nm])
    next
      case False
      then show ?thesis using gen by (simp add: tcl_id_result_def heap_get_def tcl_outcome_def)
    qed
  qed
qed

lemma outcome_connect:
  assumes inv: "db_inv db"
  shows "tcl_outcome (T_connect nmo sz from to bd) db (ig_tclc_connect ti nmo sz from to bd db)"
proof (cases "connect_option_error from nmo to bd")
  case (Some err)
  then show ?thesis by (simp add: ig_tclc_connect_def outcome_fail grows_refl [OF inv])
next
  case None
  then obtain nm where nm: "nmo = Some nm" by (cases nmo) (auto simp: connect_option_error_def Let_def split: if_splits)
  obtain source logs where s: "(case from of None \<Rightarrow> (Inr [], [])
      | Some f \<Rightarrow> endpoint_infos db True IG_LCDIR_UP [f] [] []) = (source, logs)" by force
  obtain targets logs' where t: "(if to \<noteq> [] then endpoint_infos db True IG_LCDIR_DEFAULT to [] logs
      else endpoint_infos db True IG_LCDIR_BIDIR bd [] logs) = (targets, logs')" by force
  note open_cmd = ig_tclc_connect_def None option.case Let_def s t prod.case
  have ref: "tcl_outcome c db (tcl_fail ti msg l db)" for c msg l by (rule outcome_fail) (rule grows_refl [OF inv])
  show ?thesis
  proof (cases source)
    case (Inl i)
    then show ?thesis unfolding open_cmd by (simp add: ref)
  next
    case src: (Inr src)
    show ?thesis
    proof (cases targets)
      case (Inl i)
      then show ?thesis unfolding open_cmd src by (simp add: ref)
    next
      case trg: (Inr li)
      let ?src = "case src of [] \<Rightarrow> None | c # _ \<Rightarrow> Some c"
      let ?all = "set (source_infos ?src @ li)" and ?eps = "set_option from \<union> set to \<union> set bd"
      have "\<forall>c \<in> set src. \<exists>ept \<in> ?eps. endpoint_obj db ept = Some (ci_obj c)"
        using s src by (cases "from") (auto dest!: endpoint_infos_objs simp del: endpoint_infos.simps)
      moreover have "\<forall>c \<in> set li. \<exists>ept \<in> ?eps. endpoint_obj db ept = Some (ci_obj c)"
        using t trg by (auto split: if_splits dest!: endpoint_infos_objs simp del: endpoint_infos.simps)
      moreover have "c \<in> set (source_infos ?src) \<Longrightarrow> \<exists>c' \<in> set src. ci_obj c = ci_obj c'" for c
        by (cases src) (auto simp: source_infos_def)
      ultimately have named: "\<forall>c \<in> ?all. \<exists>ept \<in> ?eps. endpoint_obj db ept = Some (ci_obj c)" by fastforce
      have "tcl_outcome (T_connect (Some nm) sz from to bd) db
        (res_bind (ig_lib_connection nm ?src li db) (\<lambda>(ok, gen_net, db).
           if \<not> ok then res_bind (ig_net_free u gen_net db) (\<lambda>db. tcl_fail ti msg logs' db)
           else res_bind (set_sizes (the gen_net) v db) (\<lambda>db. tcl_id_result gen_net logs' db)))" for u msg v
      proof (cases "\<forall>c \<in> ?all. endpoint_ok db (ci_obj c)")
        case True
        show ?thesis by (rule outcome_connect_end [OF inv connection_group [OF inv True]])
      next
        case False
        have "\<forall>c \<in> ?all. heap db (ci_obj c) \<noteq> None" using named endpoint_live [OF inv] by meson
        moreover have "\<exists>ept \<in> ?eps. bad_endpoint db ept" using False named not_endpoint_ok by meson
        ultimately show ?thesis using connection_bad [OF inv] False by (auto simp: tcl_outcome_def)
      qed
      then show ?thesis unfolding nm open_cmd [unfolded nm] src trg sum.case option.sel by simp
    qed
  qed
qed

lemma outcome_parameter:
  assumes inv: "db_inv db"
  shows "tcl_outcome (T_parameter nmo vo eps) db (ig_tclc_parameter ti nmo vo eps db)"
proof (cases "parameter_option_error nmo vo eps")
  case (Some err)
  then show ?thesis by (simp add: ig_tclc_parameter_def outcome_fail grows_refl [OF inv])
next
  case None
  then obtain nm v where nm: "nmo = Some nm" "vo = Some v"
    by (cases nmo; cases vo) (auto simp: parameter_option_error_def Let_def split: if_splits)
  obtain targets logs where t: "endpoint_infos db False IG_LCDIR_DEFAULT eps [] (ig_tclc_check_name_and_warn nmo)
      = (targets, logs)" by force
  note open_cmd = ig_tclc_parameter_def None option.case Let_def t prod.case
  show ?thesis
  proof (cases targets)
    case (Inl i)
    then show ?thesis unfolding open_cmd by (simp add: outcome_fail grows_refl [OF inv])
  next
    case trg: (Inr li)
    have named: "\<forall>c \<in> set li. \<exists>ept \<in> set eps. endpoint_obj db ept = Some (ci_obj c)"
      using t trg by (auto dest!: endpoint_infos_objs simp del: endpoint_infos.simps)
    have "tcl_outcome (T_parameter (Some nm) vo eps) db
      (res_bind (ig_lib_parameter nm (Some v) li db) (\<lambda>(ok, gen_generic, db).
         if \<not> ok then res_bind (ig_generic_free u gen_generic db) (\<lambda>db. tcl_fail ti msg logs db)
         else tcl_id_result gen_generic logs db))" for u msg
    proof (cases "\<forall>c \<in> set li. endpoint_ok db (ci_obj c)")
      case True
      show ?thesis by (rule outcome_parameter_end [OF inv parameter_group [OF inv True]])
    next
      case False
      have "\<forall>c \<in> set li. heap db (ci_obj c) \<noteq> None" using named endpoint_live [OF inv] by meson
      moreover have "\<exists>ept \<in> set eps. bad_endpoint db ept" using False named not_endpoint_ok by meson
      ultimately show ?thesis using parameter_bad [OF inv] False by (auto simp: tcl_outcome_def)
    qed
    then show ?thesis unfolding nm open_cmd [unfolded nm] trg sum.case option.sel by simp
  qed
qed

theorem tcl_exec_outcome:
  assumes inv: "db_inv db" and go: "orders_ok go" and c: "c \<noteq> T_reset"
  shows "tcl_outcome c db (tcl_exec ti go c db)"
proof (cases c)
  case (T_create_module nm ilm resource)
  then show ?thesis by (simp add: outcome_grows outcome_create_module [OF inv])
next
  case (T_create_instance nm om pm)
  then show ?thesis by (simp add: outcome_grows outcome_create_instance [OF inv])
next
  case (T_add_codesection nm code pm)
  then show ?thesis by (simp add: outcome_grows outcome_add_codesection [OF inv])
next
  case (T_add_regfile rf en re to)
  then show ?thesis by (simp add: outcome_add_regfile [OF inv])
next
  case (T_set_attribute on an av al)
  then show ?thesis by (simp add: outcome_set_attribute [OF inv])
next
  case (T_get_attribute on an dv al ex)
  then show ?thesis by (simp add: outcome_grows reads_grows [OF inv] reads_get_attribute [OF inv])
next
  case (T_get_objs cmd all cn pn)
  have "reads db (ig_tclc_get_objs_of_obj ti (go_values go) cmd all cn pn db)"
    by (rule reads_get_objs [OF inv]) (use go in \<open>simp add: orders_ok_def\<close>)
  then show ?thesis using T_get_objs by (simp add: outcome_grows reads_grows [OF inv])
next
  case (T_get_netgen_objects cmd pn)
  then show ?thesis by (simp add: outcome_grows reads_grows [OF inv] reads_get_netgen [OF inv])
next
  case (T_connect nm sz fr to bd)
  then show ?thesis by (simp add: outcome_connect [OF inv])
next
  case (T_parameter nm v eps)
  then show ?thesis by (simp add: outcome_parameter [OF inv])
next
  case (T_create_pin iname pname v sz dir)
  then show ?thesis by (simp add: outcome_create_pin [OF inv])
next
  case T_reset
  with c show ?thesis by simp
qed

section \<open>Sessions\<close>

text \<open>
  A script is a sequence of commands. A state is left behind when a command does not return; the
  relation stops at a dangling entry, where the next lookup of the name reads freed memory.
\<close>

inductive tcl_step :: "tcl_interp \<Rightarrow> glib_orders \<Rightarrow> ig_lib_db \<Rightarrow> tcl_command \<Rightarrow> ig_lib_db \<Rightarrow> bool"
  for ti go where
  command: "c \<noteq> T_reset \<Longrightarrow> tcl_exec ti go c db = Inr (result, logs, db') \<Longrightarrow> \<not> dangling db' \<Longrightarrow>
     tcl_step ti go db c db'"

inductive tcl_reachable :: "tcl_interp \<Rightarrow> glib_orders \<Rightarrow> ig_lib_db \<Rightarrow> bool" for ti go where
  tcl_start: "tcl_reachable ti go ig_lib_db_new"
| tcl_next: "tcl_reachable ti go db \<Longrightarrow> tcl_step ti go db c db' \<Longrightarrow> tcl_reachable ti go db'"

inductive_cases tcl_stepE: "tcl_step ti go db c db'"
inductive_simps tcl_step_iff: "tcl_step ti go db c db'"

lemma tcl_step_grows:
  assumes "db_inv db" and "orders_ok go" and "tcl_step ti go db c db'"
  shows "grows db db'"
  using assms(3) tcl_exec_outcome [OF assms(1,2), of c ti] by (auto simp: tcl_step_iff tcl_outcome_def)

lemma tcl_reachable_inv: "tcl_reachable ti go db \<Longrightarrow> orders_ok go \<Longrightarrow> db_inv db"
proof (induction rule: tcl_reachable.induct)
  case tcl_start
  show ?case by (rule db_inv_new)
next
  case (tcl_next db c db')
  then show ?case using tcl_step_grows [of db go ti c db'] by (simp add: grows_def)
qed

lemma grows_sound: "grows db db' \<Longrightarrow> \<not> dangling db'"
  using object_lookup [OF grows_inv] by (fastforce simp: dangling_def)

lemma tcl_reachable_grows:
  assumes "tcl_reachable ti go db" and "c \<noteq> T_reset" and "tcl_exec ti go c db = Inr (result, logs, db')"
    and "grows db db'"
  shows "tcl_reachable ti go db'"
  using tcl_reachable.tcl_next [OF assms(1) tcl_step.command [OF assms(2,3) grows_sound [OF assms(4)]]] .

end
