(* ===== verification/Ig_Tcl_Spec.thy ===== *)
theory Ig_Tcl_Spec
  imports Ig_Tcl_Wire "HOL-Library.Char_ord" "HOL-Library.List_Lexorder"
begin

text \<open>
  What a Tcl script sees: properties of the commands on every database a session can reach.
\<close>

section \<open>An interpreter and orders for the witnesses\<close>

text \<open>Hash tables that list their keys in lexicographic order.\<close>

definition sorted_orders :: glib_orders where
  "sorted_orders = \<lparr>go_keys = (\<lambda>m. sorted_list_of_set (dom m)), go_values = (\<lambda>m. sorted_list_of_set (ran m)),
                    go_table = (\<lambda>m. sorted_list_of_set (dom m))\<rparr>"

lemma sorted_orders_ok: "orders_ok sorted_orders"
  by (simp add: orders_ok_def sorted_orders_def finite_ran)

definition example_interp :: tcl_interp where
  "example_interp = \<lparr>ti_script = Some ''create_module'', ti_bytes = (\<lambda>_. '''')\<rparr>"

definition session_db :: ig_lib_db where
  "session_db = (case tcl_exec example_interp sorted_orders (T_create_module (Some ''top'') False False) ig_lib_db_new of
                   Inr (_, _, db) \<Rightarrow> db | Inl _ \<Rightarrow> ig_lib_db_new)"

lemma create_module_result:
  assumes inv: "db_inv db" and free: "tables db Modules_by_name nm = None"
  shows "holds (ig_tclc_create_module ti (Some nm) ilm resource db) (\<lambda>(r, logs, db').
     r = Tcl_ok (Tcl_string (''module##'' @ nm)) \<and> grows db db' \<and>
     tables db' = registered Modules_by_name Modules_by_id (next_addr db) nm (module_id nm) db \<and>
     mod_skel db' = (mod_skel db)(next_addr db \<mapsto>
         (resource, if resource then None else Some (Suc (next_addr db)), [])))"
proof -
  obtain db' where r: "ig_lib_add_module (Some nm) ilm resource db = Inr (Some (next_addr db), db')" "grows db db'"
    "tables db' = registered Modules_by_name Modules_by_id (next_addr db) nm (module_id nm) db"
    "mod_skel db' = (mod_skel db)(next_addr db \<mapsto>
         (resource, if resource then None else Some (Suc (next_addr db)), []))"
    using add_module_result [OF inv, of nm ilm resource] free by (auto simp: holds_iff)
  have "tables db' Modules_by_id (module_id nm) = Some (next_addr db)" by (simp add: r(3) registered_def)
  then obtain s where "heap db' (next_addr db) = Some s" "entry_ok Modules_by_id (module_id nm) s"
    using object_lookup [OF grows_inv [OF r(2)]] by blast
  then show ?thesis
    using r by (simp add: ig_tclc_create_module_def tcl_id_result_def heap_get_def entry_ok_def module_id_def)
qed

lemma session_step:
  "tcl_step example_interp sorted_orders ig_lib_db_new (T_create_module (Some ''top'') False False) session_db \<and>
   tables session_db = registered Modules_by_name Modules_by_id 0 ''top'' (module_id ''top'') ig_lib_db_new \<and>
   mod_skel session_db 0 = Some (False, Some 1, [])"
proof -
  have "tables ig_lib_db_new Modules_by_name ''top'' = None" "next_addr ig_lib_db_new = 0"
    by (simp_all add: ig_lib_db_new_def)
  with create_module_result [OF db_inv_new, of "''top''" example_interp False False]
  obtain r logs where x: "tcl_exec example_interp sorted_orders (T_create_module (Some ''top'') False False) ig_lib_db_new =
      Inr (r, logs, session_db)" "grows ig_lib_db_new session_db"
      "tables session_db = registered Modules_by_name Modules_by_id 0 ''top'' (module_id ''top'') ig_lib_db_new"
      "mod_skel session_db 0 = Some (False, Some 1, [])"
    by (auto simp: holds_iff session_db_def)
  then show ?thesis using grows_sound [OF x(2)] tcl_step.command [OF _ x(1)] by simp
qed

lemma session_reachable: "tcl_reachable example_interp sorted_orders session_db"
  using tcl_reachable.tcl_next [OF tcl_reachable.tcl_start] session_step by blast

section \<open>No object is lost\<close>



section \<open>Sessions\<close>



text \<open>C2. Every command but \<open>reset\<close>, whatever its arguments, either returns a result on a database the
  session can go on with, in which no object has vanished or changed its id, name or type; or it is
  a failing \<open>connect\<close> or \<open>parameter\<close> that returns an error and leaves a table entry leading to freed
  memory; or it ends in one of the faults \<open>tcl_fault\<close> names.\<close>

theorem commands_return:
  assumes "tcl_reachable ti go db" and "orders_ok go" and "c \<noteq> T_reset"
  shows "case tcl_exec ti go c db of
       Inl e \<Rightarrow> tcl_fault c db e
     | Inr (result, logs, db') \<Rightarrow> tcl_reachable ti go db' \<and> keeps db db' \<or>
         signal_command c \<and> dangling db' \<and> (\<exists>msg. result = Tcl_error msg)"
proof -
  note out = tcl_exec_outcome [OF tcl_reachable_inv [OF assms(1,2)] assms(2,3), of ti]
  show ?thesis
  proof (cases "tcl_exec ti go c db")
    case (Inl e)
    then show ?thesis using out by (simp add: tcl_outcome_def)
  next
    case (Inr r)
    obtain res logs db' where r: "r = (res, logs, db')" by (cases r)
    have "tcl_reachable ti go db'" if "grows db db'"
      using tcl_reachable_grows [OF assms(1,3) Inr [unfolded r] that] .
    then show ?thesis using out Inr r by (auto simp: tcl_outcome_def grows_def)
  qed
qed

theorem commands_return_witness:
  "case tcl_exec example_interp sorted_orders (T_get_attribute (Some ''module##top'') None None [] False) session_db of
     Inl e \<Rightarrow> False | Inr (result, logs, db') \<Rightarrow> tcl_reachable example_interp sorted_orders db'"
  using commands_return [OF session_reachable sorted_orders_ok,
      of "T_get_attribute (Some ''module##top'') None None [] False"]
  by (auto split: sum.split)

section \<open>Finding objects\<close>

lemma cmd_chomp_namespace [simp]: "cmd_chomp (''ig::db::'' @ s) = cmd_chomp s"
proof -
  have "cmd_chomp (''ig::db::'' @ s) = cmd_chomp (''db::'' @ s)" by (subst cmd_chomp.simps) simp
  also have "\<dots> = cmd_chomp s" by (subst cmd_chomp.simps) simp
  finally show ?thesis .
qed

lemma chomp_names:
  "cmd_chomp ''get_ports'' = ''get_ports''" "cmd_chomp ''get_declarations'' = ''get_declarations''"
  "cmd_chomp ''get_parameters'' = ''get_parameters''" "cmd_chomp ''get_codesections'' = ''get_codesections''"
  "cmd_chomp ''get_pins'' = ''get_pins''" "cmd_chomp ''get_adjustments'' = ''get_adjustments''"
  "cmd_chomp ''get_modules'' = ''get_modules''" "cmd_chomp ''get_instances'' = ''get_instances''"
  "cmd_chomp ''get_instantiation'' = ''get_instantiation''" "cmd_chomp ''get_regfiles'' = ''get_regfiles''"
  "cmd_chomp ''get_regfile_entries'' = ''get_regfile_entries''" "cmd_chomp ''get_regfile_regs'' = ''get_regfile_regs''"
  "cmd_chomp ''get_nets'' = ''get_nets''" "cmd_chomp ''get_generics'' = ''get_generics''"
  by (simp_all add: cmd_chomp.simps)

text \<open>The names under which the shared function is registered and the list each of them asks for.\<close>

definition object_lists :: "(string \<times> ig_tclc_get_objs_of_obj_version) list" where
  "object_lists =
     [(''get_modules'', IG_TOOOV_MODULES), (''get_instances'', IG_TOOOV_INSTANCES),
      (''get_instantiation'', IG_TOOOV_INSTANTIATION), (''get_ports'', IG_TOOOV_PORTS),
      (''get_parameters'', IG_TOOOV_PARAMS), (''get_declarations'', IG_TOOOV_DECLS),
      (''get_codesections'', IG_TOOOV_CODE), (''get_pins'', IG_TOOOV_PINS),
      (''get_adjustments'', IG_TOOOV_ADJ), (''get_regfiles'', IG_TOOOV_REGFILES),
      (''get_regfile_entries'', IG_TOOOV_RF_ENTRIES), (''get_regfile_regs'', IG_TOOOV_RF_REGS),
      (''get_nets'', IG_TOOOV_NETS), (''get_generics'', IG_TOOOV_GENERICS)]"

text \<open>Every name under which the shared function of the listing commands is registered is one it
  recognises, each as the list of its name; no registered command ends in the internal error of an
  unknown one.\<close>

theorem registered_lists:
  "map (\<lambda>(n, f). (n, ig_tclc_get_objs_of_obj_version_from_cmd n))
       (filter (\<lambda>(n, f). f = H_get_objs_of_obj) ig_add_tcl_commands) =
     map (\<lambda>(n, v). (''ig::db::'' @ n, v)) object_lists"
  by (simp add: ig_add_tcl_commands_def lib_namespace_def log_namespace_def object_lists_def
      ig_tclc_get_objs_of_obj_version_from_cmd_def cmd_chomp_namespace [of "_ # _", simplified] chomp_names)

definition ids_at :: "ig_lib_db \<Rightarrow> addr list \<Rightarrow> tcl_value" where
  "ids_at db q = Tcl_list (map (\<lambda>a. Tcl_string (obj_id (the (heap db a)))) q)"

lemma child_ids_eq:
  "live_list db (map Some q) \<Longrightarrow>
     child_ids db (map Some q) acc = Inr (acc @ map (\<lambda>a. Tcl_string (obj_id (the (heap db a)))) q)"
  by (induction q arbitrary: acc) (auto simp: live_list_def heap_get_def)

lemma get_objs_of:
  assumes inv: "db_inv db" and v: "(n, version) \<in> set object_lists"
    and ch: "child_list values version True None (Some pn) db = Inr (Inr (map Some q))"
    and live: "live_list db (map Some q)"
  shows "ig_tclc_get_objs_of_obj ti values (''ig::db::'' @ n) all None (Some pn) db = Inr (Tcl_ok (ids_at db q), [], db)"
proof -
  have "ig_tclc_get_objs_of_obj_version_from_cmd (''ig::db::'' @ n) = version" "version \<noteq> IG_TOOOV_INVALID"
    using v by (auto simp: object_lists_def ig_tclc_get_objs_of_obj_version_from_cmd_def chomp_names
        cmd_chomp_namespace [of "_ # _", simplified])
  then show ?thesis
    using ch child_ids_eq [OF live, of "[]"]
    by (simp add: ig_tclc_get_objs_of_obj_def get_objs_option_error_def ids_at_def)
qed

text \<open>C13. The listing commands with \<open>-of\<close> a module that is no resource return the ids of exactly the
  children the queues of the module hold, in the order of their creation, and change nothing.\<close>

theorem get_of_module:
  assumes "tcl_reachable ti go db" and "orders_ok go"
    and "tables db Modules_by_id pn = Some m" and "heap db m = Some s" and "obj_body s = Module mb"
    and "\<not> mod_resource mb"
  shows "list_all (\<lambda>(n, q). tcl_exec ti go (T_get_objs (''ig::db::'' @ n) all None (Some pn)) db =
            Inr (Tcl_ok (ids_at db q), [], db))
     [(''get_ports'', mod_ports mb), (''get_parameters'', mod_params mb),
      (''get_declarations'', the (mod_decls mb)), (''get_codesections'', the (mod_code mb)),
      (''get_instances'', the (mod_child_instances mb)), (''get_instantiation'', mod_mod_instances mb),
      (''get_regfiles'', the (mod_regfiles mb))]"
proof -
  have inv: "db_inv db" using tcl_reachable_inv [OF assms(1,2)] .
  have ok: "module_ok (type_at db) mb" using body_live [OF inv assms(4)] assms(5) by simp
  then obtain qd qc qi qr where q: "mod_decls mb = Some qd" "mod_code mb = Some qc"
    "mod_child_instances mb = Some qi" "mod_regfiles mb = Some qr"
    using assms(6) by (auto simp: module_ok_def)
  let ?L = "[(''get_ports'', IG_TOOOV_PORTS, mod_ports mb), (''get_parameters'', IG_TOOOV_PARAMS, mod_params mb),
      (''get_declarations'', IG_TOOOV_DECLS, qd), (''get_codesections'', IG_TOOOV_CODE, qc),
      (''get_instances'', IG_TOOOV_INSTANCES, qi), (''get_instantiation'', IG_TOOOV_INSTANTIATION, mod_mod_instances mb),
      (''get_regfiles'', IG_TOOOV_REGFILES, qr)]"
  have cast: "ig_cast IG_OBJ_MODULE db (Some m) = Inr (Some m)" "fetch as_module db (Some m) = Inr mb"
    using assms(4,5) by (simp_all add: ig_cast_def fetch_def heap_get_def obj_type_def)
  have "list_all (\<lambda>(n, v, x). (n, v) \<in> set object_lists) ?L" by (simp add: object_lists_def)
  moreover have "list_all (\<lambda>(n, v, x). live_list db (map Some x)) ?L"
    using ok q by (auto simp: module_ok_def intro: live_queue)
  moreover have "list_all (\<lambda>(n, v, x). child_list (go_values go) v True None (Some pn) db = Inr (Inr (map Some x))) ?L"
    using assms(3,6) q by (simp add: child_list_def module_children_def cast queue_children_def)
  ultimately have "list_all (\<lambda>(n, v, x). tcl_exec ti go (T_get_objs (''ig::db::'' @ n) all None (Some pn)) db =
      Inr (Tcl_ok (ids_at db x), [], db)) ?L"
    using get_objs_of [OF inv] by (simp only: list.pred_inject prod.case tcl_exec.simps simp_thms) blast
  then show ?thesis by (simp add: q)
qed

lemma session_module:
  "\<exists>s mb. tables session_db Modules_by_id ''module##top'' = Some 0 \<and> heap session_db 0 = Some s \<and>
     obj_body s = Module mb \<and> \<not> mod_resource mb"
  using session_step by (auto simp: registered_def module_id_def mod_skel_Some)

theorem get_of_module_witness:
  "\<exists>q. tcl_exec example_interp sorted_orders (T_get_objs ''ig::db::get_ports'' True None (Some ''module##top'')) session_db =
     Inr (Tcl_ok (ids_at session_db q), [], session_db)"
proof -
  obtain s mb where "tables session_db Modules_by_id ''module##top'' = Some 0" "heap session_db 0 = Some s"
    "obj_body s = Module mb" "\<not> mod_resource mb" using session_module by blast
  from get_of_module [OF session_reachable sorted_orders_ok this, of True] show ?thesis by auto
qed

lemma find_object:
  assumes inv: "db_inv db" and n: "(n, v) \<in> set object_lists" and t: "table_is_name t"
    and m: "missing_parent v = None" "v \<noteq> IG_TOOOV_CODE"
    and ch: "child_list (go_values go) v False (Some nm) None db =
      Inr (Inr (if table_contains db t nm then [tables db t nm] else []))"
  shows "ig_tclc_get_objs_of_obj ti (go_values go) (''ig::db::'' @ n) False (Some nm) None db =
       (case tables db t nm of
          None \<Rightarrow> tcl_fail ti (''Nothing found for '' @ quoted nm) [] db
        | Some a \<Rightarrow> Inr (Tcl_ok (Tcl_string (obj_id (the (heap db a)))), [], db))"
proof -
  have "ig_tclc_get_objs_of_obj_version_from_cmd (''ig::db::'' @ n) = v" "v \<noteq> IG_TOOOV_INVALID"
    using n by (auto simp: object_lists_def ig_tclc_get_objs_of_obj_version_from_cmd_def chomp_names
        cmd_chomp_namespace [of "_ # _", simplified])
  then have st: "ig_tclc_get_objs_of_obj ti (go_values go) (''ig::db::'' @ n) False (Some nm) None db =
      res_bind (child_find db nm (if table_contains db t nm then [tables db t nm] else [])) (\<lambda>found.
        case found of Some ident \<Rightarrow> Inr (Tcl_ok (Tcl_string ident), [], db)
        | None \<Rightarrow> tcl_fail ti (''Nothing found for '' @ quoted nm) [] db)"
    using ch m by (simp add: ig_tclc_get_objs_of_obj_def get_objs_option_error_def cong: option.case_cong)
  show ?thesis
  proof (cases "tables db t nm")
    case (Some a)
    then obtain s where "heap db a = Some s" "entry_ok t nm s" using object_lookup [OF inv] by blast
    then show ?thesis using Some t unfolding st by (simp add: table_contains_def heap_get_def entry_ok_def)
  next
    case None
    then show ?thesis unfolding st by (simp add: table_contains_def)
  qed
qed

text \<open>C12. The listing commands with \<open>-name\<close> and without a parent find exactly what the table of names
  holds: the id of the object of that name, or the error that there is none.\<close>

theorem find_by_name:
  assumes "tcl_reachable ti go db" and "orders_ok go"
  shows "list_all (\<lambda>(n, t). tcl_exec ti go (T_get_objs (''ig::db::'' @ n) False (Some nm) None) db =
       (case tables db t nm of
          None \<Rightarrow> tcl_fail ti (''Nothing found for '' @ quoted nm) [] db
        | Some a \<Rightarrow> Inr (Tcl_ok (Tcl_string (obj_id (the (heap db a)))), [], db)))
     [(''get_modules'', Modules_by_name), (''get_instances'', Instances_by_name),
      (''get_instantiation'', Instances_by_name), (''get_regfiles'', Regfiles_by_name),
      (''get_nets'', Nets_by_name), (''get_generics'', Generics_by_name)]"
proof -
  have inv: "db_inv db" using tcl_reachable_inv [OF assms] .
  let ?L = "[(''get_modules'', IG_TOOOV_MODULES, Modules_by_name), (''get_instances'', IG_TOOOV_INSTANCES, Instances_by_name),
      (''get_instantiation'', IG_TOOOV_INSTANTIATION, Instances_by_name), (''get_regfiles'', IG_TOOOV_REGFILES, Regfiles_by_name),
      (''get_nets'', IG_TOOOV_NETS, Nets_by_name), (''get_generics'', IG_TOOOV_GENERICS, Generics_by_name)]"
  have "list_all (\<lambda>(n, v, t). (n, v) \<in> set object_lists \<and> table_is_name t \<and> missing_parent v = None \<and> v \<noteq> IG_TOOOV_CODE) ?L"
    by (simp add: object_lists_def missing_parent_def)
  moreover have "list_all (\<lambda>(n, v, t). child_list (go_values go) v False (Some nm) None db =
        Inr (Inr (if table_contains db t nm then [tables db t nm] else []))) ?L"
    by (simp add: child_list_def table_children_def)
  ultimately have "list_all (\<lambda>(n, v, t). tcl_exec ti go (T_get_objs (''ig::db::'' @ n) False (Some nm) None) db =
       (case tables db t nm of
          None \<Rightarrow> tcl_fail ti (''Nothing found for '' @ quoted nm) [] db
        | Some a \<Rightarrow> Inr (Tcl_ok (Tcl_string (obj_id (the (heap db a)))), [], db))) ?L"
    by (simp only: list.pred_inject prod.case tcl_exec.simps simp_thms) (intro impI conjI; elim conjE; rule find_object [OF inv]; assumption)
  then show ?thesis by simp
qed

theorem find_by_name_witness:
  "\<exists>msg. tcl_exec example_interp sorted_orders (T_get_objs ''ig::db::get_nets'' False (Some ''clk'') None) session_db =
     Inr (Tcl_error msg, [], session_db)"
proof -
  have "tables session_db Nets_by_name ''clk'' = None" using session_step by (simp add: registered_def ig_lib_db_new_def)
  then show ?thesis
    using find_by_name [OF session_reachable sorted_orders_ok, of "''clk''"]
    by (simp add: tcl_fail_def tcl_error_msg_def)
qed

text \<open>C14. A module that \<open>create_module\<close> makes is found under its name at once, by the id the command
  returned, and a name that is taken is refused without a change.\<close>

theorem create_module_found:
  assumes "tcl_reachable ti go db" and "orders_ok go"
  shows "holds (tcl_exec ti go (T_create_module (Some nm) ilm resource) db) (\<lambda>(r, logs, db').
     if tables db Modules_by_name nm \<noteq> None
     then db' = db \<and> r = tcl_error_msg ti (''Unable to create module '' @ quoted nm)
     else r = Tcl_ok (Tcl_string (''module##'' @ nm)) \<and>
       tcl_exec ti go (T_get_objs ''ig::db::get_modules'' False (Some nm) None) db' = Inr (r, [], db'))"
proof (cases "tables db Modules_by_name nm")
  case (Some a)
  then show ?thesis
    by (simp add: ig_tclc_create_module_def ig_lib_add_module_def table_contains_def tcl_fail_def)
next
  case None
  have inv: "db_inv db" using tcl_reachable_inv [OF assms] .
  obtain logs db' where r: "ig_tclc_create_module ti (Some nm) ilm resource db =
      Inr (Tcl_ok (Tcl_string (''module##'' @ nm)), logs, db')" "grows db db'"
      "tables db' = registered Modules_by_name Modules_by_id (next_addr db) nm (module_id nm) db"
    using create_module_result [OF inv None, of ti ilm resource] by (auto simp: holds_iff)
  have t: "tables db' Modules_by_name nm = Some (next_addr db)" "tables db' Modules_by_id (module_id nm) = Some (next_addr db)"
    by (simp_all add: r(3) registered_def)
  obtain s where "heap db' (next_addr db) = Some s" "entry_ok Modules_by_id (module_id nm) s"
    using object_lookup [OF grows_inv [OF r(2)] t(2)] by blast
  then have id: "obj_id (the (heap db' (next_addr db))) = ''module##'' @ nm" by (simp add: entry_ok_def module_id_def)
  have "ig_tclc_get_objs_of_obj ti (go_values go) (''ig::db::'' @ ''get_modules'') False (Some nm) None db' =
      Inr (Tcl_ok (Tcl_string (''module##'' @ nm)), [], db')"
    using t(1) id
    by (subst find_object [where v = IG_TOOOV_MODULES and t = Modules_by_name, OF grows_inv [OF r(2)]])
       (simp_all add: object_lists_def missing_parent_def child_list_def table_children_def)
  then show ?thesis using None r(1) by simp
qed

theorem create_module_found_witness:
  "holds (tcl_exec example_interp sorted_orders (T_create_module (Some ''top'') False True) session_db) (\<lambda>(r, logs, db'). db' = session_db)"
  using create_module_found [OF session_reachable sorted_orders_ok, of "''top''" False True] session_step
  by (auto simp: registered_def holds_iff)


section \<open>Endpoints\<close>

text \<open>An endpoint as a script writes it.\<close>

definition show_endpoint :: "tcl_endpoint \<Rightarrow> string" where
  "show_endpoint ep =
     (if ep_inv ep then ''~'' else '''') @ ep_id ep @
     (if ep_net ep = '''' then '''' else '':'' @ ep_net ep @ (if ep_adapt ep then ''!'' else ''''))"

definition endpoint_wf :: "tcl_endpoint \<Rightarrow> bool" where
  "endpoint_wf ep \<longleftrightarrow> ep_id ep \<noteq> '''' \<and> CHR '':'' \<notin> set (ep_id ep) \<and> hd (ep_id ep) \<noteq> CHR ''~'' \<and>
     (ep_net ep = '''' \<longrightarrow> ep_adapt ep) \<and> (\<not> ep_adapt ep \<longrightarrow> last (ep_net ep) \<noteq> CHR ''!'')"

lemma strstr_colon: "CHR '':'' \<notin> set s \<Longrightarrow> strstr (s @ CHR '':'' # t) '':'' = Some (length s)"
  "CHR '':'' \<notin> set s \<Longrightarrow> strstr s '':'' = None"
  by (induction s) auto

lemma parse_body:
  assumes "endpoint_wf ep" and "input = ep_id ep @
     (if ep_net ep = '''' then '''' else '':'' @ ep_net ep @ (if ep_adapt ep then ''!'' else ''''))"
  shows "fst (case strstr input '':'' of
           None \<Rightarrow> (\<lparr>ep_id = input, ep_net = '''', ep_adapt = True, ep_inv = i\<rparr>, [])
         | Some split_net \<Rightarrow>
             let ident = take split_net input; net = drop (split_net + 1) input
             in if net = '''' then (\<lparr>ep_id = ident, ep_net = net, ep_adapt = True, ep_inv = i\<rparr>, [])
                else
                  let adapt = (last net = CHR ''!'');
                      net = (if adapt then butlast net else net)
                  in (\<lparr>ep_id = ident, ep_net = net, ep_adapt = adapt, ep_inv = i\<rparr>,
                      ig_tclc_check_name_and_warn (Some ident) @ ig_tclc_check_name_and_warn (Some net))) = ep\<lparr>ep_inv := i\<rparr>"
proof (cases "ep_net ep = ''''")
  case True
  then show ?thesis using assms by (cases ep) (simp add: endpoint_wf_def strstr_colon)
next
  case False
  let ?t = "ep_net ep @ (if ep_adapt ep then ''!'' else '''')"
  have i: "input = ep_id ep @ CHR '':'' # ?t" using assms(2) False by simp
  have "strstr input '':'' = Some (length (ep_id ep))"
    using assms(1) strstr_colon(1) [of "ep_id ep" ?t] unfolding i endpoint_wf_def by blast
  then show ?thesis using assms(1) False by (cases ep) (auto simp: i endpoint_wf_def Let_def)
qed

text \<open>C15. Endpoints survive being written and parsed: the object id, the local name, whether the name is
  adapted (a trailing exclamation mark) and the inversion (a leading tilde) come back, for ids
  without a colon that do not begin with a tilde.\<close>

theorem endpoint_roundtrip:
  assumes "endpoint_wf ep"
  shows "fst (ig_tclc_connection_parse (show_endpoint ep)) = ep"
proof -
  let ?b = "ep_id ep @ (if ep_net ep = '''' then '''' else '':'' @ ep_net ep @ (if ep_adapt ep then ''!'' else ''''))"
  have b: "?b \<noteq> []" "hd ?b \<noteq> CHR ''~''" using assms by (auto simp: endpoint_wf_def)
  have s: "show_endpoint ep = (if ep_inv ep then CHR ''~'' # ?b else ?b)" by (simp add: show_endpoint_def)
  have inv: "(2 \<le> length (show_endpoint ep) \<and> hd (show_endpoint ep) = CHR ''~'') = ep_inv ep"
    unfolding s using b by (cases ?b) auto
  have "(if ep_inv ep then tl (show_endpoint ep) else show_endpoint ep) = ?b" unfolding s by simp
  then show ?thesis
    unfolding ig_tclc_connection_parse_def inv Let_def
    using parse_body [OF assms refl, of "ep_inv ep", unfolded Let_def] by (simp only:) simp
qed

theorem endpoint_roundtrip_witness:
  "fst (ig_tclc_connection_parse ''~instance##u_a:clk!'') =
     \<lparr>ep_id = ''instance##u_a'', ep_net = ''clk'', ep_adapt = True, ep_inv = True\<rparr>"
  using endpoint_roundtrip [of "\<lparr>ep_id = ''instance##u_a'', ep_net = ''clk'', ep_adapt = True, ep_inv = True\<rparr>"]
  by (simp add: endpoint_wf_def show_endpoint_def)

end
