(* ===== verification/Ig_Tcl_Fail.thy ===== *)
theory Ig_Tcl_Fail
  imports Ig_Tcl_Spec
begin

text \<open>
  A signal with one endpoint, a module at the top of its hierarchy, and a forced local name: the
  declaration it makes, and what is left behind when the id of the declaration is taken.
\<close>

section \<open>One endpoint\<close>

lemma top_hierarchy:
  assumes inv: "hier_inv db" and m: "nonres db (ci_obj c)" and top: "module_up db (ci_obj c) = None"
  shows "\<exists>a. ig_lib_gen_hierarchy db c = Inr [a, c]"
proof -
  obtain d q where k: "mod_skel db (ci_obj c) = Some (False, d, q)" using m by (auto simp: nonres_def)
  have "up_path (module_up db) (ci_obj c) [ci_obj c]" using top by (rule up_path.root)
  then obtain l where l: "ig_lib_gen_hierarchy db c = Inr l" "map ci_obj l = hier_objs db [ci_obj c]" "last l = c"
    using gen_hierarchy_module [OF inv k] by blast
  then obtain a b where "l = [a, b]" by (cases l; cases "tl l") (auto simp: hier_objs_def)
  then show ?thesis using l by auto
qed

lemma reduce_pair:
  assumes "ci_is_explicit c"
  shows "map_option ig_lib_htree_reduce (ig_lib_merge_hierarchy_list [(a, [c])] nm) =
    Some (Reduced (GNode (c\<lparr>ci_local_name := Some (node_name (child_default_name nm a) c)\<rparr>) []))"
  using assms by (simp add: ig_lib_htree_reduce_def)

text \<open>The declaration is attached to the module or, when its id is taken, dropped.\<close>

definition opt_list :: "ptr \<Rightarrow> addr list" where
  "opt_list p = (case p of None \<Rightarrow> [] | Some a \<Rightarrow> [a])"

abbreviation decl_result :: "addr \<Rightarrow> string \<Rightarrow> ig_struct \<Rightarrow> ig_module \<Rightarrow> ig_lib_db \<Rightarrow> ptr \<times> ig_lib_db" where
  "decl_result m x sp mb db \<equiv> attach_result m (with_decl (next_addr db) mb) (decl_struct x m sp) db"

lemma process_signal_single:
  assumes inv: "db_inv db" and m: "heap db (ci_obj c) = Some sp" "obj_body sp = Module mb" "\<not> mod_resource mb"
    and x: "ci_local_name c = Some x" "ci_force_name c"
  shows "ig_lib_htree_process_signal (GNode c []) db =
    Inr (opt_list (fst (decl_result (ci_obj c) x sp mb db)), snd (decl_result (ci_obj c) x sp mb db))"
proof -
  let ?r = "decl_result (ci_obj c) x sp mb db"
  have "mod_decls mb \<noteq> None" using module_queues(1) [OF db_invD(4) [OF inv] m] .
  note eq = add_decl_eq [OF inv m(1,2) this, of x]
  have "res_bind (ig_decl_new (Some x) (Some (ci_obj c)) db) (\<lambda>(d, db).
          res_bind (process_add d (\<lambda>a. modify as_module Module (Some (ci_obj c))
             (\<lambda>m. res_bind (push_tail_opt a (mod_decls m)) (\<lambda>q. Inr (m\<lparr>mod_decls := q\<rparr>)))) db)
            (\<lambda>(d, db'). Inr (x, record_obj d db' \<lparr>pd_db = pd, pd_gen_objs = [], pd_error = False\<rparr>))) =
        Inr (x, record_obj (fst ?r) (snd ?r) \<lparr>pd_db = pd, pd_gen_objs = [], pd_error = False\<rparr>)" for pd
    using eq by (cases ?r) (auto simp: res_bind_eq_Inr split_beta)
  note step = this [of db]
  have "ig_lib_htree_process_signal_tfunc True (c\<lparr>ci_parent_name := pn\<rparr>) \<lparr>pd_db = db, pd_gen_objs = [], pd_error = False\<rparr> =
      Inr (x, record_obj (fst ?r) (snd ?r) \<lparr>pd_db = db, pd_gen_objs = [], pd_error = False\<rparr>)" for pn
    using m x step
    by (simp add: ig_lib_htree_process_signal_tfunc_def heap_get_def local_name_of_def obj_type_def Let_def signal_name_of_def)
  from this [of "ci_parent_name c"] show ?thesis
    by (cases "fst ?r") (simp_all add: ig_lib_htree_process_signal_def record_obj_def opt_list_def)
qed

theorem connection_single:
  assumes inv: "db_inv db" and m: "heap db (ci_obj c) = Some sp" "obj_body sp = Module mb" "\<not> mod_resource mb"
    and top: "module_up db (ci_obj c) = None" and x: "ci_local_name c = Some x" "ci_force_name c"
    and free: "tables db Nets_by_name nm = None"
  shows "ig_lib_connection nm (Some c) [] db =
    res_bind (ig_lib_add_net (Some nm) (opt_list (fst (decl_result (ci_obj c) x sp mb db)))
                (snd (decl_result (ci_obj c) x sp mb db)))
      (\<lambda>(net, db'). Inr (fst (decl_result (ci_obj c) x sp mb db) \<noteq> None, net, db'))"
proof -
  let ?c = "c\<lparr>ci_dir := IG_LCDIR_UP, ci_is_explicit := True\<rparr>"
  have "nonres db (ci_obj ?c)" using m by (simp add: nonres_def mod_skel_Some)
  then obtain a where a: "ig_lib_gen_hierarchy db ?c = Inr [a, ?c]"
    using top_hierarchy [OF db_invD(2) [OF inv]] top by fastforce
  have g: "gen_hierarchies db [c\<lparr>ci_dir := IG_LCDIR_UP\<rparr>] [] False = Inr ([(a, [?c])], False)" using a by simp
  let ?t = "GNode (?c\<lparr>ci_local_name := Some (node_name (child_default_name nm a) ?c)\<rparr>) []"
  have t: "?t = GNode (?c\<lparr>ci_local_name := Some x\<rparr>) []" using x by (simp add: node_name_def)
  obtain tree where tree: "ig_lib_merge_hierarchy_list [(a, [?c])] nm = Some tree" "ig_lib_htree_reduce tree = Reduced ?t"
    using reduce_pair [of ?c a nm] by auto
  have "ig_lib_htree_process_signal ?t db =
      Inr (opt_list (fst (decl_result (ci_obj c) x sp mb db)), snd (decl_result (ci_obj c) x sp mb db))"
    using process_signal_single [OF inv, of "?c\<lparr>ci_local_name := Some x\<rparr>"] m x unfolding t by simp
  then have "build_objects [(a, [?c])] nm ig_lib_htree_process_signal db =
      Inr (Some (opt_list (fst (decl_result (ci_obj c) x sp mb db))), snd (decl_result (ci_obj c) x sp mb db))"
    by (simp only: build_objects_def tree option.case reduce_result.case res_bind.simps prod.case)
  then show ?thesis
    using free g
    by (simp add: ig_lib_connection_def table_contains_def opt_list_def split: option.split)
qed

section \<open>The command\<close>

lemma module_up_body: "body_at h' = body_at h \<Longrightarrow> module_up h' = module_up h"
proof -
  assume b: "body_at h' = body_at h"
  have "mod_skel h' x = mod_skel h x" "inst_skel h' x = inst_skel h x" for x
    using fun_cong [OF b, of x] by (auto simp: body_at_def mod_skel_def inst_skel_def split: option.splits)
  then have "mod_skel h' = mod_skel h" "inst_skel h' = inst_skel h" by (auto simp: fun_eq_iff)
  then show ?thesis by (simp add: module_up_def)
qed

lemma nonres_body: "nonres h m \<longleftrightarrow> (\<exists>mb. body_at h m = Some (Module mb) \<and> \<not> mod_resource mb)"
  by (auto simp: nonres_def mod_skel_Some body_at_def)

definition same_graph :: "ig_lib_db \<Rightarrow> ig_lib_db \<Rightarrow> bool" where
  "same_graph d d' \<longleftrightarrow> tables d' = tables d \<and> body_at d' = body_at d"

lemma attr_set_graph: "ig_obj_attr_set p x v c d = Inr (b, d') \<Longrightarrow> same_graph d d'"
  by (auto simp: ig_obj_attr_set_def heap_get_def same_graph_def body_at_def fun_eq_iff attr_set_body split_beta
      split: option.splits)

lemma set_sizes_graph:
  assumes s: "set_sizes n sz db = Inr db'"
  shows "same_graph db db'"
proof -
  have fold: "res_fold (\<lambda>obj db. res_bind (ig_obj_attr_set (Some obj) (Some ''size'') (Some sz) False db)
                          (\<lambda>(_, db). Inr db)) xs d = Inr d' \<Longrightarrow> same_graph d d'" for xs and d d' :: ig_lib_db
  proof (induction xs arbitrary: d)
    case (Cons y xs)
    then obtain b d1 where "ig_obj_attr_set (Some y) (Some ''size'') (Some sz) False d = Inr (b, d1)" "same_graph d1 d'"
      by (cases "ig_obj_attr_set (Some y) (Some ''size'') (Some sz) False d") auto
    then show ?case using attr_set_graph by (fastforce simp: same_graph_def)
  qed (simp add: same_graph_def)
  obtain b d where d: "ig_obj_attr_set (Some n) (Some ''size'') (Some sz) False db = Inr (b, d)"
    using s by (cases "ig_obj_attr_set (Some n) (Some ''size'') (Some sz) False db") (auto simp: set_sizes_def)
  obtain nb where "fetch as_net d (Some n) = Inr nb"
    using s d by (cases "fetch as_net d (Some n)") (auto simp: set_sizes_def)
  then have "same_graph d db'" using s d by (intro fold [of "net_objects nb"]) (simp add: set_sizes_def)
  then show ?thesis using attr_set_graph [OF d] by (simp add: same_graph_def)
qed

text \<open>An endpoint with a local name that is not adapted.\<close>

definition forced_endpoint :: "string \<Rightarrow> string \<Rightarrow> string \<Rightarrow> bool" where
  "forced_endpoint ept ident x \<longleftrightarrow>
     fst (ig_tclc_connection_parse ept) = \<lparr>ep_id = ident, ep_net = x, ep_adapt = False, ep_inv = False\<rparr> \<and> x \<noteq> []"

lemma connect_forced:
  assumes ept: "forced_endpoint ept ident x" and obj: "tables db Objects_by_id ident = Some m"
  shows "\<exists>c logs. ci_obj c = m \<and> ci_local_name c = Some x \<and> ci_force_name c \<and>
    ig_tclc_connect ti (Some nm) sz (Some ept) [] [] db =
      res_bind (ig_lib_connection nm (Some c) [] db) (\<lambda>(ok, gen_net, db).
        if \<not> ok then
          res_bind (ig_net_free ig_obj_unref gen_net db) (\<lambda>db.
          tcl_fail ti (''Signal '' @ quoted nm @ '', error while trying to create connection'') logs db)
        else
          res_bind (set_sizes (the gen_net) (case sz of None \<Rightarrow> ''1'' | Some s \<Rightarrow> s) db)
            (\<lambda>db. tcl_id_result gen_net logs db))"
proof -
  obtain ep msgs where ep: "ig_tclc_connection_parse ept = (ep, msgs)" by (cases "ig_tclc_connection_parse ept")
  have e: "ep_id ep = ident" "ep_net ep = x" "\<not> ep_adapt ep" "\<not> ep_inv ep" "x \<noteq> []"
    using ept ep by (simp_all add: forced_endpoint_def)
  have "connect_option_error (Some ept) (Some nm) [] [] = None" by (simp add: connect_option_error_def)
  then show ?thesis
    using ep e obj
    by (intro exI [of _ "\<lparr>ci_obj = m, ci_parent_name = None, ci_local_name = Some x, ci_is_explicit = False,
          ci_force_name = True, ci_dir = IG_LCDIR_UP, ci_invert = False\<rparr>"] exI [of _ msgs])
       (simp add: ig_tclc_connect_def endpoint_info_def ig_lib_connection_info_new_def Let_def)
qed

text \<open>What \<open>get_nets\<close> does with a dangling entry.\<close>

lemma find_dangling_net:
  assumes "tables db Nets_by_name nm = Some n" and "heap db n = None"
  shows "ig_tclc_get_objs_of_obj ti values ''ig::db::get_nets'' False (Some nm) None db = Inl UseAfterFree"
proof -
  have "ig_tclc_get_objs_of_obj_version_from_cmd ''ig::db::get_nets'' = IG_TOOOV_NETS"
    using cmd_chomp_namespace [of "''get_nets''"]
    by (simp add: ig_tclc_get_objs_of_obj_version_from_cmd_def chomp_names)
  then show ?thesis
    using assms
    by (simp add: ig_tclc_get_objs_of_obj_def get_objs_option_error_def missing_parent_def child_list_def
        table_children_def table_contains_def heap_get_def)
qed

definition decl_id :: "string \<Rightarrow> string \<Rightarrow> string" where
  "decl_id modname x = ''declaration##'' @ modname @ ''#'' @ x"

lemma connect_single:
  assumes inv: "db_inv db" and m: "heap db m = Some sp" "obj_body sp = Module mb" "\<not> mod_resource mb"
    and top: "module_up db m = None" and ept: "forced_endpoint ept ident x" and obj: "tables db Objects_by_id ident = Some m"
    and free: "tables db Nets_by_name nm = None"
  shows "holds (ig_tclc_connect ti (Some nm) sz (Some ept) [] [] db) (\<lambda>(r, logs, db').
    if tables db Objects_by_id (decl_id (obj_name sp) x) = None
    then r = Tcl_ok (Tcl_string (''net##'' @ nm)) \<and> grows db db' \<and> module_up db' = module_up db \<and>
      tables db' Objects_by_id (decl_id (obj_name sp) x) = Some (next_addr db) \<and> nonres db' m \<and>
      (\<forall>k. k \<noteq> decl_id (obj_name sp) x \<longrightarrow> k \<noteq> ''net##'' @ nm \<longrightarrow> tables db' Objects_by_id k = tables db Objects_by_id k) \<and>
      (\<forall>k. k \<noteq> nm \<longrightarrow> tables db' Nets_by_name k = tables db Nets_by_name k)
    else (\<exists>msg. r = Tcl_error msg) \<and> (\<exists>n. tables db' Nets_by_name nm = Some n \<and> heap db' n = None))"
proof -
  let ?r = "decl_result m x sp mb db" and ?id = "decl_id (obj_name sp) x"
  note h = db_invD(4) [OF inv]
  obtain c logs where c: "ci_obj c = m" "ci_local_name c = Some x" "ci_force_name c"
    and cmd: "ig_tclc_connect ti (Some nm) sz (Some ept) [] [] db =
      res_bind (ig_lib_connection nm (Some c) [] db) (\<lambda>(ok, gen_net, db).
        if \<not> ok then
          res_bind (ig_net_free ig_obj_unref gen_net db) (\<lambda>db.
          tcl_fail ti (''Signal '' @ quoted nm @ '', error while trying to create connection'') logs db)
        else
          res_bind (set_sizes (the gen_net) (case sz of None \<Rightarrow> ''1'' | Some s \<Rightarrow> s) db)
            (\<lambda>db. tcl_id_result gen_net logs db))"
    using connect_forced [OF ept obj] by blast
  have con: "ig_lib_connection nm (Some c) [] db =
      res_bind (ig_lib_add_net (Some nm) (opt_list (fst ?r)) (snd ?r)) (\<lambda>(net, db'). Inr (fst ?r \<noteq> None, net, db'))"
    using connection_single [OF inv, of c sp mb x nm] m top c free by simp
  have id: "obj_id (decl_struct x m sp) = ?id"
    by (simp add: decl_struct_def id_of_child [OF h m(1)] decl_id_def)
  have dc: "mod_decls mb \<noteq> None" using module_queues(1) [OF h m] .
  show ?thesis
  proof (cases "tables db Objects_by_id ?id = None")
    case True
    obtain db1 where r: "?r = (Some (next_addr db), db1)" "db1 = attached m (with_decl (next_addr db) mb) (decl_struct x m sp) db"
      using True by (simp add: attach_result_def table_contains_def id)
    have e: "extends db db1"
      using extends_hang [OF inv _ m(1), of "decl_struct x m sp" "with_decl (next_addr db) mb"] r m dc h hangs_rules(3) [of mb]
      by (simp add: decl_struct_def new_leaf_struct hdr_ok_init not_next_addr obj_type_def)
    have "type_at db1 (next_addr db) = Some IG_OBJ_DECLARATION"
      using attach_result_type [OF h m(1), of "with_decl (next_addr db) mb" "decl_struct x m sp"] r(1)
      by (simp add: decl_struct_def obj_type_def)
    then have ty: "\<forall>y \<in> set [next_addr db]. \<exists>t \<in> net_types. type_at db1 y = Some t" by (simp add: net_types_def)
    have f1: "tables db1 Nets_by_name nm = None" using e free by (simp add: extends_def)
    let ?n = "next_addr db1"
    obtain db2 where n: "ig_lib_add_net (Some nm) [next_addr db] db1 = Inr (Some ?n, db2)" "grows db1 db2"
        "module_up db2 = module_up db1" "body_at db2 ?n = Some (Net \<lparr>net_objects = [next_addr db]\<rparr>)"
        "tables db2 = registered Nets_by_name Nets_by_id ?n nm (''net##'' @ nm) db1"
        "\<forall>y. y \<noteq> ?n \<longrightarrow> y \<notin> set [next_addr db] \<longrightarrow> body_at db2 y = body_at db1 y"
      using add_net_result [OF extendsD(1) [OF e] f1 ty] by (auto simp: holds_iff)
    obtain s where s: "heap db2 ?n = Some s" "obj_body s = Net \<lparr>net_objects = [next_addr db]\<rparr>"
      using n(4) by (auto simp: body_at_def)
    let ?sz = "case sz of None \<Rightarrow> ''1'' | Some s \<Rightarrow> s"
    have g2: "grows db db2" using extendsD(2) [OF e] n(2) by (rule grows_trans)
    obtain db3 where d3: "set_sizes ?n ?sz db2 = Inr db3" "grows db db3"
      using set_sizes_grows [OF g2 s, of ?sz] by (auto simp: holds_iff)
    note same = set_sizes_graph [OF d3(1), unfolded same_graph_def]
    have up: "module_up db3 = module_up db"
      using module_up_body [of db3 db2] same n(3) e by (simp add: extends_def module_up_def)
    have t3: "tables db3 Nets_by_id (''net##'' @ nm) = Some ?n" using same n(5) by (simp add: registered_def)
    obtain s3 where s3: "heap db3 ?n = Some s3" "entry_ok Nets_by_id (''net##'' @ nm) s3"
      by (rule object_lookup [OF grows_inv [OF d3(2)] t3]) (rule that)
    then have "heap db3 ?n = Some s3" "obj_id s3 = ''net##'' @ nm" by (simp_all add: entry_ok_def)
    moreover have "tables db3 Objects_by_id ?id = Some (next_addr db)"
      using same n(5) r(2) by (simp add: registered_def attached_tables id decl_id_def)
    moreover have "nonres db3 m"
    proof -
      have "heap db1 m \<noteq> None" using grows_live [OF extendsD(2) [OF e], of m] m(1) by simp
      then have "m \<noteq> ?n" using heap_ok_fresh [OF db_invD(4) [OF extendsD(1) [OF e]]] by auto
      moreover have "m \<noteq> next_addr db" by (rule not_next_addr [OF h m(1)])
      moreover have "nonres db1 m" using e m by (simp add: extends_def nonres_def mod_skel_Some)
      ultimately show ?thesis
        using n(6) same by (auto simp: nonres_body)
    qed
    moreover have "\<forall>k. k \<noteq> ?id \<longrightarrow> k \<noteq> ''net##'' @ nm \<longrightarrow> tables db3 Objects_by_id k = tables db Objects_by_id k"
      "\<forall>k. k \<noteq> nm \<longrightarrow> tables db3 Nets_by_name k = tables db Nets_by_name k"
      using same n(5) r(2) by (simp_all add: registered_def attached_tables id)
    ultimately show ?thesis
      using True con r n(1) d3 up by (simp add: cmd opt_list_def tcl_id_result_def heap_get_def)
  next
    case False
    let ?db1 = "db\<lparr>next_addr := Suc (next_addr db)\<rparr>"
    have r: "?r = (None, ?db1)" using False by (simp add: attach_result_def table_contains_def id)
    have f1: "tables ?db1 Nets_by_name nm = None" using free by simp
    let ?n = "next_addr ?db1"
    obtain db2 where n: "ig_lib_add_net (Some nm) [] ?db1 = Inr (Some ?n, db2)"
        "body_at db2 ?n = Some (Net \<lparr>net_objects = []\<rparr>)"
        "tables db2 = registered Nets_by_name Nets_by_id ?n nm (''net##'' @ nm) ?db1"
      using add_net_result [OF db_inv_skip [OF inv] f1, of "[]"] by (auto simp: holds_iff)
    obtain s where s: "heap db2 ?n = Some s" "members_of_net (obj_body s) = Some []"
      using n(2) by (auto simp: body_at_def)
    obtain db3 where d3: "ig_net_free ig_obj_unref (Some ?n) db2 = Inr db3" "heap db3 ?n = None" "tables db3 = tables db2"
      using net_free_empty [OF s] by blast
    have "tables db3 Nets_by_name nm = Some ?n" using d3(3) n(3) by (simp add: registered_def)
    then show ?thesis
      using False con r n(1) d3 by (auto simp: cmd opt_list_def tcl_fail_def tcl_error_msg_def)
  qed
qed

section \<open>Failing\<close>

text \<open>C11. \<open>connect\<close> with one endpoint, a module at the top of its hierarchy, and a forced local name declares
  that name in the module and returns the id of the net. When the id of the declaration is taken the
  command returns an error and frees the net it has registered, so that the name of the net leads to
  freed memory: looking it up is a use after free.\<close>

theorem connect_top_endpoint:
  assumes "tcl_reachable ti go db" and "orders_ok go" and "nonres db m" and "module_up db m = None"
    and "forced_endpoint ept ident x" and "tables db Objects_by_id ident = Some m" and "tables db Nets_by_name nm = None"
  shows "holds (tcl_exec ti go (T_connect (Some nm) sz (Some ept) [] []) db) (\<lambda>(r, logs, db').
    if tables db Objects_by_id (decl_id (obj_name (the (heap db m))) x) = None
    then r = Tcl_ok (Tcl_string (''net##'' @ nm)) \<and> tcl_reachable ti go db' \<and>
      tables db' Objects_by_id (decl_id (obj_name (the (heap db m))) x) = Some (next_addr db)
    else (\<exists>msg. r = Tcl_error msg) \<and>
      tcl_exec ti go (T_get_objs ''ig::db::get_nets'' False (Some nm) None) db' = Inl UseAfterFree)"
proof -
  have inv: "db_inv db" using tcl_reachable_inv [OF assms(1,2)] .
  obtain sp mb where m: "heap db m = Some sp" "obj_body sp = Module mb" "\<not> mod_resource mb"
    using nonres_module [OF assms(3)] by blast
  obtain r logs db' where r: "ig_tclc_connect ti (Some nm) sz (Some ept) [] [] db = Inr (r, logs, db')"
    "if tables db Objects_by_id (decl_id (obj_name sp) x) = None
     then r = Tcl_ok (Tcl_string (''net##'' @ nm)) \<and> grows db db' \<and>
       tables db' Objects_by_id (decl_id (obj_name sp) x) = Some (next_addr db)
     else (\<exists>msg. r = Tcl_error msg) \<and> (\<exists>n. tables db' Nets_by_name nm = Some n \<and> heap db' n = None)"
    using connect_single [OF inv m assms(4-7), of ti sz] by (auto simp: holds_iff split: if_splits)
  have "tcl_reachable ti go db'" if "grows db db'"
    by (rule tcl_reachable_grows [OF assms(1) _ _ that, of "T_connect (Some nm) sz (Some ept) [] []"]) (simp_all add: r(1))
  then show ?thesis using r m(1) by (auto simp: find_dangling_net)
qed

lemma session_top: "nonres session_db 0" "module_up session_db 0 = None"
proof -
  have s: "mod_skel session_db 0 = Some (False, Some 1, [])" using session_step by simp
  then show "nonres session_db 0" by (simp add: nonres_def)
  have "hier_inv session_db" using tcl_reachable_inv [OF session_reachable sorted_orders_ok] by (rule db_invD)
  then show "module_up session_db 0 = None"
    using skel_default [of "mod_skel session_db" "inst_skel session_db" 0 "Some 1" "[]"] s
    by (auto simp: hier_inv_def module_up_def split: if_splits)
qed

text \<open>A second signal that declares the same name in the same module.\<close>

theorem connect_top_endpoint_witness:
  "\<exists>db. tcl_reachable example_interp sorted_orders db \<and>
     holds (tcl_exec example_interp sorted_orders (T_connect (Some ''rst'') None (Some ''module##top:clk'') [] []) db)
       (\<lambda>(r, logs, db'). tcl_exec example_interp sorted_orders (T_get_objs ''ig::db::get_nets'' False (Some ''rst'') None) db' =
          Inl UseAfterFree)"
proof -
  let ?ept = "''module##top:clk''"
  have ept: "forced_endpoint ?ept ''module##top'' ''clk''"
    by (simp add: forced_endpoint_def ig_tclc_connection_parse_def Let_def)
  have inv: "db_inv session_db" using tcl_reachable_inv [OF session_reachable sorted_orders_ok] .
  have t: "tables session_db Objects_by_id ''module##top'' = Some 0" "tables session_db Nets_by_name ''clk'' = None"
      "tables session_db Nets_by_name ''rst'' = None" "tables session_db Objects_by_id (decl_id nm ''clk'') = None" for nm
    using session_step by (simp_all add: registered_def ig_lib_db_new_def module_id_def decl_id_def)
  obtain sp mb where m: "heap session_db 0 = Some sp" "obj_body sp = Module mb" "\<not> mod_resource mb"
    using nonres_module [OF session_top(1)] by blast
  obtain r logs db where d: "ig_tclc_connect example_interp (Some ''clk'') None (Some ?ept) [] [] session_db = Inr (r, logs, db)"
    "grows session_db db" "module_up db = module_up session_db"
    "tables db Objects_by_id (decl_id (obj_name sp) ''clk'') \<noteq> None" "nonres db 0"
    "tables db Objects_by_id ''module##top'' = Some 0" "tables db Nets_by_name ''rst'' = None"
    using connect_single [OF inv m session_top(2) ept t(1,2), of example_interp None] t
    by (auto simp: holds_iff decl_id_def)
  have reach: "tcl_reachable example_interp sorted_orders db"
    by (rule tcl_reachable_grows [OF session_reachable _ _ d(2), of "T_connect (Some ''clk'') None (Some ?ept) [] []"])
       (simp_all add: d(1))
  have "obj_name (the (heap db 0)) = obj_name sp"
    using d(2) m(1) keepsD [of session_db db 0 sp] by (auto simp: grows_def)
  then have "tables db Objects_by_id (decl_id (obj_name (the (heap db 0))) ''clk'') \<noteq> None" using d(4) by simp
  with connect_top_endpoint [OF reach sorted_orders_ok d(5) _ ept d(6,7), of None] d(3) session_top(2) reach
  show ?thesis by (auto elim!: holds_mono)
qed

end
