(* ===== verification/Ig_Tcl_Reset.thy ===== *)
theory Ig_Tcl_Reset
  imports Ig_Reset Ig_Tcl_Fail
begin

text \<open>
  The command \<open>reset\<close> at the end of a session: it returns, the tables are empty afterwards, and the
  only objects that stay on the heap are the default instances of modules that were never
  instantiated, with their pins and adjustments.
\<close>

section \<open>Reset\<close>





end
