(* ===== verification/Rf_Desc.thy ===== *)
theory Rf_Desc
  imports Rf_Fields "HOL-Library.Multiset"
begin

text \<open>
  The description of a register file as the code templates of \<open>src/templates/default/rf\<close> see it (what
  \<open>regfile_to_arraylist\<close> returns): entries with an address, each with the registers it holds from the
  lowest bit to the highest, gaps filled by registers with the name and the type \<open>-\<close>. The theories
  Rf_Gen_* give the meaning of the code that the templates make of such a description.
\<close>

section \<open>Descriptions\<close>

text \<open>The width of a register is a number, or the name of a constant of the generated program.\<close>

datatype g_width = Width nat | Width_expr string

record gen_reg =
  gr_name :: string
  gr_bit_high :: nat
  gr_bit_low :: nat
  gr_width :: g_width
  gr_type :: string
  gr_reset :: string
  gr_comment :: string

record gen_entry =
  ge_name :: string
  ge_address :: nat
  ge_regs :: "gen_reg list"

text \<open>\<open>regexp -nocase {W} $reg(type)\<close>\<close>

definition write_reg :: "gen_reg \<Rightarrow> bool" where
  "write_reg r \<longleftrightarrow> CHR ''W'' \<in> set (gr_type r) \<or> CHR ''w'' \<in> set (gr_type r)"

definition named :: "gen_reg \<Rightarrow> bool" where
  "named r \<longleftrightarrow> gr_name r \<noteq> ''-''"

section \<open>Bit fields of structs\<close>

text \<open>
  The structs declare one bit field per register, in their order; the compiler packs them from the
  lowest bit on. A member is its register, its position and its width. A width that is not a
  number makes the templates of the structs fail, so there is no such struct.
\<close>

definition struct_ok :: "gen_reg list \<Rightarrow> bool" where
  "struct_ok regs \<longleftrightarrow> list_all (\<lambda>r. case gr_width r of Width n \<Rightarrow> True | Width_expr e \<Rightarrow> False) regs"

definition field_width :: "gen_reg \<Rightarrow> nat" where
  "field_width r = (case gr_width r of Width n \<Rightarrow> n | Width_expr e \<Rightarrow> 0)"

type_synonym member = "gen_reg \<times> nat \<times> nat"

fun struct_members :: "nat \<Rightarrow> gen_reg list \<Rightarrow> member list" where
  "struct_members pos [] = []"
| "struct_members pos (r # rs) = (r, pos, field_width r) # struct_members (pos + field_width r) rs"

definition get_field :: "nat \<Rightarrow> nat \<Rightarrow> rf_data_t \<Rightarrow> rf_data_t" where
  "get_field pos w x = drop_bit pos x AND Bit_Operations.mask w"

definition field_mask :: "nat \<Rightarrow> nat \<Rightarrow> rf_data_t" where
  "field_mask pos w = push_bit pos (Bit_Operations.mask w)"

definition set_field :: "nat \<Rightarrow> nat \<Rightarrow> rf_data_t \<Rightarrow> rf_data_t \<Rightarrow> rf_data_t" where
  "set_field pos w v x = masked (push_bit pos v) (field_mask pos w) x"

section \<open>Well-formed entries\<close>

text \<open>
  The registers lie one after the other and fill the word: what the filling of the gaps gives when
  the registers of an entry do not overlap.
\<close>

fun tiles :: "nat \<Rightarrow> nat \<Rightarrow> gen_reg list \<Rightarrow> bool" where
  "tiles pos dw [] = (pos = dw)"
| "tiles pos dw (r # rs) =
     (gr_bit_low r = pos \<and> pos \<le> gr_bit_high r \<and> gr_width r = Width (Suc (gr_bit_high r) - pos) \<and>
      tiles (Suc (gr_bit_high r)) dw rs)"

definition desc_ok :: "gen_entry \<Rightarrow> bool" where
  "desc_ok e \<longleftrightarrow> tiles 0 32 (ge_regs e) \<and> distinct (map gr_name (filter named (ge_regs e)))"

lemma tiles_end: "tiles pos dw rs \<Longrightarrow> pos \<le> dw"
  by (induction pos dw rs rule: tiles.induct) auto

lemma tiles_reg:
  assumes "tiles pos dw rs" and "r \<in> set rs"
  shows "pos \<le> gr_bit_low r" "gr_bit_low r \<le> gr_bit_high r" "gr_bit_high r < dw"
    "gr_width r = Width (Suc (gr_bit_high r) - gr_bit_low r)" "field_width r = Suc (gr_bit_high r) - gr_bit_low r"
  using assms by (induction pos dw rs rule: tiles.induct) (auto dest: tiles_end simp: field_width_def)

text \<open>Two registers of an entry have no bit in common.\<close>

lemma tiles_disjoint:
  assumes "tiles pos dw rs" and "i < j" and "j < length rs"
  shows "gr_bit_high (rs ! i) < gr_bit_low (rs ! j)"
  using assms
proof (induction pos dw rs arbitrary: i j rule: tiles.induct)
  case (2 pos dw r rs)
  then obtain j' where j: "j = Suc j'" by (cases j) auto
  show ?case
  proof (cases i)
    case 0
    have "rs ! j' \<in> set rs" using 2 j by simp
    then show ?thesis using 2 j 0 tiles_reg(1) [of "Suc (gr_bit_high r)" dw rs "rs ! j'"] by auto
  next
    case (Suc i')
    then show ?thesis using 2 j by auto
  qed
qed simp

lemma tiles_apart:
  assumes "tiles pos dw rs" and "r \<in> set rs" and "r' \<in> set rs" and "r \<noteq> r'"
  shows "gr_bit_high r < gr_bit_low r' \<or> gr_bit_high r' < gr_bit_low r"
proof -
  obtain i j where ij: "i < length rs" "j < length rs" "r = rs ! i" "r' = rs ! j"
    using assms(2,3) by (auto simp: in_set_conv_nth)
  then have "i \<noteq> j" using assms(4) by auto
  then consider "i < j" | "j < i" by linarith
  then show ?thesis using tiles_disjoint [OF assms(1)] ij by cases auto
qed

text \<open>Every bit of the word belongs to a register.\<close>

lemma tiles_cover:
  assumes "tiles pos dw rs" and "pos \<le> n" and "n < dw"
  shows "\<exists>r \<in> set rs. gr_bit_low r \<le> n \<and> n \<le> gr_bit_high r"
  using assms
proof (induction pos dw rs rule: tiles.induct)
  case (2 pos dw r rs)
  then show ?case by (cases "n \<le> gr_bit_high r") auto
qed auto

text \<open>In a well-formed entry the members of the struct are the registers at their places.\<close>

lemma tiles_members:
  "tiles pos dw rs \<Longrightarrow> struct_members pos rs = map (\<lambda>r. (r, gr_bit_low r, field_width r)) rs"
  by (induction pos dw rs rule: tiles.induct) (auto simp: field_width_def)

lemma tiles_struct_ok: "tiles pos dw rs \<Longrightarrow> struct_ok rs"
  by (auto simp: struct_ok_def list_all_iff dest: tiles_reg(4))

section \<open>Filling the gaps\<close>

text \<open>
  The part of \<open>regfile_to_arraylist\<close> that sorts the registers of an entry by their lowest bit and puts
  a register without a name into every gap of a word of \<open>dw\<close> bits; \<open>idx_start + 1\<close> of the code is
  \<open>next_bit\<close>.
\<close>

definition gap :: "nat \<Rightarrow> nat \<Rightarrow> gen_reg" where
  "gap tmp_high tmp_low =
     \<lparr>gr_name = ''-'', gr_bit_high = tmp_high, gr_bit_low = tmp_low, gr_width = Width (Suc tmp_high - tmp_low),
      gr_type = ''-'', gr_reset = ''-'', gr_comment = ''''\<rparr>"

fun fill_gaps :: "nat \<Rightarrow> nat \<Rightarrow> gen_reg list \<Rightarrow> gen_reg list" where
  "fill_gaps dw next_bit [] = (if next_bit < dw then [gap (dw - 1) next_bit] else [])"
| "fill_gaps dw next_bit (r # rs) =
     (if next_bit < gr_bit_low r then [gap (gr_bit_low r - 1) next_bit] else [])
     @ r # fill_gaps dw (Suc (gr_bit_high r)) rs"

definition arraylist_regs :: "nat \<Rightarrow> gen_reg list \<Rightarrow> gen_reg list" where
  "arraylist_regs dw regs = fill_gaps dw 0 (sort_key gr_bit_low regs)"

definition reg_fits :: "nat \<Rightarrow> gen_reg \<Rightarrow> bool" where
  "reg_fits dw r \<longleftrightarrow> gr_bit_low r \<le> gr_bit_high r \<and> gr_bit_high r < dw \<and>
     gr_width r = Width (Suc (gr_bit_high r) - gr_bit_low r)"

lemma tiles_fill_gaps:
  assumes "\<forall>r \<in> set rs. reg_fits dw r \<and> nxt \<le> gr_bit_low r" and "nxt \<le> dw"
    and "sorted_wrt (\<lambda>r r'. gr_bit_high r < gr_bit_low r') rs"
  shows "tiles nxt dw (fill_gaps dw nxt rs)"
  using assms
proof (induction rs arbitrary: nxt)
  case Nil
  then show ?case by (auto simp: gap_def)
next
  case (Cons r rs)
  have "tiles (Suc (gr_bit_high r)) dw (fill_gaps dw (Suc (gr_bit_high r)) rs)"
    by (rule Cons.IH) (use Cons.prems in \<open>auto simp: reg_fits_def\<close>)
  then show ?case using Cons.prems by (auto simp: gap_def reg_fits_def)
qed

lemma named_fill_gaps: "filter named (fill_gaps dw nxt rs) = filter named rs"
  by (induction rs arbitrary: nxt) (simp_all add: gap_def named_def)

text \<open>Registers with different names that do not overlap make a well-formed entry.\<close>

theorem arraylist_regs_ok:
  assumes "\<forall>r \<in> set regs. reg_fits 32 r" and "distinct (map gr_name (filter named regs))"
    and "sorted_wrt (\<lambda>r r'. gr_bit_high r < gr_bit_low r') (sort_key gr_bit_low regs)"
  shows "desc_ok \<lparr>ge_name = nm, ge_address = a, ge_regs = arraylist_regs 32 regs\<rparr>"
proof -
  have "mset (map gr_name (filter named (sort_key gr_bit_low regs))) = mset (map gr_name (filter named regs))"
    by simp
  then have "distinct (map gr_name (filter named (sort_key gr_bit_low regs)))"
    using assms(2) by (metis mset_eq_imp_distinct_iff)
  then show ?thesis
    using tiles_fill_gaps [of "sort_key gr_bit_low regs" 32 0] assms(1,3)
    by (simp add: desc_ok_def arraylist_regs_def named_fill_gaps)
qed

section \<open>Bits\<close>

lemma bit_field_mask: "bit (field_mask pos w) i \<longleftrightarrow> pos \<le> i \<and> i < pos + w \<and> i < 32"
  by (auto simp: field_mask_def bit_push_32 bit_mask_iff possible_bit_word)

lemma bit_set_field:
  "bit (set_field pos w v x) i \<longleftrightarrow> (if pos \<le> i \<and> i < pos + w then i < 32 \<and> bit v (i - pos) else bit x i)"
  by (auto simp: set_field_def bit_masked bit_field_mask bit_push_32 dest: bit_bound)

lemma bit_get_field: "bit (get_field pos w x) i \<longleftrightarrow> i < w \<and> bit x (pos + i)"
  by (auto simp: get_field_def bit_and_iff bit_drop_bit_eq bit_mask_iff possible_bit_word dest: bit_bound)

lemma get_set_field: "pos + w \<le> 32 \<Longrightarrow> get_field pos w (set_field pos w v x) = v AND Bit_Operations.mask w"
  by (rule bit_word_eqI) (auto simp: bit_get_field bit_set_field bit_and_iff bit_mask_iff possible_bit_word dest: bit_bound)

lemma get_set_other:
  "pos + w \<le> pos' \<or> pos' + w' \<le> pos \<Longrightarrow> get_field pos' w' (set_field pos w v x) = get_field pos' w' x"
  by (rule bit_word_eqI) (auto simp: bit_get_field bit_set_field)

lemma field_mask_reg_mask: "l \<le> h \<Longrightarrow> h < 32 \<Longrightarrow> field_mask l (Suc h - l) = reg_mask l h"
  by (simp add: field_mask_def reg_mask_eq)

lemma get_field_reg_mask:
  assumes "l \<le> h" and "h < 32"
  shows "get_field l (Suc h - l) x = drop_bit l (x AND reg_mask l h)"
  by (rule bit_word_eqI) (use assms in \<open>auto simp: bit_get_field bit_drop_bit_eq bit_and_iff bit_reg_mask\<close>)

end
