(* ===== verification/Rf_Gen_C.thy ===== *)
theory Rf_Gen_C
  imports Rf_Desc
begin

text \<open>
  The C access functions, \<open>src/templates/default/rf/template.icgt.c\<close>, and the header that declares
  them, \<open>template.icgt.h\<close>. The functions \<open>rf_<name>_read\<close> and \<open>rf_<name>_write\<close> that access the bus
  belong to the project: \<open>rd\<close> gets the address and the value of the variable it may overwrite, and
  both return whether they succeeded. The parameters the user adds to every function are passed on
  unchanged and are part of \<open>rd\<close> and \<open>wr\<close>. \<open>ev\<close> gives the value of a symbolic width.
\<close>

section \<open>Types and masks\<close>

datatype rtype = C_bool | C_uint8_t | C_uint16_t | C_uint32_t

definition reg_rtype :: "g_width \<Rightarrow> rtype" where
  "reg_rtype width =
     (case width of
        Width n \<Rightarrow> if n \<le> 1 then C_bool else if n \<le> 8 then C_uint8_t else if n \<le> 16 then C_uint16_t else C_uint32_t
      | Width_expr e \<Rightarrow> C_uint32_t)"

definition reg_cmask :: "(string \<Rightarrow> nat) \<Rightarrow> g_width \<Rightarrow> 32 word" where
  "reg_cmask ev width = (case width of Width n \<Rightarrow> push_bit n 1 - 1 | Width_expr e \<Rightarrow> push_bit (ev e) 1 - 1)"

text \<open>Conversion of a value to the type of a parameter.\<close>

definition c_conv :: "rtype \<Rightarrow> 32 word \<Rightarrow> 32 word" where
  "c_conv t v =
     (case t of
        C_bool \<Rightarrow> if v = 0 then 0 else 1
      | C_uint8_t \<Rightarrow> v AND Bit_Operations.mask 8
      | C_uint16_t \<Rightarrow> v AND Bit_Operations.mask 16
      | C_uint32_t \<Rightarrow> v)"

definition read_regs :: "gen_entry \<Rightarrow> gen_reg list" where
  "read_regs e = filter (\<lambda>r. gr_type r \<noteq> ''-'') (ge_regs e)"

definition write_regs :: "gen_entry \<Rightarrow> gen_reg list" where
  "write_regs e = filter write_reg (ge_regs e)"

section \<open>The functions\<close>

type_synonym 's c_read = "32 word \<Rightarrow> 32 word \<Rightarrow> 's \<Rightarrow> bool \<times> 32 word \<times> 's"
type_synonym 's c_write = "32 word \<Rightarrow> 32 word \<Rightarrow> 's \<Rightarrow> bool \<times> 's"

text \<open>The value a register's variable gets.\<close>

definition c_field :: "(string \<Rightarrow> nat) \<Rightarrow> gen_reg \<Rightarrow> 32 word \<Rightarrow> 32 word" where
  "c_field ev r v = c_conv (reg_rtype (gr_width r)) (drop_bit (gr_bit_low r) v AND reg_cmask ev (gr_width r))"

text \<open>The part of the word a register's parameter makes.\<close>

definition c_part :: "(string \<Rightarrow> nat) \<Rightarrow> gen_reg \<Rightarrow> 32 word \<Rightarrow> 32 word" where
  "c_part ev r x = push_bit (gr_bit_low r) (c_conv (reg_rtype (gr_width r)) x AND reg_cmask ev (gr_width r))"

text \<open>\<open>outs\<close> tells which of the pointers are not \<open>NULL\<close>.\<close>

definition c_entry_read ::
    "(string \<Rightarrow> nat) \<Rightarrow> 's c_read \<Rightarrow> gen_entry \<Rightarrow> bool list \<Rightarrow> 's \<Rightarrow> bool \<times> 32 word option list \<times> 's" where
  "c_entry_read ev rd e outs s =
     (case rd (of_nat (ge_address e)) 0 s of
        (ok, v, s) \<Rightarrow> (ok, map2 (\<lambda>r out. if out then Some (c_field ev r v) else None) (read_regs e) outs, s))"

definition c_entry_value :: "(string \<Rightarrow> nat) \<Rightarrow> gen_entry \<Rightarrow> 32 word list \<Rightarrow> 32 word" where
  "c_entry_value ev e xs = foldl (\<lambda>v (r, x). v OR c_part ev r x) 0 (zip (write_regs e) xs)"

definition c_entry_write ::
    "(string \<Rightarrow> nat) \<Rightarrow> 's c_write \<Rightarrow> gen_entry \<Rightarrow> 32 word list \<Rightarrow> 's \<Rightarrow> bool \<times> 's" where
  "c_entry_write ev wr e xs s = wr (of_nat (ge_address e)) (c_entry_value ev e xs) s"

definition c_entry_wordread :: "'s c_read \<Rightarrow> gen_entry \<Rightarrow> 32 word \<Rightarrow> 's \<Rightarrow> bool \<times> 32 word \<times> 's" where
  "c_entry_wordread rd e v s = rd (of_nat (ge_address e)) v s"

definition c_entry_wordwrite :: "'s c_write \<Rightarrow> gen_entry \<Rightarrow> 32 word \<Rightarrow> 's \<Rightarrow> bool \<times> 's" where
  "c_entry_wordwrite wr e v s = wr (of_nat (ge_address e)) v s"

definition c_reg_read ::
    "(string \<Rightarrow> nat) \<Rightarrow> 's c_read \<Rightarrow> gen_entry \<Rightarrow> gen_reg \<Rightarrow> bool \<Rightarrow> 's \<Rightarrow> bool \<times> 32 word option \<times> 's" where
  "c_reg_read ev rd e r out s =
     (case rd (of_nat (ge_address e)) 0 s of (ok, v, s) \<Rightarrow> (ok, if out then Some (c_field ev r v) else None, s))"

text \<open>The word is written whether it could be read or not.\<close>

definition c_reg_write ::
    "(string \<Rightarrow> nat) \<Rightarrow> 's c_read \<Rightarrow> 's c_write \<Rightarrow> gen_entry \<Rightarrow> gen_reg \<Rightarrow> 32 word \<Rightarrow> 's \<Rightarrow> bool \<times> 's" where
  "c_reg_write ev rd wr e r x s =
     (case rd (of_nat (ge_address e)) 0 s of
        (ok, v, s) \<Rightarrow>
          let v = v AND NOT (push_bit (gr_bit_low r) (reg_cmask ev (gr_width r)));
              v = v OR c_part ev r x
          in case wr (of_nat (ge_address e)) v s of (ok', s) \<Rightarrow> (ok \<and> ok', s))"

section \<open>Declarations\<close>

text \<open>A parameter of a generated function: the text of one of the user, a pointer, or a value.\<close>

datatype c_param = User_param string | Out_param rtype string | In_param rtype string

type_synonym c_proto = "string \<times> c_param list"

definition reg_out :: "gen_reg \<Rightarrow> c_param" where
  "reg_out r = Out_param (reg_rtype (gr_width r)) (gr_name r)"

definition reg_in :: "gen_reg \<Rightarrow> c_param" where
  "reg_in r = In_param (reg_rtype (gr_width r)) (gr_name r)"

definition fun_name :: "string \<Rightarrow> gen_entry \<Rightarrow> string \<Rightarrow> string" where
  "fun_name rf e suffix = ''rf_'' @ rf @ ''_'' @ ge_name e @ ''_'' @ suffix"

text \<open>
  The functions for an entry with their parameters, from the lists of registers in the variables
  \<open>read_regs\<close> and \<open>write_regs\<close>; the entry's own functions have a parameter for each of its own
  registers. \<open>nm\<close> is the name of the word's parameter.
\<close>

definition entry_protos ::
    "string \<Rightarrow> string \<Rightarrow> string list \<Rightarrow> gen_entry \<Rightarrow> gen_reg list \<Rightarrow> gen_reg list \<Rightarrow> c_proto list" where
  "entry_protos nm rf userparams e rregs wregs =
     (let user = map User_param userparams in
      (if rregs \<noteq> [] then [(fun_name rf e ''read'', user @ map reg_out (read_regs e))] else [])
      @ (if wregs \<noteq> [] then [(fun_name rf e ''write'', user @ map reg_in (write_regs e))] else [])
      @ (if rregs \<noteq> [] then [(fun_name rf e ''wordread'', user @ [Out_param C_uint32_t nm])] else [])
      @ (if wregs \<noteq> [] then [(fun_name rf e ''wordwrite'', user @ [In_param C_uint32_t nm])] else [])
      @ map (\<lambda>r. (fun_name rf e (gr_name r @ ''_read''), user @ [Out_param (reg_rtype (gr_width r)) nm])) rregs
      @ map (\<lambda>r. (fun_name rf e (gr_name r @ ''_write''), user @ [In_param (reg_rtype (gr_width r)) nm])) wregs)"

text \<open>The source starts with empty lists for every entry.\<close>

definition c_functions :: "string \<Rightarrow> string list \<Rightarrow> gen_entry list \<Rightarrow> c_proto list" where
  "c_functions rf userparams entries =
     concat (map (\<lambda>e. entry_protos ''_value'' rf userparams e (read_regs e) (write_regs e)) entries)"

text \<open>The header declares the functions from the same lists, which it computes again.\<close>

definition h_functions :: "string \<Rightarrow> string list \<Rightarrow> gen_entry list \<Rightarrow> c_proto list" where
  "h_functions rf userparams entries =
     concat (map (\<lambda>e. entry_protos ''value'' rf userparams e (read_regs e) (write_regs e)) entries)"

section \<open>Fields of well-formed entries\<close>

definition reg_value :: "gen_reg \<Rightarrow> 32 word \<Rightarrow> 32 word" where
  "reg_value r x = c_conv (reg_rtype (gr_width r)) x AND Bit_Operations.mask (field_width r)"

lemma reg_cmask_Width: "reg_cmask ev (Width n) = Bit_Operations.mask n"
  by (simp add: reg_cmask_def mask_eq_exp_minus_1 push_bit_eq_mult)

lemma desc_okD:
  assumes "desc_ok e" and "r \<in> set (ge_regs e)"
  shows "gr_width r = Width (field_width r)" "gr_bit_low r + field_width r \<le> 32" "0 < field_width r"
    "gr_bit_low r + field_width r = Suc (gr_bit_high r)" "gr_bit_low r \<le> gr_bit_high r" "gr_bit_high r < 32"
  using assms tiles_reg [of 0 32 "ge_regs e" r] by (auto simp: desc_ok_def)

lemma entry_apart:
  assumes "desc_ok e" and "r \<in> set (ge_regs e)" and "r' \<in> set (ge_regs e)" and "r \<noteq> r'"
  shows "gr_bit_low r + field_width r \<le> gr_bit_low r' \<or> gr_bit_low r' + field_width r' \<le> gr_bit_low r"
  using assms tiles_apart [of 0 32 "ge_regs e" r r'] desc_okD(4) by (fastforce simp: desc_ok_def)

text \<open>The type of a register's variable has room for the register.\<close>

lemma c_conv_field:
  assumes "0 < n"
  shows "c_conv (reg_rtype (Width n)) (v AND Bit_Operations.mask n) = v AND Bit_Operations.mask n"
proof -
  have le: "(v AND Bit_Operations.mask n) AND Bit_Operations.mask m = v AND Bit_Operations.mask n" if "n \<le> m" for m
    by (rule bit_word_eqI) (use that in \<open>auto simp: bit_and_iff bit_mask_iff possible_bit_word\<close>)
  have one: "w = 0 \<or> w = 1" if "w = v AND 1" for w :: "32 word"
    using that by (auto simp: and_one_eq)
  show ?thesis
  proof (cases "n = 1")
    case True
    then show ?thesis using one [OF refl] by (auto simp: reg_rtype_def c_conv_def)
  next
    case False
    then show ?thesis using assms le by (auto simp: reg_rtype_def c_conv_def)
  qed
qed

lemma c_field_get:
  assumes "desc_ok e" and "r \<in> set (ge_regs e)"
  shows "c_field ev r v = get_field (gr_bit_low r) (field_width r) v"
  using c_conv_field [OF desc_okD(3) [OF assms]] desc_okD(1) [OF assms]
  by (metis c_field_def get_field_def reg_cmask_Width)

lemma c_part_push:
  assumes "desc_ok e" and "r \<in> set (ge_regs e)"
  shows "c_part ev r x = push_bit (gr_bit_low r) (reg_value r x)"
  using desc_okD(1) [OF assms] by (metis c_part_def reg_value_def reg_cmask_Width)

lemma bit_c_part:
  assumes "desc_ok e" and "r \<in> set (ge_regs e)"
  shows "bit (c_part ev r x) i \<longleftrightarrow> gr_bit_low r \<le> i \<and> i < 32 \<and> bit (reg_value r x) (i - gr_bit_low r)"
  by (simp add: c_part_push [OF assms] bit_push_32)

lemma bit_reg_value: "bit (reg_value r x) i \<Longrightarrow> i < field_width r"
  by (simp add: reg_value_def bit_and_iff bit_mask_iff)

lemma bit_c_part_range:
  assumes "desc_ok e" and "r \<in> set (ge_regs e)" and "bit (c_part ev r x) i"
  shows "gr_bit_low r \<le> i" "i < gr_bit_low r + field_width r"
  using assms(3) bit_reg_value unfolding bit_c_part [OF assms(1,2)] by (auto dest: bit_reg_value)

text \<open>The field of a part of the word.\<close>

lemma get_part:
  assumes "desc_ok e" and "r \<in> set (ge_regs e)" and "r' \<in> set (ge_regs e)"
  shows "get_field (gr_bit_low r') (field_width r') (c_part ev r x) = (if r = r' then reg_value r x else 0)"
proof (cases "r = r'")
  case True
  have "get_field (gr_bit_low r) (field_width r) (c_part ev r x) = reg_value r x"
  proof (rule bit_word_eqI)
    fix n
    show "bit (get_field (gr_bit_low r) (field_width r) (c_part ev r x)) n = bit (reg_value r x) n"
      using desc_okD(2) [OF assms(1,2)] bit_reg_value [of r x n]
      by (auto simp: bit_get_field bit_c_part [OF assms(1,2)])
  qed
  then show ?thesis using True by simp
next
  case False
  have "\<not> bit (get_field (gr_bit_low r') (field_width r') (c_part ev r x)) i" for i
    using bit_c_part_range [OF assms(1,2)] entry_apart [OF assms False] by (fastforce simp: bit_get_field)
  then show ?thesis using False by (auto intro!: bit_word_eqI)
qed

lemma get_field_or: "get_field p w (x OR y) = get_field p w x OR get_field p w y"
  by (rule bit_word_eqI) (auto simp: bit_get_field bit_or_iff)

lemma get_field_0 [simp]: "get_field p w 0 = 0"
  by (simp add: get_field_def)

lemma entry_distinct: "desc_ok e \<Longrightarrow> distinct (ge_regs e)"
proof -
  assume ok: "desc_ok e"
  have "ge_regs e ! i \<noteq> ge_regs e ! j" if "i < j" "j < length (ge_regs e)" for i j
    using tiles_disjoint [of 0 32 "ge_regs e" i j] ok that desc_okD(5) [OF ok, of "ge_regs e ! j"]
    by (fastforce simp: desc_ok_def)
  then show ?thesis unfolding distinct_conv_nth by (metis nat_neq_iff)
qed

section \<open>What the functions do\<close>

lemma get_parts:
  assumes "desc_ok e" and "r' \<in> set (ge_regs e)" and "set (map fst rxs) \<subseteq> set (ge_regs e)" and "distinct (map fst rxs)"
  shows "get_field (gr_bit_low r') (field_width r') (foldl (\<lambda>v (r, x). v OR c_part ev r x) v rxs) =
     get_field (gr_bit_low r') (field_width r') v OR (case map_of rxs r' of None \<Rightarrow> 0 | Some x \<Rightarrow> reg_value r' x)"
  using assms(3,4)
proof (induction rxs arbitrary: v)
  case (Cons rx rxs)
  obtain r x where rx: "rx = (r, x)" by (cases rx)
  have "map_of rxs r = None" using Cons.prems(2) by (simp add: rx map_of_eq_None_iff)
  then show ?case
    using Cons get_part [OF assms(1) _ assms(2), of r ev x] by (auto simp: rx get_field_or or.assoc)
qed simp

lemma entry_value_field:
  assumes "desc_ok e" and "r \<in> set (ge_regs e)" and "length xs = length (write_regs e)"
  shows "c_field ev r (c_entry_value ev e xs) =
     (case map_of (zip (write_regs e) xs) r of None \<Rightarrow> 0 | Some x \<Rightarrow> reg_value r x)"
proof -
  have "map fst (zip (write_regs e) xs) = write_regs e" using assms(3) by simp
  moreover have "set (write_regs e) \<subseteq> set (ge_regs e)" "distinct (write_regs e)"
    using entry_distinct [OF assms(1)] by (auto simp: write_regs_def)
  ultimately show ?thesis
    using get_parts [OF assms(1,2), of "zip (write_regs e) xs" ev 0]
    by (simp add: c_field_get [OF assms(1,2)] c_entry_value_def)
qed

text \<open>The word a register's write function puts in place of the old one.\<close>

lemma reg_write_word:
  assumes "desc_ok e" and "r \<in> set (ge_regs e)" and "r' \<in> set (ge_regs e)"
  shows "c_field ev r' ((v AND NOT (push_bit (gr_bit_low r) (reg_cmask ev (gr_width r)))) OR c_part ev r x) =
     (if r' = r then reg_value r x else c_field ev r' v)"
proof -
  have m: "push_bit (gr_bit_low r) (reg_cmask ev (gr_width r)) = field_mask (gr_bit_low r) (field_width r)"
    using desc_okD(1) [OF assms(1,2)] by (metis field_mask_def reg_cmask_Width)
  have "get_field (gr_bit_low r') (field_width r') (v AND NOT (field_mask (gr_bit_low r) (field_width r))) =
      (if r' = r then 0 else get_field (gr_bit_low r') (field_width r') v)"
  proof (cases "r' = r")
    case True
    then show ?thesis
      by (auto intro!: bit_word_eqI simp: bit_get_field bit_and_iff bit_not_32 bit_field_mask)
  next
    case False
    then show ?thesis
      using entry_apart [OF assms(1,3,2)]
      by (auto intro!: bit_word_eqI simp: bit_get_field bit_and_iff bit_not_32 bit_field_mask dest: bit_bound)
  qed
  then show ?thesis
    using get_part [OF assms, of ev x] by (auto simp: m c_field_get [OF assms(1,3)] get_field_or)
qed

section \<open>The header\<close>

text \<open>A function's name and the types of its parameters, as far as they matter to the compiler.\<close>

definition param_type :: "c_param \<Rightarrow> c_param" where
  "param_type p = (case p of User_param t \<Rightarrow> p | Out_param t n \<Rightarrow> Out_param t [] | In_param t n \<Rightarrow> In_param t [])"

definition signature :: "c_proto \<Rightarrow> c_proto" where
  "signature p = (fst p, map param_type (snd p))"

lemma entry_protos_signature:
  "map signature (entry_protos nm rf up e R W) = map signature (entry_protos nm' rf up e R W)"
  by (simp add: entry_protos_def Let_def signature_def param_type_def)

text \<open>The header declares the functions of the source, in their order and with their types.\<close>

theorem header_functions:
  "map signature (h_functions rf up entries) = map signature (c_functions rf up entries)"
  by (simp add: h_functions_def c_functions_def map_concat comp_def entry_protos_signature [of "''value''" _ _ _ _ _ "''_value''"])

section \<open>Properties\<close>

text \<open>C29. The write function of a register puts its parameter, reduced to the register, in the place of the
  register and keeps the other registers of the word that the bus returned, even when the bus
  reported that it could not read.\<close>

theorem c_reg_write_spec:
  assumes "desc_ok e" and "r \<in> set (ge_regs e)" and "rd (of_nat (ge_address e)) 0 s = (ok, v, s1)"
  shows "\<exists>w. c_reg_write ev rd wr e r x s = (case wr (of_nat (ge_address e)) w s1 of (ok', s2) \<Rightarrow> (ok \<and> ok', s2)) \<and>
    (\<forall>r' \<in> set (ge_regs e). c_field ev r' w = (if r' = r then reg_value r x else c_field ev r' v))"
  using reg_write_word [OF assms(1,2)] assms(3) unfolding c_reg_write_def Let_def prod.case
  by (intro exI conjI [OF refl]) auto

definition example_entry :: gen_entry where
  "example_entry = \<lparr>ge_name = ''ctrl'', ge_address = 8, ge_regs =
     [\<lparr>gr_name = ''en'', gr_bit_high = 0, gr_bit_low = 0, gr_width = Width 1, gr_type = ''RW'', gr_reset = ''0'', gr_comment = ''''\<rparr>,
      \<lparr>gr_name = ''-'', gr_bit_high = 3, gr_bit_low = 1, gr_width = Width 3, gr_type = ''-'', gr_reset = ''-'', gr_comment = ''''\<rparr>,
      \<lparr>gr_name = ''mode'', gr_bit_high = 7, gr_bit_low = 4, gr_width = Width 4, gr_type = ''RW'', gr_reset = ''5'', gr_comment = ''''\<rparr>,
      \<lparr>gr_name = ''state'', gr_bit_high = 15, gr_bit_low = 8, gr_width = Width 8, gr_type = ''R'', gr_reset = ''-'', gr_comment = ''''\<rparr>,
      \<lparr>gr_name = ''-'', gr_bit_high = 31, gr_bit_low = 16, gr_width = Width 16, gr_type = ''-'', gr_reset = ''-'', gr_comment = ''''\<rparr>]\<rparr>"

definition example_mode :: gen_reg where
  "example_mode = ge_regs example_entry ! 2"

lemma example_entry_ok: "desc_ok example_entry"
  by (simp add: desc_ok_def example_entry_def named_def)

text \<open>A bus that stores words and cannot read: the other fields of the entry are lost.\<close>

theorem c_reg_write_spec_witness:
  "\<exists>w. c_reg_write (\<lambda>_. 0) (\<lambda>a v m. (False, v, m)) (\<lambda>a v m. (True, m(a := v))) example_entry example_mode 0x1b (\<lambda>_. 0xabff) =
       (False, (\<lambda>_. 0xabff)(8 := w)) \<and>
     c_field (\<lambda>_. 0) example_mode w = 0xb \<and> c_field (\<lambda>_. 0) (hd (ge_regs example_entry)) w = 0"
proof -
  have mem: "example_mode \<in> set (ge_regs example_entry)" "hd (ge_regs example_entry) \<in> set (ge_regs example_entry)"
    "hd (ge_regs example_entry) \<noteq> example_mode" "ge_address example_entry = 8"
    by (simp_all add: example_mode_def example_entry_def)
  have val: "reg_value example_mode 0x1b = 0xb" "c_field (\<lambda>_. 0) r 0 = 0" for r
    by (simp_all add: reg_value_def example_mode_def example_entry_def reg_rtype_def c_conv_def field_width_def
        mask_eq_exp_minus_1 c_field_def split: rtype.split)
  have "\<exists>w. c_reg_write (\<lambda>_. 0) (\<lambda>a v m. (False, v, m)) (\<lambda>a v m. (True, m(a := v))) example_entry example_mode 0x1b (\<lambda>_. 0xabff) =
      (case (True, (\<lambda>_. 0xabff)(of_nat (ge_address example_entry) := w)) of (ok', s2) \<Rightarrow> (False \<and> ok', s2)) \<and>
      (\<forall>r \<in> set (ge_regs example_entry). c_field (\<lambda>_. 0) r w =
         (if r = example_mode then reg_value example_mode 0x1b else c_field (\<lambda>_. 0) r 0))"
    by (rule c_reg_write_spec [OF example_entry_ok mem(1)]) simp
  then obtain w where w: "c_reg_write (\<lambda>_. 0) (\<lambda>a v m. (False, v, m)) (\<lambda>a v m. (True, m(a := v))) example_entry example_mode 0x1b (\<lambda>_. 0xabff) =
        (False, (\<lambda>_. 0xabff)(8 := w))"
      "\<forall>r \<in> set (ge_regs example_entry). c_field (\<lambda>_. 0) r w =
         (if r = example_mode then reg_value example_mode 0x1b else c_field (\<lambda>_. 0) r 0)"
    unfolding mem(4) by auto
  have "c_field (\<lambda>_. 0) example_mode w = 0xb" using w(2) mem(1) val(1) by simp
  moreover have "c_field (\<lambda>_. 0) (hd (ge_regs example_entry)) w = 0" using w(2) mem(2,3) val(2) by simp
  ultimately show ?thesis using w(1) by blast
qed

text \<open>C28. On a bus that stores words, the read function of an entry returns what the write function of the
  entry was given, each value reduced to its register, and zero for a register that cannot be written.\<close>

theorem c_entry_roundtrip:
  assumes "desc_ok e" and "length xs = length (write_regs e)" and "length outs = length (read_regs e)"
    and "\<And>a v s. rd a v s = (True, mem s a, s)" and "\<And>a v s. mem (snd (wr a v s)) = (mem s)(a := v)"
  shows "fst (snd (c_entry_read ev rd e outs (snd (c_entry_write ev wr e xs s)))) =
    map2 (\<lambda>r out. if out then Some (case map_of (zip (write_regs e) xs) r of None \<Rightarrow> 0 | Some x \<Rightarrow> reg_value r x) else None)
      (read_regs e) outs"
proof -
  have "r \<in> set (ge_regs e)" if "(r, out) \<in> set (zip (read_regs e) outs)" for r out
    using set_zip_leftD [OF that] by (simp add: read_regs_def)
  then show ?thesis
    by (auto simp: c_entry_read_def c_entry_write_def assms(4,5) entry_value_field [OF assms(1) _ assms(2)])
qed

theorem c_entry_roundtrip_witness:
  "fst (snd (c_entry_read (\<lambda>_. 0) (\<lambda>a v m. (True, m a, m)) example_entry [True, False, True]
      (snd (c_entry_write (\<lambda>_. 0) (\<lambda>a v m. (True, m(a := v))) example_entry [1, 0x37] (\<lambda>_. - 1))))) =
    [Some 1, None, Some 0]"
proof -
  have len: "length [1, 0x37 :: 32 word] = length (write_regs example_entry)"
    "length [True, False, True] = length (read_regs example_entry)"
    by (simp_all add: write_regs_def read_regs_def write_reg_def example_entry_def)
  show ?thesis
    unfolding c_entry_roundtrip [OF example_entry_ok len, where rd = "\<lambda>a v m. (True, m a, m)" and mem = "\<lambda>m. m"
        and wr = "\<lambda>a v m. (True, m(a := v))", simplified]
    by (simp add: write_regs_def read_regs_def write_reg_def example_entry_def reg_value_def reg_rtype_def c_conv_def
        field_width_def mask_eq_exp_minus_1)
qed

end
