(* ===== verification/Rf_Gen_Host.thy ===== *)
theory Rf_Gen_Host
  imports Rf_Gen_C
begin

text \<open>
  The C++ classes of the host program, \<open>src/templates/default/rf/template.icgt.host.h\<close> and
  \<open>template.icgt.host.cpp\<close>: a class for the register file with an object for every entry, which has
  an object for every register and converts to and from a struct with a bit field per register. The
  classes they inherit from are those of theory Rf_Dev.
\<close>

section \<open>The generated classes\<close>

text \<open>The mask of the bits of an entry no register uses, computed by the template with unbounded
  integers and printed as a constant of the class.\<close>

definition unused_bits :: "gen_reg list \<Rightarrow> int" where
  "unused_bits regs =
     foldl (\<lambda>m r. if named r then m else m OR (push_bit (Suc (gr_bit_high r)) 1 - push_bit (gr_bit_low r) 1)) 0 regs"

definition unused_mask :: "gen_entry \<Rightarrow> rf_data_t" where
  "unused_mask e = word_of_int (unused_bits (ge_regs e))"

record host_reg =
  hr_name :: string
  hr_writable :: bool
  hr_reg :: reg_t

record host_entry =
  he_name :: string
  he_entry :: entry_t
  he_regs :: "host_reg list"
  he_word :: entry_t

text \<open>The constructors. A register that can be written is a \<open>_reg_rw_t\<close>, else it is a \<open>_reg_ro_t\<close>.\<close>

definition host_entry_t :: "rf_addr_t \<Rightarrow> gen_entry \<Rightarrow> entry_t" where
  "host_entry_t base_addr e =
     \<lparr>m_base_addr = base_addr, m_addr = of_nat (ge_address e), m_unused_mask = unused_mask e\<rparr>"

definition host_reg_new :: "entry_t \<Rightarrow> gen_reg \<Rightarrow> host_reg" where
  "host_reg_new ent r =
     \<lparr>hr_name = gr_name r, hr_writable = write_reg r, hr_reg = reg_new ent (gr_bit_low r) (gr_bit_high r)\<rparr>"

definition host_entry_new :: "rf_addr_t \<Rightarrow> gen_entry \<Rightarrow> host_entry" where
  "host_entry_new base_addr e =
     (let ent = host_entry_t base_addr e in
      \<lparr>he_name = ge_name e, he_entry = ent, he_regs = map (host_reg_new ent) (filter named (ge_regs e)),
       he_word = ent\<rparr>)"

definition host_class_new :: "rf_addr_t \<Rightarrow> gen_entry list \<Rightarrow> host_entry list" where
  "host_class_new base_addr entries = map (host_entry_new base_addr) entries"

text \<open>
  The struct of an entry, as the list of its members with a name. The bits of the others are not
  copied with the struct; \<open>garbage\<close> is what the variable holds there.
\<close>

definition named_members :: "gen_reg list \<Rightarrow> member list" where
  "named_members regs = filter (\<lambda>(r, p, w). named r) (struct_members 0 regs)"

definition struct_to_word :: "rf_data_t \<Rightarrow> gen_reg list \<Rightarrow> rf_data_t list \<Rightarrow> rf_data_t" where
  "struct_to_word garbage regs vs =
     foldl (\<lambda>x ((r, p, w), v). set_field p w v x) garbage (zip (named_members regs) vs)"

definition word_to_struct :: "gen_reg list \<Rightarrow> rf_data_t \<Rightarrow> rf_data_t list" where
  "word_to_struct regs x = map (\<lambda>(r, p, w). get_field p w x) (named_members regs)"

definition host_struct_assign ::
    "'s regfile_dev \<Rightarrow> rf_data_t \<Rightarrow> entry_t \<Rightarrow> gen_reg list \<Rightarrow> rf_data_t list \<Rightarrow> 's \<Rightarrow> 's res" where
  "host_struct_assign dev garbage ent regs vs s = entry_write dev ent (struct_to_word garbage regs vs) s"

definition host_struct_value :: "'s regfile_dev \<Rightarrow> entry_t \<Rightarrow> gen_reg list \<Rightarrow> 's \<Rightarrow> (rf_data_t list \<times> 's) res" where
  "host_struct_value dev ent regs s = res_bind (entry_read dev ent s) (\<lambda>(v, s). Inr (word_to_struct regs v, s))"

definition host_entry_pointer :: "entry_t \<Rightarrow> 64 word" where
  "host_entry_pointer ent = entry_pointer ent"

section \<open>Unused bits\<close>

lemma bit_field_int: "l \<le> h \<Longrightarrow> bit (push_bit (Suc h) 1 - push_bit l 1 :: int) i \<longleftrightarrow> l \<le> i \<and> i \<le> h"
proof -
  assume "l \<le> h"
  then have "l + (Suc h - l) = Suc h" by simp
  then have "(2 :: int) ^ Suc h = 2 ^ l * 2 ^ (Suc h - l)" by (metis power_add)
  then have "push_bit (Suc h) 1 - push_bit l 1 = push_bit l (Bit_Operations.mask (Suc h - l) :: int)"
    unfolding push_bit_eq_mult mask_eq_exp_minus_1 by (simp only: mult_1 right_diff_distrib left_diff_distrib mult.commute)
  then show ?thesis using \<open>l \<le> h\<close> by (auto simp: bit_push_bit_iff_int bit_mask_iff)
qed

lemma bit_unused_bits:
  assumes "\<forall>r \<in> set regs. gr_bit_low r \<le> gr_bit_high r"
  shows "bit (unused_bits regs) i \<longleftrightarrow> (\<exists>r \<in> set regs. \<not> named r \<and> gr_bit_low r \<le> i \<and> i \<le> gr_bit_high r)"
  using assms
proof (induction regs rule: rev_induct)
  case (snoc r regs)
  then show ?case
    using bit_field_int [of "gr_bit_low r" "gr_bit_high r" i] by (auto simp: unused_bits_def bit_or_iff)
qed (simp add: unused_bits_def)

lemma bit_unused_mask:
  assumes "desc_ok e"
  shows "bit (unused_mask e) i \<longleftrightarrow> (\<exists>r \<in> set (ge_regs e). \<not> named r \<and> gr_bit_low r \<le> i \<and> i \<le> gr_bit_high r)"
proof -
  have "i < 32" if "r \<in> set (ge_regs e)" "i \<le> gr_bit_high r" for r
    using desc_okD(6) [OF assms that(1)] that(2) by simp
  then show ?thesis
    using desc_okD(5) [OF assms] bit_unused_bits [of "ge_regs e" i]
    by (auto simp: unused_mask_def bit_word_of_int_iff)
qed

lemma reg_used:
  assumes "desc_ok e" and "r \<in> set (ge_regs e)" and "named r"
  shows "reg_mask (gr_bit_low r) (gr_bit_high r) AND unused_mask e = 0"
  unfolding disjoint_mask bit_reg_mask [OF desc_okD(5,6) [OF assms(1,2)]] bit_unused_mask [OF assms(1)]
proof safe
  fix i r'
  assume r': "gr_bit_low r \<le> i" "i \<le> gr_bit_high r" "r' \<in> set (ge_regs e)" "\<not> named r'" "gr_bit_low r' \<le> i" "i \<le> gr_bit_high r'"
  then have "r \<noteq> r'" using assms(3) by auto
  then show False
    using tiles_apart [of 0 32 "ge_regs e" r r'] assms(1,2) r' by (auto simp: desc_ok_def)
qed

section \<open>Structs\<close>

lemma entry_named_members:
  "desc_ok e \<Longrightarrow> named_members (ge_regs e) = map (\<lambda>r. (r, gr_bit_low r, field_width r)) (filter named (ge_regs e))"
  using tiles_members [of 0 32 "ge_regs e"] by (simp add: named_members_def desc_ok_def filter_map comp_def)

text \<open>The last one of several assignments to a field counts.\<close>

lemma get_struct_fields:
  assumes "desc_ok e" and "r' \<in> set (ge_regs e)" and "set (map fst rvs) \<subseteq> set (ge_regs e)"
  shows "get_field (gr_bit_low r') (field_width r') (foldl (\<lambda>x (r, v). set_field (gr_bit_low r) (field_width r) v x) x rvs) =
     (case map_of (rev rvs) r' of None \<Rightarrow> get_field (gr_bit_low r') (field_width r') x | Some v \<Rightarrow> v AND Bit_Operations.mask (field_width r'))"
  using assms(3)
proof (induction rvs rule: rev_induct)
  case (snoc rv rvs)
  obtain r v where rv: "rv = (r, v)" by (cases rv)
  have r: "r \<in> set (ge_regs e)" using snoc.prems by (simp add: rv)
  show ?case
  proof (cases "r = r'")
    case True
    then show ?thesis using get_set_field [OF desc_okD(2) [OF assms(1,2)]] by (simp add: rv)
  next
    case False
    then show ?thesis
      using snoc get_set_other [OF entry_apart [OF assms(1) r assms(2) False]] by (simp add: rv)
  qed
qed simp

lemma map_of_rev_distinct: "distinct (map fst xs) \<Longrightarrow> map_of (rev xs) = map_of xs"
  by (rule ext) (metis (no_types, lifting) distinct_rev map_of_eqI map_of_eq_None_iff map_of_eq_Some_iff rev_map set_map set_rev option.exhaust)

lemma map_of_zip_map: "length vs = length ks \<Longrightarrow> distinct ks \<Longrightarrow> map (\<lambda>k. f k (map_of (zip ks vs) k)) ks = map2 (\<lambda>k v. f k (Some v)) ks vs"
  by (rule nth_equalityI) (auto simp: map_of_zip_nth)

lemma struct_roundtrip:
  assumes "desc_ok e" and "length vs = length (filter named (ge_regs e))"
  shows "word_to_struct (ge_regs e) (struct_to_word garbage (ge_regs e) vs) =
    map2 (\<lambda>r v. v AND Bit_Operations.mask (field_width r)) (filter named (ge_regs e)) vs"
proof -
  let ?rs = "filter named (ge_regs e)"
  have fold: "struct_to_word garbage (ge_regs e) vs =
      foldl (\<lambda>x (r, v). set_field (gr_bit_low r) (field_width r) v x) garbage (zip ?rs vs)"
    by (simp add: struct_to_word_def entry_named_members [OF assms(1)] zip_map1 foldl_map case_prod_unfold)
  have d: "distinct ?rs" using entry_distinct [OF assms(1)] by simp
  have "get_field (gr_bit_low r) (field_width r) (struct_to_word garbage (ge_regs e) vs) =
      (case map_of (zip ?rs vs) r of None \<Rightarrow> get_field (gr_bit_low r) (field_width r) garbage
       | Some v \<Rightarrow> v AND Bit_Operations.mask (field_width r))" if "r \<in> set ?rs" for r
    using get_struct_fields [OF assms(1), of r "zip ?rs vs" garbage] that assms(2) d
    by (simp add: fold map_of_rev_distinct)
  then have "word_to_struct (ge_regs e) (struct_to_word garbage (ge_regs e) vs) =
      map (\<lambda>r. case map_of (zip ?rs vs) r of None \<Rightarrow> get_field (gr_bit_low r) (field_width r) garbage
       | Some v \<Rightarrow> v AND Bit_Operations.mask (field_width r)) ?rs"
    by (simp add: word_to_struct_def entry_named_members [OF assms(1)])
  also have "\<dots> = map2 (\<lambda>r v. v AND Bit_Operations.mask (field_width r)) ?rs vs"
    using map_of_zip_map [OF assms(2) d, of "\<lambda>r y. case y of None \<Rightarrow> get_field (gr_bit_low r) (field_width r) garbage
       | Some v \<Rightarrow> v AND Bit_Operations.mask (field_width r)"] by simp
  finally show ?thesis .
qed

lemma struct_agree:
  assumes "desc_ok e" and "agree (unused_mask e) x y"
  shows "word_to_struct (ge_regs e) x = word_to_struct (ge_regs e) y"
proof -
  have "get_field (gr_bit_low r) (field_width r) x = get_field (gr_bit_low r) (field_width r) y"
    if r: "r \<in> set (ge_regs e)" "named r" for r
  proof -
    have "get_field (gr_bit_low r) (Suc (gr_bit_high r) - gr_bit_low r) x =
        get_field (gr_bit_low r) (Suc (gr_bit_high r) - gr_bit_low r) y"
      unfolding get_field_reg_mask [OF desc_okD(5,6) [OF assms(1) r(1)]]
      using agree_unused_zero [OF assms(2) reg_used [OF assms(1) r]] by simp
    moreover have "Suc (gr_bit_high r) - gr_bit_low r = field_width r"
      using desc_okD(4) [OF assms(1) r(1)] by simp
    ultimately show ?thesis by simp
  qed
  then show ?thesis by (simp add: word_to_struct_def entry_named_members [OF assms(1)])
qed

section \<open>Properties\<close>

text \<open>The entry \<open>e\<close> lies on the device at an address it may use, and the bits the device may change
  freely there are the ones without a register.\<close>

definition placed :: "(rf_addr_t \<Rightarrow> bool) \<Rightarrow> memory \<Rightarrow> rf_addr_t \<Rightarrow> gen_entry \<Rightarrow> bool" where
  "placed legal unused base_addr e \<longleftrightarrow>
     desc_ok e \<and> legal (base_addr + of_nat (ge_address e)) \<and> unused (base_addr + of_nat (ge_address e)) = unused_mask e"

text \<open>C25. In the class generated for any register file whose entries are well-formed and have different
  addresses, on any device that keeps the contract: what is assigned to a register is read from it,
  reduced to its width, and no other register of any entry changes.\<close>

theorem host_registers:
  assumes "rf_device legal unused ok mem dev" and "ok s"
    and "\<forall>e \<in> set entries. placed legal unused base_addr e"
    and "inj_on (\<lambda>e. of_nat (ge_address e) :: rf_addr_t) (set entries)"
    and "e \<in> set entries" and "r \<in> set (ge_regs e)" and "named r"
    and "e' \<in> set entries" and "r' \<in> set (ge_regs e')" and "named r'"
  shows "holds (res_bind (reg_write dev (hr_reg (host_reg_new (host_entry_t base_addr e) r)) v s)
      (\<lambda>(warn, s). reg_read dev (hr_reg (host_reg_new (host_entry_t base_addr e') r')) s))
    (\<lambda>(w, s'). w = (if e' = e \<and> r' = r then v AND Bit_Operations.mask (field_width r)
       else get_field (gr_bit_low r') (field_width r') (mem s (base_addr + of_nat (ge_address e')))))"
proof -
  let ?a = "base_addr + of_nat (ge_address e)" and ?a' = "base_addr + of_nat (ge_address e')"
  let ?l = "gr_bit_low r" and ?l' = "gr_bit_low r'"
  let ?m = "reg_mask ?l (gr_bit_high r)" and ?m' = "reg_mask ?l' (gr_bit_high r')"
  let ?R = "hr_reg (host_reg_new (host_entry_t base_addr e) r)" and ?R' = "hr_reg (host_reg_new (host_entry_t base_addr e') r')"
  have p: "desc_ok e" "legal ?a" "unused ?a = unused_mask e" "desc_ok e'" "legal ?a'" "unused ?a' = unused_mask e'"
    using assms(3,5,8) by (simp_all add: placed_def)
  note b = desc_okD(4,5,6) [OF p(1) assms(6)] and b' = desc_okD(4,5,6) [OF p(4) assms(9)]
  have w': "Suc (gr_bit_high r') - ?l' = field_width r'" "Suc (gr_bit_high r) - ?l = field_width r" using b b' by simp_all
  have R: "entry_addr (m_entry ?R) = ?a" "m_unused_mask (m_entry ?R) = unused_mask e" "m_lsb ?R = ?l" "m_mask ?R = ?m"
    "entry_addr (m_entry ?R') = ?a'" "m_lsb ?R' = ?l'" "m_mask ?R' = ?m'"
    by (simp_all add: host_reg_new_def host_entry_t_def reg_new_def entry_addr_def)
  have new: "drop_bit ?l' (mem_write ?a (push_bit ?l v) ?m (mem s) ?a' AND ?m') =
      (if e' = e \<and> r' = r then v AND Bit_Operations.mask (field_width r) else get_field ?l' (field_width r') (mem s ?a'))"
  proof (cases "e' = e")
    case e: True
    show ?thesis
    proof (cases "r' = r")
      case True
      then show ?thesis using e field_bits [OF b(2,3), of v "mem s ?a"] by (simp only: mem_write_def fun_upd_same w' simp_thms if_True)
    next
      case False
      then have "gr_bit_high r < ?l' \<or> gr_bit_high r' < ?l"
        using tiles_apart [of 0 32 "ge_regs e" r r'] p(1) assms(6,9) e by (auto simp: desc_ok_def)
      then show ?thesis
        using False e neighbour_bits [OF b(2,3) b'(2,3)] get_field_reg_mask [OF b'(2,3), of "mem s ?a'"] w'
        by (simp only: mem_write_def fun_upd_same simp_thms if_False)
    qed
  next
    case False
    then have "?a' \<noteq> ?a" using assms(4,5,8) by (auto simp: inj_on_def)
    then show ?thesis
      using False get_field_reg_mask [OF b'(2,3), of "mem s ?a'"] w' by (simp only: mem_write_def fun_upd_other simp_thms if_False)
  qed
  have step: "holds (reg_read dev ?R' s1) (\<lambda>(w, s'). w =
      (if e' = e \<and> r' = r then v AND Bit_Operations.mask (field_width r) else get_field ?l' (field_width r') (mem s ?a')))"
    if s1: "ok s1" "agree_mem legal unused (mem s1) (mem_write ?a (push_bit ?l v) ?m (mem s))" for s1
  proof (rule holds_mono [OF rf_device.reg_read_result [OF assms(1) s1(1)]])
    have "mem s1 ?a' AND ?m' = mem_write ?a (push_bit ?l v) ?m (mem s) ?a' AND ?m'"
      using agree_unused_zero [OF agree_mem_at [OF s1(2) p(5)], of ?m'] reg_used [OF p(4) assms(9,10)] p(6) by simp
    then show "case x of (w, s') \<Rightarrow> w =
        (if e' = e \<and> r' = r then v AND Bit_Operations.mask (field_width r) else get_field ?l' (field_width r') (mem s ?a'))"
      if "case x of (w, s') \<Rightarrow> ok s' \<and> agree_mem legal unused (mem s') (mem s1) \<and>
        w = drop_bit (m_lsb ?R') (mem s1 (entry_addr (m_entry ?R')) AND m_mask ?R')" for x
      using that unfolding R new [symmetric] by (auto simp del: drop_bit_and)
  qed (use p reg_used [OF p(4) assms(9,10)] in \<open>simp_all add: R\<close>)
  show ?thesis
    unfolding holds_bind
  proof (rule holds_mono [OF rf_device.reg_write_result [OF assms(1,2)]])
    fix x assume "case x of (warn, s') \<Rightarrow> ok s' \<and> warn = (push_bit (m_lsb ?R) v AND NOT (m_mask ?R) \<noteq> 0) \<and>
        agree_mem legal unused (mem s') (mem_write (entry_addr (m_entry ?R)) (push_bit (m_lsb ?R) v) (m_mask ?R) (mem s))"
    then show "holds (case x of (warn, s) \<Rightarrow> reg_read dev ?R' s) (\<lambda>(w, s'). w =
        (if e' = e \<and> r' = r then v AND Bit_Operations.mask (field_width r) else get_field ?l' (field_width r') (mem s ?a')))"
      using step by (auto simp: R)
  qed (use p in \<open>simp_all add: R\<close>)
qed

text \<open>The two registers of the example entry that can be written, on the bus device of the test bench.\<close>

theorem host_registers_witness:
  "holds (res_bind (reg_write apb_ram (hr_reg (host_reg_new (host_entry_t 0x100 example_entry) example_mode)) 0x1b (\<lambda>_. - 1))
      (\<lambda>(warn, s). reg_read apb_ram (hr_reg (host_reg_new (host_entry_t 0x100 example_entry) example_mode)) s)) (\<lambda>(w, s'). w = 0xb) \<and>
   holds (res_bind (reg_write apb_ram (hr_reg (host_reg_new (host_entry_t 0x100 example_entry) example_mode)) 0x1b (\<lambda>_. - 1))
      (\<lambda>(warn, s). reg_read apb_ram (hr_reg (host_reg_new (host_entry_t 0x100 example_entry) (hd (ge_regs example_entry)))) s))
    (\<lambda>(w, s'). w = 1)"
proof -
  let ?u = "\<lambda>_. unused_mask example_entry" and ?en = "hd (ge_regs example_entry)"
  have p: "\<forall>e \<in> set [example_entry]. placed aligned ?u 0x100 e"
    using example_entry_ok by (simp add: placed_def example_entry_def)
  have r: "example_mode \<in> set (ge_regs example_entry)" "named example_mode" "?en \<in> set (ge_regs example_entry)" "named ?en"
      "?en \<noteq> example_mode" "field_width example_mode = 4" "field_width ?en = 1" "gr_bit_low ?en = 0"
    by (simp_all add: example_mode_def example_entry_def named_def field_width_def)
  have in1: "example_entry \<in> set [example_entry]" "inj_on (\<lambda>e. of_nat (ge_address e) :: rf_addr_t) (set [example_entry])" by simp_all
  note both = host_registers [OF apb_ram_device [of ?u] TrueI p in1(2,1) r(1,2) in1(1)]
  show ?thesis
    using both [OF r(1,2), of "0x1b" "\<lambda>_. - 1"] both [OF r(3,4), of "0x1b" "\<lambda>_. - 1"] r
    by (simp add: get_field_def mask_eq_exp_minus_1)
qed

text \<open>Assigning a struct to an entry and reading it back.\<close>

theorem host_struct:
  assumes "rf_device legal unused ok mem dev" and "ok s" and "placed legal unused base_addr e"
    and "length vs = length (filter named (ge_regs e))"
  shows "holds (res_bind (host_struct_assign dev garbage (host_entry_t base_addr e) (ge_regs e) vs s)
      (host_struct_value dev (host_entry_t base_addr e) (ge_regs e)))
    (\<lambda>(ws, s'). ws = map2 (\<lambda>r v. v AND Bit_Operations.mask (field_width r)) (filter named (ge_regs e)) vs)"
proof -
  let ?a = "base_addr + of_nat (ge_address e)" and ?x = "struct_to_word garbage (ge_regs e) vs"
  have p: "desc_ok e" "legal ?a" "unused ?a = unused_mask e" using assms(3) by (simp_all add: placed_def)
  have full: "mem_write ?a ?x 0xffffffff (mem s) ?a = ?x"
  proof -
    have "(0xffffffff :: 32 word) = - 1" by simp
    then show ?thesis by (simp only: mem_write_def fun_upd_same masked_full)
  qed
  have rd: "holds (rfdev_read dev ?a s1) (\<lambda>(v, s'). word_to_struct (ge_regs e) v =
      map2 (\<lambda>r v. v AND Bit_Operations.mask (field_width r)) (filter named (ge_regs e)) vs)"
    if s1: "ok s1" "agree_mem legal unused (mem s1) (mem_write ?a ?x 0xffffffff (mem s))" for s1
  proof (rule holds_mono [OF rf_device.reads [OF assms(1) s1(1) p(2)]])
    fix x assume "case x of (v, s') \<Rightarrow> ok s' \<and> agree (unused ?a) v (mem s1 ?a) \<and> agree_mem legal unused (mem s') (mem s1)"
    then have "agree (unused_mask e) (fst x) ?x"
      using agree_mem_at [OF s1(2) p(2)] agree_trans unfolding full p(3) by auto
    then show "case x of (v, s') \<Rightarrow> word_to_struct (ge_regs e) v =
        map2 (\<lambda>r v. v AND Bit_Operations.mask (field_width r)) (filter named (ge_regs e)) vs"
      using struct_agree [OF p(1)] struct_roundtrip [OF p(1) assms(4)] by auto
  qed
  have u: "unused_mask e AND NOT (unused ?a) = 0" by (simp add: p(3))
  show ?thesis
    unfolding host_struct_assign_def host_struct_value_def entry_write_def entry_read_def regfile_write_def regfile_read_def
      host_entry_t_def entry_t.simps holds_bind
    by (rule holds_mono [OF rf_device.writes [OF assms(1,2) p(2) u]])
       (use rd in \<open>auto elim!: holds_mono\<close>)
qed

end
