(* ===== verification/Rf_Gen_Soc.thy ===== *)
theory Rf_Gen_Soc
  imports Rf_Gen_C
begin

text \<open>
  The header for programs on the chip itself, \<open>src/templates/default/rf/template.wtf.soc.h\<close>: a packed
  struct that is laid over the registers, with a union for every entry and arrays that fill the
  gaps. \<open>bw\<close> is the number of bytes of a word.
\<close>

section \<open>The struct\<close>

text \<open>The bytes of an entry's struct of bit fields, rounded up to its alignment, and of the union with
  the word.\<close>

definition struct_bytes :: "nat \<Rightarrow> gen_reg list \<Rightarrow> nat" where
  "struct_bytes bw regs = ((sum_list (map field_width regs) + 7) div 8 + bw - 1) div bw * bw"

definition union_bytes :: "nat \<Rightarrow> gen_entry \<Rightarrow> nat" where
  "union_bytes bw e = max (struct_bytes bw (ge_regs e)) bw"

text \<open>
  The loop over the entries: \<open>next_address\<close> is the variable of the template, \<open>off\<close> the offset that the
  compiler gives the next member. The result lists the entries with their offsets.
\<close>

fun soc_members :: "nat \<Rightarrow> nat \<Rightarrow> nat \<Rightarrow> gen_entry list \<Rightarrow> (string \<times> nat) list \<times> nat \<times> nat" where
  "soc_members bw next_address off [] = ([], next_address, off)"
| "soc_members bw next_address off (e # es) =
     (let fill_size = (if next_address < ge_address e then (ge_address e - next_address) div bw else 0);
          off = off + fill_size * bw
      in case soc_members bw (ge_address e + bw) (off + union_bytes bw e) es of
           (ms, n, end_off) \<Rightarrow> ((ge_name e, off) # ms, n, end_off))"

text \<open>
  The whole struct with its size; \<open>pad_to\<close> is the size the user asks for, or 0. An array with a
  negative size does not compile, nor does an entry with a symbolic width get through the template.
\<close>

definition soc_struct :: "nat \<Rightarrow> nat \<Rightarrow> gen_entry list \<Rightarrow> ((string \<times> nat) list \<times> nat) option" where
  "soc_struct bw pad_to entries =
     (if \<not> list_all (\<lambda>e. struct_ok (ge_regs e)) entries then None
      else case soc_members bw 0 0 entries of
        (ms, next_address, off) \<Rightarrow>
          if 0 < pad_to then
            let fill_size = (int pad_to - int next_address) div int bw
            in if fill_size < 0 then None else Some (ms, off + nat fill_size * bw)
          else Some (ms, off))"

section \<open>Offsets\<close>

lemma tiles_width_sum: "tiles pos dw rs \<Longrightarrow> pos + sum_list (map field_width rs) = dw"
  by (induction pos dw rs rule: tiles.induct) (auto simp: field_width_def)

lemma tiles_union_bytes:
  assumes "0 < bw" and "tiles 0 (8 * bw) (ge_regs e)"
  shows "union_bytes bw e = bw"
proof -
  have "(8 * bw + 7) div 8 = bw" by simp
  moreover have "(bw + bw - 1) div bw = 1" using assms(1) by (intro div_nat_eqI) simp_all
  ultimately show ?thesis
    using tiles_width_sum [OF assms(2)] by (simp add: union_bytes_def struct_bytes_def)
qed

fun spaced :: "nat \<Rightarrow> nat \<Rightarrow> gen_entry list \<Rightarrow> bool" where
  "spaced bw nxt [] = True"
| "spaced bw nxt (e # es) =
     (nxt \<le> ge_address e \<and> bw dvd (ge_address e - nxt) \<and> spaced bw (ge_address e + bw) es)"

lemma spaced_iff:
  assumes "bw dvd nxt"
  shows "spaced bw nxt es \<longleftrightarrow> (\<forall>e \<in> set es. nxt \<le> ge_address e \<and> bw dvd ge_address e) \<and>
    sorted_wrt (\<lambda>d e. ge_address d + bw \<le> ge_address e) es"
  using assms
proof (induction es arbitrary: nxt)
  case (Cons e es)
  show ?case
  proof (cases "nxt \<le> ge_address e \<and> bw dvd ge_address e")
    case True
    then have "bw dvd (ge_address e - nxt)" "bw dvd (ge_address e + bw)" using Cons.prems by (simp_all add: dvd_diff_nat)
    then show ?thesis using True Cons.IH [of "ge_address e + bw"] by (auto; fastforce)
  next
    case False
    then show ?thesis using Cons.prems by (auto simp: dvd_minus_self dest: dvd_diffD)
  qed
qed simp

text \<open>From an offset equal to the address the members lie at their addresses exactly when they are spaced.\<close>

lemma soc_members_at:
  assumes "0 < bw" and "\<forall>e \<in> set es. union_bytes bw e = bw"
  shows "map snd (fst (soc_members bw nxt nxt es)) = map ge_address es \<longleftrightarrow> spaced bw nxt es"
  using assms(2)
proof (induction es arbitrary: nxt)
  case (Cons e es)
  let ?fill = "if nxt < ge_address e then (ge_address e - nxt) div bw else 0"
  have first: "nxt + ?fill * bw = ge_address e \<longleftrightarrow> nxt \<le> ge_address e \<and> bw dvd (ge_address e - nxt)"
  proof (cases "nxt < ge_address e")
    case True
    have "(ge_address e - nxt) div bw * bw = ge_address e - nxt \<longleftrightarrow> bw dvd (ge_address e - nxt)"
      by (metis dvd_div_mult_self dvd_triv_right)
    then show ?thesis using True by auto
  qed auto
  have "map snd (fst (soc_members bw nxt nxt (e # es))) = map ge_address (e # es) \<longleftrightarrow>
      nxt + ?fill * bw = ge_address e \<and>
      map snd (fst (soc_members bw (ge_address e + bw) (nxt + ?fill * bw + bw) es)) = map ge_address es"
    using Cons.prems by (simp add: Let_def split_beta)
  also have "\<dots> \<longleftrightarrow> nxt + ?fill * bw = ge_address e \<and> spaced bw (ge_address e + bw) es"
    using Cons.IH [of "ge_address e + bw"] Cons.prems by auto
  finally show ?case unfolding first by simp
qed simp

lemma soc_members_end:
  assumes "0 < bw" and "\<forall>e \<in> set es. union_bytes bw e = bw" and "spaced bw nxt es"
  shows "snd (soc_members bw nxt nxt es) = (if es = [] then (nxt, nxt) else (ge_address (last es) + bw, ge_address (last es) + bw))"
  using assms(2,3)
proof (induction es arbitrary: nxt)
  case (Cons e es)
  have "nxt + (if nxt < ge_address e then (ge_address e - nxt) div bw else 0) * bw = ge_address e"
    using Cons.prems(2) by auto
  then show ?case
    using Cons.IH [of "ge_address e + bw"] Cons.prems by (auto simp: Let_def split_beta)
qed simp

section \<open>Properties\<close>

text \<open>C30. When the registers of each entry fill its word, every entry of the struct lies at its address
  exactly when all addresses are multiples of the word size and rise by at least a word from one
  entry to the next; then the size asked for, if it is a multiple of the word size, is refused
  exactly when an entry lies beyond it, and else is the size of the struct.\<close>

theorem soc_offsets:
  assumes "0 < bw" and "entries \<noteq> []" and "\<forall>e \<in> set entries. tiles 0 (8 * bw) (ge_regs e)"
    and "0 < pad_to" and "bw dvd pad_to"
  shows "(map snd (fst (soc_members bw 0 0 entries)) = map ge_address entries \<longleftrightarrow>
       (\<forall>e \<in> set entries. bw dvd ge_address e) \<and> sorted_wrt (\<lambda>d e. ge_address d + bw \<le> ge_address e) entries) \<and>
     (map snd (fst (soc_members bw 0 0 entries)) = map ge_address entries \<longrightarrow>
       soc_struct bw pad_to entries =
         (if pad_to < ge_address (last entries) + bw then None else Some (fst (soc_members bw 0 0 entries), pad_to)))"
proof -
  have u: "\<forall>e \<in> set entries. union_bytes bw e = bw" using tiles_union_bytes [OF assms(1)] assms(3) by blast
  have ok: "list_all (\<lambda>e. struct_ok (ge_regs e)) entries" using assms(3) tiles_struct_ok by (auto simp: list_all_iff)
  have iff: "map snd (fst (soc_members bw 0 0 entries)) = map ge_address entries \<longleftrightarrow> spaced bw 0 entries"
    by (rule soc_members_at [OF assms(1) u])
  have "soc_struct bw pad_to entries =
      (if pad_to < ge_address (last entries) + bw then None else Some (fst (soc_members bw 0 0 entries), pad_to))"
    if sp: "spaced bw 0 entries"
  proof -
    let ?n = "ge_address (last entries) + bw"
    have "bw dvd ge_address (last entries)" using sp assms(2) unfolding spaced_iff [OF dvd_0_right] by simp
    then have d: "int bw dvd int pad_to - int ?n" using assms(5) by simp
    have neg: "(int pad_to - int ?n) div int bw < 0 \<longleftrightarrow> pad_to < ?n"
      using assms(1) by (auto simp: neg_imp_zdiv_neg_iff pos_imp_zdiv_neg_iff)
    have "?n + nat ((int pad_to - int ?n) div int bw) * bw = pad_to" if "\<not> pad_to < ?n"
    proof -
      have "int (nat ((int pad_to - int ?n) div int bw) * bw) = int pad_to - int ?n"
        using that neg d by (simp add: dvd_div_mult_self)
      then show ?thesis using that by linarith
    qed
    then show ?thesis
      using soc_members_end [OF assms(1) u sp] neg assms(2,4) ok
      by (auto simp: soc_struct_def split_beta Let_def simp del: of_nat_add)
  qed
  then show ?thesis unfolding iff using spaced_iff [of bw 0 entries] by auto
qed

theorem soc_offsets_witness:
  "map snd (fst (soc_members 4 0 0 [example_entry, example_entry\<lparr>ge_address := 16\<rparr>])) = [8, 16] \<and>
   (\<exists>ms. soc_struct 4 32 [example_entry, example_entry\<lparr>ge_address := 16\<rparr>] = Some (ms, 32)) \<and>
   map snd (fst (soc_members 4 0 0 [example_entry\<lparr>ge_address := 16\<rparr>, example_entry])) \<noteq> [16, 8]"
proof -
  let ?e = "example_entry" and ?e' = "example_entry\<lparr>ge_address := 16\<rparr>"
  have t: "tiles 0 32 (ge_regs ?e)" "ge_address ?e = 8" using example_entry_ok by (simp_all add: desc_ok_def example_entry_def)
  then have "\<forall>e \<in> set [?e, ?e']. tiles 0 (8 * 4) (ge_regs e)" "\<forall>e \<in> set [?e', ?e]. tiles 0 (8 * 4) (ge_regs e)" by simp_all
  note s = soc_offsets [OF _ _ this(1), of 32] soc_offsets [OF _ _ this(2), of 32]
  show ?thesis using s t(2) by auto
qed

end
