(* ===== verification/Keep_Blocks.thy ===== *)
theory Keep_Blocks
  imports Prelude "HOL-Library.Sublist" "HOL-Library.Multiset"
begin

text \<open>
  The blocks of a generated file that belong to the user: \<open>parse_keep_blocks\<close>,
  \<open>format_keep_block_content\<close>, \<open>pop_keep_block_content\<close> and \<open>remaining_keep_block_contents\<close> of
  \<open>src/tcllib/icglue_templates.tcl\<close>. They are read from the old file before it is generated again,
  and take the places of the default contents. A template is a list of items, texts and places for
  blocks. A block is looked up by its name; names have no characters that Tcl would take for a
  pattern.
\<close>

section \<open>Reading blocks\<close>

text \<open>The text before and after the first occurrence of a pattern, by \<open>string first\<close> and
  \<open>string range\<close>.\<close>

fun cut_at :: "string \<Rightarrow> string \<Rightarrow> (string \<times> string) option" where
  "cut_at pat [] = (if pat = [] then Some ([], []) else None)"
| "cut_at pat (c # cs) =
     (if prefix pat (c # cs) then Some ([], drop (length pat) (c # cs))
      else map_option (apfst (Cons c)) (cut_at pat cs))"

text \<open>How comments begin and end in the language of the file; the markers are comments.\<close>

record lexcom =
  cbegin :: string
  cend :: string

definition c_comment :: lexcom where
  "c_comment = \<lparr>cbegin = ''/* '', cend = '' */''\<rparr>"

definition block_start :: "string \<Rightarrow> lexcom \<Rightarrow> string" where
  "block_start word lc = cbegin lc @ word @ ''icglue keep begin ''"

definition block_end :: "string \<Rightarrow> lexcom \<Rightarrow> string" where
  "block_end word lc = cbegin lc @ word @ ''icglue keep end'' @ cend lc"

text \<open>A block's name and contents; the main type is always \<open>keep\<close>.\<close>

type_synonym keep_block = "string \<times> string"

lemma cut_at_length: "cut_at pat doc = Some (s, t) \<Longrightarrow> length s + length pat + length t = length doc"
  by (induction doc arbitrary: s) (auto simp: prefix_def dest: arg_cong [where f = length] split: if_splits)

function parse_blocks :: "string \<Rightarrow> lexcom \<Rightarrow> string \<Rightarrow> string + keep_block list" where
  "parse_blocks word lc doc =
     (case cut_at (block_start word lc) doc of
        None \<Rightarrow> Inr []
      | Some (before, doc) \<Rightarrow>
          (case cut_at (cend lc) doc of
             None \<Rightarrow> Inl ''No end of icglue keep comment''
           | Some (name, doc) \<Rightarrow>
               (case cut_at (block_end word lc) doc of
                  None \<Rightarrow> Inl (''No end of block after keep block begin - pragma type was '' @ name)
                | Some (content, doc) \<Rightarrow>
                    (case parse_blocks word lc doc of
                       Inl err \<Rightarrow> Inl err
                     | Inr result \<Rightarrow> Inr ((name, content) # result)))))"
  by pat_completeness auto
termination
  by (relation "measure (\<lambda>(word, lc, doc). length doc)") (auto simp: block_start_def dest!: cut_at_length)

declare parse_blocks.simps [simp del]

text \<open>If an old marker occurs anywhere, all markers are taken to be old ones.\<close>

definition parse_keep_blocks :: "string \<Rightarrow> lexcom \<Rightarrow> string + keep_block list" where
  "parse_keep_blocks doc lc =
     parse_blocks (if sublist (block_start ''pragma '' lc) doc then ''pragma '' else []) lc doc"

section \<open>Filling in a template\<close>

datatype item = Txt string | Pop string string

datatype piece = Text string | Keep string string

definition format_keep_block_content :: "lexcom \<Rightarrow> string \<Rightarrow> string \<Rightarrow> string" where
  "format_keep_block_content lc name content =
     cbegin lc @ ''icglue keep begin '' @ name @ cend lc @ content @ cbegin lc @ ''icglue keep end'' @ cend lc"

text \<open>The contents of the first block of this name, which is removed, else the default.\<close>

fun pop_keep_block :: "keep_block list \<Rightarrow> string \<Rightarrow> string \<Rightarrow> string \<times> keep_block list" where
  "pop_keep_block [] name default_content = (default_content, [])"
| "pop_keep_block (b # bs) name default_content =
     (if fst b = name then (snd b, bs) else apsnd (Cons b) (pop_keep_block bs name default_content))"

fun fill :: "item list \<Rightarrow> keep_block list \<Rightarrow> piece list \<times> keep_block list" where
  "fill [] block_data = ([], block_data)"
| "fill (Txt s # items) block_data = apfst (Cons (Text s)) (fill items block_data)"
| "fill (Pop name default_content # items) block_data =
     (let (content, block_data) = pop_keep_block block_data name default_content
      in apfst (Cons (Keep name content)) (fill items block_data))"

fun piece_string :: "lexcom \<Rightarrow> piece \<Rightarrow> string" where
  "piece_string lc (Text s) = s"
| "piece_string lc (Keep name content) = format_keep_block_content lc name content"

definition render :: "lexcom \<Rightarrow> piece list \<Rightarrow> string" where
  "render lc ps = concat (map (piece_string lc) ps)"

definition remaining_keep_block_contents :: "keep_block list \<Rightarrow> piece list" where
  "remaining_keep_block_contents block_data = map (\<lambda>(n, v). Keep n v) (filter (\<lambda>(n, v). v \<noteq> []) block_data)"

text \<open>Lines of text.\<close>

definition unlines :: "string list \<Rightarrow> string" where
  "unlines ls = concat (map (\<lambda>l. l @ [CHR 0x0A]) ls)"

text \<open>The blocks in a list of pieces.\<close>

fun kept :: "piece list \<Rightarrow> keep_block list" where
  "kept [] = []"
| "kept (Text s # ps) = kept ps"
| "kept (Keep n v # ps) = (n, v) # kept ps"

lemma kept_append [simp]: "kept (ps @ qs) = kept ps @ kept qs"
  by (induction ps rule: kept.induct) auto

text \<open>Filling in the blocks a file was generated with gives the same pieces.\<close>

lemma fill_again: "fill items bs = (ps, rest) \<Longrightarrow> fill items (kept ps @ os) = (ps, os)"
  by (induction items bs arbitrary: ps rest rule: fill.induct)
     (auto simp: apfst_def map_prod_def split: prod.splits)

text \<open>No block is lost.\<close>

lemma pop_keep_block_mset:
  "pop_keep_block bs n d = (v, bs') \<Longrightarrow> (n, v) \<in> set bs \<and> mset bs = add_mset (n, v) (mset bs') \<or> bs' = bs \<and> v = d"
  by (induction bs arbitrary: bs') (auto split: if_splits simp: apsnd_def map_prod_def split: prod.splits)

lemma fill_mset: "fill items bs = (ps, rest) \<Longrightarrow> mset bs \<subseteq># mset (kept ps) + mset rest"
proof (induction items bs arbitrary: ps rest rule: fill.induct)
  case (3 n d items bs)
  obtain v bs' where pop: "pop_keep_block bs n d = (v, bs')" by force
  with 3 (2) obtain ps' where ps: "ps = Keep n v # ps'" "fill items bs' = (ps', rest)"
    by (auto simp: apfst_def map_prod_def split: prod.splits)
  from 3 (1) [OF pop [symmetric] refl ps(2)] have "mset bs' \<subseteq># mset (kept ps') + mset rest" .
  moreover from this have "mset bs' \<subseteq># add_mset (n, v) (mset (kept ps') + mset rest)"
    by (metis multi_psub_of_add_self subset_mset.less_imp_le subset_mset.order_trans)
  ultimately show ?case using pop_keep_block_mset [OF pop] by (auto simp: ps(1))
qed (auto simp: apfst_def map_prod_def split: prod.splits)

lemma pop_keep_block_set:
  "pop_keep_block bs n d = (v, bs') \<Longrightarrow> set bs' \<subseteq> set bs \<and> ((n, v) \<in> set bs \<or> v = d)"
  by (induction bs arbitrary: bs') (force split: if_splits simp: apsnd_def map_prod_def split: prod.splits)+

lemma fill_subset: "fill items bs = (ps, rest) \<Longrightarrow> set rest \<subseteq> set bs"
  by (induction items bs arbitrary: ps rest rule: fill.induct)
     (fastforce simp: apfst_def map_prod_def split: prod.splits dest: pop_keep_block_set)+

section \<open>Texts without markers\<close>

text \<open>No occurrence of \<open>pat\<close> starts in the text, whatever follows it.\<close>

fun quiet :: "string \<Rightarrow> string \<Rightarrow> bool" where
  "quiet pat [] = True"
| "quiet pat (c # cs) \<longleftrightarrow> \<not> prefix pat (c # cs) \<and> \<not> prefix (c # cs) pat \<and> quiet pat cs"

lemma quiet_append [intro, simp]: "quiet pat s \<Longrightarrow> quiet pat t \<Longrightarrow> quiet pat (s @ t)"
proof (induction s)
  case (Cons c s)
  have "\<not> prefix pat ((c # s) @ t)"
    using Cons.prems(1) prefix_same_cases [of pat "(c # s) @ t" "c # s"] by auto
  moreover have "\<not> prefix ((c # s) @ t) pat" using Cons.prems(1) append_prefixD by fastforce
  ultimately show ?case using Cons by simp
qed simp

lemma quiet_concat: "(\<And>s. s \<in> set ss \<Longrightarrow> quiet pat s) \<Longrightarrow> quiet pat (concat ss)"
  by (induction ss) auto

lemma quiet_notin: "hd pat \<notin> set s \<Longrightarrow> pat \<noteq> [] \<Longrightarrow> quiet pat s"
  by (induction s) (auto simp: prefix_Cons neq_Nil_conv)

text \<open>The only occurrence of \<open>pat\<close> in the text with \<open>pat\<close> behind it is that one.\<close>

definition clean :: "string \<Rightarrow> string \<Rightarrow> bool" where
  "clean pat s \<longleftrightarrow> cut_at pat (s @ pat) = Some (s, [])"

lemma prefix_longer: "length p \<le> length a \<Longrightarrow> prefix p (a @ b) \<longleftrightarrow> prefix p a"
  by (auto simp: prefix_append)

lemma cut_at_clean: "clean pat s \<Longrightarrow> pat \<noteq> [] \<Longrightarrow> cut_at pat (s @ pat @ t) = Some (s, t)"
proof (induction s)
  case Nil
  then show ?case by (cases pat) (auto simp: clean_def)
next
  case (Cons c s)
  have "prefix pat (c # s @ pat @ t) \<longleftrightarrow> prefix pat (c # s @ pat)"
    using prefix_longer [of pat "c # s @ pat" t] by simp
  with Cons show ?case by (auto simp: clean_def split: if_splits)
qed

lemma cut_at_SomeD:
  "cut_at pat x = Some (s, t) \<Longrightarrow> pat \<noteq> [] \<Longrightarrow> x = s @ pat @ t \<and> clean pat s"
proof (induction x arbitrary: s)
  case (Cons c x)
  show ?case
  proof (cases "prefix pat (c # x)")
    case True
    with Cons.prems show ?thesis by (cases pat) (auto simp: clean_def prefix_def)
  next
    case False
    with Cons obtain s' where s': "s = c # s'" "x = s' @ pat @ t" "clean pat s'" by auto
    moreover have "\<not> prefix pat (c # s' @ pat)"
      using False prefix_longer [of pat "c # s' @ pat" t] by (simp add: s'(2))
    ultimately show ?thesis by (simp add: clean_def)
  qed
qed simp

lemma cut_at_quiet: "quiet pat s \<Longrightarrow> pat \<noteq> [] \<Longrightarrow> cut_at pat (s @ t) = map_option (apfst (append s)) (cut_at pat t)"
proof (induction s)
  case Nil
  then show ?case by (cases "cut_at pat t") auto
next
  case (Cons c s)
  then have "\<not> prefix pat (c # s @ t)"
    using prefix_same_cases [of pat "c # s @ t" "c # s"] by auto
  with Cons show ?case by (cases "cut_at pat t") (auto simp: apfst_def map_prod_def)
qed

lemma cut_at_None: "pat \<noteq> [] \<Longrightarrow> cut_at pat s = None \<longleftrightarrow> \<not> sublist pat s"
  by (induction s) (auto simp: sublist_Cons_right)

lemma clean_quiet: "quiet pat s \<Longrightarrow> pat \<noteq> [] \<Longrightarrow> clean pat s"
  using cut_at_quiet [of pat s pat] by (cases pat) (auto simp: clean_def)

lemma clean_last:
  assumes "last pat \<notin> set s" and "last pat \<notin> set (butlast pat)" and "pat \<noteq> []"
  shows "clean pat s"
  using assms(1)
proof (induction s)
  case Nil
  then show ?case using assms(3) by (cases pat) (auto simp: clean_def)
next
  case (Cons c s)
  have "\<not> prefix pat (c # s @ pat)"
  proof
    assume "prefix pat (c # s @ pat)"
    then have "pat = take (length pat) (c # s @ butlast pat @ [last pat])"
      using assms(3) by (simp add: prefix_def) (metis append_eq_conv_conj)
    also have "\<dots> = take (length pat) ((c # s @ butlast pat) @ [last pat])" by simp
    also have "\<dots> = take (length pat) (c # s @ butlast pat)" unfolding take_append by simp
    finally have "last pat \<in> set (c # s @ butlast pat)"
      using assms(3) by (metis in_set_takeD last_in_set)
    with Cons.prems assms(2) show False by auto
  qed
  with Cons show ?case by (simp add: clean_def)
qed

text \<open>A pattern that does not occur in two texts does not where they meet.\<close>

lemma absent_quiet: "quiet pat s \<Longrightarrow> pat \<noteq> [] \<Longrightarrow> sublist pat (s @ t) \<longleftrightarrow> sublist pat t"
  using cut_at_quiet [of pat s t] cut_at_None [of pat t] cut_at_None [of pat "s @ t"] by auto

lemma absent_join:
  assumes "\<not> sublist pat a" and "\<not> sublist pat b" and "b = [] \<or> hd b = hd pat" and "hd pat \<notin> set (tl pat)"
  shows "\<not> sublist pat (a @ b)"
proof
  assume "sublist pat (a @ b)"
  then obtain x y where xy: "pat = x @ y" "suffix x a" "prefix y b"
    using assms(1,2) by (auto simp: sublist_append)
  have "x \<noteq> []" using xy assms(2) prefix_imp_sublist by fastforce
  moreover have "y \<noteq> []" using xy assms(1) suffix_imp_sublist by fastforce
  ultimately have "hd y \<in> set (tl pat)" "hd y = hd b" "b \<noteq> []"
    using xy by (auto simp: prefix_def)
  with assms(3,4) show False by auto
qed

end
