(* ===== verification/Keep_Files.thy ===== *)
theory Keep_Files
  imports Keep_Blocks C_Strings
begin

text \<open>
  Files that are generated again, \<open>generate_template_output\<close> of \<open>src/tcllib/icglue_templates.tcl\<close>, for
  templates in languages with the comments of C: what the user wrote into the blocks of a file
  stays in the file, for all templates that keep the contract of the locale below.
\<close>

section \<open>Reading a generated file\<close>

text \<open>
  What the texts of a template and the blocks have to be for the generated file to be read back:
  no marker begins in a text, and a block has neither the end of its comment in its name, nor the
  end marker in its contents, nor an old marker.
\<close>

abbreviation old_marker :: string where
  "old_marker \<equiv> block_start ''pragma '' c_comment"

definition text_ok :: "string \<Rightarrow> bool" where
  "text_ok s \<longleftrightarrow> quiet (block_start [] c_comment) s \<and> quiet (block_end [] c_comment) s \<and> quiet old_marker s"

fun block_ok :: "keep_block \<Rightarrow> bool" where
  "block_ok (n, v) \<longleftrightarrow> clean (cend c_comment) n \<and> clean (block_end [] c_comment) v
     \<and> \<not> sublist old_marker (n @ cend c_comment @ v)"

text \<open>The end of a block and a star would begin a comment.\<close>

fun after_block :: "string \<Rightarrow> bool" where
  "after_block [] = False"
| "after_block (c # cs) \<longleftrightarrow> c \<noteq> CHR ''*''"

fun pieces_ok :: "piece list \<Rightarrow> bool" where
  "pieces_ok [] = True"
| "pieces_ok (Text s # ps) \<longleftrightarrow> text_ok s \<and> pieces_ok ps"
| "pieces_ok (Keep n v # ps) \<longleftrightarrow> block_ok (n, v) \<and> (case ps of Text s # _ \<Rightarrow> after_block s | _ \<Rightarrow> True) \<and> pieces_ok ps"

lemma text_ok_append [simp, intro]: "text_ok s \<Longrightarrow> text_ok t \<Longrightarrow> text_ok (s @ t)"
  by (simp add: text_ok_def)

lemma text_ok_concat: "(\<And>s. s \<in> set ss \<Longrightarrow> text_ok s) \<Longrightarrow> text_ok (concat ss)"
  by (simp add: text_ok_def quiet_concat)

lemma text_ok_notin: "CHR ''/'' \<notin> set s \<Longrightarrow> text_ok s"
  by (simp add: text_ok_def block_start_def block_end_def c_comment_def quiet_notin)

lemma parse_blocks_end: "parse_blocks word lc [] = Inr []"
  by (simp add: parse_blocks.simps block_start_def)

lemma parse_blocks_quiet:
  "quiet (block_start word lc) s \<Longrightarrow> parse_blocks word lc (s @ t) = parse_blocks word lc t"
  by (simp add: parse_blocks.simps [of word lc "s @ t"] parse_blocks.simps [of word lc t] cut_at_quiet
        block_start_def split: option.split)

lemma parse_blocks_block:
  assumes "block_ok (n, v)"
  shows "parse_blocks [] c_comment (format_keep_block_content c_comment n v @ t) =
    (case parse_blocks [] c_comment t of Inl err \<Rightarrow> Inl err | Inr bs \<Rightarrow> Inr ((n, v) # bs))"
proof -
  let ?begins = "block_start [] c_comment" and ?stop = "block_end [] c_comment" and ?ce = "cend c_comment"
  have eq: "format_keep_block_content c_comment n v @ t = ?begins @ n @ ?ce @ v @ ?stop @ t"
    by (simp add: format_keep_block_content_def block_start_def block_end_def)
  have "cut_at ?begins (?begins @ n @ ?ce @ v @ ?stop @ t) = Some ([], n @ ?ce @ v @ ?stop @ t)"
    using cut_at_clean [of ?begins "[]"] by (simp add: clean_quiet block_start_def)
  moreover have "cut_at ?ce (n @ ?ce @ v @ ?stop @ t) = Some (n, v @ ?stop @ t)"
    using assms by (intro cut_at_clean) (auto simp: c_comment_def)
  moreover have "cut_at ?stop (v @ ?stop @ t) = Some (v, t)"
    using assms by (intro cut_at_clean) (auto simp: block_end_def)
  ultimately show ?thesis unfolding eq by (simp add: parse_blocks.simps [of _ _ "_ @ _"])
qed

lemma parse_render: "pieces_ok ps \<Longrightarrow> parse_blocks [] c_comment (render c_comment ps) = Inr (kept ps)"
  by (induction ps rule: kept.induct)
     (simp_all add: render_def parse_blocks_end parse_blocks_quiet text_ok_def parse_blocks_block del: block_ok.simps)

lemma old_marker_slash: "hd old_marker = CHR ''/''" "CHR ''/'' \<notin> set (tl old_marker)" "old_marker \<noteq> []"
  by (simp_all add: block_start_def c_comment_def)

lemma absent_after:
  assumes "after_block t" and "\<not> sublist old_marker t"
  shows "\<not> sublist old_marker (block_end [] c_comment @ t)"
proof -
  have "block_end [] c_comment @ t = ''/* icglue keep end *'' @ CHR ''/'' # t"
    by (simp add: block_end_def c_comment_def)
  moreover have "quiet old_marker ''/* icglue keep end *''" by (simp add: block_start_def c_comment_def)
  moreover have "\<not> sublist old_marker (CHR ''/'' # t)"
    using assms by (cases t) (auto simp: sublist_Cons_right block_start_def c_comment_def)
  ultimately show ?thesis
    using absent_quiet [of old_marker "''/* icglue keep end *''" "CHR ''/'' # t"] old_marker_slash(3) by metis
qed

lemma absent_render: "pieces_ok ps \<Longrightarrow> \<not> sublist old_marker (render c_comment ps)"
proof (induction ps rule: kept.induct)
  case (2 s ps)
  then show ?case by (simp add: render_def text_ok_def absent_quiet block_start_def)
next
  case (3 n v ps)
  let ?stop = "block_end [] c_comment" and ?rest = "render c_comment ps" and ?inner = "n @ cend c_comment @ v"
  have rest: "\<not> sublist old_marker ?rest" using 3 by simp
  have "\<not> sublist old_marker (?stop @ ?rest)"
  proof (cases "?rest = [] \<or> hd ?rest = CHR ''/''")
    case True
    moreover have "\<not> sublist old_marker ?stop"
      by (simp add: block_start_def block_end_def c_comment_def sublist_Cons_right)
    ultimately show ?thesis using rest absent_join [of old_marker ?stop ?rest] old_marker_slash by auto
  next
    case False
    then have "after_block ?rest"
      using 3 (2) by (cases ps rule: kept.cases)
        (auto simp: render_def format_keep_block_content_def c_comment_def elim: after_block.elims)
    then show ?thesis using rest by (rule absent_after)
  qed
  moreover have "hd (?stop @ ?rest) = hd old_marker" by (simp add: block_start_def block_end_def c_comment_def)
  ultimately have "\<not> sublist old_marker (?inner @ ?stop @ ?rest)"
    using 3 (2) absent_join [of old_marker ?inner "?stop @ ?rest"] old_marker_slash by auto
  moreover have "render c_comment (Keep n v # ps) = block_start [] c_comment @ ?inner @ ?stop @ ?rest"
    by (simp add: render_def format_keep_block_content_def block_start_def block_end_def)
  moreover have "quiet old_marker (block_start [] c_comment)" by (simp add: block_start_def c_comment_def)
  ultimately show ?case using absent_quiet old_marker_slash(3) by metis
qed (simp add: render_def block_start_def)

lemma parse_generated: "pieces_ok ps \<Longrightarrow> parse_keep_blocks (render c_comment ps) c_comment = Inr (kept ps)"
  by (simp add: parse_keep_blocks_def absent_render parse_render)

text \<open>The blocks that are read from a file without old markers are such blocks.\<close>

lemma parse_blocks_ok:
  "parse_blocks word lc doc = Inr bs \<Longrightarrow> word = [] \<Longrightarrow> lc = c_comment \<Longrightarrow> \<not> sublist old_marker doc \<Longrightarrow> list_all block_ok bs"
proof (induction word lc doc arbitrary: bs rule: parse_blocks.induct)
  case (1 word lc doc)
  show ?case
  proof (cases "cut_at (block_start word lc) doc")
    case None
    with "1.prems" show ?thesis by (simp add: parse_blocks.simps)
  next
    case (Some p)
    obtain a d1 where p: "p = (a, d1)" by force
    from "1.prems" Some p obtain n d2 where c2: "cut_at (cend lc) d1 = Some (n, d2)"
      by (auto simp: parse_blocks.simps split: option.splits)
    with "1.prems" Some p obtain v d3 where c3: "cut_at (block_end word lc) d2 = Some (v, d3)"
      by (auto simp: parse_blocks.simps split: option.splits)
    with "1.prems" Some p c2 obtain bs' where bs: "parse_blocks word lc d3 = Inr bs'" "bs = (n, v) # bs'"
      by (auto simp: parse_blocks.simps [of "[]" c_comment doc] split: option.splits sum.splits)
    have d1: "doc = a @ block_start word lc @ d1"
      using cut_at_SomeD [OF Some [unfolded p]] by (simp add: block_start_def)
    have d2: "d1 = n @ cend lc @ d2" "clean (cend lc) n"
      using cut_at_SomeD [OF c2] by (simp_all add: "1.prems" c_comment_def)
    have d3: "d2 = v @ block_end word lc @ d3" "clean (block_end word lc) v"
      using cut_at_SomeD [OF c3] by (simp_all add: block_end_def)
    have doc: "doc = (a @ block_start word lc) @ (n @ cend lc @ v) @ (block_end word lc @ d3)"
      by (simp add: d1 d2 d3)
    have "\<not> sublist old_marker (n @ cend lc @ v)" "\<not> sublist old_marker d3"
      using "1.prems"(4) unfolding doc by (meson sublist_appendI sublist_append_leftI sublist_append_rightI sublist_order.order_trans)+
    moreover have "list_all block_ok bs'"
      by (rule "1.IH" [OF Some p [symmetric] c2 refl c3 refl bs(1)]) (use "1.prems" calculation in auto)
    ultimately show ?thesis using d2(2) d3(2) "1.prems" by (simp add: bs(2))
  qed
qed

text \<open>Rules that go through a text character by character.\<close>

lemma text_ok_Nil: "text_ok []"
  by (simp add: text_ok_def)

lemma text_ok_Cons:
  "c \<noteq> CHR ''/'' \<Longrightarrow> text_ok (c # s) \<longleftrightarrow> text_ok s"
  "d \<noteq> CHR ''*'' \<Longrightarrow> text_ok (c # d # s) \<longleftrightarrow> text_ok (d # s)"
  "d \<noteq> CHR '' '' \<Longrightarrow> text_ok (c # CHR ''*'' # d # s) \<longleftrightarrow> text_ok (d # s)"
  "d \<noteq> CHR ''i'' \<Longrightarrow> d \<noteq> CHR ''p'' \<Longrightarrow> text_ok (c # CHR ''*'' # CHR '' '' # d # s) \<longleftrightarrow> text_ok (d # s)"
  by (auto simp: text_ok_def block_start_def block_end_def c_comment_def)

lemmas text_rules = text_ok_Nil text_ok_Cons unlines_def

lemma text_ok_unlines: "(\<And>l. l \<in> set ls \<Longrightarrow> text_ok l) \<Longrightarrow> text_ok (unlines ls)"
  unfolding unlines_def using text_ok_notin [of "[CHR 0x0A]"] by (intro text_ok_concat) auto

text \<open>A default that is a text, in a block whose name has no slash.\<close>

lemma default_ok:
  assumes "CHR ''/'' \<notin> set n" and "text_ok d" and "d = [] \<or> after_block d"
  shows "block_ok (n, d)"
proof -
  have "clean (cend c_comment) n" using assms(1) by (intro clean_last) (auto simp: c_comment_def)
  moreover have "clean (block_end [] c_comment) d"
    using assms(2) by (intro clean_quiet) (auto simp: text_ok_def block_end_def)
  moreover have "\<not> sublist old_marker (n @ cend c_comment @ d)"
  proof -
    have "\<not> sublist old_marker d"
      using assms(2) absent_quiet [of old_marker d "[]"] old_marker_slash(3) by (auto simp: text_ok_def)
    then have "\<not> sublist old_marker (CHR ''/'' # d)"
      using assms(3) by (cases d) (auto simp: sublist_Cons_right block_start_def c_comment_def)
    moreover have "quiet old_marker (n @ '' *'')"
      using assms(1) by (intro quiet_notin) (auto simp: block_start_def c_comment_def)
    ultimately have "\<not> sublist old_marker ((n @ '' *'') @ CHR ''/'' # d)"
      using absent_quiet old_marker_slash(3) by metis
    then show ?thesis by (simp add: c_comment_def)
  qed
  ultimately show ?thesis by simp
qed

text \<open>Texts the templates make of numbers and names.\<close>

definition string_toupper :: "string \<Rightarrow> string" where
  "string_toupper s = map (\<lambda>c. if 97 \<le> (of_char c :: nat) \<and> (of_char c :: nat) \<le> 122 then char_of ((of_char c :: nat) - 32) else c) s"

lemma upper_slash: "CHR ''/'' \<notin> set s \<Longrightarrow> CHR ''/'' \<notin> set (string_toupper s)"
proof -
  have "CHR ''/'' \<noteq> char_of ((of_char c :: nat) - 32)" if "97 \<le> (of_char c :: nat)" "(of_char c :: nat) \<le> 122" for c
    using that by (auto dest!: arg_cong [where f = "of_char :: char \<Rightarrow> nat"])
  then show "CHR ''/'' \<notin> set s \<Longrightarrow> CHR ''/'' \<notin> set (string_toupper s)"
    unfolding string_toupper_def by (fastforce split: if_splits)
qed

lemma dec_slash: "CHR ''/'' \<notin> set (dec_string n)"
proof (induction n rule: dec_string.induct)
  case (1 n)
  have "CHR ''/'' \<noteq> char_of (48 + k)" if "k < 10" for k :: nat
    using that by (auto dest!: arg_cong [where f = "of_char :: char \<Rightarrow> nat"])
  then show ?case using 1 unfolding dec_string.simps [of n] by simp
qed

text \<open>The first line of every generated C file.\<close>

definition generated_line :: string where
  "generated_line = ''/* ICGLUE GENERATED FILE - manual changes out of prepared *icglue keep begin/end* blocks will be overwritten */''"

text \<open>A template whose texts and default contents are such gives such pieces, whatever blocks there
  are. Behind every place for a block it has some text.\<close>

fun items_ok :: "item list \<Rightarrow> bool" where
  "items_ok [] = True"
| "items_ok (Txt s # items) \<longleftrightarrow> text_ok s \<and> items_ok items"
| "items_ok (Pop n d # items) \<longleftrightarrow> block_ok (n, d) \<and> (case items of Txt s # _ \<Rightarrow> after_block s | _ \<Rightarrow> False) \<and> items_ok items"

lemma items_ok_append: "items_ok items \<Longrightarrow> items_ok items2 \<Longrightarrow> items_ok (items @ items2)"
  by (induction items rule: items_ok.induct) (auto split: list.splits item.splits)

lemma fill_ok:
  assumes "fill items bs = (ps, rest)" and "items_ok items" and "list_all block_ok bs" and "pieces_ok qs"
  shows "pieces_ok (ps @ qs)"
  using assms(1,2,3)
proof (induction items bs arbitrary: ps rule: fill.induct)
  case (2 s items bs)
  then show ?case by (auto simp: apfst_def map_prod_def split: prod.splits)
next
  case (3 n d items bs)
  obtain v bs' where pop: "pop_keep_block bs n d = (v, bs')" by force
  with "3.prems"(1) obtain ps' where ps: "ps = Keep n v # ps'" "fill items bs' = (ps', rest)"
    by (auto simp: apfst_def map_prod_def split: prod.splits)
  have "block_ok (n, v)" "list_all block_ok bs'"
    using pop_keep_block_set [OF pop] "3.prems"(2,3) by (auto simp: list_all_iff simp del: block_ok.simps)
  moreover from this have "pieces_ok (ps' @ qs)" using "3.IH" [OF pop [symmetric] refl ps(2)] "3.prems"(2) by simp
  moreover obtain s items' where "items = Txt s # items'" "after_block s"
    using "3.prems"(2) by (auto split: list.splits item.splits)
  moreover from this ps(2) obtain ps'' where "ps' = Text s # ps''" by (auto simp: apfst_def map_prod_def split: prod.splits)
  ultimately show ?case by (simp add: ps(1))
qed (use assms(4) in simp)

section \<open>Blocks without a place\<close>

text \<open>The blocks that are left are appended between a head and a foot, when they are not empty.\<close>

definition orphaned_blocks :: "string \<Rightarrow> string \<Rightarrow> string \<Rightarrow> string \<Rightarrow> keep_block list \<Rightarrow> piece list" where
  "orphaned_blocks head before behind foot block_data =
     (let rem_keeps = remaining_keep_block_contents block_data
      in if 0 < length rem_keeps then
           [Text head] @ concat (map (\<lambda>b. [Text before, b, Text behind]) rem_keeps) @ [Text foot]
         else [])"

lemma kept_orphans [simp]: "kept (orphaned_blocks h b a f bs) = filter (\<lambda>(n, v). v \<noteq> []) bs"
proof -
  have "kept (concat (map (\<lambda>b. [Text s, b, Text t]) (map (\<lambda>(n, v). Keep n v) xs))) = xs" for s t and xs :: "keep_block list"
    by (induction xs) auto
  then show ?thesis
    by (auto simp: orphaned_blocks_def Let_def remaining_keep_block_contents_def filter_empty_conv)
qed

lemma orphans_again [simp]:
  "orphaned_blocks h b a f (filter (\<lambda>(n, v). v \<noteq> []) bs) = orphaned_blocks h b a f bs"
  by (simp add: orphaned_blocks_def remaining_keep_block_contents_def)

lemma orphans_ok:
  assumes "text_ok h" "text_ok b" "text_ok a" "text_ok f" "after_block a"
    and "list_all block_ok bs" and "pieces_ok qs"
  shows "pieces_ok (orphaned_blocks h b a f bs @ qs)"
proof -
  have "pieces_ok (concat (map (\<lambda>p. [Text b, p, Text a]) (map (\<lambda>(n, v). Keep n v) xs)) @ rs)"
    if "list_all block_ok xs" "pieces_ok rs" for xs rs
    using that assms(2,3,5) by (induction xs) (auto simp del: block_ok.simps)
  moreover have "list_all block_ok (filter (\<lambda>(n, v). v \<noteq> []) bs)" using assms(6) by (auto simp: list_all_iff)
  ultimately show ?thesis
    using assms(1,4,7) by (simp add: orphaned_blocks_def Let_def remaining_keep_block_contents_def)
qed

section \<open>Generating a file again\<close>

text \<open>
  \<open>generate_template_output\<close> with the text of the file, when there is one already; a file that
  cannot be read, or whose template fails, is not written. A template takes the blocks and gives
  pieces.
\<close>

definition generate_template_output ::
    "(keep_block list \<Rightarrow> piece list option) \<Rightarrow> string option \<Rightarrow> string + string" where
  "generate_template_output template old =
     (case (case old of None \<Rightarrow> Inr [] | Some oldcontent \<Rightarrow> parse_keep_blocks oldcontent c_comment) of
        Inl err \<Rightarrow> Inl err
      | Inr block_data \<Rightarrow>
          (case template block_data of
             None \<Rightarrow> Inl ''Error while running template''
           | Some pieces \<Rightarrow> Inr (render c_comment pieces)))"

definition nonempty_blocks :: "keep_block list \<Rightarrow> keep_block multiset" where
  "nonempty_blocks bs = mset (filter (\<lambda>(n, v). v \<noteq> []) bs)"

lemma nonempty_blocks_kept:
  assumes "fill items bs = (ps, rest)"
  shows "nonempty_blocks bs \<subseteq># nonempty_blocks (kept ps) + nonempty_blocks rest"
proof -
  have "filter_mset (\<lambda>(n, v). v \<noteq> []) (mset bs) \<subseteq># filter_mset (\<lambda>(n, v). v \<noteq> []) (mset (kept ps) + mset rest)"
    by (rule multiset_filter_mono [OF fill_mset [OF assms]])
  then show ?thesis by (simp add: nonempty_blocks_def)
qed

lemma found_filter: "map_of bs n = Some v \<Longrightarrow> v \<noteq> [] \<Longrightarrow> map_of (filter (\<lambda>(n, v). v \<noteq> []) bs) n = Some v"
  by (induction bs) (auto split: if_splits)

lemma found_fill:
  "fill items bs = (ps, rest) \<Longrightarrow> map_of bs n = Some v \<Longrightarrow> map_of (kept ps @ rest) n = Some v"
proof (induction items bs arbitrary: ps rule: fill.induct)
  case (3 m d items bs)
  obtain v' bs' where pop: "pop_keep_block bs m d = (v', bs')" by force
  with "3.prems"(1) obtain ps' where ps: "ps = Keep m v' # ps'" "fill items bs' = (ps', rest)"
    by (auto simp: apfst_def map_prod_def split: prod.splits)
  have "if m = n then v' = v else map_of bs' n = Some v"
    using pop "3.prems"(2) by (induction bs arbitrary: bs') (auto simp: apsnd_def map_prod_def split: if_splits prod.splits)
  then show ?case using "3.IH" [OF pop [symmetric] refl ps(2)] by (auto simp: ps(1) split: if_splits)
qed (auto simp: apfst_def map_prod_def map_add_Some_iff split: prod.splits)

text \<open>Most templates are a list of items, then the blocks that are left, then a last text.\<close>

definition fill_template :: "item list \<Rightarrow> (keep_block list \<Rightarrow> piece list) \<Rightarrow> string \<Rightarrow> keep_block list \<Rightarrow> piece list" where
  "fill_template items orphans foot block_data =
     (let (pieces, block_data) = fill items block_data in pieces @ orphans block_data @ [Text foot])"

lemma fill_template_ok:
  assumes "items_ok items" and "list_all block_ok bs"
    and "\<And>rest qs. list_all block_ok rest \<Longrightarrow> pieces_ok qs \<Longrightarrow> pieces_ok (orphans rest @ qs)" and "text_ok foot"
  shows "pieces_ok (fill_template items orphans foot bs)"
proof -
  obtain ps rest where fill: "fill items bs = (ps, rest)" by force
  have "list_all block_ok rest" using assms(2) fill_subset [OF fill] by (auto simp: list_all_iff)
  then have "pieces_ok (orphans rest @ [Text foot])" using assms(3,4) by simp
  from fill_ok [OF fill assms(1,2) this] show ?thesis by (simp add: fill_template_def fill)
qed

lemma fill_template_again:
  "fill_template items (orphaned_blocks h b a f) t (kept (fill_template items (orphaned_blocks h b a f) t bs)) =
   fill_template items (orphaned_blocks h b a f) t bs"
proof -
  obtain ps rest where fill: "fill items bs = (ps, rest)" by force
  show ?thesis using fill_again [OF fill] by (simp add: fill_template_def fill)
qed

lemma fill_template_complete:
  "nonempty_blocks bs \<subseteq># nonempty_blocks (kept (fill_template items (orphaned_blocks h b a f) t bs))"
proof -
  obtain ps rest where fill: "fill items bs = (ps, rest)" by force
  show ?thesis using nonempty_blocks_kept [OF fill] by (simp add: fill_template_def fill nonempty_blocks_def)
qed

lemma fill_template_found:
  assumes "map_of bs n = Some v" and "v \<noteq> []"
  shows "map_of (kept (fill_template items (orphaned_blocks h b a f) t bs)) n = Some v"
proof -
  obtain ps rest where fill: "fill items bs = (ps, rest)" by force
  show ?thesis using found_fill [OF fill assms(1)] found_filter [OF _ assms(2), of rest]
    by (auto simp: fill_template_def fill map_add_Some_iff)
qed

text \<open>What a template has to keep, for the data it is called with.\<close>

locale keep_template =
  fixes valid :: "'a \<Rightarrow> bool" and template :: "'a \<Rightarrow> keep_block list \<Rightarrow> piece list"
  assumes readable: "valid x \<Longrightarrow> list_all block_ok bs \<Longrightarrow> pieces_ok (template x bs)"
    and again: "template x (kept (template x bs)) = template x bs"
    and complete: "nonempty_blocks bs \<subseteq># nonempty_blocks (kept (template x bs))"
    and found: "map_of bs n = Some v \<Longrightarrow> v \<noteq> [] \<Longrightarrow> map_of (kept (template x bs)) n = Some v"
begin

lemma generated_from:
  assumes "generate_template_output (\<lambda>bs. Some (template x bs)) old = Inr new"
    and "\<And>s. old = Some s \<Longrightarrow> \<not> sublist old_marker s"
  obtains bs where "(case old of None \<Rightarrow> bs = [] | Some s \<Rightarrow> parse_keep_blocks s c_comment = Inr bs)"
    and "list_all block_ok bs" and "new = render c_comment (template x bs)"
proof (cases old)
  case None
  then show ?thesis using assms(1) that [of "[]"] by (simp add: generate_template_output_def)
next
  case (Some s)
  then obtain bs where "parse_keep_blocks s c_comment = Inr bs" "new = render c_comment (template x bs)"
    using assms(1) by (auto simp: generate_template_output_def split: sum.splits)
  moreover from this have "list_all block_ok bs"
    using assms(2) [OF Some] parse_blocks_ok [of "[]" c_comment s bs] by (simp add: parse_keep_blocks_def)
  ultimately show ?thesis using that [of bs] Some by simp
qed

text \<open>Nothing the user wrote is lost, and generating the file once more changes nothing.\<close>

lemma regenerate:
  assumes valid: "valid x" and gen: "generate_template_output (\<lambda>bs. Some (template x bs)) old = Inr new"
    and marker: "\<And>s. old = Some s \<Longrightarrow> \<not> sublist old_marker s"
  shows "\<not> sublist old_marker new"
    and "generate_template_output (\<lambda>bs. Some (template x bs)) (Some new) = Inr new"
    and "\<exists>bs bs'. (case old of None \<Rightarrow> bs = [] | Some s \<Rightarrow> parse_keep_blocks s c_comment = Inr bs) \<and>
      parse_keep_blocks new c_comment = Inr bs' \<and> nonempty_blocks bs \<subseteq># nonempty_blocks bs' \<and>
      (\<forall>n v. map_of bs n = Some v \<and> v \<noteq> [] \<longrightarrow> map_of bs' n = Some v)"
proof -
  obtain bs where bs: "case old of None \<Rightarrow> bs = [] | Some s \<Rightarrow> parse_keep_blocks s c_comment = Inr bs"
      "list_all block_ok bs" "new = render c_comment (template x bs)"
    using generated_from [OF gen marker] .
  have ok: "pieces_ok (template x bs)" using readable [OF valid bs(2)] .
  then have parse: "parse_keep_blocks new c_comment = Inr (kept (template x bs))"
    by (simp add: bs(3) parse_generated)
  show "\<not> sublist old_marker new" unfolding bs(3) by (rule absent_render [OF ok])
  show "generate_template_output (\<lambda>bs. Some (template x bs)) (Some new) = Inr new"
    using parse by (simp add: generate_template_output_def again bs(3))
  show "\<exists>bs bs'. (case old of None \<Rightarrow> bs = [] | Some s \<Rightarrow> parse_keep_blocks s c_comment = Inr bs) \<and>
      parse_keep_blocks new c_comment = Inr bs' \<and> nonempty_blocks bs \<subseteq># nonempty_blocks bs' \<and>
      (\<forall>n v. map_of bs n = Some v \<and> v \<noteq> [] \<longrightarrow> map_of bs' n = Some v)"
    using bs(1) parse complete [of bs x] found [of bs _ _ x] by blast
qed

end

end
