(* ===== verification/Rf_Gen_Text.thy ===== *)
theory Rf_Gen_Text
  imports Rf_Gen_Host Rf_Gen_Soc Keep_Files
begin

text \<open>
  The text of the files that \<open>src/templates/default/rf/template.icgt.host.h\<close>,
  \<open>template.icgt.host.cpp\<close> and \<open>template.wtf.soc.h\<close> make of the description of a register file, with
  the blocks that belong to the user. What their code means is in theories Rf_Gen_Host and
  Rf_Gen_Soc.
\<close>

section \<open>Names and columns\<close>

definition rf_class :: "string \<Rightarrow> string" where
  "rf_class rf_name = ''rf_'' @ rf_name @ ''_t''"

definition entry_class :: "gen_entry \<Rightarrow> string" where
  "entry_class e = ge_name e @ ''_t''"

definition struct_name :: "string \<Rightarrow> gen_entry \<Rightarrow> string" where
  "struct_name rf_name e = rf_name @ ''_'' @ ge_name e @ ''_t''"

definition reg_class :: "gen_reg \<Rightarrow> string" where
  "reg_class r = (if write_reg r then ''_reg_rw_t'' else ''_reg_ro_t'')"

definition max_len :: "string list \<Rightarrow> nat" where
  "max_len xs = foldl max 0 (map length xs)"

definition maxlen_entryname :: "gen_entry list \<Rightarrow> nat" where
  "maxlen_entryname entries = max_len (map ge_name entries)"

definition unused_reg :: string where
  "unused_reg = ''/* unused */''"

text \<open>The column of the widths, \<open>set_max_len_reg\<close> with its caller.\<close>

definition max_len_reg :: "gen_reg list \<Rightarrow> nat" where
  "max_len_reg regs =
     (let m = max_len (map gr_name regs)
      in if list_ex (\<lambda>r. \<not> named r) regs then max m (length unused_reg) else m)"

text \<open>\<open>format "%08X"\<close>\<close>

definition mask_string :: "32 word \<Rightarrow> string" where
  "mask_string w = map (\<lambda>i. ''0123456789ABCDEF'' ! (unat w div 16 ^ i mod 16)) (rev [0..<8])"

text \<open>The member of a register in the struct of its entry; in the header for the chip an empty
  comment is left out.\<close>

definition struct_reg_entry :: "bool \<Rightarrow> nat \<Rightarrow> gen_reg \<Rightarrow> string" where
  "struct_reg_entry soc len r =
     (let width = pad_left 2 (dec_string (field_width r))
      in if named r then
           ''rf_data_t '' @ pad_right len (gr_name r) @ '' : '' @ width @ '';''
             @ (if soc \<and> gr_comment r = [] then [] else '' // '' @ gr_comment r)
         else ''rf_data_t '' @ pad_right len unused_reg @ '' : '' @ width @ '';'')"

text \<open>\<open>format "0x%x"\<close>, the form in which addresses are kept.\<close>

fun hex_string :: "nat \<Rightarrow> string" where
  "hex_string n = (if n < 16 then [''0123456789abcdef'' ! n] else hex_string (n div 16) @ [''0123456789abcdef'' ! (n mod 16)])"

declare hex_string.simps [simp del]

definition address_string :: "gen_entry \<Rightarrow> string" where
  "address_string e = ''0x'' @ hex_string (ge_address e)"

section \<open>The header of the host program\<close>

definition host_struct_text :: "string \<Rightarrow> gen_entry \<Rightarrow> string" where
  "host_struct_text rf_name e =
     [CHR 0x0A] @ ''// REGFILE->'' @ ge_name e @ ''.REGISTER_NAME'' @ [CHR 0x0A]
     @ ''typedef struct {''
     @ concat (map (\<lambda>r. [CHR 0x0A] @ ''    '' @ struct_reg_entry False (max_len_reg (ge_regs e)) r) (ge_regs e))
     @ [CHR 0x0A] @ ''} __attribute__((__packed__)) '' @ struct_name rf_name e @ '';'' @ [CHR 0x0A]"

definition host_class_text :: "string \<Rightarrow> gen_entry \<Rightarrow> string" where
  "host_class_text rf_name e =
     [CHR 0x0A] @ unlines
      ['''',
       ''        class '' @ entry_class e @ '' : public _entry_t {'',
       ''            public:'',
       ''                '' @ entry_class e @ '' (regfile_t &rf, rf_addr_t addr, rf_data_t unused_mask);'',
       '''',
       ''                '' @ entry_class e @ ''& operator= ('' @ struct_name rf_name e @ '' rhs);'',
       ''                operator '' @ struct_name rf_name e @ '' ();'',
       ''                rf_data_t* operator& ();'']
     @ concat (map (\<lambda>r. [CHR 0x0A] @ ''                '' @ reg_class r @ '' '' @ gr_name r @ '';'') (filter named (ge_regs e)))
     @ [CHR 0x0A] @ ''        } '' @ ge_name e @ '';'' @ [CHR 0x0A]
     @ ''        _entry_t _'' @ ge_name e @ ''_word;''"

definition host_header_items :: "string \<Rightarrow> gen_entry list \<Rightarrow> item list" where
  "host_header_items rf_name entries =
     [Txt (unlines
       [generated_line,
        '''',
        ''#ifndef __'' @ string_toupper (''rf_'' @ rf_name) @ ''_H__'',
        ''#define __'' @ string_toupper (''rf_'' @ rf_name) @ ''_H__'',
        '''',
        ''#include <regfile_contrib.h>'',
        '''']),
      Pop ''custom-header'' [],
      Txt (unlines ['''', '''']),
      Txt (concat (map (host_struct_text rf_name) entries)),
      Txt (unlines
       ['''',
        '''',
        ''class '' @ rf_class rf_name @ '' : public regfile_t {'',
        ''    public:''] @ ''        '' @ rf_class rf_name @ '' (regfile_dev &dev, rf_addr_t base_addr);''),
      Txt (concat (map (host_class_text rf_name) entries)),
      Txt ([CHR 0x0A] @ ''    ''),
      Pop ''custom-class-decl'' [],
      Txt (unlines ['''', ''};'', '''']),
      Pop ''custom-decl'' [],
      Txt (unlines [''''])]"

text \<open>\<open>#ifdef 0\<close> is not a directive of C.\<close>

definition host_orphans :: "keep_block list \<Rightarrow> piece list" where
  "host_orphans = orphaned_blocks
     (unlines
       ['''',
        '''',
        ''    #ifdef 0'',
        ''        /* orphaned icglue keep blocks ...'',
        ''         * TODO: remove if unnecessary or reintegrate'',
        ''         */'',
        ''''])
     ([CHR 0x0A] @ ''    '') [CHR 0x0A] ([CHR 0x0A] @ unlines [''    #endif '', ''''])"

text \<open>The template fails on a width that is not a number.\<close>

definition host_header :: "string \<Rightarrow> gen_entry list \<Rightarrow> keep_block list \<Rightarrow> piece list option" where
  "host_header rf_name entries block_data =
     (if list_all (\<lambda>e. struct_ok (ge_regs e)) entries then
        Some (fill_template (host_header_items rf_name entries) host_orphans (unlines ['''', ''#endif'']) block_data)
      else None)"

section \<open>The source file of the host program\<close>

definition entry_init_text :: "nat \<Rightarrow> gen_entry \<Rightarrow> string" where
  "entry_init_text len e =
     (let args = '' ('' @ ''*this, '' @ address_string e @ '', 0x'' @ mask_string (unused_mask e) @ '')''
      in [CHR 0x0A] @ ''    '' @ pad_right len (ge_name e) @ args @ '', _''
           @ pad_right (len + length ''_word'') (ge_name e @ ''_word'') @ args)"

text \<open>The comma in front of the first register ends the comment before it: \<open>foreach_array_join_with\<close>
  puts a separator in front of every element.\<close>

definition reg_init_text :: "nat \<Rightarrow> gen_reg \<Rightarrow> string" where
  "reg_init_text len r =
     '','' @ [CHR 0x0A] @ ''    '' @ pad_right len (gr_name r) @ '' ('' @ ''*this, ''
       @ pad_left 2 (dec_string (gr_bit_low r)) @ '', '' @ pad_left 2 (dec_string (gr_bit_high r)) @ '')''"

definition host_entry_text :: "string \<Rightarrow> nat \<Rightarrow> gen_entry \<Rightarrow> string" where
  "host_entry_text rf_name len e =
     (let scope = rf_class rf_name @ ''::'' @ entry_class e @ ''::''
      in unlines
          [''// constructor '' @ ge_name e,
           scope @ entry_class e @ '' (regfile_t &rf, rf_addr_t addr, rf_data_t unused_mask) :'',
           ''    // entry constructor:'',
           ''    '' @ pad_right len ''_entry_t'' @ '' (rf, addr, unused_mask),'']
         @ ''    // registers constructor:'' @ concat (map (reg_init_text len) (filter named (ge_regs e)))
         @ unlines
          ['''',
           ''{}'',
           '''',
           ''// overload assignment operator ('' @ ge_name e @ '')'',
           rf_class rf_name @ ''::'' @ entry_class e @ ''& '' @ scope @ ''operator=('' @ struct_name rf_name e @ '' rhs)'',
           ''{'',
           ''    union {'',
           ''        '' @ struct_name rf_name e @ '' s;'',
           ''        rf_data_t i;'',
           ''    } temp;'',
           ''    temp.s = rhs;'',
           '''',
           ''    _entry_t_write (temp.i);'',
           ''    return '' @ ''*this;'',
           ''}'',
           '''',
           ''// overload type conversion operator ('' @ ge_name e @ '')'',
           scope @ ''operator '' @ struct_name rf_name e @ '' () {'',
           ''    union {'',
           ''        '' @ struct_name rf_name e @ '' s;'',
           ''        rf_data_t i;'',
           ''    } temp;'',
           ''    temp.i = _entry_t_read ();'',
           '''',
           ''    return temp.s;'',
           ''}'',
           '''',
           ''// overload address of operator ('' @ ge_name e @ '')'',
           ''rf_data_t *'' @ scope @ ''operator&()'',
           ''{'',
           ''    return (rf_data_t *)(uintptr_t)_entry_t_addr();'',
           ''}'',
           ''''])"

text \<open>
  The column \<open>maxlen_reg\<close> is kept from entry to entry: \<open>set_max_len_reg\<close> means to set it back, but sets
  another variable to the word \<open>init\<close>. It has no value when the first entry has no registers, and
  the template fails.
\<close>

fun host_entry_texts :: "string \<Rightarrow> nat \<Rightarrow> gen_entry list \<Rightarrow> string" where
  "host_entry_texts rf_name len [] = []"
| "host_entry_texts rf_name len (e # es) =
     (let len = max len (max_len (map gr_name (ge_regs e)))
      in host_entry_text rf_name len e @ host_entry_texts rf_name len es)"

definition host_source_items :: "string \<Rightarrow> gen_entry list \<Rightarrow> item list" where
  "host_source_items rf_name entries =
     (let len = maxlen_entryname entries in
     [Txt (unlines [generated_line, '''']),
      Pop ''custom-header'' [],
      Txt (unlines
       ['''',
        '''',
        ''#include <rf_'' @ rf_name @ ''.h>'',
        '''',
        rf_class rf_name @ ''::'' @ rf_class rf_name @ '' (regfile_dev &dev, rf_addr_t base_addr) :'']
        @ ''    '' @ pad_right len ''regfile_t'' @ '' (dev, base_addr),''),
      Txt (join '','' (map (entry_init_text len) entries)),
      Txt (unlines ['''', ''{''] @ ''    ''),
      Pop ''custom-constr'' [],
      Txt (unlines ['''', ''}'', '''']),
      Txt (host_entry_texts rf_name 0 entries),
      Pop ''custom-decl'' [],
      Txt (unlines [''''])])"

definition host_source :: "string \<Rightarrow> gen_entry list \<Rightarrow> keep_block list \<Rightarrow> piece list option" where
  "host_source rf_name entries block_data =
     (if entries \<noteq> [] \<and> ge_regs (hd entries) = [] then None
      else Some (fill_template (host_source_items rf_name entries) host_orphans (unlines ['''']) block_data))"

section \<open>The header for programs on the chip\<close>

text \<open>\<open>dw\<close> is the width of the data in bits, \<open>pad_to\<close> the size asked for or 0.\<close>

definition soc_struct_text :: "nat \<Rightarrow> string \<Rightarrow> gen_entry \<Rightarrow> string" where
  "soc_struct_text dw rf_name e =
     unlines
      ([''// REGFILE->'' @ ge_name e @ ''.REGISTER_NAME'',
        ''typedef struct {'']
       @ map (\<lambda>r. ''    '' @ struct_reg_entry True (max_len_reg (ge_regs e)) r) (ge_regs e)
       @ [''} __attribute__((__packed__,__aligned__('' @ dec_string (dw div 8) @ ''))) '' @ struct_name rf_name e @ '';'',
          ''''])"

definition padding_text :: "nat \<Rightarrow> nat \<Rightarrow> int \<Rightarrow> string" where
  "padding_text dw unused_idx fill_size =
     ''    uint'' @ dec_string dw @ ''_t _padding_'' @ dec_string unused_idx @ ''['' @ dec_int fill_size @ '']; /* unused */''"

definition soc_member_text :: "nat \<Rightarrow> string \<Rightarrow> nat \<Rightarrow> gen_entry \<Rightarrow> string" where
  "soc_member_text dw rf_name len e =
     ''    union {'' @ pad_right (len + length (rf_name @ ''__t'')) (struct_name rf_name e) @ '' ''
       @ pad_right (len + 1) (ge_name e @ '';'') @ ''  uint'' @ dec_string dw @ ''_t _'' @ ge_name e @ ''_word;};''
       @ replicate (len - length (ge_name e)) CHR '' '' @ '' // '' @ ge_name e"

text \<open>The loop over the entries, with its variables \<open>next_address\<close> and \<open>unused_idx\<close>.\<close>

fun soc_member_lines :: "nat \<Rightarrow> string \<Rightarrow> nat \<Rightarrow> nat \<Rightarrow> nat \<Rightarrow> gen_entry list \<Rightarrow> string list \<times> nat \<times> nat" where
  "soc_member_lines dw rf_name len next_address unused_idx [] = ([], next_address, unused_idx)"
| "soc_member_lines dw rf_name len next_address unused_idx (e # es) =
     (let pad = next_address < ge_address e;
          fill_size = (ge_address e - next_address) div (dw div 8);
          unused_idx = (if pad then unused_idx + 1 else unused_idx);
          (ls, n, i) = soc_member_lines dw rf_name len (ge_address e + dw div 8) unused_idx es
      in ((if pad then [padding_text dw unused_idx (int fill_size)] else [])
            @ soc_member_text dw rf_name len e # ls, n, i))"

definition soc_class_lines :: "nat \<Rightarrow> nat \<Rightarrow> string \<Rightarrow> gen_entry list \<Rightarrow> string list" where
  "soc_class_lines dw pad_to rf_name entries =
     (let (ls, next_address, unused_idx) = soc_member_lines dw rf_name (maxlen_entryname entries) 0 0 entries
      in ls @ (if 0 < pad_to then
                 [padding_text dw (unused_idx + 1) ((int pad_to - int next_address) div int (dw div 8))]
               else []))"

definition soc_header_items :: "nat \<Rightarrow> nat \<Rightarrow> string \<Rightarrow> gen_entry list \<Rightarrow> item list" where
  "soc_header_items dw pad_to rf_name entries =
     [Txt (unlines
       [generated_line,
        '''',
        ''#ifndef __'' @ string_toupper (''rf_'' @ rf_name) @ ''_H__'',
        ''#define __'' @ string_toupper (''rf_'' @ rf_name) @ ''_H__'',
        '''',
        ''#include <stdint.h>'',
        '''']),
      Pop ''custom-header'' [],
      Txt (unlines ['''', '''']),
      Txt (concat (map (soc_struct_text dw rf_name) entries)),
      Txt (unlines ['''', ''typedef struct {'']),
      Txt (unlines (soc_class_lines dw pad_to rf_name entries)),
      Txt (unlines
       [''} __attribute__((__packed__,__aligned__('' @ dec_string (dw div 8) @ ''))) '' @ rf_class rf_name @ '';'',
        '''']),
      Pop ''custom-decl'' [],
      Txt (unlines ['''', ''''])]"

definition soc_orphans :: "keep_block list \<Rightarrow> piece list" where
  "soc_orphans = orphaned_blocks
     (unlines
       ['''',
        ''    #ifdef 0'',
        ''        /* orphaned icglue keep blocks ...'',
        ''         * TODO: remove if unnecessary or reintegrate'',
        ''         */'',
        ''''])
     [] [CHR 0x0A] (unlines [''    #endif'', ''''])"

definition soc_header :: "nat \<Rightarrow> nat \<Rightarrow> string \<Rightarrow> gen_entry list \<Rightarrow> keep_block list \<Rightarrow> piece list option" where
  "soc_header dw pad_to rf_name entries block_data =
     (if list_all (\<lambda>e. struct_ok (ge_regs e)) entries then
        Some (fill_template (soc_header_items dw pad_to rf_name entries) soc_orphans (unlines [''#endif'']) block_data)
      else None)"

section \<open>Generating the files again\<close>

definition rf_names_ok :: "string \<times> gen_entry list \<Rightarrow> bool" where
  "rf_names_ok = (\<lambda>(rf_name, entries). CHR ''/'' \<notin> set rf_name \<and>
     (\<forall>e \<in> set entries. CHR ''/'' \<notin> set (ge_name e) \<and>
        (\<forall>r \<in> set (ge_regs e). CHR ''/'' \<notin> set (gr_name r) \<and> text_ok (gr_comment r))))"

lemma rf_names_okD:
  assumes "rf_names_ok (rf_name, entries)"
  shows "CHR ''/'' \<notin> set rf_name"
    and "e \<in> set entries \<Longrightarrow> CHR ''/'' \<notin> set (ge_name e)"
    and "e \<in> set entries \<Longrightarrow> r \<in> set (ge_regs e) \<Longrightarrow> CHR ''/'' \<notin> set (gr_name r)"
    and "e \<in> set entries \<Longrightarrow> r \<in> set (ge_regs e) \<Longrightarrow> text_ok (gr_comment r)"
  using assms by (auto simp: rf_names_ok_def)

text \<open>Columns and numbers have no slash.\<close>

lemma spaces_text: "text_ok (replicate n CHR '' '')"
  by (rule text_ok_notin) auto

lemma pad_text: "text_ok s \<Longrightarrow> text_ok (pad_right n s)" "text_ok s \<Longrightarrow> text_ok (pad_left n s)"
  by (simp_all add: pad_right_def pad_left_def spaces_text)

lemma dec_text: "text_ok (dec_string n)" "text_ok (dec_int i)"
proof -
  show "text_ok (dec_string n)" by (rule text_ok_notin [OF dec_slash])
  show "text_ok (dec_int i)" by (rule text_ok_notin) (simp add: dec_int_def dec_slash)
qed

lemma nth_slash: "k < length s \<Longrightarrow> CHR ''/'' \<notin> set s \<Longrightarrow> CHR ''/'' \<noteq> s ! k"
  using nth_mem by metis

lemma hex_text: "text_ok (hex_string n)"
proof -
  have "CHR ''/'' \<notin> set (hex_string n)"
  proof (induction n rule: hex_string.induct)
    case (1 n)
    then show ?case
      using nth_slash [of n "''0123456789abcdef''"] nth_slash [of "n mod 16" "''0123456789abcdef''"]
      unfolding hex_string.simps [of n] by simp
  qed
  then show ?thesis by (rule text_ok_notin)
qed

lemma mask_text: "text_ok (mask_string w)"
proof -
  have "CHR ''/'' \<noteq> ''0123456789ABCDEF'' ! (k mod 16)" for k :: nat
    by (rule nth_slash) auto
  then show ?thesis unfolding mask_string_def by (intro text_ok_notin) (auto simp del: upt_Suc)
qed

lemma unused_reg_text: "text_ok s \<Longrightarrow> text_ok (pad_right n unused_reg @ '' : '' @ s)"
proof -
  assume "text_ok s"
  then have "text_ok (replicate (n - 12) CHR '' '' @ '' : '' @ s)" by (simp add: spaces_text text_rules)
  then have "text_ok (unused_reg @ replicate (n - 12) CHR '' '' @ '' : '' @ s)"
    by (cases "n - 12") (simp_all add: unused_reg_def text_rules)
  moreover have "length unused_reg = 12" by (simp add: unused_reg_def)
  ultimately show ?thesis by (simp add: pad_right_def)
qed

lemma reg_entry_text:
  assumes "CHR ''/'' \<notin> set (gr_name r)" and "text_ok (gr_comment r)"
  shows "text_ok (struct_reg_entry soc len r)"
proof -
  have width: "text_ok (pad_left 2 (dec_string (field_width r)) @ s)" if "text_ok s" for s
    using that by (simp add: pad_text dec_text)
  have "text_ok (gr_name r)" by (rule text_ok_notin [OF assms(1)])
  then show ?thesis
    using width [of "''; // '' @ gr_comment r"] width [of "'';''"] unused_reg_text [OF width [of "'';''"]] assms(2)
    by (simp add: struct_reg_entry_def Let_def text_rules pad_text dec_text)
qed

lemma unlines_text: "(\<And>l. l \<in> set ls \<Longrightarrow> text_ok (l @ [CHR 0x0A])) \<Longrightarrow> text_ok (unlines ls)"
  unfolding unlines_def by (rule text_ok_concat) auto

lemma concat_text: "(\<And>x. x \<in> set xs \<Longrightarrow> text_ok (f x)) \<Longrightarrow> text_ok (concat (map f xs))"
  by (rule text_ok_concat) auto

lemma join_text: "text_ok sep \<Longrightarrow> (\<And>x. x \<in> set xs \<Longrightarrow> text_ok (f x)) \<Longrightarrow> text_ok (join sep (map f xs))"
  by (induction xs rule: induct_list012) (auto simp: text_ok_Nil)

lemma entry_texts:
  assumes "rf_names_ok (rf_name, entries)" and "e \<in> set entries"
  shows "text_ok rf_name" "text_ok (ge_name e)"
    and "r \<in> set (ge_regs e) \<Longrightarrow> text_ok (gr_name r)"
    and "r \<in> set (ge_regs e) \<Longrightarrow> text_ok (struct_reg_entry soc len r)"
  using rf_names_okD [OF assms(1)] assms(2) by (auto intro: text_ok_notin reg_entry_text)

lemma host_struct_text:
  assumes "rf_names_ok (rf_name, entries)" and "e \<in> set entries"
  shows "text_ok (host_struct_text rf_name e)"
  using entry_texts [OF assms]
  by (simp add: host_struct_text_def struct_name_def text_rules concat_text)

lemma reg_class_text: "text_ok (reg_class r)"
  by (simp add: reg_class_def text_rules)

lemma host_class_text:
  assumes "rf_names_ok (rf_name, entries)" and "e \<in> set entries"
  shows "text_ok (host_class_text rf_name e)"
proof -
  let ?reg = "\<lambda>r. [CHR 0x0A] @ ''                '' @ reg_class r @ '' '' @ gr_name r @ '';''"
  have "text_ok (?reg r)" if "r \<in> set (ge_regs e)" for r
    using entry_texts(3) [OF assms that] by (simp add: reg_class_text text_rules)
  then have "text_ok (concat (map ?reg (filter named (ge_regs e))))" by (intro concat_text) simp
  then show ?thesis
    using entry_texts [OF assms] by (simp add: host_class_text_def entry_class_def struct_name_def text_rules)
qed

lemma rf_text: "rf_names_ok (rf_name, entries) \<Longrightarrow> text_ok rf_name \<and> text_ok (string_toupper (''rf_'' @ rf_name))"
  using upper_slash [of "''rf_'' @ rf_name"] rf_names_okD(1) by (auto intro!: text_ok_notin)

lemma default_empty: "CHR ''/'' \<notin> set n \<Longrightarrow> block_ok (n, [])"
  by (rule default_ok) (simp_all add: text_ok_Nil)

lemma host_header_ok: "rf_names_ok (rf_name, entries) \<Longrightarrow> items_ok (host_header_items rf_name entries)"
  using rf_text concat_text [of entries "host_struct_text rf_name"] concat_text [of entries "host_class_text rf_name"]
  by (simp add: host_header_items_def rf_class_def generated_line_def text_rules default_empty host_struct_text
      host_class_text del: block_ok.simps)

lemma host_orphans_ok: "list_all block_ok bs \<Longrightarrow> pieces_ok qs \<Longrightarrow> pieces_ok (host_orphans bs @ qs)"
  unfolding host_orphans_def by (rule orphans_ok) (simp_all add: text_rules)

lemma entry_init_text:
  assumes "rf_names_ok (rf_name, entries)" and "e \<in> set entries"
  shows "text_ok (entry_init_text len e)"
  using entry_texts [OF assms]
  by (simp add: entry_init_text_def Let_def address_string_def text_rules pad_text hex_text mask_text)

lemma host_entry_text:
  assumes "rf_names_ok (rf_name, entries)" and "e \<in> set entries"
  shows "text_ok (host_entry_text rf_name len e)"
proof -
  have "text_ok (reg_init_text len r)" if "r \<in> set (ge_regs e)" for r
    using entry_texts(3) [OF assms that] by (simp add: reg_init_text_def text_rules pad_text dec_text)
  then have "text_ok (concat (map (reg_init_text len) (filter named (ge_regs e))))" by (intro concat_text) simp
  then show ?thesis
    using entry_texts [OF assms]
    by (simp add: host_entry_text_def Let_def rf_class_def entry_class_def struct_name_def text_rules pad_text)
qed

lemma host_entry_texts:
  "rf_names_ok (rf_name, all) \<Longrightarrow> set entries \<subseteq> set all \<Longrightarrow> text_ok (host_entry_texts rf_name len entries)"
  by (induction rf_name len entries rule: host_entry_texts.induct)
     (simp_all add: text_ok_Nil Let_def host_entry_text)

lemma host_source_ok: "rf_names_ok (rf_name, entries) \<Longrightarrow> items_ok (host_source_items rf_name entries)"
  using rf_text [of rf_name entries] host_entry_texts [of rf_name entries entries 0]
    join_text [of "'',''" entries "entry_init_text (maxlen_entryname entries)"]
  by (simp add: host_source_items_def Let_def rf_class_def generated_line_def text_rules default_empty
      entry_init_text pad_text del: block_ok.simps)

lemma soc_struct_text:
  assumes "rf_names_ok (rf_name, entries)" and "e \<in> set entries"
  shows "text_ok (soc_struct_text dw rf_name e)"
  using entry_texts [OF assms] unfolding soc_struct_text_def
  by (intro unlines_text) (auto simp: struct_name_def text_rules dec_text)

lemma padding_text: "text_ok (padding_text dw i n @ [CHR 0x0A])"
  by (simp add: padding_text_def text_rules dec_text)

lemma soc_member_text:
  assumes "rf_names_ok (rf_name, entries)" and "e \<in> set entries"
  shows "text_ok (soc_member_text dw rf_name len e)"
  using entry_texts [OF assms]
  by (simp add: soc_member_text_def struct_name_def text_rules pad_text spaces_text dec_text)

lemma soc_member_lines:
  assumes "rf_names_ok (rf_name, all)"
  shows "set entries \<subseteq> set all \<Longrightarrow> l \<in> set (fst (soc_member_lines dw rf_name len nxt i entries)) \<Longrightarrow> text_ok (l @ [CHR 0x0A])"
proof (induction entries arbitrary: nxt i)
  case (Cons e es)
  have "text_ok (soc_member_text dw rf_name len e @ [CHR 0x0A])"
    using soc_member_text [OF assms, of e] Cons.prems(1) by (simp add: text_rules)
  then show ?case
    using Cons padding_text by (auto simp: Let_def split: prod.splits if_splits) (metis fst_conv)+
qed simp

lemma soc_class_lines:
  assumes "rf_names_ok (rf_name, entries)"
  shows "text_ok (unlines (soc_class_lines dw pad_to rf_name entries))"
proof (rule unlines_text)
  obtain ls n i where ls: "soc_member_lines dw rf_name (maxlen_entryname entries) 0 0 entries = (ls, n, i)"
    by (metis prod_cases3)
  fix l assume "l \<in> set (soc_class_lines dw pad_to rf_name entries)"
  then show "text_ok (l @ [CHR 0x0A])"
    using soc_member_lines [OF assms subset_refl, of l dw "maxlen_entryname entries" 0 0] padding_text
    by (auto simp: soc_class_lines_def ls split: if_splits)
qed

lemma soc_header_ok: "rf_names_ok (rf_name, entries) \<Longrightarrow> items_ok (soc_header_items dw pad_to rf_name entries)"
  using rf_text [of rf_name entries] soc_class_lines [of rf_name entries dw pad_to]
    concat_text [of entries "soc_struct_text dw rf_name"]
  by (simp add: soc_header_items_def rf_class_def generated_line_def text_rules default_empty dec_text
      soc_struct_text del: block_ok.simps)

text \<open>The three templates keep the contract, for descriptions they do not fail on.\<close>

interpretation host_h: keep_template rf_names_ok
  "\<lambda>(rf_name, entries). fill_template (host_header_items rf_name entries) host_orphans (unlines ['''', ''#endif''])"
  by unfold_locales
     (auto intro!: fill_template_ok host_header_ok host_orphans_ok simp: text_rules,
      simp_all add: host_orphans_def fill_template_again fill_template_complete fill_template_found split: prod.splits)

interpretation host_cpp: keep_template rf_names_ok
  "\<lambda>(rf_name, entries). fill_template (host_source_items rf_name entries) host_orphans (unlines [''''])"
  by unfold_locales
     (auto intro!: fill_template_ok host_source_ok host_orphans_ok simp: text_rules,
      simp_all add: host_orphans_def fill_template_again fill_template_complete fill_template_found split: prod.splits)

lemma soc_orphans_ok: "list_all block_ok bs \<Longrightarrow> pieces_ok qs \<Longrightarrow> pieces_ok (soc_orphans bs @ qs)"
  unfolding soc_orphans_def by (rule orphans_ok) (simp_all add: text_rules)

interpretation soc_h: keep_template "\<lambda>(dw, pad_to, d). rf_names_ok d"
  "\<lambda>(dw :: nat, pad_to, rf_name, entries).
     fill_template (soc_header_items dw pad_to rf_name entries) soc_orphans (unlines [''#endif''])"
  by unfold_locales
     (auto intro!: fill_template_ok soc_header_ok soc_orphans_ok simp: text_rules,
      simp_all add: soc_orphans_def fill_template_again fill_template_complete fill_template_found split: prod.splits)

text \<open>C32. The three files of a register file can be generated again from what was generated, like the
  SystemC files: unless the old file has a marker of the old form, the new one has none, reading it
  gives all blocks of the old file that are not empty, each under its name, and generating it once
  more gives the same text. Names must have no slash, and no marker may begin in a comment of a
  register.\<close>

theorem rf_files_regenerate:
  assumes names: "rf_names_ok (rf_name, entries)"
    and template: "template \<in> {host_header rf_name entries, host_source rf_name entries, soc_header dw pad_to rf_name entries}"
    and gen: "generate_template_output template old = Inr new"
    and marker: "\<And>s. old = Some s \<Longrightarrow> \<not> sublist old_marker s"
  shows "\<not> sublist old_marker new \<and> generate_template_output template (Some new) = Inr new \<and>
    (\<exists>bs bs'. (case old of None \<Rightarrow> bs = [] | Some s \<Rightarrow> parse_keep_blocks s c_comment = Inr bs) \<and>
      parse_keep_blocks new c_comment = Inr bs' \<and> nonempty_blocks bs \<subseteq># nonempty_blocks bs' \<and>
      (\<forall>n v. map_of bs n = Some v \<and> v \<noteq> [] \<longrightarrow> map_of bs' n = Some v))"
proof -
  have some: "template = (\<lambda>bs. Some (f bs))" if "\<And>bs. template bs = (if c then Some (f bs) else None)" for c f
  proof -
    have "c" using gen that by (auto simp: generate_template_output_def split: sum.splits if_splits)
    then show ?thesis using that by auto
  qed
  from template consider "template = host_header rf_name entries" | "template = host_source rf_name entries"
    | "template = soc_header dw pad_to rf_name entries" by blast
  then show ?thesis
  proof cases
    case 1
    have eq: "template = (\<lambda>bs. Some (fill_template (host_header_items rf_name entries) host_orphans (unlines ['''', ''#endif'']) bs))"
      by (rule some) (simp add: 1 host_header_def)
    from host_h.regenerate [of "(rf_name, entries)", OF names, unfolded prod.case, OF gen [unfolded eq] marker] show ?thesis
      unfolding eq by blast
  next
    case 2
    have eq: "template = (\<lambda>bs. Some (fill_template (host_source_items rf_name entries) host_orphans (unlines ['''']) bs))"
      by (rule some [of "\<not> (entries \<noteq> [] \<and> ge_regs (hd entries) = [])"]) (simp add: 2 host_source_def)
    from host_cpp.regenerate [of "(rf_name, entries)", OF names, unfolded prod.case, OF gen [unfolded eq] marker] show ?thesis
      unfolding eq by blast
  next
    case 3
    have eq: "template = (\<lambda>bs. Some (fill_template (soc_header_items dw pad_to rf_name entries) soc_orphans (unlines [''#endif'']) bs))"
      by (rule some) (simp add: 3 soc_header_def)
    from soc_h.regenerate [of "(dw, pad_to, rf_name, entries)", unfolded prod.case, OF names, OF gen [unfolded eq] marker]
    show ?thesis unfolding eq by blast
  qed
qed

text \<open>A file with a block that has a place and one that has none.\<close>

definition host_example_file :: string where
  "host_example_file = ''/* icglue keep begin custom-decl */int x;/* icglue keep end */
    /* icglue keep begin gone */int y;/* icglue keep end */''"

lemma host_example_blocks:
  "parse_keep_blocks host_example_file c_comment = Inr [(''custom-decl'', ''int x;''), (''gone'', ''int y;'')]"
  by code_simp

lemma host_example_marker: "\<not> sublist old_marker host_example_file"
  by code_simp

theorem rf_files_regenerate_witness:
  "\<exists>new. generate_template_output (host_header ''demo'' [example_entry]) (Some host_example_file) = Inr new \<and>
    generate_template_output (host_header ''demo'' [example_entry]) (Some new) = Inr new \<and>
    (\<exists>bs'. parse_keep_blocks new c_comment = Inr bs' \<and>
      map_of bs' ''custom-decl'' = Some ''int x;'' \<and> map_of bs' ''gone'' = Some ''int y;'')"
proof -
  have names: "rf_names_ok (''demo'', [example_entry])" by (simp add: rf_names_ok_def example_entry_def text_ok_Nil)
  have "struct_ok (ge_regs example_entry)" by (simp add: struct_ok_def example_entry_def)
  then obtain new where gen: "generate_template_output (host_header ''demo'' [example_entry]) (Some host_example_file) = Inr new"
    by (simp add: generate_template_output_def host_example_blocks host_header_def)
  from rf_files_regenerate [OF names _ gen] host_example_marker host_example_blocks gen show ?thesis by auto
qed

end
