(* ===== verification/Rf_Gen_Tcl.thy ===== *)
theory Rf_Gen_Tcl
  imports Rf_Gen_Host Ig_Tcl
begin

text \<open>
  The Tcl command generated for a register file, \<open>src/templates/default/rf/template.wtf.tcl.cpp\<close>, from
  the point where \<open>Tcl_ParseArgsObjv\<close> has filled its variables: \<open>mode\<close> and \<open>entry\<close> are absent when
  their options were not given, \<open>args\<close> are the arguments that are left. The command accesses the
  words of the entries through the object of the register file; the indices that choose one of
  several objects are part of \<open>acc\<close>. \<open>get_long\<close> is the number parser of Tcl, with its error message,
  and \<open>reset_value\<close> what \<open>parse_value\<close> of the Tcl library makes of a reset value. \<open>garbage\<close> is the content
  of the struct variable \<open>wval\<close>, which is not initialised.
\<close>

section \<open>The command\<close>

datatype rf_mode = Mode_wordread | Mode_wordwrite | Mode_regread | Mode_regwrite | Mode_regmodify | Mode_list

record 's word_access =
  word_get :: "gen_entry \<Rightarrow> 's \<Rightarrow> (rf_data_t \<times> 's) res"
  word_set :: "gen_entry \<Rightarrow> rf_data_t \<Rightarrow> 's \<Rightarrow> 's res"

type_synonym get_long = "string \<Rightarrow> string + 64 word"

definition rf_msg :: "string \<Rightarrow> string \<Rightarrow> string" where
  "rf_msg rf text = ''rf_'' @ rf @ '': '' @ text"

definition invalid_register :: "string \<Rightarrow> gen_entry \<Rightarrow> string \<Rightarrow> tcl_result" where
  "invalid_register rf e ireg =
     Tcl_error (rf_msg rf ''invalid register '' @ ireg @ '' for entry '' @ ge_name e @ ''.'')"

text \<open>The chain of comparisons with the names of the registers.\<close>

definition find_member :: "gen_entry \<Rightarrow> string \<Rightarrow> member option" where
  "find_member e ireg = List.find (\<lambda>(r, p, w). gr_name r = ireg) (named_members (ge_regs e))"

text \<open>The values of the named registers, in the order of the arguments.\<close>

fun read_values :: "string \<Rightarrow> gen_entry \<Rightarrow> rf_data_t \<Rightarrow> string list \<Rightarrow> tcl_value list \<Rightarrow> tcl_result" where
  "read_values rf e rval [] reslist = Tcl_ok (Tcl_list reslist)"
| "read_values rf e rval (ireg # args) reslist =
     (case find_member e ireg of
        None \<Rightarrow> invalid_register rf e ireg
      | Some (r, p, w) \<Rightarrow> read_values rf e rval args (reslist @ [Tcl_int (uint (get_field p w rval))]))"

text \<open>The registers with a reset value that can be parsed are set first.\<close>

definition reset_values :: "(string \<Rightarrow> int option) \<Rightarrow> gen_entry \<Rightarrow> rf_data_t \<Rightarrow> rf_data_t" where
  "reset_values reset_value e wval =
     foldl (\<lambda>x (r, p, w).
              if gr_reset r \<in> {''-'', []} then x
              else case reset_value (gr_reset r) of None \<Rightarrow> x | Some v \<Rightarrow> set_field p w (word_of_int v) x)
       wval (struct_members 0 (ge_regs e))"

text \<open>
  The loop over pairs of a name and a value. For an entry without a named register the template
  leaves the body of the loop without the comparison.
\<close>

fun write_values ::
    "string \<Rightarrow> get_long \<Rightarrow> gen_entry \<Rightarrow> string list \<Rightarrow> rf_data_t \<Rightarrow> tcl_result + rf_data_t" where
  "write_values rf get_long e (ireg # val # args) wval =
     (case get_long val of
        Inl err \<Rightarrow> Inl (Tcl_error err)
      | Inr ival \<Rightarrow>
          if named_members (ge_regs e) = [] then write_values rf get_long e args wval
          else
            (case find_member e ireg of
               None \<Rightarrow> Inl (invalid_register rf e ireg)
             | Some (r, p, w) \<Rightarrow> write_values rf get_long e args (set_field p w (ucast ival) wval)))"
| "write_values rf get_long e _ wval = Inr wval"

definition tcl_empty :: tcl_result where
  "tcl_empty = Tcl_ok (Tcl_string [])"

text \<open>The branches for an entry; everything that is none of the first four modes lists the registers.\<close>

definition entry_command ::
    "string \<Rightarrow> 's word_access \<Rightarrow> (string \<Rightarrow> int option) \<Rightarrow> get_long \<Rightarrow> rf_data_t \<Rightarrow> gen_entry \<Rightarrow> rf_mode \<Rightarrow> string list
       \<Rightarrow> 's \<Rightarrow> (tcl_result \<times> 's) res" where
  "entry_command rf acc reset_value get_long garbage e mode args s =
     (if mode = Mode_wordread then
        if args \<noteq> [] then Inr (Tcl_error (rf_msg rf ''too many arguments for word-read.''), s)
        else res_bind (word_get acc e s) (\<lambda>(v, s). Inr (Tcl_ok (Tcl_int (uint v)), s))
      else if mode = Mode_wordwrite then
        case args of
          [val] \<Rightarrow>
            (case get_long val of
               Inl err \<Rightarrow> Inr (Tcl_error err, s)
             | Inr v \<Rightarrow> res_bind (word_set acc e (ucast v) s) (\<lambda>s. Inr (tcl_empty, s)))
        | _ \<Rightarrow> Inr (Tcl_error (rf_msg rf ''wrong number of arguments for word-write.''), s)
      else if mode = Mode_regread then
        res_bind (word_get acc e s) (\<lambda>(rval, s). Inr (read_values rf e rval args [], s))
      else if mode = Mode_regwrite then
        if odd (length args)
        then Inr (Tcl_error (rf_msg rf ''expected even number of arguments for reg-write/modify.''), s)
        else
          (case write_values rf get_long e args (reset_values reset_value e garbage) of
             Inl err \<Rightarrow> Inr (err, s)
           | Inr wval \<Rightarrow> res_bind (word_set acc e wval s) (\<lambda>s. Inr (tcl_empty, s)))
      else Inr (Tcl_ok (Tcl_list (map (\<lambda>(r, p, w). Tcl_string (gr_name r)) (named_members (ge_regs e)))), s))"

definition rf_command ::
    "string \<Rightarrow> gen_entry list \<Rightarrow> 's word_access \<Rightarrow> (string \<Rightarrow> int option) \<Rightarrow> get_long \<Rightarrow> rf_data_t
       \<Rightarrow> rf_mode option \<Rightarrow> string option \<Rightarrow> string list \<Rightarrow> 's \<Rightarrow> (tcl_result \<times> 's) res" where
  "rf_command rf entries acc reset_value get_long garbage mode entry args s =
     (case mode of
        None \<Rightarrow> Inr (Tcl_error (rf_msg rf ''no mode specified (one of -mode-(wordread|wordwrite|regread|regwrite|regmodify)).''), s)
      | Some m \<Rightarrow>
          if m \<noteq> Mode_list \<and> entry = None then Inr (Tcl_error (rf_msg rf ''no regfile entry specified.''), s)
          else if m = Mode_list \<and> args \<noteq> [] then Inr (Tcl_error (rf_msg rf ''too many arguments for list.''), s)
          else
            (case entry of
               None \<Rightarrow> Inr (Tcl_ok (Tcl_list (map (\<lambda>e. Tcl_string (ge_name e)) entries)), s)
             | Some name \<Rightarrow>
                 (case List.find (\<lambda>e. ge_name e = name) entries of
                    None \<Rightarrow> Inr (Tcl_error (rf_msg rf ''invalid regfile entry: '' @ name @ ''.''), s)
                  | Some e \<Rightarrow> entry_command rf acc reset_value get_long garbage e m args s)))"

text \<open>The name under which \<open>rftcl_<name>_register_commands\<close> creates the command.\<close>

definition rftcl_register_commands :: "string \<Rightarrow> string list" where
  "rftcl_register_commands rf = [''rf_'' @ rf]"

text \<open>The words of the generated class as the command accesses them.\<close>

definition host_access :: "'s regfile_dev \<Rightarrow> rf_addr_t \<Rightarrow> 's word_access" where
  "host_access dev base_addr =
     \<lparr>word_get = \<lambda>e. entry_value dev (host_entry_t base_addr e),
      word_set = \<lambda>e v s. entry_write dev (host_entry_t base_addr e) v s\<rparr>"

section \<open>Fields of the written word\<close>

lemma find_by_key: "distinct (map f xs) \<Longrightarrow> x \<in> set xs \<Longrightarrow> List.find (\<lambda>y. f y = f x) xs = Some x"
  by (induction xs) auto

lemma find_entry_member:
  assumes "desc_ok e" and "r \<in> set (ge_regs e)" and "named r"
  shows "find_member e (gr_name r) = Some (r, gr_bit_low r, field_width r)"
proof -
  let ?f = "\<lambda>r. (r, gr_bit_low r, field_width r)"
  have "List.find (\<lambda>r'. gr_name r' = gr_name r) (filter named (ge_regs e)) = Some r"
    by (rule find_by_key) (use assms in \<open>auto simp: desc_ok_def\<close>)
  then show ?thesis by (simp add: find_member_def entry_named_members [OF assms(1)] find_map)
qed

text \<open>The arguments for a list of registers and values.\<close>

definition reg_args :: "(gen_reg \<times> string) list \<Rightarrow> string list" where
  "reg_args rvs = concat (map (\<lambda>(r, v). [gr_name r, v]) rvs)"

lemma reg_args_simps [simp]: "reg_args [] = []" "reg_args ((r, v) # rvs) = gr_name r # v # reg_args rvs"
  "even (length (reg_args rvs))"
  by (simp_all add: reg_args_def) (induction rvs, auto)

definition long_value :: "get_long \<Rightarrow> string \<Rightarrow> rf_data_t" where
  "long_value get_long v = (case get_long v of Inl err \<Rightarrow> 0 | Inr x \<Rightarrow> ucast x)"

lemma write_values_fields:
  assumes "desc_ok e" and "\<forall>(r, v) \<in> set rvs. r \<in> set (ge_regs e) \<and> named r \<and> (\<exists>x. get_long v = Inr x)"
  shows "write_values rf get_long e (reg_args rvs) wval =
     Inr (foldl (\<lambda>x (r, v). set_field (gr_bit_low r) (field_width r) v x) wval (map (apsnd (long_value get_long)) rvs))"
  using assms(2)
proof (induction rvs arbitrary: wval)
  case (Cons rv rvs)
  obtain r v where rv: "rv = (r, v)" by (cases rv)
  obtain x where r: "r \<in> set (ge_regs e)" "named r" "get_long v = Inr x" using Cons.prems by (auto simp: rv)
  have "named_members (ge_regs e) \<noteq> []"
    using r by (auto simp: entry_named_members [OF assms(1)] filter_empty_conv)
  then show ?case
    using Cons r by (simp add: rv find_entry_member [OF assms(1)] long_value_def)
qed simp

text \<open>What a register holds before the arguments are looked at.\<close>

definition default_value :: "(string \<Rightarrow> int option) \<Rightarrow> rf_data_t \<Rightarrow> gen_reg \<Rightarrow> rf_data_t" where
  "default_value reset_value garbage r =
     (case (if gr_reset r \<in> {''-'', []} then None else reset_value (gr_reset r)) of
        None \<Rightarrow> get_field (gr_bit_low r) (field_width r) garbage
      | Some v \<Rightarrow> word_of_int v AND Bit_Operations.mask (field_width r))"

definition reset_pairs :: "(string \<Rightarrow> int option) \<Rightarrow> gen_reg list \<Rightarrow> (gen_reg \<times> rf_data_t) list" where
  "reset_pairs reset_value regs = List.map_filter (\<lambda>r. if gr_reset r \<in> {''-'', []} then None
     else map_option (\<lambda>v. (r, word_of_int v)) (reset_value (gr_reset r))) regs"

lemma reset_fold:
  "foldl (\<lambda>x r. if gr_reset r \<in> {''-'', []} then x
        else case reset_value (gr_reset r) of None \<Rightarrow> x | Some v \<Rightarrow> set_field (gr_bit_low r) (field_width r) (word_of_int v) x) wval regs =
   foldl (\<lambda>x (r, v). set_field (gr_bit_low r) (field_width r) v x) wval (reset_pairs reset_value regs)"
  by (induction regs arbitrary: wval) (auto simp: reset_pairs_def map_filter_simps split: option.split)

lemma reset_pairs_keys: "set (map fst (reset_pairs reset_value regs)) \<subseteq> set regs"
  by (induction regs) (auto simp: reset_pairs_def map_filter_simps split: option.split)

lemma reset_pairs_lookup:
  assumes "distinct regs" and "r \<in> set regs"
  shows "map_of (rev (reset_pairs reset_value regs)) r =
     (if gr_reset r \<in> {''-'', []} then None else map_option word_of_int (reset_value (gr_reset r)))"
proof -
  have d: "distinct (map fst (reset_pairs reset_value regs))"
    using assms(1) reset_pairs_keys
    by (induction regs) (fastforce simp: reset_pairs_def map_filter_simps split: option.split)+
  have none: "map_of (reset_pairs reset_value rs) r = None" if "r \<notin> set rs" for rs
    using that reset_pairs_keys [of reset_value rs] by (auto simp: map_of_eq_None_iff)
  have "map_of (reset_pairs reset_value regs) r =
      (if gr_reset r \<in> {''-'', []} then None else map_option word_of_int (reset_value (gr_reset r)))"
    using assms
  proof (induction regs)
    case (Cons r' regs)
    then show ?case
      using none [of regs] by (auto simp: reset_pairs_def map_filter_simps split: option.split)
  qed simp
  then show ?thesis using map_of_rev_distinct [OF d] by simp
qed

lemma reset_values_field:
  assumes "desc_ok e" and "r \<in> set (ge_regs e)"
  shows "get_field (gr_bit_low r) (field_width r) (reset_values reset_value e garbage) = default_value reset_value garbage r"
proof -
  have "reset_values reset_value e garbage =
      foldl (\<lambda>x (r, v). set_field (gr_bit_low r) (field_width r) v x) garbage (reset_pairs reset_value (ge_regs e))"
    using tiles_members [of 0 32 "ge_regs e"] assms(1) unfolding reset_fold [symmetric]
    by (simp add: reset_values_def desc_ok_def foldl_map)
  then show ?thesis
    using get_struct_fields [OF assms reset_pairs_keys, of garbage reset_value]
      reset_pairs_lookup [OF entry_distinct [OF assms(1)] assms(2), of reset_value]
    by (auto simp: default_value_def split: option.split)
qed

section \<open>Properties\<close>

lemma host_word_set:
  assumes "rf_device legal unused ok mem dev" and "ok s" and "placed legal unused base_addr e"
  shows "holds (word_set (host_access dev base_addr) e v s) (\<lambda>s'. ok s' \<and>
    agree (unused_mask e) (mem s' (base_addr + of_nat (ge_address e))) v)"
proof -
  let ?a = "base_addr + of_nat (ge_address e)"
  have p: "legal ?a" "unused ?a = unused_mask e" using assms(3) by (simp_all add: placed_def)
  have full: "mem_write ?a v 0xffffffff (mem s) ?a = v"
  proof -
    have "(0xffffffff :: 32 word) = - 1" by simp
    then show ?thesis by (simp only: mem_write_def fun_upd_same masked_full)
  qed
  have u: "unused_mask e AND NOT (unused ?a) = 0" by (simp add: p(2))
  show ?thesis
    unfolding host_access_def word_access.simps entry_write_def regfile_write_def host_entry_t_def entry_t.simps
  proof (rule holds_mono [OF rf_device.writes [OF assms(1,2) p(1) u]])
    fix s' assume s': "ok s' \<and> agree_mem legal unused (mem s') (mem_write ?a v 0xffffffff (mem s))"
    then show "ok s' \<and> agree (unused_mask e) (mem s' ?a) v"
      using agree_mem_at [OF conjunct2 [OF s'] p(1)] by (simp only: full p(2) simp_thms)
  qed
qed

lemma host_word_get:
  assumes "rf_device legal unused ok mem dev" and "ok s" and "placed legal unused base_addr e"
  shows "holds (word_get (host_access dev base_addr) e s) (\<lambda>(v, s'). ok s' \<and>
    agree (unused_mask e) v (mem s (base_addr + of_nat (ge_address e))))"
  using rf_device.reads [OF assms(1,2), of "base_addr + of_nat (ge_address e)"] assms(3)
  by (auto simp: host_access_def entry_value_def entry_read_def regfile_read_def host_entry_t_def placed_def elim!: holds_mono)

text \<open>C26. After \<open>-regwrite\<close> with any list of registers and numbers, \<open>-regread\<close> of any register of the entry
  returns the last number given for it, reduced to its width; without one, its reset value if it
  has one that can be parsed, and else what happened to be in the uninitialised variable.\<close>

theorem rf_command_roundtrip:
  assumes "rf_device legal unused ok mem dev" and "ok s"
    and "distinct (map ge_name entries)" and "e \<in> set entries" and "placed legal unused base_addr e"
    and "\<forall>(r, v) \<in> set rvs. r \<in> set (ge_regs e) \<and> named r \<and> (\<exists>x. get_long v = Inr x)"
    and "r \<in> set (ge_regs e)" and "named r"
  shows "holds (res_bind (rf_command rf entries (host_access dev base_addr) reset_value get_long garbage
        (Some Mode_regwrite) (Some (ge_name e)) (reg_args rvs) s)
      (\<lambda>(res, s). rf_command rf entries (host_access dev base_addr) reset_value get_long garbage'
        (Some Mode_regread) (Some (ge_name e)) [gr_name r] s))
    (\<lambda>(res, s'). res = Tcl_ok (Tcl_list [Tcl_int (uint
       (case map_of (rev rvs) r of None \<Rightarrow> default_value reset_value garbage r
        | Some v \<Rightarrow> long_value get_long v AND Bit_Operations.mask (field_width r)))]))"
proof -
  let ?a = "base_addr + of_nat (ge_address e)" and ?acc = "host_access dev base_addr"
  let ?w = "foldl (\<lambda>x (r, v). set_field (gr_bit_low r) (field_width r) v x) (reset_values reset_value e garbage)
      (map (apsnd (long_value get_long)) rvs)"
  let ?x = "case map_of (rev rvs) r of None \<Rightarrow> default_value reset_value garbage r
        | Some v \<Rightarrow> long_value get_long v AND Bit_Operations.mask (field_width r)"
  have ok: "desc_ok e" using assms(5) by (simp add: placed_def)
  have find: "List.find (\<lambda>e'. ge_name e' = ge_name e) entries = Some e" by (rule find_by_key [OF assms(3,4)])
  have "map_of (rev (map (apsnd (long_value get_long)) rvs)) r = map_option (long_value get_long) (map_of (rev rvs) r)"
    by (induction rvs rule: rev_induct) (auto simp: apsnd_def map_prod_def)
  moreover have "set (map fst (map (apsnd (long_value get_long)) rvs)) \<subseteq> set (ge_regs e)" using assms(6) by auto
  ultimately have field: "get_field (gr_bit_low r) (field_width r) ?w = ?x"
    using get_struct_fields [OF ok assms(7), of "map (apsnd (long_value get_long)) rvs" "reset_values reset_value e garbage"]
      reset_values_field [OF ok assms(7), of reset_value garbage]
    by (auto split: option.split)
  have same: "get_field (gr_bit_low r) (field_width r) v = get_field (gr_bit_low r) (field_width r) w"
    if "agree (unused_mask e) v w" for v w
    using that reg_used [OF ok assms(7,8)]
    by (auto intro!: bit_word_eqI simp: bit_get_field agree_iff disjoint_mask bit_reg_mask [OF desc_okD(5,6) [OF ok assms(7)]]
        desc_okD(4) [OF ok assms(7), symmetric] less_Suc_eq_le [symmetric])
  have get: "holds (word_get ?acc e s1) (\<lambda>(v, s'). read_values rf e v [gr_name r] [] = Tcl_ok (Tcl_list [Tcl_int (uint ?x)]))"
    if s1: "ok s1" "agree (unused_mask e) (mem s1 ?a) ?w" for s1
  proof (rule holds_mono [OF host_word_get [OF assms(1) s1(1) assms(5)]])
    fix z assume "case z of (v, s') \<Rightarrow> ok s' \<and> agree (unused_mask e) v (mem s1 ?a)"
    then have "agree (unused_mask e) (fst z) ?w" using agree_trans [OF _ s1(2)] by auto
    then have "get_field (gr_bit_low r) (field_width r) (fst z) = ?x" using same field by simp
    then show "case z of (v, s') \<Rightarrow> read_values rf e v [gr_name r] [] = Tcl_ok (Tcl_list [Tcl_int (uint ?x)])"
      by (simp add: split_beta find_entry_member [OF ok assms(7,8)])
  qed
  have wr: "write_values rf get_long e (reg_args rvs) (reset_values reset_value e garbage) = Inr ?w"
    by (rule write_values_fields [OF ok assms(6)])
  have "holds (word_set ?acc e ?w s) (\<lambda>s1. holds (word_get ?acc e s1)
      (\<lambda>(v, s'). read_values rf e v [gr_name r] [] = Tcl_ok (Tcl_list [Tcl_int (uint ?x)])))"
    by (rule holds_mono [OF host_word_set [OF assms(1,2,5)]]) (use get in blast)
  then show ?thesis
    by (simp add: rf_command_def find entry_command_def wr case_prod_unfold del: read_values.simps)
qed



section \<open>Witnesses\<close>

text \<open>Numbers of one digit.\<close>

definition digit_long :: get_long where
  "digit_long v = (case v of [c] \<Rightarrow> Inr (of_nat (of_char c - 48)) | _ \<Rightarrow> Inl ''not a digit'')"

theorem rf_command_roundtrip_witness:
  "holds (res_bind (rf_command ''x'' [example_entry] (host_access apb_ram 0x100) (\<lambda>_. Some 5) digit_long (- 1)
        (Some Mode_regwrite) (Some ''ctrl'') [''mode'', ''9'', ''en'', ''0'', ''mode'', ''3''] (\<lambda>_. 0))
      (\<lambda>(res, s). rf_command ''x'' [example_entry] (host_access apb_ram 0x100) (\<lambda>_. Some 5) digit_long 0
        (Some Mode_regread) (Some ''ctrl'') [''mode''] s))
    (\<lambda>(res, s'). res = Tcl_ok (Tcl_list [Tcl_int 3])) \<and>
   holds (res_bind (rf_command ''x'' [example_entry] (host_access apb_ram 0x100) (\<lambda>_. Some 5) digit_long (- 1)
        (Some Mode_regwrite) (Some ''ctrl'') [] (\<lambda>_. 0))
      (\<lambda>(res, s). rf_command ''x'' [example_entry] (host_access apb_ram 0x100) (\<lambda>_. Some 5) digit_long 0
        (Some Mode_regread) (Some ''ctrl'') [''state''] s))
    (\<lambda>(res, s'). res = Tcl_ok (Tcl_list [Tcl_int 255]))"
proof -
  let ?u = "\<lambda>_. unused_mask example_entry" and ?en = "hd (ge_regs example_entry)" and ?st = "ge_regs example_entry ! 3"
  have p: "placed aligned ?u 0x100 example_entry"
    using example_entry_ok by (simp add: placed_def example_entry_def)
  have r: "example_mode \<in> set (ge_regs example_entry)" "named example_mode" "?en \<in> set (ge_regs example_entry)" "named ?en"
      "?st \<in> set (ge_regs example_entry)" "named ?st" "gr_name ?en = ''en''" "gr_name example_mode = ''mode''" "gr_name ?st = ''state''"
      "field_width example_mode = 4" "ge_name example_entry = ''ctrl''" "field_width ?st = 8" "gr_bit_low ?st = 8"
      "gr_reset ?st = ''-''" "?en \<noteq> example_mode"
    by (simp_all add: example_mode_def example_entry_def named_def field_width_def)
  have l: "digit_long ''9'' = Inr 9" "digit_long ''0'' = Inr 0" "digit_long ''3'' = Inr 3" by (simp_all add: digit_long_def)
  note cmd = rf_command_roundtrip [where rf = "''x''" and entries = "[example_entry]" and e = example_entry and s = "\<lambda>_. 0"
      and garbage = "- 1" and garbage' = 0 and get_long = digit_long and reset_value = "\<lambda>_. Some 5", OF apb_ram_device [of ?u] TrueI _ _ p]
  have "\<forall>(r, v) \<in> set [(example_mode, ''9''), (?en, ''0''), (example_mode, ''3'')].
      r \<in> set (ge_regs example_entry) \<and> named r \<and> (\<exists>x. digit_long v = Inr x)" using r l by simp
  from cmd [OF _ _ this r(1,2)] cmd [where rvs = "[]", OF _ _ _ r(5,6)]
  show ?thesis
    by (simp add: r l long_value_def default_value_def get_field_def mask_eq_exp_minus_1)
qed


end
