(* ===== verification/Sc_Gen.thy ===== *)
theory Sc_Gen
  imports Keep_Files
begin

text \<open>
  The SystemC templates \<open>src/templates/default/sc/template.wtf.h\<close> and \<open>template.wtf.cpp\<close>: the class of
  a module with its ports, the constructor that names the ports, and the blocks that belong to the
  user, with what stands in them at first.
\<close>

record sc_port =
  sp_name :: string
  sp_size :: nat
  sp_direction :: string

record sc_mod =
  sm_name :: string
  sm_ports :: "sc_port list"

section \<open>Computed texts\<close>

text \<open>A direction that is none of the three is only logged.\<close>

definition sc_type :: "sc_port \<Rightarrow> string" where
  "sc_type p =
     (let type = (if 1 < sp_size p then ''< sc_lv<'' @ pad_left 3 (dec_string (sp_size p)) @ ''> >'' else ''< sc_logic >  '')
      in if sp_direction p = ''input'' then ''sc_in  '' @ type
         else if sp_direction p = ''output'' then ''sc_out '' @ type
         else if sp_direction p = ''inout'' then ''sc_inout '' @ type
         else [])"

definition sc_port_line :: "sc_port \<Rightarrow> string" where
  "sc_port_line p = ''        '' @ sc_type p @ '' '' @ sp_name p @ '';''"

definition blank :: "char \<Rightarrow> bool" where
  "blank c \<longleftrightarrow> c \<in> {CHR '' '', CHR 0x0A, CHR 0x09}"

text \<open>
  The initialisers of the ports; \<open>content\<close> is the contents of the block that comes next, when the old
  file has one. The comma in front of that block's initialisers is only added when it has some.
\<close>

definition sc_initializers :: "sc_port list \<Rightarrow> string option \<Rightarrow> string" where
  "sc_initializers ports content =
     (let initializers = join ('','' @ [CHR 0x0A] @ ''    '')
            (map (\<lambda>p. sp_name p @ ''('' @ [CHR 0x22] @ sp_name p @ [CHR 0x22] @ '')'') ports);
          initializers =
            (if initializers \<noteq> [] then
               case content of
                 None \<Rightarrow> initializers
               | Some c \<Rightarrow> if filter (\<lambda>x. \<not> blank x) c \<noteq> [] then initializers @ '','' else initializers
             else initializers)
      in initializers @ [CHR 0x0A])"

text \<open>Without ports nothing stands in front of the block, whatever it contains; with ports a comma does
  exactly when the block is not blank.\<close>

lemma sc_initializers_comma:
  "sc_initializers [] content = [CHR 0x0A]"
  "ports \<noteq> [] \<Longrightarrow> \<exists>list. list \<noteq> [] \<and> last list = CHR '')'' \<and> sc_initializers ports content =
     list @ (if (\<exists>c. content = Some c \<and> (\<exists>x \<in> set c. \<not> blank x)) then '','' else []) @ [CHR 0x0A]"
proof -
  show "sc_initializers [] content = [CHR 0x0A]" by (simp add: sc_initializers_def)
  assume ports: "ports \<noteq> []"
  let ?sep = "'','' @ [CHR 0x0A] @ ''    ''" and ?init = "\<lambda>p. sp_name p @ ''('' @ [CHR 0x22] @ sp_name p @ [CHR 0x22] @ '')''"
  have "join sep (map ?init ps) \<noteq> [] \<and> last (join sep (map ?init ps)) = CHR '')''" if "ps \<noteq> []" for sep ps
    using that
  proof (induction ps rule: induct_list012)
    case (3 p q ps)
    then show ?case by (simp add: last_append)
  qed simp_all
  from this [OF ports, of ?sep]
  show "\<exists>list. list \<noteq> [] \<and> last list = CHR '')'' \<and> sc_initializers ports content =
     list @ (if (\<exists>c. content = Some c \<and> (\<exists>x \<in> set c. \<not> blank x)) then '','' else []) @ [CHR 0x0A]"
    by (intro exI [of _ "join ?sep (map ?init ports)"])
       (auto simp: sc_initializers_def Let_def filter_empty_conv split: option.split)
qed

section \<open>The templates\<close>

definition sc_class_block :: "sc_mod \<Rightarrow> string" where
  "sc_class_block m = ''sc_module('' @ sm_name m @ '')''"

definition sc_header_items :: "sc_mod \<Rightarrow> item list" where
  "sc_header_items m =
     [Txt (unlines
       [generated_line,
        '''',
        ''#ifndef __'' @ string_toupper (sm_name m) @ ''_H__'',
        ''#define __'' @ string_toupper (sm_name m) @ ''_H__'',
        '''']),
      Pop ''include'' (unlines ['''', ''#include <systemc.h>'']),
      Txt (unlines ['''', '''', '''']),
      Pop (sc_class_block m) (unlines
       ['''',
        ''class '' @ sm_name m @ '' : public sc_module {'',
        ''    public:'',
        ''        SC_HAS_PROCESS ('' @ sm_name m @ '');'',
        ''        '' @ sm_name m @ '' (::sc_core::sc_module_name name);'']),
      Txt (unlines ['''', '''', ''        // interface declaration'']),
      Txt (unlines (map sc_port_line (sm_ports m))),
      Txt (unlines ['''', ''        // additional declaration''] @ ''    ''),
      Pop ''class-decl'' (unlines
       ['''',
        ''    private:'',
        ''        //TODO: add your custom declarations here'',
        ''        //e.g.'',
        ''        //void testcase_control ();'',
        ''        //void testcase ();'',
        '''',
        ''        //void onEvent ();'',
        ''        //sc_event_queue eq;'',
        ''        //void onClock();''] @ ''    ''),
      Txt (unlines ['''', ''};'', '''']),
      Pop ''header-decl'' [],
      Txt (unlines ['''', ''''])]"

text \<open>The blocks no place was left for, when they are not empty.\<close>

definition sc_orphans :: "keep_block list \<Rightarrow> piece list" where
  "sc_orphans = orphaned_blocks
     (unlines
       [''#if 0'',
        ''    /* orphaned icglue keep blocks ...'',
        ''     * TODO: remove if unnecessary or reintegrate'',
        ''     */''])
     ''    '' [CHR 0x0A] (unlines [''#endif''])"

definition sc_header :: "sc_mod \<Rightarrow> keep_block list \<Rightarrow> piece list" where
  "sc_header m = fill_template (sc_header_items m) sc_orphans (unlines [''#endif''])"

text \<open>The source file. The initialisers look at the block they stand in front of.\<close>

definition init_keep_block_name :: "sc_mod \<Rightarrow> string" where
  "init_keep_block_name m = sc_class_block m @ ''_intialize''"

definition sc_source_head :: "sc_mod \<Rightarrow> item list" where
  "sc_source_head m =
     [Txt (unlines [generated_line, '''']),
      Pop ''include'' (unlines ['''', ''#include <'' @ sm_name m @ ''.h>'']),
      Txt (unlines ['''', '''']),
      Txt (unlines [sm_name m @ ''::'' @ sm_name m @ '' (::sc_core::sc_module_name name) :''] @ ''    '')]"

definition sc_source_tail :: "sc_mod \<Rightarrow> string option \<Rightarrow> item list" where
  "sc_source_tail m content =
     [Txt (sc_initializers (sm_ports m) content),
      Pop (init_keep_block_name m) [],
      Txt (unlines ['''']),
      Pop (sc_class_block m @ ''_construct'') (unlines
       ['''',
        ''{'',
        ''    // TODO: add your constructor code here'',
        ''    // NOTE: if the sc_module('' @ sm_name m @ '')_initialize is *not* empty a comma to the last element will be added'',
        ''    //SC_THREAD (testcase_control);'',
        '''',
        ''    //SC_THREAD (onEvent);'',
        ''    //sensitive << eq;'',
        '''',
        ''    //SC_METHOD (onClock);'',
        ''    //dont_initialize ();'',
        ''    //sensitive_pos << clk_i;'',
        '''',
        ''    // NOTE: SC_THREAD can call the wait-functions, whereas SC_METHOD can't!!!'',
        ''}'']),
      Txt (unlines ['''', '''']),
      Pop ''definition'' (unlines
       ['''',
        ''// TODO: add your custom definitions here'',
        ''// e.g.'',
        ''//void '' @ sm_name m @ ''::testcase_control ()'',
        ''//{'',
        ''//    // initialize outputs'',
        ''//    write_o = SC_LOGIC_1'',
        ''//'',
        ''//    while (nrst_i != SC_LOGIC_1) {'',
        ''//        wait (nrst_i.posedge_event ());'',
        ''//    }'',
        ''//'',
        ''//    testcase ();'',
        ''//    sc_stop ();'',
        ''//    wait ();'',
        ''//}'']),
      Txt (unlines
       ['''',
        '''',
        ''#if   defined(XMSC)'',
        ''    XMSC_MODULE_EXPORT('' @ sm_name m @ '')'',
        ''#elif defined(NCSC)'',
        ''    NCSC_MODULE_EXPORT('' @ sm_name m @ '')'',
        ''#else'',
        ''      SC_MODULE_EXPORT('' @ sm_name m @ '')'',
        ''#endif'',
        ''''])]"

definition sc_source :: "sc_mod \<Rightarrow> keep_block list \<Rightarrow> piece list" where
  "sc_source m block_data =
     (let (pieces, block_data) = fill (sc_source_head m) block_data;
          content = map_of block_data (init_keep_block_name m);
          (more, block_data) = fill (sc_source_tail m content) block_data
      in pieces @ more @ sc_orphans block_data @ [Text (unlines [''''])])"

section \<open>Generating the files again\<close>

lemma sc_orphans_ok: "list_all block_ok bs \<Longrightarrow> pieces_ok qs \<Longrightarrow> pieces_ok (sc_orphans bs @ qs)"
  unfolding sc_orphans_def by (rule orphans_ok) (simp_all add: text_rules)

text \<open>Names as C has them; a slash could begin a comment.\<close>

definition sc_names_ok :: "sc_mod \<Rightarrow> bool" where
  "sc_names_ok m \<longleftrightarrow> CHR ''/'' \<notin> set (sm_name m) \<and> (\<forall>p \<in> set (sm_ports m). CHR ''/'' \<notin> set (sp_name p))"

lemma port_line_ok: "CHR ''/'' \<notin> set (sp_name p) \<Longrightarrow> text_ok (sc_port_line p)"
  by (rule text_ok_notin) (auto simp: sc_port_line_def sc_type_def pad_left_def dec_slash Let_def split: if_splits)

lemma join_set: "set (join sep xs) \<subseteq> set sep \<union> (\<Union>x \<in> set xs. set x)"
  by (induction sep xs rule: join.induct) auto

lemma initializers_ok: "\<forall>p \<in> set ports. CHR ''/'' \<notin> set (sp_name p) \<Longrightarrow> text_ok (sc_initializers ports content)"
proof -
  let ?sep = "'','' @ [CHR 0x0A] @ ''    ''" and ?init = "\<lambda>p. sp_name p @ ''('' @ [CHR 0x22] @ sp_name p @ [CHR 0x22] @ '')''"
  assume "\<forall>p \<in> set ports. CHR ''/'' \<notin> set (sp_name p)"
  then have "CHR ''/'' \<notin> set (join ?sep (map ?init ports))"
    using join_set [of ?sep "map ?init ports"] by (auto split: if_splits)
  then have "CHR ''/'' \<notin> set (sc_initializers ports content)"
    unfolding sc_initializers_def Let_def by (simp split: option.split)
  then show ?thesis by (rule text_ok_notin)
qed

lemma port_lines_ok:
  "\<forall>p \<in> set ports. CHR ''/'' \<notin> set (sp_name p) \<Longrightarrow> text_ok (concat (map ((\<lambda>l. l @ [CHR 0x0A]) \<circ> sc_port_line) ports))"
  by (induction ports) (simp_all add: port_line_ok text_ok_Cons text_ok_Nil)

lemma header_items_ok: "sc_names_ok m \<Longrightarrow> items_ok (sc_header_items m)"
  using text_ok_notin [OF upper_slash, of "sm_name m"] text_ok_notin [of "sm_name m"] port_lines_ok [of "sm_ports m"]
  by (simp add: sc_names_ok_def sc_header_items_def sc_class_block_def generated_line_def text_rules default_ok del: block_ok.simps)

lemma source_head_ok: "sc_names_ok m \<Longrightarrow> items_ok (sc_source_head m)"
  using text_ok_notin [of "sm_name m"]
  by (simp add: sc_names_ok_def sc_source_head_def generated_line_def text_rules default_ok del: block_ok.simps)

lemma source_tail_ok: "sc_names_ok m \<Longrightarrow> items_ok (sc_source_tail m content)"
  using initializers_ok [of "sm_ports m" content] text_ok_notin [of "sm_name m"]
  by (simp add: sc_names_ok_def sc_source_tail_def init_keep_block_name_def sc_class_block_def text_rules
      default_ok del: block_ok.simps)

text \<open>The two templates keep the contract.\<close>

lemma map_of_kept: "fill (Txt s # Pop n d # items) bs = (ps, rest) \<Longrightarrow> \<exists>v. map_of (kept ps @ os) n = Some v \<and>
    (map_of bs n = Some v \<or> map_of bs n = None \<and> v = d)"
proof -
  assume fill: "fill (Txt s # Pop n d # items) bs = (ps, rest)"
  obtain v bs' where pop: "pop_keep_block bs n d = (v, bs')" by force
  then have "map_of bs n = Some v \<or> map_of bs n = None \<and> v = d"
    by (induction bs arbitrary: bs') (auto simp: apsnd_def map_prod_def split: if_splits prod.splits)
  moreover obtain ps' where "ps = Text s # Keep n v # ps'"
    using fill pop by (auto simp: apfst_def map_prod_def split: prod.splits)
  ultimately show ?thesis by auto
qed

lemma initializers_again: "sc_initializers ports (Some []) = sc_initializers ports None"
  by (simp add: sc_initializers_def Let_def)

lemma tail_items:
  "\<exists>items. \<forall>c. sc_source_tail m c = Txt (sc_initializers (sm_ports m) c) # Pop (init_keep_block_name m) [] # items"
  unfolding sc_source_tail_def by blast

lemma tail_again:
  assumes "fill (sc_source_tail m (map_of bs (init_keep_block_name m))) bs = (ps, rest)"
  shows "sc_source_tail m (map_of (kept ps @ os) (init_keep_block_name m)) = sc_source_tail m (map_of bs (init_keep_block_name m))"
proof -
  obtain items where items: "\<And>c. sc_source_tail m c = Txt (sc_initializers (sm_ports m) c) # Pop (init_keep_block_name m) [] # items"
    using tail_items by blast
  obtain v where "map_of (kept ps @ os) (init_keep_block_name m) = Some v"
      "map_of bs (init_keep_block_name m) = Some v \<or> map_of bs (init_keep_block_name m) = None \<and> v = []"
    using map_of_kept [OF assms [unfolded items]] by blast
  then show ?thesis by (auto simp: items initializers_again)
qed

interpretation sc_h: keep_template sc_names_ok sc_header
  by unfold_locales
     (simp_all add: sc_header_def fill_template_ok header_items_ok sc_orphans_ok text_rules,
      simp_all add: sc_orphans_def fill_template_again fill_template_complete fill_template_found)

interpretation sc_cpp: keep_template sc_names_ok sc_source
proof
  fix m bs
  obtain ps bs1 where fill1: "fill (sc_source_head m) bs = (ps, bs1)" by force
  obtain qs rest where fill2: "fill (sc_source_tail m (map_of bs1 (init_keep_block_name m))) bs1 = (qs, rest)" by force
  have eq: "sc_source m bs = ps @ qs @ sc_orphans rest @ [Text (unlines [''''])]"
    by (simp add: sc_source_def fill1 fill2)
  show "pieces_ok (sc_source m bs)" if "sc_names_ok m" "list_all block_ok bs"
  proof -
    have bs1: "list_all block_ok bs1" using that(2) fill_subset [OF fill1] by (auto simp: list_all_iff)
    have "list_all block_ok rest" using bs1 fill_subset [OF fill2] by (auto simp: list_all_iff)
    then have "pieces_ok (sc_orphans rest @ [Text (unlines [''''])])"
      by (rule sc_orphans_ok) (simp add: text_rules)
    from fill_ok [OF fill2 source_tail_ok [OF that(1)] bs1 this]
    have "pieces_ok (qs @ sc_orphans rest @ [Text (unlines [''''])])" .
    from fill_ok [OF fill1 source_head_ok [OF that(1)] that(2) this] show ?thesis by (simp add: eq)
  qed
  show "sc_source m (kept (sc_source m bs)) = sc_source m bs"
    using fill_again [OF fill1] fill_again [OF fill2] tail_again [OF fill2]
    unfolding eq by (simp add: sc_source_def sc_orphans_def)
  have "nonempty_blocks bs \<subseteq># nonempty_blocks (kept ps) + nonempty_blocks bs1" by (rule nonempty_blocks_kept [OF fill1])
  also have "\<dots> \<subseteq># nonempty_blocks (kept ps) + (nonempty_blocks (kept qs) + nonempty_blocks rest)"
    using nonempty_blocks_kept [OF fill2] by simp
  finally show "nonempty_blocks bs \<subseteq># nonempty_blocks (kept (sc_source m bs))"
    by (simp add: eq sc_orphans_def nonempty_blocks_def)
  show "map_of (kept (sc_source m bs)) n = Some v" if "map_of bs n = Some v" "v \<noteq> []" for n v
    using found_fill [OF fill1 that(1)] found_fill [OF fill2, of n v] found_filter [OF _ that(2), of rest]
    by (auto simp: eq sc_orphans_def map_add_Some_iff)
qed

section \<open>Files\<close>

text \<open>C31. For a module whose names have no slash, both SystemC files can be generated again from what was
  generated: unless the old file has a marker of the old form, the new one has none, reading it
  gives all blocks of the old file that are not empty, each under its name, and generating it once
  more gives the same text.\<close>

theorem sc_files_regenerate:
  assumes "sc_names_ok m" and "template \<in> {sc_header m, sc_source m}"
    and "generate_template_output (\<lambda>bs. Some (template bs)) old = Inr new"
    and "\<And>s. old = Some s \<Longrightarrow> \<not> sublist old_marker s"
  shows "\<not> sublist old_marker new \<and> generate_template_output (\<lambda>bs. Some (template bs)) (Some new) = Inr new \<and>
    (\<exists>bs bs'. (case old of None \<Rightarrow> bs = [] | Some s \<Rightarrow> parse_keep_blocks s c_comment = Inr bs) \<and>
      parse_keep_blocks new c_comment = Inr bs' \<and> nonempty_blocks bs \<subseteq># nonempty_blocks bs' \<and>
      (\<forall>n v. map_of bs n = Some v \<and> v \<noteq> [] \<longrightarrow> map_of bs' n = Some v))"
proof -
  from assms(2) consider "template = sc_header m" | "template = sc_source m" by blast
  then show ?thesis
  proof cases
    case 1
    from sc_h.regenerate [OF assms(1) assms(3) [unfolded 1] assms(4)] show ?thesis unfolding 1 by blast
  next
    case 2
    from sc_cpp.regenerate [OF assms(1) assms(3) [unfolded 2] assms(4)] show ?thesis unfolding 2 by blast
  qed
qed

text \<open>A header whose user has filled a block and kept one that has no place.\<close>

definition sc_example :: sc_mod where
  "sc_example = \<lparr>sm_name = ''cpu'', sm_ports = [\<lparr>sp_name = ''clk_i'', sp_size = 1, sp_direction = ''input''\<rparr>,
     \<lparr>sp_name = ''data_o'', sp_size = 8, sp_direction = ''output''\<rparr>]\<rparr>"

definition sc_example_file :: string where
  "sc_example_file = ''/* icglue keep begin header-decl */int x;/* icglue keep end */
    /* icglue keep begin gone */int y;/* icglue keep end */''"

lemma sc_example_blocks:
  "parse_keep_blocks sc_example_file c_comment = Inr [(''header-decl'', ''int x;''), (''gone'', ''int y;'')]"
  by code_simp

lemma sc_example_marker: "\<not> sublist old_marker sc_example_file"
  by code_simp

text \<open>The old marker in the text of a block hides the markers of the new form: the block is not read.\<close>

lemma old_marker_hides:
  "parse_keep_blocks ''/* icglue keep begin a *//* pragma icglue keep begin b */x/* pragma icglue keep end *//* icglue keep end */'' c_comment
    = Inr [(''b'', ''x'')]"
  by code_simp

theorem sc_files_regenerate_witness:
  "\<exists>new. generate_template_output (\<lambda>bs. Some (sc_header sc_example bs)) (Some sc_example_file) = Inr new \<and>
    generate_template_output (\<lambda>bs. Some (sc_header sc_example bs)) (Some new) = Inr new \<and>
    (\<exists>bs'. parse_keep_blocks new c_comment = Inr bs' \<and>
      map_of bs' ''header-decl'' = Some ''int x;'' \<and> map_of bs' ''gone'' = Some ''int y;'')"
proof -
  define new where "new = render c_comment (sc_header sc_example [(''header-decl'', ''int x;''), (''gone'', ''int y;'')])"
  have gen: "generate_template_output (\<lambda>bs. Some (sc_header sc_example bs)) (Some sc_example_file) = Inr new"
    by (simp add: generate_template_output_def sc_example_blocks new_def)
  have names: "sc_names_ok sc_example" by (simp add: sc_names_ok_def sc_example_def)
  from sc_files_regenerate [OF names _ gen] sc_example_marker sc_example_blocks gen show ?thesis by auto
qed

end
