(* ===== verification/Spec2Isabelle.thy ===== *)
theory Spec2Isabelle
  imports Logger Ig_Attr Ig_Wire Ig_Print Rf_Fields Apb_Stim Tb_Check Ig_Tcl_Reset Rf_Gen_Text Rf_Gen_Tcl Sc_Gen
begin

text \<open>
  Verification library of ICGlue (\<open>src/\<close>): the C core library in \<open>src/lib\<close>, which keeps a database of
  hardware modules and instances and derives ports, pins, declarations, parameters and adjustments
  from signals that connect endpoints anywhere in the module hierarchy, the Tcl commands that are
  the only way for a user to reach it, the C++ classes by which generated host programs access the
  register files of a design, and the code that the templates generate for a register file.

  How the program is put together. \<open>ig_data.c\<close> has the objects: a common header with id, name,
  reference count and attributes, thirteen derived structs, and the functions that create and
  release them. \<open>ig_lib.c\<close> has the database, eleven hash tables over these objects, and the
  operations that fill it; its longest path is \<open>ig_lib_connection\<close>, which walks from every endpoint
  up to the root of its hierarchy, merges these lists into a tree, cuts the tree off above the first
  endpoint or branching, and creates one object for each remaining node. \<open>ig_tcl.c\<close> has the commands:
  each one checks its arguments, looks objects up by their ids, calls one or two operations of
  \<open>ig_lib.c\<close> and returns ids to the script. \<open>logger.c\<close> and \<open>color.c\<close> print messages. The classes in
  \<open>src/templates/default/rf/static/host-cpp\<close> are independent of all this: devices that read and write
  masked words, two caches that are devices in front of a device, and bit fields on top. The
  templates in \<open>src/templates/default/rf\<close> turn the description of a register file into classes that
  inherit from these, into C functions, a Tcl command, and a struct that is laid over the registers.

  The model, in the order of the imports:
  \<^item> \<open>Prelude\<close>: pointers, the faults of C (\<open>fault\<close>), the result type \<open>res\<close> with its sequencing, and
    \<open>holds\<close>, which says that a call returns and what it establishes.
  \<^item> \<open>C_Strings\<close>, \<open>Logger\<close>: string functions, \<open>string_replace\<close> with its reference definition, and
    the logger as a state that is passed on.
  \<^item> \<open>Ig_Data\<close>, \<open>Ig_New\<close>, \<open>Ig_Free\<close>: \<open>ig_data.c\<close> over a heap, a map from addresses to structs.
    A pointer is an optional address; an access through \<open>NULL\<close>, to a freed struct or to a struct
    of another type is a fault. Every C struct is a record, every function a definition of the
    same name; the release functions of the structs without children are all \<open>ig_leaf_free\<close>.
  \<^item> \<open>Ig_Names\<close>, \<open>Ig_Db\<close>, \<open>Ig_Hierarchy\<close>, \<open>Ig_Htree\<close>, \<open>Ig_Print\<close>, \<open>Ig_Connect\<close>: \<open>ig_lib.c\<close>. The
    database record extends the heap by the tables, indexed by \<open>ig_table\<close>. \<open>ig_lib_htree_*\<close> work
    on rose trees; the debug print of a tree has its own theory, with the outline it prints.
  \<^item> \<open>Ig_Inv\<close>, \<open>Ig_Forest\<close>, \<open>Ig_Skel\<close>, \<open>Ig_Ops\<close>: the invariant \<open>db_inv\<close> of the database. It consists
    of the typing of all pointers with exact reference counts (\<open>base_inv\<close>), the shape of the module
    hierarchy (\<open>hier_inv\<close>, with the locale \<open>parent_forest\<close> for what only depends on parents being
    unique and well-founded), what the tables hold (\<open>anch_inv\<close>, \<open>mods_inv\<close>) and the names of default
    instances.
  \<^item> \<open>Ig_Leaf\<close>, \<open>Ig_Register\<close>, \<open>Ig_Modules\<close>, \<open>Ig_Sections\<close>, \<open>Ig_Instances\<close>, \<open>Ig_Members\<close>,
    \<open>Ig_Visit\<close>, \<open>Ig_Signals\<close>: every operation keeps the invariant and leaves no object behind that
    nothing leads to (\<open>grows\<close>), with its result on every branch. The locale \<open>member_group\<close> is shared by
    nets and generics, the locale \<open>tree_visitor\<close> by the walks of signals and parameters: the objects
    a walk creates are a copy of the tree (\<open>wired\<close>), and it fails exactly on an id that is not free.
  \<^item> \<open>Ig_Api\<close>, \<open>Ig_Example\<close>: the calls of \<open>ig_lib.h\<close> as a step relation, the reachable databases, and
    the ones the witnesses use.
  \<^item> \<open>Ig_Attr\<close>, \<open>Ig_Merge\<close>, \<open>Ig_Wire\<close>: properties of single objects and of the trees, and what a
    successful connection means: every endpoint is reached along the module hierarchy.
  \<^item> \<open>Ig_Tcl\<close>, \<open>Ig_Tcl_Query\<close>, \<open>Ig_Tcl_Log\<close>: \<open>ig_tcl.c\<close> and \<open>icglue.c\<close>, every command from the point
    where the option parser has filled the option variables. A command returns a result or an error
    for the script, the messages it logs, and the new database; it may also end in a fault. What the
    interpreter answers (\<open>tcl_interp\<close>, \<open>tcl_frame\<close>) and the order in which GLib lists a table
    (\<open>glib_orders\<close>) are arguments.
  \<^item> \<open>Ig_Tcl_Safe\<close>, \<open>Ig_Tcl_Run\<close>, \<open>Ig_Tcl_Wire\<close>: the commands as one datatype \<open>tcl_command\<close>, the
    outcome of each on a database that satisfies the invariant, and the sessions (\<open>tcl_step\<close>,
    \<open>tcl_reachable\<close>). \<open>tcl_fault\<close> names the faults a script can cause; \<open>dangling\<close> describes what a
    \<open>connect\<close> or \<open>parameter\<close> that fails may leave behind. Such a state and \<open>reset\<close> end a session of the
    model.
  \<^item> \<open>Ig_Release\<close>, \<open>Ig_Reset\<close>, \<open>Ig_Tcl_Reset\<close>: what \<open>reset\<close> does at the end of a session. \<open>rel\<close> is the
    invariant of a database that is being released, with the references still to be dropped as
    ghost counts; it shows that the release functions return and what is left on the heap.
  \<^item> \<open>Ig_Tcl_Spec\<close>, \<open>Ig_Tcl_Fail\<close>: what a script sees: sessions stay consistent, lookups and lists
    find exactly what is there, endpoints survive printing and parsing, and the exact result of
    connecting one top module, with the failure that leaves a freed net in the table of names.
  \<^item> \<open>Rf_Bits\<close>, \<open>Rf_Dev\<close>: masked words, and \<open>regfile_contrib.cpp\<close> with its header. A device is a record
    of its three methods over a state; a class that wraps a device is a function from devices to
    devices, its data members a record around the state of the inner one.
  \<^item> \<open>Rf_Refine\<close>, \<open>Rf_Caches\<close>: the contract \<open>rf_device\<close> of a device, as a locale: reads and writes behave
    like those of a memory up to the bits no register uses. \<open>word_store\<close> and \<open>part_store\<close> are what the
    subclasses implement, \<open>apb_bus\<close> is the bus of the test bench; the classes turn one contract into
    another, and each contract is interpreted on the classes over a memory.
  \<^item> \<open>Tb_Check\<close>: the verdict of self-checking test benches, \<open>tb_selfcheck.c\<close>.
  \<^item> \<open>Rf_Fields\<close>: sequences of accesses, bit fields and memories, and the properties of these classes.
  \<^item> \<open>Apb_Stim\<close>: the bus master of the test bench (\<open>src/test/resources/apb_stim\<close>), which drives the signals
    edge by edge and waits for the slave; the contract of a slave is the locale \<open>apb_slave\<close>, the bus
    that results keeps the contract \<open>apb_bus\<close>. Its waiting loop is a partial function that returns
    for every slave of the contract.
  \<^item> \<open>Rf_Desc\<close>, \<open>Rf_Gen_C\<close>, \<open>Rf_Gen_Host\<close>, \<open>Rf_Gen_Soc\<close>, \<open>Rf_Gen_Tcl\<close>: descriptions of register files, and
    what the code made by the templates \<open>template.icgt.{c,h}\<close>, \<open>template.icgt.host.{h,cpp}\<close>,
    \<open>template.wtf.soc.h\<close> and \<open>template.wtf.tcl.{h,cpp}\<close> does, as functions of the description. Entries
    are well-formed (\<open>desc_ok\<close>) when their registers fill the word one after the other, which is what
    \<open>regfile_to_arraylist\<close> makes of registers that do not overlap. The generated
    classes rest on the contract \<open>rf_device\<close>, the Tcl command on the generated classes.
  \<^item> \<open>Keep_Blocks\<close>, \<open>Keep_Files\<close>: the blocks of a generated file that belong to the user, from
    \<open>icglue_templates.tcl\<close>: how they are read from the old file and take the places of the defaults in
    the new one. A template is a function from blocks to pieces of text; the locale \<open>keep_template\<close> is
    what it has to keep so that no block is lost and generating a file again changes nothing.
  \<^item> \<open>Sc_Gen\<close>, \<open>Rf_Gen_Text\<close>: the whole text of the SystemC files and of three files of a register file,
    and that their templates keep this contract.

  Bounds and loops. \<open>ig_obj_unref\<close> and the release functions call each other; the model bounds the
  nesting by 4, since ownership nests at most as module, regfile, entry and register, and running
  out is a fault of its own. The endless loop of \<open>ig_lib_gen_hierarchy\<close> and the loop of
  \<open>string_replace\<close> are partial functions whose termination is proved, or refuted, as a property; the
  loop of \<open>ig_lib_htree_print\<close> ends since every round prints another node of the tree.
  Log counters, register addresses and data are 32 bit words, addresses of memory elements 64 bit
  words; reference counts and queue lengths are unbounded integers.

  Not modelled: the storage of strings (\<open>GStringChunk\<close>) and the release of connection infos and
  trees, except that a freed tree that is used is a fault; the messages the database functions log
  for debugging; the memory debugging counters; the Tcl interpreter with its option parser and the
  help texts it prints; the code generators and scripts, which are written in Tcl, with the parser of
  the two template languages (the model has the text a template makes, not the template), and the
  layout of the text of the templates for C functions, the Tcl command and the tables of register
  files; the simulator library that comes with the tests (\<open>src/test\<close>), except the bus
  master.
\<close>

section \<open>Properties of every reachable database\<close>



text \<open>C5. No dangling pointers: every pointer of a live object, every queue element and every table
  entry of a reachable database leads to a live object of the declared type, table entries are
  filed under their own name or id, and the id, name and type attributes agree with the struct.\<close>

theorem no_dangling:
  assumes "reachable db"
  shows "(\<forall>a s. heap db a = Some s \<longrightarrow> header_ok s \<and> body_ok (type_at db) (obj_body s)) \<and>
     (\<forall>t k a. tables db t k = Some a \<longrightarrow> (\<exists>s. heap db a = Some s \<and> entry_ok t k s))"
  using db_invD(4,5) [OF reachable_inv [OF assms]] heap_okD tables_okD by blast

theorem no_dangling_witness:
  "\<exists>s. heap example_db 0 = Some s \<and> entry_ok Modules_by_name ''top'' s"
  using no_dangling [OF reachable_example] example_exec by blast

text \<open>C6. Every library call on a reachable database returns, and then no object has vanished or
  changed its id, name or type. The exceptions are named by \<open>expected_fault\<close>: adding a regfile
  whose id is taken although its name is free aborts, and connecting or parameterising may use the
  freed tree of \<open>ig_lib_htree_reduce\<close>.\<close>

theorem calls_return:
  assumes "reachable db" and "call_ok db c"
  shows "case lib_exec c db of
           Inl e \<Rightarrow> expected_fault c db e
         | Inr (_, db') \<Rightarrow> reachable db' \<and> keeps db db'"
proof (cases "lib_exec c db")
  case (Inl e)
  then show ?thesis using exec_outcome [OF reachable_inv [OF assms(1)] assms(2)] by (simp add: outcome_def)
next
  case (Inr r)
  obtain p db' where r: "r = (p, db')" by (cases r)
  have "reachable db'" using assms Inr r by (auto intro: reachable.step lib_step.call)
  moreover have "keeps db db'"
    using exec_outcome [OF reachable_inv [OF assms(1)] assms(2)] Inr r by (simp add: outcome_def grows_def)
  ultimately show ?thesis by (simp add: Inr r)
qed

theorem calls_return_witness:
  "\<exists>p db'. lib_exec (Add_port 0 IG_PD_IN ''clk_i'') example_db = Inr (p, db') \<and> reachable db'"
proof -
  have "call_ok example_db (Add_port 0 IG_PD_IN ''clk_i'')" using example_exec by simp
  from calls_return [OF reachable_example this] show ?thesis
    by (cases "lib_exec (Add_port 0 IG_PD_IN ''clk_i'') example_db") (auto simp: expected_fault_def)
qed

text \<open>C19. Modules never contain themselves: in a reachable database the relation from a module to the
  module its instance lies in has no cycle, so that every hierarchy has a root.\<close>

theorem hierarchy_acyclic:
  assumes "reachable db"
  shows "acyclic {(p, m). module_up db m = Some p} \<and> (\<forall>m. \<exists>ps. up_path (module_up db) m ps \<and> distinct ps)"
proof -
  have h: "hier_inv db" using reachable_inv [OF assms] by (rule db_invD)
  then have "acyclic {(p, m). module_up db m = Some p}" by (simp add: hier_inv_def wf_acyclic)
  then show ?thesis using hierarchy.path_exists [OF h] hierarchy.path_distinct [OF h] by blast
qed

theorem hierarchy_acyclic_witness: "\<exists>ps. up_path (module_up example_db) 0 ps \<and> distinct ps"
  using hierarchy_acyclic [OF reachable_example] by blast


lemma example_nonres: "nonres example_db 0"
  using example_exec by (auto simp: nonres_def)


text \<open>C20. The cycle check is exact: for the default instance of a module that is not instantiated yet it
  answers whether the module is the parent or contains it.\<close>

theorem cycle_check_exact:
  assumes "reachable db" and "nonres db p" and "mod_skel db t = Some (False, Some d, [])"
  shows "ig_lib_check_cycle db (Some d) (Some p) = Inr (ancestor db t p)"
  using check_cycle_exact [OF reachable_inv [OF assms(1)] _ assms(3)] assms(2) by (auto simp: nonres_def)

theorem cycle_check_exact_witness: "ig_lib_check_cycle example_db (Some 1) (Some 0) = Inr True"
proof -
  have "mod_skel example_db 0 = Some (False, Some 1, [])" using example_exec by blast
  then have "ig_lib_check_cycle example_db (Some 1) (Some 0) = Inr (ancestor example_db 0 0)"
    by (rule cycle_check_exact [OF reachable_example example_nonres])
  then show ?thesis by (simp add: ancestor_def)
qed

section \<open>Properties of the operations\<close>

text \<open>\<open>ig_lib_add_module\<close> refuses exactly a taken name, and never aborts: the id of a new module is
  free whenever its name is. The new module is filed under its name and its ids and starts without
  parent; unless it is a resource it owns a default instance.\<close>

theorem add_module_spec:
  assumes "reachable db"
  shows "holds (ig_lib_add_module (Some nm) ilm resource db) (\<lambda>(p, db').
     if tables db Modules_by_name nm \<noteq> None then p = None \<and> db' = db
     else p = Some (next_addr db) \<and> keeps db db' \<and>
       tables db' = registered Modules_by_name Modules_by_id (next_addr db) nm (''module##'' @ nm) db \<and>
       mod_skel db' = (mod_skel db)(next_addr db \<mapsto>
         (resource, if resource then None else Some (Suc (next_addr db)), [])))"
  by (rule holds_mono [OF add_module_result [OF reachable_inv [OF assms], of nm ilm resource]])
     (auto simp: grows_def module_id_def split: if_splits)

theorem add_module_spec_witness:
  "holds (ig_lib_add_module (Some ''top'') True True example_db) (\<lambda>(p, db'). p = None \<and> db' = example_db)"
  using add_module_spec [OF reachable_example, of "''top''" True True] example_exec by (auto simp: holds_iff)

text \<open>\<open>ig_lib_add_port\<close>: the port gets the id made of its type, the module and its own name, is
  appended to the ports of the module and points back to it; a taken id is refused without a trace.\<close>

theorem add_port_spec:
  assumes "reachable db" and "heap db m = Some sp" and "obj_body sp = Module mb"
  shows "holds (ig_lib_add_port (Some m) dir (Some nm) db)
     (adds_child m (Module (mb\<lparr>mod_ports := mod_ports mb @ [next_addr db]\<rparr>))
        (''port##'' @ obj_name sp @ ''#'' @ nm) nm
        (Port \<lparr>port_dir = dir, port_parent = Some m, port_net = None\<rparr>) db)"
proof -
  note inv = reachable_inv [OF assms(1)]
  note h = db_invD(4) [OF inv]
  show ?thesis
    unfolding add_port_eq [OF inv assms(2,3)] holds_Inr with_port_def
    by (rule attach_adds_child [OF h assms(2)])
       (simp_all add: port_struct_def id_of_child [OF h assms(2)])
qed

theorem add_port_spec_witness:
  "\<exists>p db'. ig_lib_add_port (Some 0) IG_PD_OUT (Some ''q_o'') example_db = Inr (p, db')"
proof -
  obtain s mb where "heap example_db 0 = Some s" "obj_body s = Module mb" using example_module by blast
  from add_port_spec [OF reachable_example this] show ?thesis by (rule holds_returns)
qed

text \<open>\<open>ig_lib_add_pin\<close> does the same below an instance, and keeps the connection.\<close>

theorem add_pin_spec:
  assumes "reachable db" and "heap db i = Some sp" and "obj_body sp = Instance ib"
  shows "holds (ig_lib_add_pin (Some i) (Some nm) (Some conn) invert db)
     (adds_child i (Instance (ib\<lparr>inst_pins := inst_pins ib @ [next_addr db]\<rparr>))
        (''pin##'' @ obj_name sp @ ''#'' @ nm) nm
        (Pin \<lparr>pin_connection = conn, pin_parent = Some i, pin_net = None\<rparr>) db)"
proof -
  note inv = reachable_inv [OF assms(1)]
  note h = db_invD(4) [OF inv]
  show ?thesis
    unfolding add_pin_eq [OF inv assms(2,3)] holds_Inr with_pin_def
    by (rule attach_adds_child [OF h assms(2)]) (simp_all add: id_of_child [OF h assms(2)])
qed

lemma example_instance: "\<exists>s ib. heap example_db 1 = Some s \<and> obj_body s = Instance ib \<and> inst_parent ib = None"
proof -
  have "hier_inv example_db" using reachable_inv [OF reachable_example] by (rule db_invD)
  then have "\<exists>i p. Some 1 = Some i \<and> inst_skel example_db i = Some (Some 0, p) \<and> [] = (if p = None then [] else [i])
      \<and> up_of (mod_skel example_db) (inst_skel example_db) 0 = p"
    using skel_default [of "mod_skel example_db" "inst_skel example_db" 0 "Some 1" "[]"] example_exec
    by (simp add: hier_inv_def)
  then show ?thesis by (auto simp: inst_skel_Some split: if_splits)
qed

theorem add_pin_spec_witness:
  "\<exists>p db'. ig_lib_add_pin (Some 1) (Some ''q_o'') (Some ''n'') None example_db = Inr (p, db')"
proof -
  obtain s ib where "heap example_db 1 = Some s" "obj_body s = Instance ib" using example_instance by blast
  from add_pin_spec [OF reachable_example this] show ?thesis by (rule holds_returns)
qed

text \<open>\<open>ig_lib_add_codesection\<close> refuses resources only. A codesection without a name is numbered by
  the sections the module has; it is appended to the module, and takes over its id even from an
  older section, which stays in its module.\<close>

theorem add_codesection_spec:
  assumes "reachable db" and "heap db m = Some sp" and "obj_body sp = Module mb"
  shows "holds (ig_lib_add_codesection name (Some code) (Some m) db) (\<lambda>(p, db').
     if mod_resource mb then p = None \<and> db' = db
     else p = Some (next_addr db) \<and> keeps db db' \<and>
       tables db' Objects_by_id =
         (tables db Objects_by_id)(''codesection##'' @ obj_name sp @ ''#'' @ code_name name mb \<mapsto> next_addr db) \<and>
       map_option obj_body (heap db' m) =
         Some (Module (mb\<lparr>mod_code := map_option (\<lambda>q. q @ [next_addr db]) (mod_code mb)\<rparr>)))"
proof -
  note inv = reachable_inv [OF assms(1)]
  have id: "''codesection##'' @ obj_name sp @ ''#'' @ code_name name mb =
      make_id IG_OBJ_CODESECTION [sp] (code_name name mb)"
    using id_of_child [OF db_invD(4) [OF inv] assms(2)] by simp
  have up: "map_option obj_body (heap db' m) = Some bd"
    if "\<exists>sp'. heap db' m = Some sp' \<and> obj_body sp' = bd" for db' bd
    using that by auto
  show ?thesis
    unfolding id
  proof (rule holds_mono [OF add_codesection_result [OF inv assms(2,3), of name code]], clarify)
    fix p db'
    assume r: "if mod_resource mb then p = None \<and> db' = db
      else p = Some (next_addr db) \<and> grows db db' \<and>
        tables db' = (tables db)(Objects_by_id :=
          (tables db Objects_by_id)(make_id IG_OBJ_CODESECTION [sp] (code_name name mb) \<mapsto> next_addr db)) \<and>
        (\<exists>sp'. heap db' m = Some sp' \<and> obj_body sp' = with_code (next_addr db) mb)"
    show "if mod_resource mb then p = None \<and> db' = db
      else p = Some (next_addr db) \<and> keeps db db' \<and>
        tables db' Objects_by_id =
          (tables db Objects_by_id)(make_id IG_OBJ_CODESECTION [sp] (code_name name mb) \<mapsto> next_addr db) \<and>
        map_option obj_body (heap db' m) =
          Some (Module (mb\<lparr>mod_code := map_option (\<lambda>q. q @ [next_addr db]) (mod_code mb)\<rparr>))"
    proof (cases "mod_resource mb")
      case True
      then show ?thesis using r by simp
    next
      case False
      with r have f: "p = Some (next_addr db)" "grows db db'"
          "tables db' = (tables db)(Objects_by_id :=
            (tables db Objects_by_id)(make_id IG_OBJ_CODESECTION [sp] (code_name name mb) \<mapsto> next_addr db))"
          "\<exists>sp'. heap db' m = Some sp' \<and> obj_body sp' = with_code (next_addr db) mb"
        by (simp_all only: if_False)
      show ?thesis
        using False f(1,2) up [OF f(4)] by (simp add: f(3) grows_def with_code_def)
    qed
  qed
qed

theorem add_codesection_spec_witness:
  "\<exists>p db'. ig_lib_add_codesection None (Some ''assign a = b;'') (Some 0) example_db = Inr (p, db')"
proof -
  obtain s mb where "heap example_db 0 = Some s" "obj_body s = Module mb" using example_module by blast
  from add_codesection_spec [OF reachable_example this] show ?thesis by (rule holds_returns)
qed

text \<open>C37. \<open>ig_lib_add_regfile\<close> refuses a taken name and a resource; a taken id aborts; otherwise the
  regfile is filed under its name and ids.\<close>

theorem add_regfile_spec:
  assumes "reachable db" and "heap db m = Some sp" and "obj_body sp = Module mb"
  shows "if tables db Regfiles_by_name nm \<noteq> None \<or> mod_resource mb
     then ig_lib_add_regfile (Some nm) (Some m) db = Inr (None, db)
     else if tables db Objects_by_id (''regfile##'' @ obj_name sp @ ''#'' @ nm) \<noteq> None
     then ig_lib_add_regfile (Some nm) (Some m) db = Inl InternalError
     else holds (ig_lib_add_regfile (Some nm) (Some m) db) (\<lambda>(p, db').
        p = Some (next_addr db) \<and> keeps db db' \<and> type_at db' (next_addr db) = Some IG_OBJ_REGFILE \<and>
        tables db' = registered Regfiles_by_name Regfiles_by_id (next_addr db) nm
                       (''regfile##'' @ obj_name sp @ ''#'' @ nm) db)"
proof -
  note inv = reachable_inv [OF assms(1)]
  have id: "''regfile##'' @ obj_name sp @ ''#'' @ nm = make_id IG_OBJ_REGFILE [sp] nm"
    using id_of_child [OF db_invD(4) [OF inv] assms(2)] by simp
  show ?thesis
    unfolding id using add_regfile_result [OF inv assms(2,3), of nm] by (auto simp: grows_def holds_iff)
qed

theorem add_regfile_spec_witness:
  "ig_lib_add_regfile (Some ''rf'') (Some 0) example_db \<noteq> Inl UseAfterFree"
proof -
  obtain s mb where "heap example_db 0 = Some s" "obj_body s = Module mb" using example_module by blast
  from add_regfile_spec [OF reachable_example this, of "''rf''"] show ?thesis by (auto simp: holds_iff split: if_splits)
qed

text \<open>\<open>ig_lib_add_regfile_entry\<close> and \<open>ig_lib_add_regfile_reg\<close> add a child below a regfile and below
  an entry; the id lists the names of all ancestors.\<close>

theorem add_regfile_children_spec:
  assumes "reachable db" and "heap db r = Some sr" "obj_body sr = Regfile rb"
    and "heap db e = Some se" "obj_body se = RfEntry eb" "entry_parent eb = Some r"
  shows "\<exists>sm. heap db (the (regfile_parent rb)) = Some sm \<and>
     holds (ig_lib_add_regfile_entry (Some nm) (Some r) db)
       (adds_child r (Regfile (rb\<lparr>regfile_entries := regfile_entries rb @ [next_addr db]\<rparr>))
          (''regfile-entry##'' @ obj_name sm @ ''#'' @ obj_name sr @ ''#'' @ nm) nm
          (RfEntry \<lparr>entry_regs = [], entry_parent = Some r\<rparr>) db) \<and>
     holds (ig_lib_add_regfile_reg (Some nm) (Some e) db)
       (adds_child e (RfEntry (eb\<lparr>entry_regs := entry_regs eb @ [next_addr db]\<rparr>))
          (''register##'' @ obj_name sm @ ''#'' @ obj_name sr @ ''#'' @ obj_name se @ ''#'' @ nm) nm
          (RfReg \<lparr>reg_parent = Some e\<rparr>) db)"
proof -
  note inv = reachable_inv [OF assms(1)]
  note h = db_invD(4) [OF inv]
  obtain m sm where m: "regfile_parent rb = Some m" "heap db m = Some sm"
    using regfile_parent_live [OF h assms(2,3)] by blast
  have ids: "make_id IG_OBJ_REGFILE_ENTRY [sm, sr] nm = ''regfile-entry##'' @ obj_name sm @ ''#'' @ obj_name sr @ ''#'' @ nm"
    "make_id IG_OBJ_REGFILE_REG [sm, sr, se] nm =
       ''register##'' @ obj_name sm @ ''#'' @ obj_name sr @ ''#'' @ obj_name se @ ''#'' @ nm"
    using id_of_plist [OF h, of "[sm, sr]" IG_OBJ_REGFILE_ENTRY nm]
      id_of_plist [OF h, of "[sm, sr, se]" IG_OBJ_REGFILE_REG nm] assms(2,4) m(2) by auto
  have "holds (ig_lib_add_regfile_entry (Some nm) (Some r) db)
       (adds_child r (Regfile (rb\<lparr>regfile_entries := regfile_entries rb @ [next_addr db]\<rparr>))
          (''regfile-entry##'' @ obj_name sm @ ''#'' @ obj_name sr @ ''#'' @ nm) nm
          (RfEntry \<lparr>entry_regs = [], entry_parent = Some r\<rparr>) db)"
    unfolding add_entry_eq [OF inv assms(2,3) m] holds_Inr with_entry_def
    by (rule attach_adds_child [OF h assms(2)]) (simp_all add: entry_struct_def ids)
  moreover have "holds (ig_lib_add_regfile_reg (Some nm) (Some e) db)
       (adds_child e (RfEntry (eb\<lparr>entry_regs := entry_regs eb @ [next_addr db]\<rparr>))
          (''register##'' @ obj_name sm @ ''#'' @ obj_name sr @ ''#'' @ obj_name se @ ''#'' @ nm) nm
          (RfReg \<lparr>reg_parent = Some e\<rparr>) db)"
    unfolding add_reg_eq [OF inv assms(4,5,6) assms(2,3) m] holds_Inr with_reg_def
    by (rule attach_adds_child [OF h assms(4)]) (simp_all add: reg_struct_def ids)
  ultimately show ?thesis using m by auto
qed

theorem add_regfile_children_spec_witness:
  "\<exists>db r e p q db1 db2. ig_lib_add_regfile_entry (Some ''stat'') (Some r) db = Inr (p, db1) \<and>
     ig_lib_add_regfile_reg (Some ''en'') (Some e) db = Inr (q, db2)"
proof -
  obtain db r sr rb e se eb where x: "reachable db" "heap db r = Some sr" "obj_body sr = Regfile rb"
      "heap db e = Some se" "obj_body se = RfEntry eb" "entry_parent eb = Some r"
    using example_regfile by blast
  show ?thesis
    using add_regfile_children_spec [OF x, of "''stat''"] add_regfile_children_spec [OF x, of "''en''"]
    by (blast dest: holds_returns)
qed

text \<open>C21. \<open>ig_lib_add_instance\<close> of a module: refused exactly when the instance name is taken, the parent
  is a resource, the name is not that of the default instance, the module is instantiated already,
  or the parent is the module or lies below it. Otherwise the default instance becomes a child of
  the parent, which is the only change of the hierarchy.\<close>

theorem add_instance_spec:
  assumes "reachable db"
    and "heap db t = Some st" "obj_body st = Module tb" "\<not> mod_resource tb" "mod_default_instance tb = Some d"
    and "heap db d = Some sd" "obj_body sd = Instance ib"
    and "heap db p = Some sp" "obj_body sp = Module pb"
  shows "holds (ig_lib_add_instance (Some nm) (Some t) (Some p) db) (\<lambda>(r, db').
     if tables db Instances_by_name nm \<noteq> None \<or> mod_resource pb \<or> nm \<noteq> obj_name sd \<or>
        inst_parent ib \<noteq> None \<or> ancestor db t p
     then r = None \<and> db' = db
     else r = Some d \<and> keeps db db' \<and> module_up db' = (module_up db)(t \<mapsto> p) \<and>
          tables db' = registered Instances_by_name Instances_by_id d nm (obj_id sd) db)"
  by (rule holds_mono [OF add_instance_module_result [OF reachable_inv [OF assms(1)] assms(2-9), of nm]])
     (auto simp: grows_def split: if_splits)

theorem add_instance_spec_witness:
  "\<exists>nm. holds (ig_lib_add_instance (Some nm) (Some 0) (Some 0) example_db) (\<lambda>(r, db'). r = None \<and> db' = example_db)"
proof -
  obtain s mb where m: "heap example_db 0 = Some s" "obj_body s = Module mb" using example_module by blast
  obtain sd ib where d: "heap example_db 1 = Some sd" "obj_body sd = Instance ib" using example_instance by blast
  have mb: "\<not> mod_resource mb" "mod_default_instance mb = Some 1"
    using m example_exec by (auto simp: mod_skel_Some)
  have "ancestor example_db 0 0" by (simp add: ancestor_def)
  then show ?thesis
    using add_instance_spec [OF reachable_example m mb d m, of "obj_name sd"] by (auto simp: holds_iff)
qed

text \<open>\<open>ig_lib_add_instance\<close> of a resource creates a new instance, any number of times under
  different names, and leaves the hierarchy of modules as it is.\<close>

theorem add_resource_instance_spec:
  assumes "reachable db" and "heap db t = Some st" "obj_body st = Module tb" "mod_resource tb"
    and "heap db p = Some sp" "obj_body sp = Module pb"
  shows "holds (ig_lib_add_instance (Some nm) (Some t) (Some p) db) (\<lambda>(r, db').
     if tables db Instances_by_name nm \<noteq> None \<or> mod_resource pb
     then r = None \<and> db' = db
     else r = Some (next_addr db) \<and> keeps db db' \<and> module_up db' = module_up db \<and>
          tables db' = registered Instances_by_name Instances_by_id (next_addr db) nm
                         (''instance##'' @ obj_name sp @ ''#'' @ nm) db)"
proof -
  note inv = reachable_inv [OF assms(1)]
  have id: "''instance##'' @ obj_name sp @ ''#'' @ nm = make_id IG_OBJ_INSTANCE [sp] nm"
    using id_of_child [OF db_invD(4) [OF inv] assms(5)] by simp
  show ?thesis
    unfolding id
    by (rule holds_mono [OF add_instance_resource_result [OF inv assms(2-6), of nm]])
       (auto simp: grows_def split: if_splits)
qed

theorem add_resource_instance_spec_witness:
  "\<exists>db t p r db'. ig_lib_add_instance (Some ''u_pll'') (Some t) (Some p) db = Inr (r, db')"
proof -
  obtain db t st tb sp pb where "reachable db" "heap db t = Some st" "obj_body st = Module tb" "mod_resource tb"
      "heap db 0 = Some sp" "obj_body sp = Module pb"
    using example_resource by blast
  from add_resource_instance_spec [OF this, of "''u_pll''"] show ?thesis by (blast dest: holds_returns)
qed

text \<open>C9. \<open>ig_lib_connection\<close> in full: a taken net name and endpoints without a common root are refused
  and change nothing; a tree that branches at its root makes \<open>ig_lib_htree_reduce\<close> return freed
  memory; otherwise a net is filed under the name, it holds exactly the created objects and each of
  them points back to it. The call then succeeds exactly when the ids of all objects the tree needs
  are free and different, and the objects are a copy of the tree.\<close>

theorem connection_spec:
  assumes "reachable db" and "call_ok db (Connection nm source targets)"
  shows "\<exists>hs0 hs. gen_hierarchies db (source_infos source) [] False = Inr (hs0, False) \<and>
     gen_hierarchies db targets hs0 False = Inr (hs, False) \<and>
     (if tables db Nets_by_name nm \<noteq> None
      then ig_lib_connection nm source targets db = Inr (False, None, db)
      else case map_option ig_lib_htree_reduce (ig_lib_merge_hierarchy_list hs nm) of
             None \<Rightarrow> ig_lib_connection nm source targets db = Inr (False, None, db)
           | Some Reduced_null \<Rightarrow> ig_lib_connection nm source targets db = Inr (False, None, db)
           | Some Reduced_freed \<Rightarrow> ig_lib_connection nm source targets db = Inl UseAfterFree
           | Some (Reduced tr) \<Rightarrow>
               holds (ig_lib_connection nm source targets db) (\<lambda>(ok, net, db').
                 grows db db' \<and> module_up db' = module_up db \<and>
                 (\<exists>objs n. net = Some n \<and> body_at db' n = Some (Net \<lparr>net_objects = objs\<rparr>) \<and>
                    (ok \<longleftrightarrow> objs \<noteq> []) \<and>
                    (ok \<longleftrightarrow> ids_free db (generated_ids signal_item db True (ci_parent_name (gdata tr)) tr)) \<and>
                    (ok \<longrightarrow> carries signal_wire tr db' objs) \<and>
                    (\<forall>x \<in> set objs. map_option net_of (body_at db' x) = Some (Some n)) \<and>
                    tables db' Nets_by_name nm = Some n)))"
  by (rule connection_result [OF reachable_inv [OF assms(1)]])
     (use assms(2) endpoint_type in \<open>auto simp: info_ok_def\<close>)

theorem connection_spec_witness:
  "\<exists>hs. gen_hierarchies example_db [example_info 0 IG_LCDIR_UP] [] False = Inr (hs, False)"
proof -
  have "call_ok example_db (Connection ''n'' None [example_info 0 IG_LCDIR_UP])"
    using example_exec by (simp add: example_info_def source_infos_def)
  from connection_spec [OF reachable_example this] show ?thesis by (auto simp: source_infos_def)
qed

text \<open>C10. \<open>ig_lib_parameter\<close> does the same with parameters, adjustments and a generic.\<close>

theorem parameter_spec:
  assumes "reachable db" and "call_ok db (Parameter nm dv targets)"
  shows "\<exists>hs. gen_hierarchies db targets [] False = Inr (hs, False) \<and>
     (if tables db Generics_by_name nm \<noteq> None
      then ig_lib_parameter nm (Some dv) targets db = Inr (False, None, db)
      else case map_option ig_lib_htree_reduce (ig_lib_merge_hierarchy_list hs nm) of
             None \<Rightarrow> ig_lib_parameter nm (Some dv) targets db = Inr (False, None, db)
           | Some Reduced_null \<Rightarrow> ig_lib_parameter nm (Some dv) targets db = Inr (False, None, db)
           | Some Reduced_freed \<Rightarrow> ig_lib_parameter nm (Some dv) targets db = Inl UseAfterFree
           | Some (Reduced tr) \<Rightarrow>
               holds (ig_lib_parameter nm (Some dv) targets db) (\<lambda>(ok, gen, db').
                 grows db db' \<and> module_up db' = module_up db \<and>
                 (\<exists>objs n. gen = Some n \<and> body_at db' n = Some (Generic \<lparr>generic_objects = objs\<rparr>) \<and>
                    (ok \<longleftrightarrow> objs \<noteq> []) \<and>
                    (ok \<longleftrightarrow> ids_free db (generated_ids parameter_item db True (ci_parent_name (gdata tr)) tr)) \<and>
                    (ok \<longrightarrow> carries (parameter_wire dv) tr db' objs) \<and>
                    (\<forall>x \<in> set objs. map_option generic_of (body_at db' x) = Some (Some n)) \<and>
                    tables db' Generics_by_name nm = Some n)))"
  by (rule parameter_result [OF reachable_inv [OF assms(1)]])
     (use assms(2) endpoint_type in \<open>auto simp: info_ok_def\<close>)

theorem parameter_spec_witness:
  "\<exists>hs. gen_hierarchies example_db [example_info 0 IG_LCDIR_UP] [] False = Inr (hs, False)"
proof -
  have "call_ok example_db (Parameter ''W'' ''8'' [example_info 0 IG_LCDIR_UP])"
    using example_exec by (simp add: example_info_def)
  from parameter_spec [OF reachable_example this] show ?thesis by auto
qed

end
